(* ===== verification/Gb_Prelude.thy ===== *)
theory Gb_Prelude
  imports Main "HOL-Library.Word" "HOL-Library.Monad_Syntax" "HOL-Library.Signed_Division"
begin

text \<open>
  Shared ground of the development: the machine integers and byte slices of the Go program, the
  reads and slicings that panic when they leave a slice, the big-endian length fields of the MPEG-PS
  and RTP wire formats, and cutting a byte string into pieces of bounded size.

  Conventions. A Go \<open>byte\<close>, \<open>uint16\<close>, \<open>uint32\<close>, \<open>uint64\<close> is a word of its width; an
  \<open>int64\<close> is a 64-bit word read as two's complement where the sign matters. A slice is a list,
  and \<open>nil\<close> is the empty list wherever the program cannot tell the two apart. Lengths and offsets
  (Go \<open>int\<close>) are natural numbers; a Go test on a difference that may be negative
  (\<open>i <= len(data)-3\<close>) is written with the sum (\<open>i + 3 \<le> length data\<close>). A run-time panic is
  \<^const>\<open>None\<close> in the result type \<open>'a go\<close>; a Go \<open>error\<close> is \<open>Inl\<close> of a sum.
\<close>

unbundle bit_operations_syntax

subsection \<open>Types\<close>

type_synonym byte = "8 word"
type_synonym bytes = "byte list"
type_synonym u16 = "16 word"
type_synonym u32 = "32 word"
type_synonym u64 = "64 word"
type_synonym i64 = "64 word"
type_synonym 'a go = "'a option"

named_theorems go_simps
named_theorems go_total

text \<open>The \<open>int64\<close> result of an arithmetic operation whose exact value is \<open>x\<close>.\<close>

definition wrap64 :: "int \<Rightarrow> int" where
  "wrap64 x = (x + 2 ^ 63) mod 2 ^ 64 - 2 ^ 63"

lemma wrap64_id: "- (2 ^ 63) \<le> x \<Longrightarrow> x < 2 ^ 63 \<Longrightarrow> wrap64 x = x"
  by (simp add: wrap64_def)

lemma wrap64_range: "- (2 ^ 63) \<le> wrap64 x \<and> wrap64 x < 2 ^ 63"
  using pos_mod_bound [of "2 ^ 64" "x + 2 ^ 63"] by (simp add: wrap64_def)

text \<open>Division of \<open>int64\<close> values held in words: Go truncates towards zero.\<close>

definition i64_div :: "i64 \<Rightarrow> i64 \<Rightarrow> i64" where
  "i64_div a b = word_of_int (sint a sdiv sint b)"

subsection \<open>Slice reads that panic out of range\<close>

definition go_idx :: "'a list \<Rightarrow> nat \<Rightarrow> 'a go" where
  "go_idx xs i = (if i < length xs then Some (xs ! i) else None)"

definition go_slice :: "'a list \<Rightarrow> nat \<Rightarrow> nat \<Rightarrow> 'a list go" where
  "go_slice xs i j = (if i \<le> j \<and> j \<le> length xs then Some (drop i (take j xs)) else None)"

abbreviation go_from :: "'a list \<Rightarrow> nat \<Rightarrow> 'a list go" where
  "go_from xs i \<equiv> go_slice xs i (length xs)"

lemma go_idx_in [simp, go_simps]: "i < length xs \<Longrightarrow> go_idx xs i = Some (xs ! i)"
  by (simp add: go_idx_def)

lemma go_slice_in [simp, go_simps]:
  "i \<le> j \<Longrightarrow> j \<le> length xs \<Longrightarrow> go_slice xs i j = Some (drop i (take j xs))"
  by (simp add: go_slice_def)

lemma go_idx_Some: "go_idx xs i = Some x \<longleftrightarrow> i < length xs \<and> xs ! i = x"
  by (auto simp: go_idx_def)

lemma go_slice_Some: "go_slice xs i j = Some ys \<longleftrightarrow> i \<le> j \<and> j \<le> length xs \<and> ys = drop i (take j xs)"
  by (auto simp: go_slice_def)

subsection \<open>The prefix test of a start code\<close>

text \<open>\<open>data[i] == 0 && data[i+1] == 0 && data[i+2] == 1\<close>, reading no further than Go does.\<close>

definition go_prefix001 :: "bytes \<Rightarrow> nat \<Rightarrow> bool go" where
  "go_prefix001 data i = do {
     a \<leftarrow> go_idx data i;
     if a \<noteq> 0 then Some False else do {
       b \<leftarrow> go_idx data (i + 1);
       if b \<noteq> 0 then Some False else do {
         c \<leftarrow> go_idx data (i + 2);
         Some (c = 1) } } }"

definition prefix001 :: "bytes \<Rightarrow> nat \<Rightarrow> bool" where
  "prefix001 data i \<longleftrightarrow> i + 2 < length data \<and> data ! i = 0 \<and> data ! (i + 1) = 0 \<and> data ! (i + 2) = 1"

lemma go_prefix001_in [simp, go_simps]:
  "i + 2 < length data \<Longrightarrow> go_prefix001 data i = Some (prefix001 data i)"
  by (simp add: go_prefix001_def prefix001_def)

subsection \<open>Big-endian 16-bit fields\<close>

definition be16 :: "byte \<Rightarrow> byte \<Rightarrow> nat" where
  "be16 hi lo = push_bit 8 (unat hi) OR unat lo"

text \<open>\<open>byte(n >> 8), byte(n)\<close> of a Go \<open>int\<close>.\<close>

definition put16 :: "nat \<Rightarrow> bytes" where
  "put16 n = [of_nat (drop_bit 8 n), of_nat n]"

lemma nat_or_eq_plus:
  fixes a b k :: nat
  assumes "b < 2 ^ k"
  shows "push_bit k a OR b = 2 ^ k * a + b"
proof -
  have "push_bit k a AND b = 0"
  proof (rule bit_eqI)
    fix n
    have "\<not> bit b n" if "k \<le> n"
    proof -
      have "b < 2 ^ n" using assms that
        by (meson less_le_trans power_increasing one_le_numeral)
      then show ?thesis by (simp add: bit_nat_def)
    qed
    then show "bit (push_bit k a AND b) n = bit 0 n"
      by (auto simp: bit_and_iff bit_push_bit_iff)
  qed
  then have "push_bit k a + b = push_bit k a OR b"
    by (rule disjunctive_add_eq_or)
  then show ?thesis by (simp add: push_bit_eq_mult mult.commute)
qed

lemma byte_and_255 [simp]: "(b :: byte) AND 255 = b"
proof -
  have "(255 :: byte) = - 1" by simp
  then show ?thesis by (metis and.right_neutral)
qed

lemma unat_byte_less: "unat (b :: byte) < 256"
  using unsigned_less [of b] by simp

lemma be16_eq: "be16 hi lo = 256 * unat hi + unat lo"
  using nat_or_eq_plus [of "unat lo" 8 "unat hi"] unat_byte_less [of lo]
  by (simp add: be16_def)

lemma be16_less: "be16 hi lo < 65536"
  using unat_byte_less [of hi] unat_byte_less [of lo] by (simp add: be16_eq)

lemma put16_be16: "n < 65536 \<Longrightarrow> be16 (put16 n ! 0) (put16 n ! 1) = n"
  by (simp add: put16_def be16_eq unat_of_nat drop_bit_eq_div)

lemma put16_be16_hi_lo [simp]:
  "n < 65536 \<Longrightarrow> be16 (of_nat (drop_bit 8 n)) (of_nat n) = n"
  using put16_be16 [of n] by (simp add: put16_def)

lemma length_put16 [simp]: "length (put16 n) = 2"
  by (simp add: put16_def)

subsection \<open>Cutting a list into pieces of bounded size\<close>

function chunks :: "nat \<Rightarrow> 'a list \<Rightarrow> 'a list list" where
  "chunks n xs = (if xs = [] \<or> n = 0 then [] else take n xs # chunks n (drop n xs))"
  by pat_completeness auto
termination
  by (relation "measure (length \<circ> snd)") auto

declare chunks.simps [simp del]

lemma chunks_Nil [simp]: "chunks n [] = []"
  by (subst chunks.simps) simp

lemma chunks_step: "xs \<noteq> [] \<Longrightarrow> 0 < n \<Longrightarrow> chunks n xs = take n xs # chunks n (drop n xs)"
  by (subst chunks.simps) simp

lemma concat_chunks: "0 < n \<Longrightarrow> concat (chunks n xs) = xs"
  by (induction n xs rule: chunks.induct) (subst chunks.simps, auto)

lemma chunks_bounds: "ys \<in> set (chunks n xs) \<Longrightarrow> ys \<noteq> [] \<and> length ys \<le> n"
proof (induction n xs rule: chunks.induct)
  case (1 n xs)
  then show ?case
    by (subst (asm) (2) chunks.simps) (auto split: if_splits)
qed

lemma chunks_short: "xs \<noteq> [] \<Longrightarrow> length xs \<le> n \<Longrightarrow> chunks n xs = [xs]"
  by (subst chunks.simps) (cases n, auto)

lemma chunks_eq_Nil: "0 < n \<Longrightarrow> chunks n xs = [] \<longleftrightarrow> xs = []"
  by (subst chunks.simps) auto

lemma length_chunks: "0 < n \<Longrightarrow> length (chunks n xs) = (length xs + n - 1) div n"
proof (induction n xs rule: chunks.induct)
  case (1 n xs)
  show ?case
  proof (cases "xs = []")
    case True
    then show ?thesis using "1.prems" by simp
  next
    case False
    then have pos: "Suc 0 \<le> length xs" by (simp add: Suc_le_eq)
    have "length (chunks n xs) = Suc ((length xs - n + n - 1) div n)"
      using 1 False by (simp add: chunks_step)
    also have "\<dots> = (length xs + n - 1) div n"
    proof (cases "length xs \<le> n")
      case True
      then have "(length xs + n - 1) div n = 1"
        using pos "1.prems" by (intro div_nat_eqI) auto
      then show ?thesis using True "1.prems" by simp
    next
      case False
      then have "length xs + n - 1 = (length xs - 1) + n" using pos by simp
      then have "(length xs + n - 1) div n = Suc ((length xs - 1) div n)"
        using "1.prems" by (metis Suc_eq_plus1 div_add_self2 less_numeral_extra(3))
      then show ?thesis using False by simp
    qed
    finally show ?thesis .
  qed
qed

end
