(* ===== verification/Backoff.thy ===== *)
theory Backoff
  imports Gb_Prelude
begin

text \<open>
  The retry backoff of \<open>src/backoff/backoff.go\<close>: the record is the Go struct, a duration is an
  \<open>int64\<close> number of nanoseconds kept as an integer, and the doubling in \<open>Next\<close> wraps as
  \<open>int64\<close> multiplication does.
\<close>

record backoff =
  bo_base :: int
  bo_max :: int
  bo_next :: int

definition DefaultBase :: int where
  "DefaultBase = 1000000000"

definition New_backoff :: "int \<Rightarrow> int \<Rightarrow> backoff" where
  "New_backoff base ceiling =
     (let base = (if base \<le> 0 then DefaultBase else base);
          ceiling = (if ceiling < base then base else ceiling)
      in \<lparr>bo_base = base, bo_max = ceiling, bo_next = base\<rparr>)"

definition Next :: "backoff \<Rightarrow> int \<times> backoff" where
  "Next b =
     (let wait = bo_next b; doubled = wrap64 (bo_next b * 2)
      in (wait, if doubled > bo_max b then b\<lparr>bo_next := bo_max b\<rparr> else b\<lparr>bo_next := doubled\<rparr>))"

definition Reset :: "backoff \<Rightarrow> backoff" where
  "Reset b = b\<lparr>bo_next := bo_base b\<rparr>"

text \<open>The waits of a retry loop that calls \<open>Next\<close> \<open>n\<close> times.\<close>

fun waits :: "nat \<Rightarrow> backoff \<Rightarrow> int list" where
  "waits 0 b = []"
| "waits (Suc n) b = (case Next b of (w, b') \<Rightarrow> w # waits n b')"

subsection \<open>Invariant and closed form\<close>

definition backoff_inv :: "backoff \<Rightarrow> bool" where
  "backoff_inv b \<longleftrightarrow> 0 < bo_base b \<and> bo_base b \<le> bo_next b \<and> bo_next b \<le> bo_max b"

lemma New_backoff_inv: "backoff_inv (New_backoff base ceiling)"
  by (simp add: backoff_inv_def New_backoff_def DefaultBase_def Let_def)

lemma Reset_inv: "backoff_inv b \<Longrightarrow> backoff_inv (Reset b)"
  by (simp add: backoff_inv_def Reset_def)

lemma Next_eq:
  assumes "backoff_inv b" and "bo_max b < 2 ^ 62"
  shows "Next b = (bo_next b, b\<lparr>bo_next := min (bo_next b * 2) (bo_max b)\<rparr>)"
proof -
  have "wrap64 (bo_next b * 2) = bo_next b * 2"
    using assms by (intro wrap64_id) (auto simp: backoff_inv_def)
  then show ?thesis by (auto simp: Next_def Let_def min_def)
qed

lemma Next_inv: "backoff_inv b \<Longrightarrow> bo_max b < 2 ^ 62 \<Longrightarrow> backoff_inv (snd (Next b))"
  by (auto simp: Next_eq backoff_inv_def)

lemma Next_frame: "bo_base (snd (Next b)) = bo_base b" "bo_max (snd (Next b)) = bo_max b"
  by (auto simp: Next_def Let_def)

lemma waits_closed_form:
  assumes "backoff_inv b" and "bo_max b < 2 ^ 62"
  shows "waits n b = map (\<lambda>i. min (bo_next b * 2 ^ i) (bo_max b)) [0..<n]"
  using assms
proof (induction n arbitrary: b)
  case 0
  then show ?case by simp
next
  case (Suc n)
  let ?b' = "b\<lparr>bo_next := min (bo_next b * 2) (bo_max b)\<rparr>"
  have inv: "backoff_inv ?b'" using Next_inv [OF Suc.prems] Next_eq [OF Suc.prems] by simp
  have pos: "0 < bo_max b" using Suc.prems by (auto simp: backoff_inv_def)
  have le: "bo_next b \<le> bo_max b" using Suc.prems by (simp add: backoff_inv_def)
  have cap: "min (min (x * 2) (bo_max b) * 2 ^ i) (bo_max b) = min (x * 2 ^ Suc i) (bo_max b)"
    for i x
  proof (cases "x * 2 \<le> bo_max b")
    case True
    then show ?thesis by (simp add: mult.assoc)
  next
    case False
    have up: "bo_max b \<le> bo_max b * 2 ^ i" using pos by simp
    have "bo_max b * 2 ^ i \<le> (x * 2) * 2 ^ i" using False by (intro mult_right_mono) auto
    also have "\<dots> = x * 2 ^ Suc i" by simp
    finally have "bo_max b \<le> x * 2 ^ Suc i" using up by linarith
    then show ?thesis using False up by (simp add: min.absorb2)
  qed
  have "waits (Suc n) b = bo_next b # waits n ?b'"
    using Next_eq [OF Suc.prems] by simp
  also have "waits n ?b' = map (\<lambda>i. min (bo_next b * 2 ^ Suc i) (bo_max b)) [0..<n]"
    using Suc.IH [OF inv] Suc.prems cap by simp
  also have "bo_next b # \<dots> = map (\<lambda>i. min (bo_next b * 2 ^ i) (bo_max b)) [0..<Suc n]"
    using le by (simp add: upt_conv_Cons map_Suc_upt [symmetric] o_def del: upt_Suc)
  finally show ?case .
qed

subsection \<open>Properties\<close>

text \<open>
  a retry loop waits base, 2 base, 4 base, ... capped at the ceiling, from construction and again
  from every \<open>Reset\<close>, for every argument pair whose ceiling is below \<open>2^62\<close> nanoseconds (146 years);
  in particular no wait is ever negative, below the base or above the ceiling.
\<close>

theorem backoff_schedule:
  assumes "bo_max (New_backoff base ceiling) < 2 ^ 62"
  shows "waits n (New_backoff base ceiling) =
      map (\<lambda>i. min (bo_base (New_backoff base ceiling) * 2 ^ i) (bo_max (New_backoff base ceiling))) [0..<n]
    \<and> waits n (Reset ((snd \<circ> Next) (New_backoff base ceiling))) = waits n (New_backoff base ceiling)"
proof -
  let ?b = "New_backoff base ceiling"
  have nx: "bo_next ?b = bo_base ?b" by (simp add: New_backoff_def Let_def)
  have "Reset (snd (Next ?b)) = ?b"
    using nx by (simp add: Reset_def Next_def Let_def)
  then show ?thesis
    using waits_closed_form [OF New_backoff_inv assms] nx by simp
qed

theorem backoff_schedule_witness:
  "waits 5 (New_backoff 0 5000000000) =
     [1000000000, 2000000000, 4000000000, 5000000000, 5000000000]"
  using backoff_schedule [of 0 5000000000 5]
  by (simp add: New_backoff_def DefaultBase_def Let_def upt_rec numeral_eq_Suc)

text \<open>
  With a ceiling of \<open>2^62\<close> nanoseconds or more the doubling overflows \<open>int64\<close>: the cap test
  passes on the wrapped product and the next wait is negative.
\<close>

theorem backoff_overflow:
  "waits 2 (New_backoff (2 ^ 62) (2 ^ 63 - 1)) = [2 ^ 62, - (2 ^ 63)]"
  by (simp add: numeral_2_eq_2 New_backoff_def Next_def Let_def wrap64_def)

end
