(* ===== verification/Nal_Util.thy ===== *)
theory Nal_Util
  imports Gb_Prelude
begin

text \<open>
  NAL unit inspection of \<open>src/nalutil/nalutil.go\<close>: keyframe detection and parameter-set
  extraction for H.264 and H.265. A Go slice that may be \<open>nil\<close> where the program compares it with
  \<open>nil\<close> is a \<open>bytes option\<close>.
\<close>

type_synonym access_unit = "bytes list"

definition IsKeyframeNALU :: "bytes \<Rightarrow> bool \<Rightarrow> bool" where
  "IsKeyframeNALU nalu isH265 =
     (case nalu of
        [] \<Rightarrow> False
      | b # _ \<Rightarrow>
          if isH265 then (let naluType = drop_bit 1 b AND 0x3F in naluType \<ge> 16 \<and> naluType \<le> 23)
          else b AND 0x1F = 5)"

fun IsIDR :: "access_unit \<Rightarrow> bool \<Rightarrow> bool" where
  "IsIDR [] isH265 = False"
| "IsIDR (nalu # au) isH265 = (if IsKeyframeNALU nalu isH265 then True else IsIDR au isH265)"

fun scan_h264 :: "access_unit \<Rightarrow> bytes option \<times> bytes option \<Rightarrow> bytes option \<times> bytes option" where
  "scan_h264 [] acc = acc"
| "scan_h264 ([] # au) acc = scan_h264 au acc"
| "scan_h264 ((b # r) # au) (sps, pps) =
     scan_h264 au
       (if b AND 0x1F = 7 then (Some (b # r), pps)
        else if b AND 0x1F = 8 then (sps, Some (b # r))
        else (sps, pps))"

definition ExtractParamSetsH264 :: "access_unit \<Rightarrow> bytes option \<times> bytes option" where
  "ExtractParamSetsH264 au = scan_h264 au (None, None)"

fun scan_h265 :: "access_unit \<Rightarrow> bytes option \<times> bytes option \<times> bytes option
    \<Rightarrow> bytes option \<times> bytes option \<times> bytes option" where
  "scan_h265 [] acc = acc"
| "scan_h265 ([] # au) acc = scan_h265 au acc"
| "scan_h265 ((b # r) # au) (vps, sps, pps) =
     (let t = drop_bit 1 b AND 0x3F in
      scan_h265 au
        (if t = 32 then (Some (b # r), sps, pps)
         else if t = 33 then (vps, Some (b # r), pps)
         else if t = 34 then (vps, sps, Some (b # r))
         else (vps, sps, pps)))"

definition ExtractParamSetsH265 :: "access_unit \<Rightarrow> bytes option \<times> bytes option \<times> bytes option" where
  "ExtractParamSetsH265 au = scan_h265 au (None, None, None)"

definition HasCompleteParamSets :: "access_unit \<Rightarrow> bool \<Rightarrow> bool" where
  "HasCompleteParamSets au isH265 =
     (if isH265
      then (case ExtractParamSetsH265 au of
              (vps, sps, pps) \<Rightarrow> vps \<noteq> None \<and> sps \<noteq> None \<and> pps \<noteq> None)
      else (case ExtractParamSetsH264 au of (sps, pps) \<Rightarrow> sps \<noteq> None \<and> pps \<noteq> None))"

text \<open>\<open>len(s)\<close> of a possibly \<open>nil\<close> slice, and its elements.\<close>

definition slice_elems :: "bytes option \<Rightarrow> bytes" where
  "slice_elems s = (case s of None \<Rightarrow> [] | Some xs \<Rightarrow> xs)"

fun equal_loop :: "bytes \<Rightarrow> bytes \<Rightarrow> bool" where
  "equal_loop (x # xs) (y # ys) = (if x \<noteq> y then False else equal_loop xs ys)"
| "equal_loop _ _ = True"

definition EqualParamSets :: "bytes option \<Rightarrow> bytes option \<Rightarrow> bool" where
  "EqualParamSets a b =
     (if length (slice_elems a) \<noteq> length (slice_elems b) then False
      else equal_loop (slice_elems a) (slice_elems b))"

subsection \<open>Facts\<close>

lemma IsIDR_iff: "IsIDR au isH265 \<longleftrightarrow> (\<exists>nalu \<in> set au. IsKeyframeNALU nalu isH265)"
  by (induction au isH265 rule: IsIDR.induct) auto

text \<open>The type of a NAL unit that is not empty, by codec.\<close>

definition nal_type :: "bool \<Rightarrow> bytes \<Rightarrow> byte option" where
  "nal_type isH265 nalu =
     (case nalu of [] \<Rightarrow> None
      | b # _ \<Rightarrow> Some (if isH265 then drop_bit 1 b AND 0x3F else b AND 0x1F))"

text \<open>The last unit of a given type, as the scan loops keep it.\<close>

definition last_of_type :: "bool \<Rightarrow> byte \<Rightarrow> access_unit \<Rightarrow> bytes option" where
  "last_of_type isH265 t au =
     (case filter (\<lambda>n. nal_type isH265 n = Some t) au of [] \<Rightarrow> None | ns \<Rightarrow> Some (last ns))"

lemma last_of_type_Nil [simp]: "last_of_type isH265 t [] = None"
  by (simp add: last_of_type_def)

lemma last_of_type_Cons:
  "last_of_type isH265 t (n # au) =
     (case last_of_type isH265 t au of
        Some m \<Rightarrow> Some m
      | None \<Rightarrow> if nal_type isH265 n = Some t then Some n else None)"
  by (auto simp: last_of_type_def split: list.splits)

lemma last_of_type_None: "last_of_type isH265 t au = None \<longleftrightarrow> (\<forall>n \<in> set au. nal_type isH265 n \<noteq> Some t)"
  by (cases "filter (\<lambda>n. nal_type isH265 n = Some t) au")
    (auto simp: last_of_type_def filter_empty_conv dest: filter_eq_ConsD)

lemma scan_h264_last:
  "scan_h264 au (sps, pps) =
     (case last_of_type False 7 au of Some n \<Rightarrow> Some n | None \<Rightarrow> sps,
      case last_of_type False 8 au of Some n \<Rightarrow> Some n | None \<Rightarrow> pps)"
proof (induction au "(sps, pps)" arbitrary: sps pps rule: scan_h264.induct)
  case 1
  then show ?case by simp
next
  case (2 au)
  then show ?case by (simp add: last_of_type_Cons nal_type_def split: option.splits)
next
  case (3 b r au sps pps)
  then show ?case
    by (auto simp: last_of_type_Cons nal_type_def split: option.splits if_splits)
qed

lemma scan_h265_last:
  "scan_h265 au (vps, sps, pps) =
     (case last_of_type True 32 au of Some n \<Rightarrow> Some n | None \<Rightarrow> vps,
      case last_of_type True 33 au of Some n \<Rightarrow> Some n | None \<Rightarrow> sps,
      case last_of_type True 34 au of Some n \<Rightarrow> Some n | None \<Rightarrow> pps)"
proof (induction au "(vps, sps, pps)" arbitrary: vps sps pps rule: scan_h265.induct)
  case 1
  then show ?case by simp
next
  case (2 au)
  then show ?case by (simp add: last_of_type_Cons nal_type_def split: option.splits)
next
  case (3 b r au vps sps pps)
  then show ?case
    by (auto simp: Let_def last_of_type_Cons nal_type_def split: option.splits if_splits)
qed

lemma equal_loop_eq: "length xs = length ys \<Longrightarrow> equal_loop xs ys \<longleftrightarrow> xs = ys"
  by (induction xs ys rule: list_induct2) auto

lemma EqualParamSets_iff: "EqualParamSets a b \<longleftrightarrow> slice_elems a = slice_elems b"
  by (auto simp: EqualParamSets_def equal_loop_eq)

subsection \<open>Properties\<close>

text \<open>
  parameter-set extraction returns the last unit of each parameter-set type and nothing else, for
  both codecs; an access unit counts as complete exactly when it holds one unit of every type; and a
  keyframe is reported exactly when some unit is one.
\<close>

theorem param_sets_extracted:
  "ExtractParamSetsH264 au = (last_of_type False 7 au, last_of_type False 8 au)
   \<and> ExtractParamSetsH265 au =
       (last_of_type True 32 au, last_of_type True 33 au, last_of_type True 34 au)
   \<and> HasCompleteParamSets au isH265 =
       (\<forall>t \<in> (if isH265 then {32, 33, 34} else {7, 8}). \<exists>n \<in> set au. nal_type isH265 n = Some t)
   \<and> IsIDR au isH265 = (\<exists>n \<in> set au. IsKeyframeNALU n isH265)"
proof -
  have e4: "ExtractParamSetsH264 au = (last_of_type False 7 au, last_of_type False 8 au)"
    by (simp add: ExtractParamSetsH264_def scan_h264_last split: option.split)
  have e5: "ExtractParamSetsH265 au =
      (last_of_type True 32 au, last_of_type True 33 au, last_of_type True 34 au)"
    by (simp add: ExtractParamSetsH265_def scan_h265_last split: option.split)
  have "HasCompleteParamSets au isH265 =
      (\<forall>t \<in> (if isH265 then {32, 33, 34} else {7, 8}). last_of_type isH265 t au \<noteq> None)"
    by (auto simp: HasCompleteParamSets_def e4 e5)
  then show ?thesis using e4 e5 IsIDR_iff by (auto simp: last_of_type_None)
qed

theorem param_sets_extracted_witness:
  "ExtractParamSetsH264 [[0x67, 1], [0x68, 2], [0x67, 3], [0x65, 4]] = (Some [0x67, 3], Some [0x68, 2])"
  using param_sets_extracted [of "[[0x67, 1], [0x68, 2], [0x67, 3], [0x65, 4]]" False]
  by (simp add: last_of_type_def nal_type_def)

text \<open>
  Two parameter sets compare equal exactly when they have the same bytes, so a \<open>nil\<close> slice equals
  an empty one.
\<close>

theorem EqualParamSets_bytes:
  "EqualParamSets a b = (slice_elems a = slice_elems b) \<and> EqualParamSets None (Some [])"
  by (simp add: EqualParamSets_iff slice_elems_def)

end
