(* ===== verification/Ps_Mux.thy ===== *)
theory Ps_Mux
  imports Gb_Prelude
begin

text \<open>
  The MPEG-PS multiplexer of \<open>src/psmux/mux.go\<close>: the muxer state, the pack header, system header,
  program stream map and PES packets it emits, and the CRC of the map. Every function computes the
  bytes the Go function returns; the methods also return the changed \<open>Muxer\<close>.
\<close>

subsection \<open>Constants and state\<close>

definition streamTypeH264 :: byte where "streamTypeH264 = 0x1B"
definition streamTypeH265 :: byte where "streamTypeH265 = 0x24"
definition streamTypeSVACV :: byte where "streamTypeSVACV = 0x80"
definition streamTypeAAC :: byte where "streamTypeAAC = 0x0F"
definition streamTypeSVACA :: byte where "streamTypeSVACA = 0x9B"
definition streamTypeG711A :: byte where "streamTypeG711A = 0x90"
definition streamTypeG711U :: byte where "streamTypeG711U = 0x91"
definition videoStreamID :: byte where "videoStreamID = 0xE0"
definition audioStreamID :: byte where "audioStreamID = 0xC0"
definition maxPESPayload :: nat where "maxPESPayload = 60000"

lemmas mux_consts =
  streamTypeH264_def streamTypeH265_def streamTypeSVACV_def streamTypeAAC_def streamTypeSVACA_def
  streamTypeG711A_def streamTypeG711U_def videoStreamID_def audioStreamID_def maxPESPayload_def

record muxer =
  videoType :: byte
  audioType :: byte
  psmDirty :: bool

definition New_muxer :: muxer where
  "New_muxer = \<lparr>videoType = 0, audioType = 0, psmDirty = True\<rparr>"

definition SetVideoCodec :: "muxer \<Rightarrow> string \<Rightarrow> muxer" where
  "SetVideoCodec m codec =
     m\<lparr>videoType := (if codec = ''h265'' then streamTypeH265
                       else if codec = ''svac'' then streamTypeSVACV
                       else streamTypeH264),
       psmDirty := True\<rparr>"

definition SetAudioCodec :: "muxer \<Rightarrow> string \<Rightarrow> muxer" where
  "SetAudioCodec m codec =
     m\<lparr>audioType := (if codec = ''g711a'' then streamTypeG711A
                       else if codec = ''g711u'' then streamTypeG711U
                       else if codec = ''svac'' then streamTypeSVACA
                       else if codec = ''aac'' then streamTypeAAC
                       else 0),
       psmDirty := True\<rparr>"

subsection \<open>Headers\<close>

definition packHeader :: "i64 \<Rightarrow> bytes" where
  "packHeader pts =
     (let scr = i64_div pts 300;
          scr = (if scr <s 0 then 0 else scr);
          b = (ucast (signed_drop_bit 27 scr) AND 0x18) OR 0x44;
          rate = (70000 :: u32)
      in [0x00, 0x00, 0x01, 0xBA, b,
          ucast (signed_drop_bit 19 scr), ucast (signed_drop_bit 11 scr) OR 0x01,
          ucast (signed_drop_bit 3 scr), push_bit 5 (ucast (scr AND 0x7)) OR 0x04,
          0x01,
          ucast (drop_bit 14 rate), ucast (drop_bit 6 rate), push_bit 2 (ucast (rate AND 0x3F)) OR 0x03,
          0xF8])"

text \<open>
  In Go \<open>>>\<close> binds tighter than \<open>-\<close>, so \<open>byte(len(body) - 2>>8)\<close> subtracts \<open>2>>8\<close> from
  the length.
\<close>

definition systemHeader :: "byte \<Rightarrow> byte \<Rightarrow> bytes" where
  "systemHeader vType aType =
     (let body = [0x00, 0x00, 0x01, 0xB9, 0xE0, 0xE0, 0x80, 0xC0, 0x01];
          entries = [vType, videoStreamID, 0xE1, 0x00];
          entries = (if aType \<noteq> 0 then entries @ [aType, audioStreamID, 0xC0, 0x03] else entries);
          body = body @ entries;
          body = body[0 := of_nat (length body - drop_bit 8 2)];
          body = body[1 := of_nat (length body - 2)]
      in [0x00, 0x00, 0x01, 0xBB] @ put16 (length body) @ body)"

fun crc_bits :: "nat \<Rightarrow> u32 \<Rightarrow> u32" where
  "crc_bits 0 crc = crc"
| "crc_bits (Suc k) crc =
     crc_bits k (if crc AND 0x80000000 \<noteq> 0 then push_bit 1 crc XOR 0x04C11DB7 else push_bit 1 crc)"

fun crc_loop :: "bytes \<Rightarrow> u32 \<Rightarrow> u32" where
  "crc_loop [] crc = crc"
| "crc_loop (b # data) crc = crc_loop data (crc_bits 8 (crc XOR push_bit 24 (ucast b)))"

definition crc32MPEG :: "bytes \<Rightarrow> u32" where
  "crc32MPEG data = crc_loop data 0xFFFFFFFF"

text \<open>\<open>binary.BigEndian.AppendUint32\<close>.\<close>

definition put32 :: "u32 \<Rightarrow> bytes" where
  "put32 w = [ucast (drop_bit 24 w), ucast (drop_bit 16 w), ucast (drop_bit 8 w), ucast w]"

definition psm_esm :: "byte \<Rightarrow> byte \<Rightarrow> bytes" where
  "psm_esm vType aType =
     [vType, videoStreamID, 0x00, 0x00] @
     (if aType \<noteq> 0 then [aType, audioStreamID, 0x00, 0x00] else [])"

definition psm :: "byte \<Rightarrow> byte \<Rightarrow> bytes" where
  "psm vType aType =
     (let esm = psm_esm vType aType;
          body = [0xE0, 0xFF, 0x00, 0x00] @ put16 (length esm) @ esm;
          body = body @ put32 (crc32MPEG body)
      in [0x00, 0x00, 0x01, 0xBC] @ put16 (length body) @ body)"

subsection \<open>PES packets\<close>

definition encodePTS :: "i64 \<Rightarrow> bytes" where
  "encodePTS pts =
     (let p = pts AND 0x1FFFFFFFF in
      [0x21 OR push_bit 1 (ucast (drop_bit 30 p AND 0x07)) OR 1,
       ucast (drop_bit 22 p),
       (ucast (drop_bit 14 p) AND 0xFE) OR 1,
       ucast (drop_bit 7 p),
       (ucast (push_bit 1 p) AND 0xFE) OR 1])"

definition videoPES :: "bytes \<Rightarrow> i64 \<Rightarrow> bool \<Rightarrow> bytes" where
  "videoPES payload pts withPTS =
     (let hdrLen = (if withPTS then 3 + 5 else 3)
      in [0x00, 0x00, 0x01, videoStreamID] @ put16 (hdrLen + length payload)
         @ (if withPTS then [0x80, 0x80, 0x05] @ encodePTS pts else [0x80, 0x00, 0x00]) @ payload)"

definition audioPES :: "bytes \<Rightarrow> i64 \<Rightarrow> bytes" where
  "audioPES payload pts =
     [0x00, 0x00, 0x01, audioStreamID] @ put16 (8 + length payload)
       @ [0x80, 0x80, 0x05] @ encodePTS pts @ payload"

subsection \<open>The writers\<close>

text \<open>The loop of \<open>WriteAU\<close>, from offset \<open>off\<close>: it leaves by its own guard or by the \<open>break\<close>.\<close>

function pes_loop :: "bytes \<Rightarrow> i64 \<Rightarrow> nat \<Rightarrow> bool \<Rightarrow> bytes \<Rightarrow> bytes" where
  "pes_loop annexB pts off first out =
     (if off < length annexB \<or> (off = 0 \<and> length annexB = 0)
      then let end' = off + maxPESPayload;
               end' = (if end' > length annexB then length annexB else end');
               chunk = drop off (take end' annexB);
               out = out @ (if first then videoPES chunk pts True else videoPES chunk 0 False)
           in if end' \<ge> length annexB then out else pes_loop annexB pts end' False out
      else out)"
  by pat_completeness auto
termination
  by (relation "measure (\<lambda>(annexB, pts, off, first, out). length annexB - off)")
    (auto simp: maxPESPayload_def)

declare pes_loop.simps [simp del]

definition WriteAU :: "muxer \<Rightarrow> bytes \<Rightarrow> i64 \<Rightarrow> bool \<Rightarrow> bytes \<times> muxer" where
  "WriteAU m annexB pts isIDR =
     (let out = packHeader pts;
          (out, m) =
            (if isIDR
             then let out = out @ systemHeader (videoType m) (audioType m)
                  in if psmDirty m
                     then (out @ psm (videoType m) (audioType m), m\<lparr>psmDirty := False\<rparr>)
                     else (out, m)
             else (out, m))
      in (pes_loop annexB pts 0 True out, m))"

definition WriteAudio :: "bytes \<Rightarrow> i64 \<Rightarrow> bytes" where
  "WriteAudio payload pts = packHeader pts @ audioPES payload pts"

definition AppendAudioPES :: "bytes \<Rightarrow> bytes \<Rightarrow> i64 \<Rightarrow> bytes" where
  "AppendAudioPES ps payload pts = ps @ audioPES payload pts"

subsection \<open>Shapes of the emitted units\<close>

lemma length_packHeader [simp]: "length (packHeader pts) = 14"
  by (simp add: packHeader_def Let_def)

lemma packHeader_nth:
  "packHeader pts ! 0 = 0" "packHeader pts ! Suc 0 = 0" "packHeader pts ! 2 = 1"
  "packHeader pts ! 3 = 0xBA" "packHeader pts ! 13 = 0xF8"
  by (simp_all add: packHeader_def Let_def)

lemma length_encodePTS [simp]: "length (encodePTS pts) = 5"
  by (simp add: encodePTS_def Let_def)

lemma byte_or_1_neq_0: "(b :: byte) OR 1 \<noteq> 0"
proof
  assume "b OR 1 = 0"
  then have "bit (b OR 1) 0 = bit (0 :: byte) 0" by simp
  then show False by (simp add: bit_or_iff)
qed

lemma encodePTS_marker_bytes:
  "encodePTS pts ! 0 \<noteq> 0" "encodePTS pts ! 2 \<noteq> 0" "encodePTS pts ! 4 \<noteq> 0"
  using byte_or_1_neq_0 [of "33 OR push_bit 1 (ucast (drop_bit 30 pts AND 7))"]
  by (simp_all add: encodePTS_def Let_def byte_or_1_neq_0 or.assoc)

text \<open>The PES packets of one access unit: the first carries the timestamp.\<close>

definition pes_burst :: "bytes \<Rightarrow> i64 \<Rightarrow> bytes" where
  "pes_burst annexB pts =
     (case chunks maxPESPayload annexB of
        [] \<Rightarrow> videoPES [] pts True
      | c # cs \<Rightarrow> videoPES c pts True @ concat (map (\<lambda>c. videoPES c 0 False) cs))"

lemma pes_loop_rest:
  "off < length annexB \<Longrightarrow>
   pes_loop annexB pts off False out =
     out @ concat (map (\<lambda>c. videoPES c 0 False) (chunks maxPESPayload (drop off annexB)))"
proof (induction annexB pts off False out rule: pes_loop.induct)
  case (1 annexB pts off out)
  let ?n = maxPESPayload
  let ?e = "if off + ?n > length annexB then length annexB else off + ?n"
  let ?out = "out @ videoPES (drop off (take ?e annexB)) 0 False"
  have n: "0 < ?n" by (simp add: maxPESPayload_def)
  have chunk: "drop off (take ?e annexB) = take ?n (drop off annexB)"
    by (auto simp: take_drop add.commute)
  show ?case
  proof (cases "length annexB \<le> off + ?n")
    case True
    then have "pes_loop annexB pts off False out = ?out"
      using "1.prems" by (subst pes_loop.simps) (auto simp: Let_def)
    then show ?thesis
      using True "1.prems" n chunk by (simp add: chunks_step)
  next
    case False
    then have "pes_loop annexB pts off False out = pes_loop annexB pts (off + ?n) False ?out"
      using "1.prems" by (subst pes_loop.simps) (simp add: Let_def)
    moreover have "pes_loop annexB pts (off + ?n) False ?out =
        ?out @ concat (map (\<lambda>c. videoPES c 0 False) (chunks ?n (drop (off + ?n) annexB)))"
      using False "1.prems" by (intro "1.hyps" [of "off + ?n" "off + ?n"]) (auto simp: Let_def)
    ultimately show ?thesis
      using False "1.prems" n chunk by (simp add: chunks_step [of "drop off annexB"] add.commute)
  qed
qed

lemma pes_loop_burst: "pes_loop annexB pts 0 True out = out @ pes_burst annexB pts"
proof (cases "annexB = []")
  case True
  then show ?thesis by (subst pes_loop.simps) (simp add: pes_burst_def Let_def)
next
  case False
  let ?n = maxPESPayload
  have n: "0 < ?n" by (simp add: maxPESPayload_def)
  show ?thesis
  proof (cases "length annexB \<le> ?n")
    case True
    then show ?thesis using False
      by (subst pes_loop.simps) (auto simp: pes_burst_def chunks_short Let_def)
  next
    case F: False
    have "pes_loop annexB pts 0 True out =
        pes_loop annexB pts ?n False (out @ videoPES (take ?n annexB) pts True)"
      using F False by (subst pes_loop.simps) (simp add: Let_def)
    then show ?thesis
      using F False n by (simp add: pes_loop_rest pes_burst_def chunks_step)
  qed
qed

lemma WriteAU_bytes:
  "fst (WriteAU m annexB pts isIDR) =
     packHeader pts
     @ (if isIDR then systemHeader (videoType m) (audioType m)
          @ (if psmDirty m then psm (videoType m) (audioType m) else []) else [])
     @ pes_burst annexB pts"
  by (simp add: WriteAU_def pes_loop_burst Let_def)

lemma WriteAU_state:
  "snd (WriteAU m annexB pts isIDR) = (if isIDR then m\<lparr>psmDirty := False\<rparr> else m)"
  by (simp add: WriteAU_def Let_def)

subsection \<open>The CRC of the program stream map\<close>

lemma crc_bits_shift:
  assumes "\<And>i. 32 - k \<le> i \<Longrightarrow> i < 32 \<Longrightarrow> \<not> bit c i" and "k \<le> 32"
  shows "crc_bits k c = push_bit k c"
  using assms
proof (induction k arbitrary: c)
  case 0
  then show ?case by simp
next
  case (Suc k)
  have "c AND 0x80000000 = 0"
  proof (rule bit_word_eqI)
    fix n assume "n < LENGTH(32)"
    then show "bit (c AND 0x80000000) n = bit 0 n"
      using Suc.prems(1) [of 31] Suc.prems(2) bit_exp_iff [where 'a = u32, of 31 n]
      by (auto simp: bit_and_iff)
  qed
  moreover have "crc_bits k (push_bit 1 c) = push_bit k (push_bit 1 c)"
  proof (rule Suc.IH)
    fix i assume i: "32 - k \<le> i" "i < 32"
    then have "\<not> bit c (i - 1)" using Suc.prems by (intro Suc.prems(1)) auto
    then show "\<not> bit (push_bit 1 c) i" by (simp only: bit_push_bit_iff) simp
  qed (use Suc.prems in simp)
  ultimately show ?case by (simp add: push_bit_push_bit)
qed

lemma crc_own_byte:
  "crc_bits 8 (c XOR push_bit 24 (ucast (ucast (drop_bit 24 c) :: byte))) = push_bit 8 c"
proof -
  let ?x = "c XOR push_bit 24 (ucast (ucast (drop_bit 24 c) :: byte)) :: u32"
  have top: "\<not> bit ?x i" if "24 \<le> i" "i < 32" for i
  proof -
    have "i - 24 < 8" using that by simp
    then show ?thesis
      using that by (simp add: bit_xor_iff bit_push_bit_iff bit_unsigned_iff bit_drop_bit_eq)
  qed
  have low: "bit ?x i = bit c i" if "i < 24" for i
    using that by (simp add: bit_xor_iff bit_push_bit_iff)
  have "crc_bits 8 ?x = push_bit 8 ?x"
    using top by (intro crc_bits_shift) auto
  also have "push_bit 8 ?x = push_bit 8 c"
    using low by (intro bit_word_eqI) (auto simp: bit_push_bit_iff)
  finally show ?thesis .
qed

lemma crc_loop_append: "crc_loop (xs @ ys) c = crc_loop ys (crc_loop xs c)"
  by (induction xs arbitrary: c) auto

lemma ucast_drop_push:
  fixes c :: u32
  assumes "k \<le> 24"
  shows "(ucast (drop_bit (24 - k) c) :: byte) = ucast (drop_bit 24 (push_bit k c))"
  using assms
  by (intro bit_word_eqI)
    (auto simp: bit_unsigned_iff bit_drop_bit_eq bit_push_bit_iff intro!: arg_cong [where f = "bit c"])

lemma crc_loop_put32: "crc_loop (put32 c) c = 0"
proof -
  let ?p = "push_bit 8 :: u32 \<Rightarrow> u32"
  have 1: "(ucast (drop_bit 16 c) :: byte) = ucast (drop_bit 24 (?p c))"
    using ucast_drop_push [of 8 c] by simp
  have 2: "(ucast (drop_bit 8 c) :: byte) = ucast (drop_bit 24 (?p (?p c)))"
    using ucast_drop_push [of 16 c] by (simp add: push_bit_push_bit)
  have 3: "(ucast c :: byte) = ucast (drop_bit 24 (?p (?p (?p c))))"
    using ucast_drop_push [of 24 c] by (simp add: push_bit_push_bit)
  have 4: "push_bit 32 c = 0"
    by (rule bit_word_eqI) (simp add: bit_push_bit_iff)
  have "crc_loop (put32 c) c = ?p (?p (?p (?p c)))"
    unfolding put32_def crc_loop.simps 1 2 3 crc_own_byte ..
  then show ?thesis by (simp add: push_bit_push_bit 4)
qed

lemma crc32MPEG_residue: "crc32MPEG (body @ put32 (crc32MPEG body)) = 0"
  by (simp add: crc32MPEG_def crc_loop_append crc_loop_put32)

end
