(* ===== verification/Ps_Pes.thy ===== *)
theory Ps_Pes
  imports Gb_Prelude "HOL-Library.AList"
begin

text \<open>
  The stateless parsers of the platform-side demuxer: \<open>src/platform/psdemux_pes.go\<close> (Annex-B
  splitting, video PES packets, the PS start-code search, the program stream map) and the parsing
  half of \<open>src/platform/psdemux_audio.go\<close> (audio PES packets, timestamps, ADTS framing). Every slice
  read goes through \<^const>\<open>go_idx\<close> or \<^const>\<open>go_slice\<close>, so that a read out of range is
  visible as \<^const>\<open>None\<close>; the \<open>_total\<close> lemmas show that there is none on any input.
\<close>

datatype ps_error =
    ErrIncompletePSM | ErrIncompletePES | ErrInvalidPESStartCode
  | ErrIncompleteStartCode | ErrNoStartCode

subsection \<open>Constants\<close>

definition startCodePack :: byte where "startCodePack = 0xBA"
definition startCodeSystem :: byte where "startCodeSystem = 0xBB"
definition startCodePSM :: byte where "startCodePSM = 0xBC"
definition startCodePadding :: byte where "startCodePadding = 0xBE"
definition startCodePrivate2 :: byte where "startCodePrivate2 = 0xBF"
definition startCodeAudioMin :: byte where "startCodeAudioMin = 0xC0"
definition startCodeAudioMax :: byte where "startCodeAudioMax = 0xDF"
definition startCodeVideoMin :: byte where "startCodeVideoMin = 0xE0"
definition startCodeVideoMax :: byte where "startCodeVideoMax = 0xEF"

lemmas ps_consts =
  startCodePack_def startCodeSystem_def startCodePSM_def startCodePadding_def startCodePrivate2_def
  startCodeAudioMin_def startCodeAudioMax_def startCodeVideoMin_def startCodeVideoMax_def

definition st_H264 :: byte where "st_H264 = 0x1B"
definition st_H265 :: byte where "st_H265 = 0x24"
definition st_SVACV :: byte where "st_SVACV = 0x80"
definition st_SVAC2 :: byte where "st_SVAC2 = 0x81"
definition st_AAC :: byte where "st_AAC = 0x0F"
definition st_G711A :: byte where "st_G711A = 0x90"
definition st_G711U :: byte where "st_G711U = 0x91"
definition st_G722 :: byte where "st_G722 = 0x92"
definition st_G723 :: byte where "st_G723 = 0x93"
definition st_G729 :: byte where "st_G729 = 0x99"
definition st_SVACA :: byte where "st_SVACA = 0x9B"

lemmas st_consts =
  st_H264_def st_H265_def st_SVACV_def st_SVAC2_def st_AAC_def st_G711A_def st_G711U_def
  st_G722_def st_G723_def st_G729_def st_SVACA_def

definition audioStreamCodec :: "byte \<Rightarrow> string" where
  "audioStreamCodec streamType =
     (if streamType = st_G711A then ''g711a''
      else if streamType = st_G711U then ''g711u''
      else if streamType = st_G722 then ''g7221''
      else if streamType = st_G723 then ''g7231''
      else if streamType = st_G729 then ''g729''
      else if streamType = st_AAC then ''aac''
      else if streamType = st_SVAC2 \<or> streamType = st_SVACA then ''svac''
      else '''')"

definition is_audio_id :: "byte \<Rightarrow> bool" where
  "is_audio_id c \<longleftrightarrow> c \<ge> startCodeAudioMin \<and> c \<le> startCodeAudioMax"

definition is_video_id :: "byte \<Rightarrow> bool" where
  "is_video_id c \<longleftrightarrow> c \<ge> startCodeVideoMin \<and> c \<le> startCodeVideoMax"

subsection \<open>Annex-B start codes\<close>

function findStartCodes_loop :: "bytes \<Rightarrow> nat \<Rightarrow> nat list go" where
  "findStartCodes_loop data i =
     (if i + 3 \<le> length data then do {
        a \<leftarrow> go_idx data i;
        b \<leftarrow> go_idx data (i + 1);
        if a = 0 \<and> b = 0 then do {
          c \<leftarrow> go_idx data (i + 2);
          if c = 1 then do {
            ps \<leftarrow> findStartCodes_loop data (i + 3);
            Some (i # ps) }
          else do {
            four \<leftarrow> (if c = 0 \<and> i + 3 < length data
                     then do { e \<leftarrow> go_idx data (i + 3); Some (e = 1) } else Some False);
            if four then do {
              ps \<leftarrow> findStartCodes_loop data (i + 4);
              Some (i # ps) }
            else findStartCodes_loop data (i + 1) } }
        else findStartCodes_loop data (i + 1) }
      else Some [])"
  by pat_completeness auto
termination
  by (relation "measure (\<lambda>(data, i). length data - i)") auto

declare findStartCodes_loop.simps [simp del]

definition findStartCodes :: "bytes \<Rightarrow> nat list go" where
  "findStartCodes data = findStartCodes_loop data 0"

fun nalu_loop :: "bytes \<Rightarrow> nat list \<Rightarrow> bytes list go" where
  "nalu_loop data [] = Some []"
| "nalu_loop data (pos # ps) = do {
     naluData \<leftarrow> go_slice data pos (case ps of [] \<Rightarrow> length data | q # _ \<Rightarrow> q);
     if naluData = [] then nalu_loop data ps
     else do {
       four \<leftarrow> (if pos + 3 < length data then do {
                  x \<leftarrow> go_idx data (pos + 2);
                  if x = 0 then do { y \<leftarrow> go_idx data (pos + 3); Some (y = 1) } else Some False }
                else Some False);
       naluRaw \<leftarrow> go_from naluData (if four then 4 else 3);
       rest \<leftarrow> nalu_loop data ps;
       Some (if naluRaw = [] then rest else naluRaw # rest) } }"

definition extractNALUs :: "bytes \<Rightarrow> string \<Rightarrow> bytes list go" where
  "extractNALUs data naluType =
     (if naluType = ''svac'' then (if length data = 0 then Some [] else Some [data])
      else if length data = 0 then Some []
      else do { positions \<leftarrow> findStartCodes data; nalu_loop data positions })"

subsection \<open>Video PES packets\<close>

fun stripStartCodeLeadingZeros :: "bytes \<Rightarrow> bytes" where
  "stripStartCodeLeadingZeros (a # b # c # d # r) =
     (if a = 0 \<and> b = 0 \<and> c = 0 \<and> d = 1 then stripStartCodeLeadingZeros (b # c # d # r)
      else a # b # c # d # r)"
| "stripStartCodeLeadingZeros data = data"

text \<open>The scan of \<open>pesPayloadStart\<close>: the first \<open>00 00 01\<close> at or after \<open>i\<close> and below the bound.\<close>

function sc_scan :: "bytes \<Rightarrow> nat \<Rightarrow> nat \<Rightarrow> nat option go" where
  "sc_scan data bound i =
     (if i + 2 < bound then do {
        hit \<leftarrow> go_prefix001 data i;
        if hit then Some (Some i) else sc_scan data bound (i + 1) }
      else Some None)"
  by pat_completeness auto
termination
  by (relation "measure (\<lambda>(data, bound, i). bound - i)") auto

declare sc_scan.simps [simp del]

definition clampPES :: "nat \<Rightarrow> nat \<Rightarrow> nat" where
  "clampPES limit v = (if v < 9 then 9 else if v > limit then limit else v)"

text \<open>The distance \<open>|sc - v|\<close>.\<close>

definition near :: "nat \<Rightarrow> nat \<Rightarrow> nat" where
  "near sc v = (if sc < v then v - sc else sc - v)"

definition pesPayloadStart :: "bytes \<Rightarrow> nat \<Rightarrow> nat go" where
  "pesPayloadStart data totalLen = do {
     b8 \<leftarrow> go_idx data 8;
     b7 \<leftarrow> go_idx data 7;
     let limit = (if totalLen > length data then length data else totalLen);
     let std = clampPES limit (9 + unat b8);
     let legacy = clampPES limit (8 + unat b7);
     let bound = (if legacy > std then legacy else std) + 4;
     let bound = (if bound > limit then limit else bound);
     sc \<leftarrow> sc_scan data bound 8;
     Some (case sc of
             None \<Rightarrow> std
           | Some p \<Rightarrow> if near p legacy < near p std then legacy else std) }"

definition parseVideoPES :: "bytes \<Rightarrow> (ps_error + bytes \<times> nat) go" where
  "parseVideoPES data0 =
     (let data = stripStartCodeLeadingZeros data0 in
      if length data < 9 then Some (Inl ErrIncompletePES)
      else do {
        prefix \<leftarrow> go_prefix001 data 0;
        if \<not> prefix then Some (Inl ErrInvalidPESStartCode)
        else do {
          streamID \<leftarrow> go_idx data 3;
          if \<not> is_video_id streamID then Some (Inl ErrIncompletePES)
          else do {
            hi \<leftarrow> go_idx data 4;
            lo \<leftarrow> go_idx data 5;
            let pesPacketLen = be16 hi lo;
            let totalLen = 6 + pesPacketLen;
            if pesPacketLen > 0 \<and> length data < totalLen then Some (Inl ErrIncompletePES)
            else do {
              payloadOffset \<leftarrow> pesPayloadStart data totalLen;
              if payloadOffset > totalLen \<or> payloadOffset > length data
              then Some (Inl ErrIncompletePES)
              else if pesPacketLen > 0
              then do {
                payload \<leftarrow> go_slice data payloadOffset totalLen;
                Some (Inr (payload, totalLen)) }
              else do {
                payload \<leftarrow> go_from data payloadOffset;
                Some (Inr (payload, length data)) } } } } })"

subsection \<open>The PS start-code search\<close>

definition is_ps_code :: "byte \<Rightarrow> bool" where
  "is_ps_code v \<longleftrightarrow>
     v \<in> {startCodePack, startCodeSystem, startCodePSM, startCodePadding, startCodePrivate2}
     \<or> is_audio_id v \<or> is_video_id v"

text \<open>The length (3 or 4) of the start-code prefix at \<open>i\<close>, 0 when there is none.\<close>

definition ps_prefix_len :: "bytes \<Rightarrow> nat \<Rightarrow> nat go" where
  "ps_prefix_len data i =
     (if i + 2 \<ge> length data then Some 0
      else do {
        a \<leftarrow> go_idx data i;
        if a \<noteq> 0 then Some 0 else do {
          b \<leftarrow> go_idx data (i + 1);
          if b \<noteq> 0 then Some 0 else do {
            c \<leftarrow> go_idx data (i + 2);
            if c = 0 then
              (if i + 3 \<ge> length data then Some 0
               else do { e \<leftarrow> go_idx data (i + 3); Some (if e \<noteq> 1 then 0 else 4) })
            else Some (if c \<noteq> 1 then 0 else 3) } } })"

function findPSStartCode_loop :: "bytes \<Rightarrow> nat \<Rightarrow> (ps_error + nat \<times> byte) go" where
  "findPSStartCode_loop data i =
     (if i < length data then do {
        scLen \<leftarrow> ps_prefix_len data i;
        if scLen = 0 then findPSStartCode_loop data (i + 1)
        else if i + scLen \<ge> length data then Some (Inl ErrIncompleteStartCode)
        else do {
          v \<leftarrow> go_idx data (i + scLen);
          if is_ps_code v then Some (Inr (i + scLen - 3, v))
          else findPSStartCode_loop data (i + scLen + 1) } }
      else Some (Inl ErrNoStartCode))"
  by pat_completeness auto
termination
  by (relation "measure (\<lambda>(data, i). length data - i)") auto

declare findPSStartCode_loop.simps [simp del]

definition findPSStartCode :: "bytes \<Rightarrow> (ps_error + nat \<times> byte) go" where
  "findPSStartCode data = findPSStartCode_loop data 0"

subsection \<open>The program stream map\<close>

definition parsePSM :: "bytes \<Rightarrow> (ps_error + nat) go" where
  "parsePSM data =
     (if length data < 9 then Some (Inl ErrIncompletePSM)
      else do {
        hi \<leftarrow> go_idx data 4;
        lo \<leftarrow> go_idx data 5;
        let psmLen = be16 hi lo;
        if psmLen < 1 then Some (Inl ErrIncompletePSM)
        else let totalLen = 6 + psmLen in
          if length data < totalLen then Some (Inl ErrIncompletePSM)
          else Some (Inr totalLen) })"

text \<open>The offset of the first map entry, \<^const>\<open>None\<close> inside when the map is too short.\<close>

definition psm_entries_offset :: "bytes \<Rightarrow> nat option go" where
  "psm_entries_offset psmData =
     (if length psmData < 4 then Some None
      else do {
        hi \<leftarrow> go_idx psmData 2;
        lo \<leftarrow> go_idx psmData 3;
        let offset = 4 + be16 hi lo;
        Some (if offset + 2 > length psmData then None else Some (offset + 2)) })"

function video_entries :: "bytes \<Rightarrow> nat \<Rightarrow> byte option go" where
  "video_entries psmData offset =
     (if offset + 4 \<le> length psmData then do {
        streamType \<leftarrow> go_idx psmData offset;
        esID \<leftarrow> go_idx psmData (offset + 1);
        hi \<leftarrow> go_idx psmData (offset + 2);
        lo \<leftarrow> go_idx psmData (offset + 3);
        if is_video_id esID \<and> (streamType = st_H264 \<or> streamType = st_H265 \<or> streamType = st_SVACV)
        then Some (Some streamType)
        else video_entries psmData (offset + 4 + be16 hi lo) }
      else Some None)"
  by pat_completeness auto
termination
  by (relation "measure (\<lambda>(d, off). length d - off)") auto

declare video_entries.simps [simp del]

definition findVideoStreamType :: "bytes \<Rightarrow> byte option go" where
  "findVideoStreamType psmData = do {
     off \<leftarrow> psm_entries_offset psmData;
     case off of None \<Rightarrow> Some None | Some offset \<Rightarrow> video_entries psmData offset }"

function audio_entries :: "bytes \<Rightarrow> nat \<Rightarrow> (byte \<times> byte) list \<Rightarrow> (byte \<times> byte) list go" where
  "audio_entries psmData offset out =
     (if offset + 4 \<le> length psmData then do {
        streamType \<leftarrow> go_idx psmData offset;
        esID \<leftarrow> go_idx psmData (offset + 1);
        hi \<leftarrow> go_idx psmData (offset + 2);
        lo \<leftarrow> go_idx psmData (offset + 3);
        audio_entries psmData (offset + 4 + be16 hi lo)
          (if is_audio_id esID then AList.update esID streamType out else out) }
      else Some out)"
  by pat_completeness auto
termination
  by (relation "measure (\<lambda>(d, off, out). length d - off)") auto

declare audio_entries.simps [simp del]

text \<open>The Go map from stream ids to stream types, as an association list with distinct keys.\<close>

definition audioStreamTypes :: "bytes \<Rightarrow> (byte \<times> byte) list go" where
  "audioStreamTypes psmData = do {
     off \<leftarrow> psm_entries_offset psmData;
     case off of None \<Rightarrow> Some [] | Some offset \<Rightarrow> audio_entries psmData offset [] }"

subsection \<open>Audio PES packets and timestamps\<close>

definition parsePESPTS :: "bytes \<Rightarrow> i64 option go" where
  "parsePESPTS data =
     (if length data < 14 then Some None
      else do {
        b7 \<leftarrow> go_idx data 7;
        if b7 AND 0x80 = 0 then Some None
        else do {
          b \<leftarrow> go_slice data 9 14;
          b0 \<leftarrow> go_idx b 0; b1 \<leftarrow> go_idx b 1; b2 \<leftarrow> go_idx b 2; b3 \<leftarrow> go_idx b 3; b4 \<leftarrow> go_idx b 4;
          Some (Some (push_bit 30 (drop_bit 1 (ucast b0) AND 0x07)
                      OR push_bit 22 (ucast b1)
                      OR push_bit 15 (drop_bit 1 (ucast b2))
                      OR push_bit 7 (ucast b3)
                      OR drop_bit 1 (ucast b4))) } })"

definition parseAudioPES :: "bytes \<Rightarrow> (ps_error + bytes \<times> i64 option \<times> nat) go" where
  "parseAudioPES data0 =
     (let data = stripStartCodeLeadingZeros data0 in
      if length data < 9 then Some (Inl ErrIncompletePES)
      else do {
        prefix \<leftarrow> go_prefix001 data 0;
        if \<not> prefix then Some (Inl ErrIncompletePES)
        else do {
          streamID \<leftarrow> go_idx data 3;
          if \<not> is_audio_id streamID then Some (Inl ErrIncompletePES)
          else do {
            hi \<leftarrow> go_idx data 4;
            lo \<leftarrow> go_idx data 5;
            let pesLen = be16 hi lo;
            let totalLen = (if pesLen = 0 then length data else 6 + pesLen);
            if pesLen \<noteq> 0 \<and> length data < totalLen then Some (Inl ErrIncompletePES)
            else do {
              b8 \<leftarrow> go_idx data 8;
              let payloadStart = 9 + unat b8;
              if payloadStart > totalLen then Some (Inl ErrIncompletePES)
              else do {
                pts \<leftarrow> parsePESPTS data;
                payload \<leftarrow> go_slice data payloadStart totalLen;
                Some (Inr (payload, pts, totalLen)) } } } } })"

subsection \<open>ADTS framing\<close>

definition adtsSampleRates :: "nat list" where
  "adtsSampleRates =
     [96000, 88200, 64000, 48000, 44100, 32000, 24000, 22050,
      16000, 12000, 11025, 8000, 7350, 0, 0, 0]"

definition hasADTSSync :: "bytes \<Rightarrow> bool" where
  "hasADTSSync data = (case data of a # b # _ \<Rightarrow> a = 0xFF \<and> b AND 0xF0 = 0xF0 | _ \<Rightarrow> False)"

text \<open>The 13-bit frame length of an ADTS header.\<close>

definition adts_frame_len :: "byte \<Rightarrow> byte \<Rightarrow> byte \<Rightarrow> nat" where
  "adts_frame_len b3 b4 b5 =
     push_bit 11 (unat (b3 AND 0x03)) OR push_bit 3 (unat b4) OR drop_bit 5 (unat b5)"

record adtsFrame =
  adts_header :: "bytes option"
  adts_data :: bytes

function adts_loop :: "bytes \<Rightarrow> nat \<Rightarrow> adtsFrame list go" where
  "adts_loop payload offset =
     (if offset + 7 \<le> length payload then do {
        rest \<leftarrow> go_from payload offset;
        if \<not> hasADTSSync rest then Some []
        else do {
          hdr \<leftarrow> go_slice payload offset (offset + 7);
          h1 \<leftarrow> go_idx hdr 1;
          let hdrLen = (if h1 AND 0x01 = 0 then 9 else 7);
          h3 \<leftarrow> go_idx hdr 3; h4 \<leftarrow> go_idx hdr 4; h5 \<leftarrow> go_idx hdr 5;
          let frameLen = adts_frame_len h3 h4 h5;
          if frameLen < hdrLen \<or> offset + frameLen > length payload then Some []
          else do {
            body \<leftarrow> go_slice payload (offset + hdrLen) (offset + frameLen);
            frames \<leftarrow> adts_loop payload (offset + frameLen);
            Some (\<lparr>adts_header = Some hdr, adts_data = body\<rparr> # frames) } } }
      else Some [])"
  by pat_completeness auto
termination
  by (relation "measure (\<lambda>(p, off). length p - off)") (auto split: if_splits)

declare adts_loop.simps [simp del]

definition splitADTS :: "bytes \<Rightarrow> adtsFrame list go" where
  "splitADTS payload =
     (if \<not> hasADTSSync payload then Some [\<lparr>adts_header = None, adts_data = payload\<rparr>]
      else adts_loop payload 0)"

definition adtsToASC :: "bytes option \<Rightarrow> bytes option go" where
  "adtsToASC header =
     (case header of
        None \<Rightarrow> Some None
      | Some h \<Rightarrow>
          if length h < 7 then Some None
          else do {
            h2 \<leftarrow> go_idx h 2;
            h3 \<leftarrow> go_idx h 3;
            let profile = drop_bit 6 h2 AND 0x03;
            let freqIdx = drop_bit 2 h2 AND 0x0F;
            let channels = push_bit 2 (h2 AND 0x01) OR drop_bit 6 h3;
            if unat freqIdx \<ge> length adtsSampleRates then Some None
            else do {
              rate \<leftarrow> go_idx adtsSampleRates (unat freqIdx);
              if rate = 0 then Some None
              else let audioObjectType = profile + 1 in
                Some (Some [push_bit 3 audioObjectType OR drop_bit 1 freqIdx,
                            push_bit 7 (freqIdx AND 0x01) OR push_bit 3 channels]) } })"

definition adtsSampleRate :: "bytes \<Rightarrow> nat go" where
  "adtsSampleRate h =
     (if length h < 7 then Some 0
      else do {
        h2 \<leftarrow> go_idx h 2;
        let freqIdx = drop_bit 2 h2 AND 0x0F;
        if unat freqIdx \<ge> length adtsSampleRates then Some 0
        else go_idx adtsSampleRates (unat freqIdx) })"

subsection \<open>Start codes: reference predicates and totality\<close>

text \<open>A four-byte start code at \<open>i\<close>; the three-byte code is \<^const>\<open>prefix001\<close>.\<close>

definition sc4 :: "bytes \<Rightarrow> nat \<Rightarrow> bool" where
  "sc4 data i \<longleftrightarrow> i + 3 < length data \<and> data ! i = 0 \<and> data ! (i + 1) = 0 \<and> data ! (i + 2) = 0
     \<and> data ! (i + 3) = 1"

lemma findStartCodes_step:
  "findStartCodes_loop data i =
     (if prefix001 data i then map_option ((#) i) (findStartCodes_loop data (i + 3))
      else if sc4 data i then map_option ((#) i) (findStartCodes_loop data (i + 4))
      else if i + 3 \<le> length data then findStartCodes_loop data (i + 1) else Some [])"
  by (subst findStartCodes_loop.simps)
    (auto simp: prefix001_def sc4_def Option.bind_eq_None_conv map_option_case split: bind_splits option.splits)

text \<open>Start-code positions that the scan can return from \<open>lo\<close> on.\<close>

fun sc_chain :: "bytes \<Rightarrow> nat \<Rightarrow> nat list \<Rightarrow> bool" where
  "sc_chain data lo [] = True"
| "sc_chain data lo (p # ps) \<longleftrightarrow> lo \<le> p \<and>
     (prefix001 data p \<and> sc_chain data (p + 3) ps \<or> sc4 data p \<and> sc_chain data (p + 4) ps)"

lemma sc_chain_mono: "sc_chain data lo ps \<Longrightarrow> lo' \<le> lo \<Longrightarrow> sc_chain data lo' ps"
  by (cases ps) auto

lemma findStartCodes_loop_chain: "\<exists>ps. findStartCodes_loop data i = Some ps \<and> sc_chain data i ps"
proof (induction "length data - i" arbitrary: i rule: less_induct)
  case less
  have IH: "\<exists>ps. findStartCodes_loop data (i + k) = Some ps \<and> sc_chain data (i + k) ps"
    if "0 < k" "i < length data" for k
    using that by (intro less) simp
  consider (three) "prefix001 data i" | (four) "\<not> prefix001 data i" "sc4 data i"
    | (skip) "\<not> prefix001 data i" "\<not> sc4 data i" "i + 3 \<le> length data"
    | (stop) "\<not> prefix001 data i" "\<not> sc4 data i" "\<not> i + 3 \<le> length data" by blast
  then show ?case
  proof cases
    case three
    then have "i < length data" by (simp add: prefix001_def)
    with three IH [of 3] show ?thesis by (subst findStartCodes_step) auto
  next
    case four
    then have "i < length data" by (simp add: sc4_def)
    with four IH [of 4] show ?thesis by (subst findStartCodes_step) auto
  next
    case skip
    then obtain ps where "findStartCodes_loop data (i + 1) = Some ps" "sc_chain data (i + 1) ps"
      using IH [of 1] by auto
    then show ?thesis
      using skip sc_chain_mono [of data "i + 1" ps i] by (subst findStartCodes_step) auto
  next
    case stop
    then show ?thesis by (subst findStartCodes_step) simp
  qed
qed

lemma nalu_loop_step:
  assumes "sc_chain data lo (p # ps)"
  defines "e \<equiv> (case ps of [] \<Rightarrow> length data | q # _ \<Rightarrow> q)"
  shows "nalu_loop data (p # ps) =
    map_option (\<lambda>rest. if drop (if prefix001 data p then 3 else 4) (drop p (take e data)) = [] then rest
      else drop (if prefix001 data p then 3 else 4) (drop p (take e data)) # rest) (nalu_loop data ps)"
proof -
  have e: "p + (if prefix001 data p then 3 else 4) \<le> e \<and> e \<le> length data"
    using assms by (cases ps) (auto simp: prefix001_def sc4_def)
  have ne: "drop p (take e data) \<noteq> []" using e by (auto split: if_splits)
  have kind: "(if p + 3 < length data then do {
                  x \<leftarrow> go_idx data (p + 2);
                  if x = 0 then do { y \<leftarrow> go_idx data (p + 3); Some (y = 1) } else Some False }
                else Some False) = Some (\<not> prefix001 data p)"
    using assms by (auto simp: prefix001_def sc4_def)
  show ?thesis
    using e ne kind
    by (cases "nalu_loop data ps")
      (auto simp: e_def [symmetric] Let_def simp del: drop_drop)
qed

lemma nalu_loop_total: "sc_chain data lo ps \<Longrightarrow> \<exists>ns. nalu_loop data ps = Some ns"
proof (induction ps arbitrary: lo)
  case Nil
  then show ?case by simp
next
  case (Cons p ps)
  then obtain ns where "nalu_loop data ps = Some ns" by auto
  with nalu_loop_step [OF Cons.prems] show ?case by (simp del: nalu_loop.simps)
qed

lemma extractNALUs_total [go_total]: "\<exists>ns. extractNALUs data t = Some ns"
  using findStartCodes_loop_chain [of data 0]
  by (auto simp: extractNALUs_def findStartCodes_def intro: nalu_loop_total)

subsection \<open>Annex-B round trip\<close>

text \<open>
  A NAL unit as an encoder emits it: not empty, no start code inside (emulation prevention), last
  byte not zero (RBSP trailing bits).
\<close>

definition nal_safe :: "bytes \<Rightarrow> bool" where
  "nal_safe n \<longleftrightarrow> n \<noteq> [] \<and> last n \<noteq> 0 \<and> (\<forall>i < length n. \<not> prefix001 n i)"

text \<open>An Annex-B byte stream: each unit behind a start code of four (\<^const>\<open>True\<close>) or three bytes.\<close>

definition start_code :: "bool \<Rightarrow> bytes" where
  "start_code four = (if four then [0, 0, 0, 1] else [0, 0, 1])"

definition annexB_stream :: "(bool \<times> bytes) list \<Rightarrow> bytes" where
  "annexB_stream us = concat (map (\<lambda>(four, n). start_code four @ n) us)"

lemma annexB_stream_simps [simp]:
  "annexB_stream [] = []"
  "annexB_stream ((four, n) # us) = start_code four @ n @ annexB_stream us"
  by (simp_all add: annexB_stream_def)

lemma length_start_code: "length (start_code four) = (if four then 4 else 3)"
  by (simp add: start_code_def)

fun sc_places :: "nat \<Rightarrow> (bool \<times> bytes) list \<Rightarrow> nat list" where
  "sc_places k [] = []"
| "sc_places k ((four, n) # us) = k # sc_places (k + length (start_code four) + length n) us"

lemma findStartCodes_skip:
  assumes "\<And>j. i \<le> j \<Longrightarrow> j < k \<Longrightarrow> \<not> prefix001 data j \<and> \<not> sc4 data j"
    and "i \<le> k" and "k \<le> length data"
  shows "findStartCodes_loop data i = findStartCodes_loop data k"
  using assms
proof (induction "k - i" arbitrary: i)
  case 0
  then show ?case by simp
next
  case (Suc m)
  show ?case
  proof (cases "i + 3 \<le> length data")
    case True
    have "findStartCodes_loop data (i + 1) = findStartCodes_loop data k"
      using Suc by (intro Suc.hyps(1)) auto
    with True Suc show ?thesis by (subst findStartCodes_step) auto
  next
    case False
    have stop: "findStartCodes_loop data j = Some []" if "\<not> j + 3 \<le> length data" for j
      using that by (subst findStartCodes_step) (auto simp: prefix001_def sc4_def)
    show ?thesis using False Suc.prems stop [of i] stop [of k] by simp
  qed
qed

lemma nal_safe_no_code:
  assumes "nal_safe n" and "k < length n"
  shows "\<not> prefix001 (pre @ n @ post) (length pre + k) \<and> \<not> sc4 (pre @ n @ post) (length pre + k)"
proof -
  let ?d = "pre @ n @ post"
  have in_n: "?d ! (length pre + j) = n ! j" if "j < length n" for j
    using that by (simp add: nth_append)
  have last: "n ! (length n - 1) \<noteq> 0" and ne: "n \<noteq> []"
    using assms(1) by (auto simp: nal_safe_def last_conv_nth)
  have zero_not_last: "j + 1 < length n" if "n ! j = 0" "j < length n" for j
    using that last by (cases "j = length n - 1") auto
  have no: "\<not> prefix001 n j" if "j < length n" for j
    using assms(1) that by (simp add: nal_safe_def)
  have zeros: "k + 2 < length n" if "n ! k = 0" "?d ! (length pre + k + 1) = 0"
    using that zero_not_last [of k] zero_not_last [of "k + 1"] assms(2) in_n [of "k + 1"]
    by (simp add: add.assoc)
  have p: "\<not> prefix001 ?d (length pre + k)"
  proof
    assume a: "prefix001 ?d (length pre + k)"
    then have "n ! k = 0" "?d ! (length pre + k + 1) = 0" "?d ! (length pre + (k + 2)) = 1"
      using in_n [OF assms(2)] by (auto simp: prefix001_def add.assoc)
    with zeros have "k + 2 < length n" by simp
    then have "prefix001 n k"
      using a in_n [of k] in_n [of "k + 1"] in_n [of "k + 2"] by (simp add: prefix001_def add.assoc)
    then show False using no assms(2) by simp
  qed
  have "\<not> sc4 ?d (length pre + k)"
  proof
    assume a: "sc4 ?d (length pre + k)"
    then have z: "n ! k = 0" "?d ! (length pre + k + 1) = 0"
      using in_n [OF assms(2)] by (auto simp: sc4_def)
    with zeros have k2: "k + 2 < length n" by simp
    then have "n ! (k + 2) = 0" using a in_n [of "k + 2"] by (simp add: sc4_def add.assoc)
    then have "k + 3 < length n" using zero_not_last [of "k + 2"] k2 by simp
    then have "prefix001 n (k + 1)"
      using a in_n [of "k + 1"] in_n [of "k + 2"] in_n [of "k + 3"]
      by (simp add: prefix001_def sc4_def add.assoc numeral_3_eq_3)
    then show False using no k2 by simp
  qed
  with p show ?thesis by simp
qed

lemma start_code_at:
  "prefix001 (pre @ start_code four @ post) (length pre) \<longleftrightarrow> \<not> four"
  "sc4 (pre @ start_code four @ post) (length pre) \<longleftrightarrow> four"
  by (auto simp: prefix001_def sc4_def start_code_def nth_append)

lemma findStartCodes_stream:
  assumes "\<forall>u \<in> set us. nal_safe (snd u)"
  shows "findStartCodes_loop (pre @ annexB_stream us) (length pre) = Some (sc_places (length pre) us)"
  using assms
proof (induction us arbitrary: pre)
  case Nil
  then show ?case by (subst findStartCodes_step) (auto simp: prefix001_def sc4_def)
next
  case (Cons u us)
  obtain four n where u: "u = (four, n)" by (cases u)
  let ?sc = "start_code four"
  let ?d = "pre @ annexB_stream (u # us)"
  have d: "?d = pre @ ?sc @ (n @ annexB_stream us)" by (simp add: u)
  have d2: "?d = (pre @ ?sc) @ n @ annexB_stream us" by (simp add: u)
  have d3: "?d = (pre @ ?sc @ n) @ annexB_stream us" by (simp add: u)
  have n: "nal_safe n" using Cons.prems by (simp add: u)
  have "findStartCodes_loop ?d (length (pre @ ?sc)) = findStartCodes_loop ?d (length (pre @ ?sc @ n))"
  proof (rule findStartCodes_skip)
    fix j assume j: "length (pre @ ?sc) \<le> j" "j < length (pre @ ?sc @ n)"
    then obtain k where "j = length (pre @ ?sc) + k" "k < length n"
      by (metis add_diff_inverse_nat append_assoc leD length_append nat_add_left_cancel_less)
    then show "\<not> prefix001 ?d j \<and> \<not> sc4 ?d j"
      using nal_safe_no_code [OF n, of k "pre @ ?sc" "annexB_stream us"] by (simp add: u)
  qed (auto simp: u)
  also have "\<dots> = Some (sc_places (length (pre @ ?sc @ n)) us)"
    using Cons.IH [of "pre @ ?sc @ n"] Cons.prems by (simp add: u)
  finally have rest: "findStartCodes_loop ?d (length pre + length ?sc) =
      Some (sc_places (length pre + length ?sc + length n) us)" by (simp add: add.assoc)
  show ?case
    using rest start_code_at [of pre four "n @ annexB_stream us"]
    by (subst findStartCodes_step) (auto simp: u length_start_code split: if_splits)
qed

lemma sc_places_chain:
  "sc_chain (pre @ annexB_stream us) (length pre) (sc_places (length pre) us)"
proof (induction us arbitrary: pre)
  case Nil
  then show ?case by simp
next
  case (Cons u us)
  obtain four n where u: "u = (four, n)" by (cases u)
  let ?sc = "start_code four"
  have IH: "sc_chain (pre @ annexB_stream (u # us)) (length pre + length ?sc + length n)
      (sc_places (length pre + length ?sc + length n) us)"
    using Cons.IH [of "pre @ ?sc @ n"] by (simp add: u add.assoc)
  then have "sc_chain (pre @ annexB_stream (u # us)) (length pre + length ?sc)
      (sc_places (length pre + length ?sc + length n) us)"
    by (rule sc_chain_mono) simp
  then show ?case
    using start_code_at [of pre four "n @ annexB_stream us"]
    by (cases four) (auto simp: u length_start_code)
qed

lemma sc_places_end:
  "(case sc_places k us of [] \<Rightarrow> k + length (annexB_stream us) | q # _ \<Rightarrow> q) = k"
  by (cases us) (auto split: prod.splits)

lemma nalu_loop_stream:
  assumes "\<forall>u \<in> set us. nal_safe (snd u)"
  shows "nalu_loop (pre @ annexB_stream us) (sc_places (length pre) us) = Some (map snd us)"
  using assms
proof (induction us arbitrary: pre)
  case Nil
  then show ?case by simp
next
  case (Cons u us)
  obtain four n where u: "u = (four, n)" by (cases u)
  let ?sc = "start_code four"
  let ?d = "pre @ annexB_stream (u # us)"
  let ?k = "length pre + length ?sc + length n"
  have IH: "nalu_loop ?d (sc_places ?k us) = Some (map snd us)"
    using Cons.IH [of "pre @ ?sc @ n"] Cons.prems by (simp add: u add.assoc)
  have chain: "sc_chain ?d (length pre) (length pre # sc_places ?k us)"
    using sc_places_chain [of pre "u # us"] by (simp add: u)
  have e: "(case sc_places ?k us of [] \<Rightarrow> length ?d | q # _ \<Rightarrow> q) = ?k"
    using sc_places_end [of ?k us] by (cases "sc_places ?k us") (auto simp: u)
  have len: "(if prefix001 ?d (length pre) then 3 else 4) = length ?sc"
    using start_code_at(1) [of pre four "n @ annexB_stream us"] by (simp add: u length_start_code)
  have "nalu_loop ?d (length pre # sc_places ?k us) = Some (n # map snd us)"
    unfolding nalu_loop_step [OF chain] e len IH
    using Cons.prems by (simp add: u nal_safe_def)
  then show ?case by (simp add: u del: nalu_loop.simps)
qed

lemma extractNALUs_stream:
  assumes "\<forall>u \<in> set us. nal_safe (snd u)" and "t \<noteq> ''svac''"
  shows "extractNALUs (annexB_stream us) t = Some (map snd us)"
proof -
  have "extractNALUs (annexB_stream us) t = Some (map snd us)" if "annexB_stream us \<noteq> []"
    using that assms findStartCodes_stream [of us "[]"] nalu_loop_stream [of us "[]"]
    by (simp add: extractNALUs_def findStartCodes_def)
  moreover have "us = []" if "annexB_stream us = []"
    using that by (cases us) (auto simp: start_code_def split: if_splits)
  ultimately show ?thesis using assms(2) by (auto simp: extractNALUs_def)
qed

text \<open>One zero byte before a four-byte start code changes nothing (Annex-B leading zeros).\<close>

lemma extractNALUs_stream_gap:
  assumes "\<forall>u \<in> set us. nal_safe (snd u)" and "t \<noteq> ''svac''" and "us \<noteq> []" and "fst (hd us)"
  shows "extractNALUs (0 # annexB_stream us) t = Some (map snd us)"
proof -
  obtain n us' where us: "us = (True, n) # us'" using assms(3,4) by (cases us) auto
  have "\<not> prefix001 (0 # annexB_stream us) 0" "\<not> sc4 (0 # annexB_stream us) 0"
    by (auto simp: us prefix001_def sc4_def start_code_def)
  then have "findStartCodes_loop (0 # annexB_stream us) 0 =
      findStartCodes_loop (0 # annexB_stream us) 1"
    by (subst findStartCodes_step) (simp add: us start_code_def)
  then have "findStartCodes (0 # annexB_stream us) = Some (sc_places 1 us)"
    using findStartCodes_stream [OF assms(1), of "[0]"] by (simp add: findStartCodes_def)
  then show ?thesis
    using nalu_loop_stream [OF assms(1), of "[0]"] assms(2) by (simp add: extractNALUs_def)
qed

subsection \<open>PES packets\<close>

lemma strip_prefix001 [simp]: "prefix001 data 0 \<Longrightarrow> stripStartCodeLeadingZeros data = data"
  by (cases data rule: stripStartCodeLeadingZeros.cases) (auto simp: prefix001_def)

lemma length_strip: "length (stripStartCodeLeadingZeros data) \<le> length data"
  by (induction data rule: stripStartCodeLeadingZeros.induct) auto

text \<open>The scan returns the first hit, or nothing when there is none below the bound.\<close>

lemma sc_scan_None:
  assumes "\<And>j. i \<le> j \<Longrightarrow> j + 2 < bound \<Longrightarrow> \<not> prefix001 data j" and "bound \<le> length data"
  shows "sc_scan data bound i = Some None"
  using assms
proof (induction data bound i rule: sc_scan.induct)
  case (1 data bound i)
  then show ?case by (subst sc_scan.simps) auto
qed

lemma sc_scan_Some:
  assumes "\<And>j. i \<le> j \<Longrightarrow> j < p \<Longrightarrow> \<not> prefix001 data j" and "i \<le> p" and "p + 2 < bound"
    and "bound \<le> length data" and "prefix001 data p"
  shows "sc_scan data bound i = Some (Some p)"
  using assms
proof (induction data bound i rule: sc_scan.induct)
  case (1 data bound i)
  show ?case
  proof (cases "i = p")
    case True
    then show ?thesis using 1 by (subst sc_scan.simps) auto
  next
    case False
    then have "sc_scan data bound (i + 1) = Some (Some p)" using 1 by (intro "1.IH") auto
    then show ?thesis using 1 False by (subst sc_scan.simps) auto
  qed
qed

lemma sc_scan_total:
  assumes "bound \<le> length data"
  shows "\<exists>r. sc_scan data bound i = Some r"
  using assms
proof (induction data bound i rule: sc_scan.induct)
  case (1 data bound i)
  then show ?case by (subst sc_scan.simps) auto
qed

text \<open>The two candidate offsets and the end of the scanned region, as pure expressions.\<close>

definition pes_limit :: "bytes \<Rightarrow> nat \<Rightarrow> nat" where
  "pes_limit data totalLen = min (length data) totalLen"

definition pes_std :: "bytes \<Rightarrow> nat \<Rightarrow> nat" where
  "pes_std data totalLen = clampPES (pes_limit data totalLen) (9 + unat (data ! 8))"

definition pes_legacy :: "bytes \<Rightarrow> nat \<Rightarrow> nat" where
  "pes_legacy data totalLen = clampPES (pes_limit data totalLen) (8 + unat (data ! 7))"

definition pes_bound :: "bytes \<Rightarrow> nat \<Rightarrow> nat" where
  "pes_bound data totalLen =
     min (pes_limit data totalLen) (max (pes_std data totalLen) (pes_legacy data totalLen) + 4)"

lemma pesPayloadStart_eq:
  assumes "9 \<le> length data" and "sc_scan data (pes_bound data totalLen) 8 = Some sc"
  shows "pesPayloadStart data totalLen =
    Some (case sc of
            None \<Rightarrow> pes_std data totalLen
          | Some p \<Rightarrow> if near p (pes_legacy data totalLen) < near p (pes_std data totalLen)
                      then pes_legacy data totalLen else pes_std data totalLen)"
proof -
  have mx: "(if b > a then b else a) = max a b" for a b :: nat by simp
  have mn: "(if b > a then a else b) = min a b" for a b :: nat by simp
  have "sc_scan data (min (pes_limit data totalLen)
      (max (clampPES (pes_limit data totalLen) (9 + unat (data ! 8)))
           (clampPES (pes_limit data totalLen) (8 + unat (data ! 7))) + 4)) 8 = Some sc"
    using assms(2) by (simp add: pes_bound_def pes_std_def pes_legacy_def)
  moreover have "7 < length data" "8 < length data" using assms(1) by auto
  ultimately show ?thesis
    unfolding pesPayloadStart_def Let_def mx mn
    by (simp add: pes_std_def pes_legacy_def pes_limit_def split: option.splits)
qed

lemma pes_bound_le: "pes_bound data totalLen \<le> length data"
  by (simp add: pes_bound_def pes_limit_def)

lemma pesPayloadStart_total [go_total]:
  "9 \<le> length data \<Longrightarrow> \<exists>v. pesPayloadStart data totalLen = Some v"
  using sc_scan_total [OF pes_bound_le, of data totalLen 8] pesPayloadStart_eq by blast

lemma parseVideoPES_total [go_total]: "\<exists>r. parseVideoPES data = Some r"
proof -
  let ?d = "stripStartCodeLeadingZeros data"
  show ?thesis
  proof (cases "length ?d < 9")
    case True
    then show ?thesis by (simp add: parseVideoPES_def)
  next
    case False
    obtain v where "pesPayloadStart ?d (6 + be16 (?d ! 4) (?d ! 5)) = Some v"
      using pesPayloadStart_total [of ?d] False by fastforce
    then show ?thesis using False by (auto simp: parseVideoPES_def Let_def)
  qed
qed

text \<open>A bounded video PES packet that is there in full.\<close>

lemma parseVideoPES_bounded:
  assumes "prefix001 data 0" and "9 \<le> length data" and "is_video_id (data ! 3)"
    and "be16 (data ! 4) (data ! 5) = L" and "0 < L" and "6 + L \<le> length data"
    and "pesPayloadStart data (6 + L) = Some po" and "po \<le> 6 + L"
  shows "parseVideoPES data = Some (Inr (drop po (take (6 + L) data), 6 + L))"
  using assms by (simp add: parseVideoPES_def Let_def)

lemma parseVideoPES_Inr_pos: "parseVideoPES data = Some (Inr (payload, pesEnd)) \<Longrightarrow> 0 < pesEnd"
  by (auto simp: parseVideoPES_def Let_def Option.bind_eq_Some_conv split: if_splits)

lemma parsePESPTS_total [go_total]: "\<exists>r. parsePESPTS data = Some r"
  by (auto simp: parsePESPTS_def)

lemma parseAudioPES_total [go_total]: "\<exists>r. parseAudioPES data = Some r"
proof -
  let ?d = "stripStartCodeLeadingZeros data"
  obtain p where "parsePESPTS ?d = Some p" using parsePESPTS_total by blast
  then show ?thesis by (auto simp: parseAudioPES_def Let_def)
qed

lemma parseAudioPES_Inr_pos: "parseAudioPES data = Some (Inr (payload, pts, pesEnd)) \<Longrightarrow> 0 < pesEnd"
  by (auto simp: parseAudioPES_def Let_def Option.bind_eq_Some_conv split: if_splits)

subsection \<open>The PS start-code search\<close>

lemma ps_prefix_len_eq:
  "ps_prefix_len data i = Some (if prefix001 data i then 3 else if sc4 data i then 4 else 0)"
  by (auto simp: ps_prefix_len_def prefix001_def sc4_def)

lemma findPSStartCode_loop_spec:
  "\<exists>r. findPSStartCode_loop data i = Some r \<and>
     (\<forall>pos v. r = Inr (pos, v) \<longrightarrow>
        i \<le> pos \<and> pos + 3 < length data \<and> prefix001 data pos \<and> data ! (pos + 3) = v \<and> is_ps_code v)"
proof (induction "length data - i" arbitrary: i rule: less_induct)
  case less
  have IH: "\<exists>r. findPSStartCode_loop data (i + k) = Some r \<and>
     (\<forall>pos v. r = Inr (pos, v) \<longrightarrow>
        i \<le> pos \<and> pos + 3 < length data \<and> prefix001 data pos \<and> data ! (pos + 3) = v \<and> is_ps_code v)"
    if "0 < k" "i < length data" for k
  proof -
    have "length data - (i + k) < length data - i" using that by simp
    from less [OF this] show ?thesis by (metis add_leD1)
  qed
  let ?n = "if prefix001 data i then 3 else if sc4 data i then 4 else (0 :: nat)"
  show ?case
  proof (cases "i < length data")
    case False
    then show ?thesis by (subst findPSStartCode_loop.simps) simp
  next
    case True
    consider "?n = 0" | "?n \<noteq> 0" "i + ?n \<ge> length data"
      | "?n \<noteq> 0" "i + ?n < length data" "\<not> is_ps_code (data ! (i + ?n))"
      | "?n \<noteq> 0" "i + ?n < length data" "is_ps_code (data ! (i + ?n))"
      by linarith
    then show ?thesis
    proof cases
      case 1
      then show ?thesis using True IH [of 1]
        by (subst findPSStartCode_loop.simps) (simp add: ps_prefix_len_eq)
    next
      case 2
      then show ?thesis using True
        by (subst findPSStartCode_loop.simps) (simp add: ps_prefix_len_eq)
    next
      case 3
      then show ?thesis using True IH [of "?n + 1"]
        by (subst findPSStartCode_loop.simps) (simp add: ps_prefix_len_eq add.assoc)
    next
      case 4
      have "prefix001 data (i + ?n - 3) \<and> i + ?n - 3 + 3 = i + ?n"
        using 4 by (auto simp: sc4_def prefix001_def numeral_3_eq_3 eval_nat_numeral split: if_splits)
      then show ?thesis using True 4
        by (subst findPSStartCode_loop.simps) (auto simp: ps_prefix_len_eq split: if_splits)
    qed
  qed
qed

lemma findPSStartCode_total [go_total]: "\<exists>r. findPSStartCode data = Some r"
  using findPSStartCode_loop_spec [of data 0] by (auto simp: findPSStartCode_def)

lemma findPSStartCode_Inr:
  assumes "findPSStartCode data = Some (Inr (pos, v))"
  shows "pos + 3 < length data" "prefix001 data pos" "data ! (pos + 3) = v" "is_ps_code v"
  using findPSStartCode_loop_spec [of data 0] assms by (auto simp: findPSStartCode_def)

lemma findPSStartCode_head:
  assumes "prefix001 data 0" and "3 < length data" and "is_ps_code (data ! 3)"
  shows "findPSStartCode data = Some (Inr (0, data ! 3))"
proof -
  have "0 < length data" using assms(2) by linarith
  then show ?thesis
    unfolding findPSStartCode_def
    using assms by (subst findPSStartCode_loop.simps) (simp add: ps_prefix_len_eq)
qed

text \<open>Without a start-code prefix anywhere the search fails.\<close>

lemma findPSStartCode_loop_none:
  assumes "\<And>j. i \<le> j \<Longrightarrow> \<not> prefix001 data j"
  shows "findPSStartCode_loop data i = Some (Inl ErrNoStartCode)"
  using assms
proof (induction "length data - i" arbitrary: i rule: less_induct)
  case less
  have "\<not> sc4 data i"
    using less.prems [of "i + 1"] by (auto simp: sc4_def prefix001_def eval_nat_numeral)
  with less show ?case
    by (subst findPSStartCode_loop.simps) (auto simp: ps_prefix_len_eq)
qed

subsection \<open>The program stream map\<close>

lemma parsePSM_total [go_total]: "\<exists>r. parsePSM data = Some r"
  by (auto simp: parsePSM_def Let_def)

lemma parsePSM_Inr:
  "parsePSM data = Some (Inr n) \<Longrightarrow> 6 < n \<and> n \<le> length data \<and> n = 6 + be16 (data ! 4) (data ! 5)"
  by (auto simp: parsePSM_def Let_def Option.bind_eq_Some_conv go_idx_Some split: if_splits)

lemma psm_entries_offset_total [go_total]: "\<exists>r. psm_entries_offset d = Some r"
  by (auto simp: psm_entries_offset_def)

lemma video_entries_total [go_total]: "\<exists>r. video_entries d off = Some r"
proof (induction d off rule: video_entries.induct)
  case (1 d off)
  then show ?case by (subst video_entries.simps) auto
qed

lemma findVideoStreamType_total [go_total]: "\<exists>r. findVideoStreamType d = Some r"
  using psm_entries_offset_total [of d] video_entries_total
  by (auto simp: findVideoStreamType_def split: option.splits)

lemma audio_entries_total [go_total]: "\<exists>r. audio_entries d off out = Some r"
proof (induction d off out rule: audio_entries.induct)
  case (1 d off out)
  then show ?case by (subst audio_entries.simps) auto
qed

lemma audioStreamTypes_total [go_total]: "\<exists>r. audioStreamTypes d = Some r"
  using psm_entries_offset_total [of d] audio_entries_total
  by (auto simp: audioStreamTypes_def split: option.splits)

subsection \<open>ADTS\<close>

lemma adts_loop_total [go_total]: "\<exists>fs. adts_loop payload offset = Some fs"
proof (induction "length payload - offset" arbitrary: offset rule: less_induct)
  case less
  have IH: "\<exists>fs. adts_loop payload (offset + k) = Some fs" if "0 < k" "offset < length payload" for k
    using that by (intro less) simp
  show ?case
  proof (cases "offset + 7 \<le> length payload \<and> hasADTSSync (drop offset payload)")
    case False
    then show ?thesis by (subst adts_loop.simps) auto
  next
    case True
    let ?k = "adts_frame_len (payload ! (offset + 3)) (payload ! (offset + 4)) (payload ! (offset + 5))"
    show ?thesis
    proof (cases "0 < ?k")
      case pos: True
      obtain fs where "adts_loop payload (offset + ?k) = Some fs"
        using IH [OF pos] True by auto
      then show ?thesis using True
        by (subst adts_loop.simps) (auto simp: Let_def)
    next
      case False
      then show ?thesis using True by (subst adts_loop.simps) (auto simp: Let_def)
    qed
  qed
qed

lemma splitADTS_total [go_total]: "\<exists>fs. splitADTS payload = Some fs"
  using adts_loop_total by (auto simp: splitADTS_def)

lemma adtsToASC_total [go_total]: "\<exists>r. adtsToASC h = Some r"
  by (auto simp: adtsToASC_def Let_def split: option.splits)

subsection \<open>Properties\<close>

text \<open>
  splitting an Annex-B stream gives back its NAL units, whatever mix of three- and four-byte start
  codes separates them, also after one leading zero byte in front of a four-byte code; an SVAC stream
  is handed on whole.
\<close>

theorem annexB_split:
  assumes "\<forall>u \<in> set us. nal_safe (snd u)" and "t \<noteq> ''svac''"
  shows "extractNALUs (annexB_stream us) t = Some (map snd us)
    \<and> (us \<noteq> [] \<longrightarrow> fst (hd us) \<longrightarrow> extractNALUs (0 # annexB_stream us) t = Some (map snd us))
    \<and> extractNALUs (x # xs) ''svac'' = Some [x # xs]"
  using extractNALUs_stream [OF assms] extractNALUs_stream_gap [OF assms]
  by (simp add: extractNALUs_def)

theorem annexB_split_witness:
  "extractNALUs [0, 0, 0, 1, 0x67, 0x42, 0, 0, 1, 0x68, 0, 0, 2] '''' = Some [[0x67, 0x42], [0x68, 0, 0, 2]]"
  using annexB_split [of "[(True, [0x67, 0x42]), (False, [0x68, 0, 0, 2])]" "''''" 0 "[]"]
  by (simp add: nal_safe_def prefix001_def start_code_def less_Suc_eq)

text \<open>
  the start-code search reports only real start codes: a hit is a three-byte prefix followed by a
  code of the PS layer, at a position inside the input.
\<close>

theorem findPSStartCode_sound:
  assumes "findPSStartCode data = Some (Inr (pos, v))"
  shows "pos + 3 < length data \<and> prefix001 data pos \<and> data ! (pos + 3) = v \<and> is_ps_code v"
  using findPSStartCode_Inr [OF assms] by blast

theorem findPSStartCode_sound_witness:
  "prefix001 [9, 0, 0, 0, 1, 0xE0] 2 \<and> is_ps_code 0xE0"
proof -
  have "findPSStartCode [9, 0, 0, 0, 1, 0xE0] = Some (Inr (2, 0xE0))" by code_simp
  from findPSStartCode_sound [OF this] show ?thesis by simp
qed

end
