(* ===== verification/Ps_Demux.thy ===== *)
theory Ps_Demux
  imports Ps_Pes
begin

text \<open>
  The stateful half of the platform-side demuxer: \<open>PSDemuxer\<close> of \<open>src/platform/psdemux.go\<close> with its
  audio fallback from \<open>src/platform/psdemux_audio.go\<close>. The record holds every field of the Go struct;
  the body of the \<open>feedLoop\<close> is one step function per start-code class, composed by \<open>feed_loop\<close>.
  Log output is left out, but the latches that guard it are kept.
\<close>

record audioFrame =
  af_codec :: string
  af_data :: bytes
  af_config :: "bytes option"
  af_pts :: i64
  af_samples :: nat

record psdemuxer =
  d_streamType :: byte
  d_naluType :: string
  d_buf :: bytes
  d_videoPesBuf :: bytes
  d_esBuf :: bytes
  d_currentPTS :: i64
  d_audioCodecs :: "byte \<rightharpoonup> string"
  d_psmSeen :: bool
  d_psmAudioEntries :: nat
  d_audioResolved :: "byte \<rightharpoonup> string"
  d_audioHint :: string
  d_guessScanned :: nat
  d_guessMulaw :: nat
  d_guessAlaw :: nat
  d_audioPesBuf :: bytes
  d_audioOut :: "audioFrame list"
  d_audioContPTSTicks :: i64
  d_audioContSet :: bool
  d_ptsOffset :: i64
  d_ptsOffsetSet :: bool
  d_esResyncLogged :: bool
  d_pesOverflowLogged :: bool

definition maxESBufBytes :: nat where "maxESBufBytes = 8 * 2 ^ 20"
definition maxPendingPESBytes :: nat where "maxPendingPESBytes = 65541 + 4096"

definition NewPSDemuxer :: psdemuxer where
  "NewPSDemuxer =
     \<lparr>d_streamType = 0, d_naluType = '''', d_buf = [], d_videoPesBuf = [], d_esBuf = [],
      d_currentPTS = 0, d_audioCodecs = Map.empty, d_psmSeen = False, d_psmAudioEntries = 0,
      d_audioResolved = Map.empty, d_audioHint = '''', d_guessScanned = 0, d_guessMulaw = 0,
      d_guessAlaw = 0, d_audioPesBuf = [], d_audioOut = [], d_audioContPTSTicks = 0,
      d_audioContSet = False, d_ptsOffset = 0, d_ptsOffsetSet = False, d_esResyncLogged = False,
      d_pesOverflowLogged = False\<rparr>"

definition SetAudioCodecHint :: "psdemuxer \<Rightarrow> string \<Rightarrow> psdemuxer" where
  "SetAudioCodecHint d codec = d\<lparr>d_audioHint := codec\<rparr>"

definition warnPESOverflow :: "psdemuxer \<Rightarrow> psdemuxer" where
  "warnPESOverflow d = (if d_pesOverflowLogged d then d else d\<lparr>d_pesOverflowLogged := True\<rparr>)"

subsection \<open>Audio\<close>

text \<open>Reading a Go map at an absent key gives the zero value.\<close>

definition map_get :: "(byte \<rightharpoonup> string) \<Rightarrow> byte \<Rightarrow> string" where
  "map_get m k = (case m k of None \<Rightarrow> '''' | Some v \<Rightarrow> v)"

fun vote_loop :: "bytes \<Rightarrow> nat \<Rightarrow> nat \<Rightarrow> nat \<times> nat" where
  "vote_loop [] mu al = (mu, al)"
| "vote_loop (b # bs) mu al =
     (if b \<ge> 0xFD \<or> (b \<ge> 0x7D \<and> b \<le> 0x7F) then vote_loop bs (mu + 1) al
      else if (b \<ge> 0x54 \<and> b \<le> 0x56) \<or> (b \<ge> 0xD4 \<and> b \<le> 0xD6) then vote_loop bs mu (al + 1)
      else vote_loop bs mu al)"

text \<open>The ADTS test at the head of \<open>guessAudioCodec\<close>.\<close>

definition looks_adts :: "bytes \<Rightarrow> bool go" where
  "looks_adts payload =
     (if length payload \<ge> 7 then do {
        p0 \<leftarrow> go_idx payload 0; p1 \<leftarrow> go_idx payload 1;
        if p0 = 0xFF \<and> p1 AND 0xF0 = 0xF0 then do {
          p3 \<leftarrow> go_idx payload 3; p4 \<leftarrow> go_idx payload 4; p5 \<leftarrow> go_idx payload 5;
          let frameLen = adts_frame_len p3 p4 p5;
          Some (frameLen \<ge> 7 \<and> frameLen \<le> 8192) }
        else Some False }
      else Some False)"

definition guessAudioCodec :: "psdemuxer \<Rightarrow> bytes \<Rightarrow> (string \<times> psdemuxer) go" where
  "guessAudioCodec d payload = do {
     adts \<leftarrow> looks_adts payload;
     if adts then Some (''aac'', d)
     else if d_audioHint d \<noteq> '''' then Some (d_audioHint d, d)
     else
       let (mu, al) = vote_loop payload (d_guessMulaw d) (d_guessAlaw d);
           d = d\<lparr>d_guessMulaw := mu, d_guessAlaw := al,
                 d_guessScanned := d_guessScanned d + length payload\<rparr>
       in Some (if d_guessScanned d < 4096 then ''''
                else if mu \<ge> al then ''g711u'' else ''g711a'', d) }"

definition resolveFallbackAudioCodec :: "psdemuxer \<Rightarrow> byte \<Rightarrow> bytes \<Rightarrow> (string \<times> psdemuxer) go" where
  "resolveFallbackAudioCodec d streamID payload =
     (case d_audioResolved d streamID of
        Some c \<Rightarrow> Some (c, d)
      | None \<Rightarrow> do {
          (codec, d) \<leftarrow> guessAudioCodec d payload;
          if codec = '''' then Some ('''', d)
          else Some (codec, d\<lparr>d_audioResolved := (d_audioResolved d)(streamID \<mapsto> codec)\<rparr>) })"

definition establishClockOffset :: "psdemuxer \<Rightarrow> bytes \<Rightarrow> i64 \<Rightarrow> psdemuxer go" where
  "establishClockOffset d pesData rtpTicks =
     (if d_ptsOffsetSet d then Some d
      else do {
        pts \<leftarrow> parsePESPTS pesData;
        Some (case pts of
                None \<Rightarrow> d
              | Some p \<Rightarrow> d\<lparr>d_ptsOffset := p - rtpTicks, d_ptsOffsetSet := True\<rparr>) })"

fun aac_frames :: "psdemuxer \<Rightarrow> i64 \<Rightarrow> adtsFrame list \<Rightarrow> psdemuxer go" where
  "aac_frames d pts [] = Some d"
| "aac_frames d pts (f # fs) = do {
     cfg \<leftarrow> adtsToASC (adts_header f);
     let d = d\<lparr>d_audioOut := d_audioOut d @
                 [\<lparr>af_codec = ''aac'', af_data = adts_data f, af_config = cfg, af_pts = pts, af_samples = 1024\<rparr>],
               d_audioContPTSTicks := pts + 1024, d_audioContSet := True\<rparr>;
     aac_frames d (pts + 1024) fs }"

text \<open>The timestamp of one audio payload, with the continuation clock it may start.\<close>

definition audio_pts :: "psdemuxer \<Rightarrow> i64 option \<Rightarrow> i64 \<Rightarrow> i64 \<times> psdemuxer" where
  "audio_pts d pesPTS rtpTicks =
     (case pesPTS of
        Some p \<Rightarrow> (let pts = p - d_ptsOffset d in (if pts <s 0 then rtpTicks else pts, d))
      | None \<Rightarrow>
          if d_audioContSet d then (d_audioContPTSTicks d, d)
          else (rtpTicks, d\<lparr>d_audioContPTSTicks := rtpTicks, d_audioContSet := True\<rparr>))"

definition emitAudio :: "psdemuxer \<Rightarrow> bytes \<Rightarrow> byte \<Rightarrow> i64 option \<Rightarrow> i64 \<Rightarrow> psdemuxer go" where
  "emitAudio d payload streamID pesPTS rtpTicks = do {
     let codec = map_get (d_audioCodecs d) streamID;
     (codec, d) \<leftarrow> (if codec = '''' \<and> \<not> (d_psmSeen d \<and> d_psmAudioEntries d > 0)
                    then resolveFallbackAudioCodec d streamID payload else Some (codec, d));
     if codec = '''' then Some d
     else if \<not> d_ptsOffsetSet d \<and> pesPTS = None then Some d
     else
       let d = (if \<not> d_ptsOffsetSet d
                then d\<lparr>d_ptsOffset := the pesPTS - rtpTicks, d_ptsOffsetSet := True\<rparr> else d);
           (pts, d) = audio_pts d pesPTS rtpTicks
       in if codec = ''g711a'' \<or> codec = ''g711u''
          then Some (d\<lparr>d_audioOut := d_audioOut d @
                         [\<lparr>af_codec = codec, af_data = payload, af_config = None, af_pts = pts,
                           af_samples = length payload\<rparr>],
                       d_audioContPTSTicks := pts + of_nat (length payload), d_audioContSet := True\<rparr>)
          else if codec = ''aac''
          then do { frames \<leftarrow> splitADTS payload; aac_frames d pts frames }
          else Some d }"

subsection \<open>The feed loop\<close>

datatype feed_result = Advance psdemuxer nat | Break psdemuxer

text \<open>Keep the bytes from \<open>pos\<close> on as the residual and leave the loop.\<close>

definition keep_residual :: "psdemuxer \<Rightarrow> bytes \<Rightarrow> nat \<Rightarrow> feed_result go" where
  "keep_residual d data pos = do { t \<leftarrow> go_from data pos; Some (Break (d\<lparr>d_buf := t\<rparr>)) }"

function ff_loop :: "bytes \<Rightarrow> nat \<Rightarrow> nat go" where
  "ff_loop data off =
     (if off < length data then do {
        b \<leftarrow> go_idx data off;
        if b = 0xFF then ff_loop data (off + 1) else Some off }
      else Some off)"
  by pat_completeness auto
termination
  by (relation "measure (\<lambda>(d, off). length d - off)") auto

declare ff_loop.simps [simp del]

definition feed_pack :: "psdemuxer \<Rightarrow> bytes \<Rightarrow> nat \<Rightarrow> feed_result go" where
  "feed_pack d data pos =
     (if pos + 14 > length data then keep_residual d data pos
      else do {
        b \<leftarrow> go_idx data (pos + 13);
        let off = pos + 14 + unat (b AND 0x07);
        off \<leftarrow> (if off < length data then do {
                  c \<leftarrow> go_idx data off;
                  if c AND 0x07 = 0x07 then ff_loop data off else Some off }
                else Some off);
        Some (Advance d off) })"

text \<open>System header, padding and private stream 2: skip a unit by its 16-bit length.\<close>

definition feed_skip :: "psdemuxer \<Rightarrow> bytes \<Rightarrow> nat \<Rightarrow> feed_result go" where
  "feed_skip d data pos =
     (if pos + 6 > length data then keep_residual d data pos
      else do {
        hi \<leftarrow> go_idx data (pos + 4);
        lo \<leftarrow> go_idx data (pos + 5);
        let headerLen = be16 hi lo;
        if pos + 6 + headerLen > length data then keep_residual d data pos
        else Some (Advance d (pos + 6 + headerLen)) })"

definition latch_video :: "psdemuxer \<Rightarrow> byte option \<Rightarrow> psdemuxer" where
  "latch_video d st =
     (case st of
        None \<Rightarrow> d
      | Some t \<Rightarrow>
          let d = d\<lparr>d_streamType := t\<rparr> in
          if t = st_H264 then d\<lparr>d_naluType := ''h264''\<rparr>
          else if t = st_H265 then d\<lparr>d_naluType := ''h265''\<rparr>
          else if t = st_SVACV then d\<lparr>d_naluType := ''svac''\<rparr>
          else d)"

definition latch_audio :: "psdemuxer \<Rightarrow> (byte \<times> byte) list \<Rightarrow> psdemuxer" where
  "latch_audio d entries =
     d\<lparr>d_psmSeen := True, d_psmAudioEntries := length entries,
       d_audioCodecs := foldl (\<lambda>m (esID, st). m(esID \<mapsto> audioStreamCodec st)) (d_audioCodecs d) entries\<rparr>"

definition feed_psm :: "psdemuxer \<Rightarrow> bytes \<Rightarrow> nat \<Rightarrow> feed_result go" where
  "feed_psm d data pos = do {
     rest \<leftarrow> go_from data pos;
     r \<leftarrow> parsePSM rest;
     case r of
       Inl _ \<Rightarrow> Some (Break (d\<lparr>d_buf := rest\<rparr>))
     | Inr psmEnd \<Rightarrow> do {
         d \<leftarrow> (if psmEnd > 6 then do {
                psmData \<leftarrow> go_slice data (pos + 6) (pos + psmEnd);
                st \<leftarrow> findVideoStreamType psmData;
                entries \<leftarrow> audioStreamTypes psmData;
                Some (latch_audio (latch_video d st) entries) }
              else Some d);
         Some (Advance d (pos + psmEnd)) } }"

definition feed_audio :: "psdemuxer \<Rightarrow> bytes \<Rightarrow> nat \<Rightarrow> byte \<Rightarrow> i64 \<Rightarrow> feed_result go" where
  "feed_audio d data pos code ptsTicks = do {
     pesData \<leftarrow> go_from data pos;
     r \<leftarrow> parseAudioPES pesData;
     let pending = (if length pesData > maxPendingPESBytes
                    then Break ((warnPESOverflow d)\<lparr>d_audioPesBuf := []\<rparr>)
                    else Break (d\<lparr>d_audioPesBuf := pesData\<rparr>));
     case r of
       Inl _ \<Rightarrow> Some pending
     | Inr (payload, pesPTS, pesEnd) \<Rightarrow>
         if pesEnd > length pesData then Some pending
         else do {
           d \<leftarrow> (if length payload > 0 then emitAudio d payload code pesPTS ptsTicks else Some d);
           Some (Advance d (pos + pesEnd)) } }"

text \<open>Append a payload to the elementary stream, dropping it all when it passes the cap.\<close>

definition es_append :: "psdemuxer \<Rightarrow> bytes \<Rightarrow> psdemuxer" where
  "es_append d payload =
     (let d = d\<lparr>d_esBuf := d_esBuf d @ payload\<rparr> in
      if length (d_esBuf d) > maxESBufBytes
      then d\<lparr>d_esResyncLogged := True, d_esBuf := []\<rparr> else d)"

definition feed_video :: "psdemuxer \<Rightarrow> bytes \<Rightarrow> nat \<Rightarrow> i64 \<Rightarrow> feed_result go" where
  "feed_video d data pos ptsTicks = do {
     pesData \<leftarrow> go_from data pos;
     r \<leftarrow> parseVideoPES pesData;
     let pending = (if length pesData > maxPendingPESBytes
                    then Break ((warnPESOverflow d)\<lparr>d_videoPesBuf := []\<rparr>)
                    else Break (d\<lparr>d_videoPesBuf := pesData\<rparr>));
     case r of
       Inl _ \<Rightarrow> Some pending
     | Inr (payload, pesEnd) \<Rightarrow>
         if pesEnd > length pesData then Some pending
         else do {
           d \<leftarrow> (if length payload > 0 then do {
                  d \<leftarrow> establishClockOffset (d\<lparr>d_currentPTS := ptsTicks\<rparr>) pesData ptsTicks;
                  Some (es_append d payload) }
                else Some d);
           Some (Advance d (pos + pesEnd)) } }"

definition feed_step :: "psdemuxer \<Rightarrow> bytes \<Rightarrow> nat \<Rightarrow> i64 \<Rightarrow> feed_result go" where
  "feed_step d data offset ptsTicks = do {
     rest \<leftarrow> go_from data offset;
     r \<leftarrow> findPSStartCode rest;
     case r of
       Inl _ \<Rightarrow> Some (Break (d\<lparr>d_buf := rest\<rparr>))
     | Inr (p, code) \<Rightarrow>
         let pos = p + offset in
         if code = startCodePack then feed_pack d data pos
         else if code = startCodeSystem then feed_skip d data pos
         else if code = startCodePSM then feed_psm d data pos
         else if code = startCodePadding \<or> code = startCodePrivate2 then feed_skip d data pos
         else if is_audio_id code then feed_audio d data pos code ptsTicks
         else if is_video_id code then feed_video d data pos ptsTicks
         else Some (Advance d (pos + 4)) }"

lemma ff_loop_ge: "ff_loop data off = Some off' \<Longrightarrow> off \<le> off'"
proof (induction data off rule: ff_loop.induct)
  case (1 data off)
  show ?case
  proof (cases "off < length data \<and> data ! off = 0xFF")
    case True
    then have "ff_loop data (off + 1) = Some off'"
      using "1.prems" by (subst (asm) ff_loop.simps) simp
    then show ?thesis using True "1.IH" by force
  next
    case False
    then show ?thesis using "1.prems" by (subst (asm) ff_loop.simps) (auto split: if_splits)
  qed
qed

subsubsection \<open>Step equations: the result of each parser decides the step\<close>

lemma feed_psm_Inl:
  "pos \<le> length data \<Longrightarrow> parsePSM (drop pos data) = Some (Inl e) \<Longrightarrow>
   feed_psm d data pos = Some (Break (d\<lparr>d_buf := drop pos data\<rparr>))"
  by (simp add: feed_psm_def)

lemma feed_psm_Inr:
  assumes "pos \<le> length data" and "parsePSM (drop pos data) = Some (Inr n)"
    and "findVideoStreamType (drop (pos + 6) (take (pos + n) data)) = Some st"
    and "audioStreamTypes (drop (pos + 6) (take (pos + n) data)) = Some entries"
  shows "feed_psm d data pos = Some (Advance (latch_audio (latch_video d st) entries) (pos + n))"
proof -
  have "6 < n" "n \<le> length data - pos" using parsePSM_Inr [OF assms(2)] by auto
  with assms show ?thesis by (simp add: feed_psm_def)
qed

definition audio_pending :: "psdemuxer \<Rightarrow> bytes \<Rightarrow> feed_result" where
  "audio_pending d pesData =
     (if length pesData > maxPendingPESBytes
      then Break ((warnPESOverflow d)\<lparr>d_audioPesBuf := []\<rparr>)
      else Break (d\<lparr>d_audioPesBuf := pesData\<rparr>))"

lemma feed_audio_Inl:
  "pos \<le> length data \<Longrightarrow> parseAudioPES (drop pos data) = Some (Inl e) \<Longrightarrow>
   feed_audio d data pos code t = Some (audio_pending d (drop pos data))"
  by (simp add: feed_audio_def audio_pending_def Let_def)

lemma feed_audio_Inr:
  "pos \<le> length data \<Longrightarrow> parseAudioPES (drop pos data) = Some (Inr (payload, pts, n)) \<Longrightarrow>
   feed_audio d data pos code t =
     (if n > length data - pos then Some (audio_pending d (drop pos data))
      else map_option (\<lambda>d. Advance d (pos + n))
             (if payload \<noteq> [] then emitAudio d payload code pts t else Some d))"
  by (simp add: feed_audio_def audio_pending_def Let_def map_conv_bind_option o_def)

definition video_pending :: "psdemuxer \<Rightarrow> bytes \<Rightarrow> feed_result" where
  "video_pending d pesData =
     (if length pesData > maxPendingPESBytes
      then Break ((warnPESOverflow d)\<lparr>d_videoPesBuf := []\<rparr>)
      else Break (d\<lparr>d_videoPesBuf := pesData\<rparr>))"

lemma feed_video_Inl:
  "pos \<le> length data \<Longrightarrow> parseVideoPES (drop pos data) = Some (Inl e) \<Longrightarrow>
   feed_video d data pos t = Some (video_pending d (drop pos data))"
  by (simp add: feed_video_def video_pending_def Let_def)

lemma feed_video_Inr:
  "pos \<le> length data \<Longrightarrow> parseVideoPES (drop pos data) = Some (Inr (payload, n)) \<Longrightarrow>
   feed_video d data pos t =
     (if n > length data - pos then Some (video_pending d (drop pos data))
      else map_option (\<lambda>d. Advance d (pos + n))
             (if payload \<noteq> []
              then map_option (\<lambda>d. es_append d payload)
                     (establishClockOffset (d\<lparr>d_currentPTS := t\<rparr>) (drop pos data) t)
              else Some d))"
  by (simp add: feed_video_def video_pending_def Let_def map_conv_bind_option o_def)

lemma feed_step_Inl:
  "offset \<le> length data \<Longrightarrow> findPSStartCode (drop offset data) = Some (Inl e) \<Longrightarrow>
   feed_step d data offset t = Some (Break (d\<lparr>d_buf := drop offset data\<rparr>))"
  by (simp add: feed_step_def)

lemma feed_step_Inr:
  "offset \<le> length data \<Longrightarrow> findPSStartCode (drop offset data) = Some (Inr (p, code)) \<Longrightarrow>
   feed_step d data offset t =
     (let pos = p + offset in
      if code = startCodePack then feed_pack d data pos
      else if code = startCodeSystem then feed_skip d data pos
      else if code = startCodePSM then feed_psm d data pos
      else if code = startCodePadding \<or> code = startCodePrivate2 then feed_skip d data pos
      else if is_audio_id code then feed_audio d data pos code t
      else if is_video_id code then feed_video d data pos t
      else Some (Advance d (pos + 4)))"
  by (simp add: feed_step_def)

subsubsection \<open>Every step that goes on moves the offset forward, so the loop ends\<close>

lemma keep_residual_Advance [simp]: "keep_residual d data pos \<noteq> Some (Advance d' off')"
  by (simp add: keep_residual_def Option.bind_eq_Some_conv)

lemma pending_Advance [simp]:
  "audio_pending d pes \<noteq> Advance d' off'" "video_pending d pes \<noteq> Advance d' off'"
  by (simp_all add: audio_pending_def video_pending_def)

lemma feed_pack_progress: "feed_pack d data pos = Some (Advance d' off') \<Longrightarrow> pos < off'"
  by (auto simp: feed_pack_def Let_def Option.bind_eq_Some_conv split: if_splits dest!: ff_loop_ge)

lemma feed_skip_progress: "feed_skip d data pos = Some (Advance d' off') \<Longrightarrow> pos < off'"
  by (auto simp: feed_skip_def Let_def Option.bind_eq_Some_conv split: if_splits)

lemma feed_psm_progress:
  assumes "pos \<le> length data" and "feed_psm d data pos = Some (Advance d' off')"
  shows "pos < off'"
proof -
  obtain r where r: "parsePSM (drop pos data) = Some r" using parsePSM_total by blast
  show ?thesis
  proof (cases r)
    case (Inl e)
    then show ?thesis using assms r by (simp add: feed_psm_Inl)
  next
    case (Inr n)
    obtain st es where "findVideoStreamType (drop (pos + 6) (take (pos + n) data)) = Some st"
      "audioStreamTypes (drop (pos + 6) (take (pos + n) data)) = Some es"
      using findVideoStreamType_total audioStreamTypes_total by meson
    then have "off' = pos + n" using assms r Inr by (simp add: feed_psm_Inr)
    then show ?thesis using parsePSM_Inr r Inr by fastforce
  qed
qed

lemma feed_audio_progress:
  assumes "pos \<le> length data" and "feed_audio d data pos code t = Some (Advance d' off')"
  shows "pos < off'"
proof -
  obtain r where r: "parseAudioPES (drop pos data) = Some r" using parseAudioPES_total by blast
  show ?thesis
  proof (cases r)
    case (Inl e)
    then show ?thesis using assms r by (simp add: feed_audio_Inl)
  next
    case (Inr x)
    then obtain payload pts n where "r = Inr (payload, pts, n)" by (cases x) auto
    then show ?thesis
      using assms r parseAudioPES_Inr_pos [of "drop pos data"]
      by (auto simp: feed_audio_Inr split: if_split_asm)
  qed
qed

lemma feed_video_progress:
  assumes "pos \<le> length data" and "feed_video d data pos t = Some (Advance d' off')"
  shows "pos < off'"
proof -
  obtain r where r: "parseVideoPES (drop pos data) = Some r" using parseVideoPES_total by blast
  show ?thesis
  proof (cases r)
    case (Inl e)
    then show ?thesis using assms r by (simp add: feed_video_Inl)
  next
    case (Inr x)
    then obtain payload n where "r = Inr (payload, n)" by (cases x) auto
    then show ?thesis
      using assms r parseVideoPES_Inr_pos [of "drop pos data"]
      by (auto simp: feed_video_Inr split: if_split_asm)
  qed
qed

lemma feed_step_progress:
  assumes "offset < length data" and "feed_step d data offset t = Some (Advance d' offset')"
  shows "offset < offset'"
proof -
  obtain r where r: "findPSStartCode (drop offset data) = Some r" using findPSStartCode_total by blast
  show ?thesis
  proof (cases r)
    case (Inl e)
    then show ?thesis using assms r by (simp add: feed_step_Inl)
  next
    case (Inr x)
    then obtain p code where pc: "r = Inr (p, code)" by (cases x) auto
    then have pos: "p + offset \<le> length data"
      using findPSStartCode_Inr(1) [of "drop offset data" p code] r assms by simp
    then have "p + offset < offset'"
      using assms r pc
      by (auto simp: feed_step_Inr Let_def split: if_split_asm
          dest: feed_pack_progress feed_skip_progress feed_psm_progress [OF pos]
            feed_audio_progress [OF pos] feed_video_progress [OF pos])
    then show ?thesis by simp
  qed
qed

function feed_loop :: "psdemuxer \<Rightarrow> bytes \<Rightarrow> nat \<Rightarrow> i64 \<Rightarrow> psdemuxer go" where
  "feed_loop d data offset ptsTicks =
     (if offset < length data
      then (case feed_step d data offset ptsTicks of
              None \<Rightarrow> None
            | Some (Break d') \<Rightarrow> Some d'
            | Some (Advance d' offset') \<Rightarrow> feed_loop d' data offset' ptsTicks)
      else Some d)"
  by pat_completeness auto
termination
  by (relation "measure (\<lambda>(d, data, offset, pts). length data - offset)")
    (auto intro: diff_less_mono2 feed_step_progress)

declare feed_loop.simps [simp del]

subsection \<open>The methods\<close>

fun maybeLatchCodecFromNALUs :: "psdemuxer \<Rightarrow> bytes list \<Rightarrow> psdemuxer" where
  "maybeLatchCodecFromNALUs d [] = d"
| "maybeLatchCodecFromNALUs d (n # ns) =
     (if d_naluType d \<noteq> '''' then d
      else case n of
        [] \<Rightarrow> maybeLatchCodecFromNALUs d ns
      | b # _ \<Rightarrow>
          if b AND 0x80 \<noteq> 0 then maybeLatchCodecFromNALUs d ns
          else if b = 0x67 \<or> b = 0x68 then d\<lparr>d_naluType := ''h264''\<rparr>
          else if b = 0x40 \<or> b = 0x42 \<or> b = 0x44 then d\<lparr>d_naluType := ''h265''\<rparr>
          else maybeLatchCodecFromNALUs d ns)"

text \<open>What \<open>FeedAU\<close> parses: the residual buffers of earlier calls in front of the new bytes.\<close>

definition feed_data :: "psdemuxer \<Rightarrow> bytes \<Rightarrow> bytes" where
  "feed_data d auPayload = d_audioPesBuf d @ d_videoPesBuf d @ d_buf d @ auPayload"

definition clear_pending :: "psdemuxer \<Rightarrow> psdemuxer" where
  "clear_pending d = d\<lparr>d_buf := [], d_videoPesBuf := [], d_audioPesBuf := []\<rparr>"

text \<open>The end of \<open>FeedAU\<close>: hand out the access unit on a real boundary.\<close>

definition feed_finish :: "psdemuxer \<Rightarrow> bool \<Rightarrow> (psdemuxer \<times> bytes list) go" where
  "feed_finish d complete =
     (if complete \<and> length (d_videoPesBuf d) > 0
      then Some (d\<lparr>d_videoPesBuf := [], d_esBuf := []\<rparr>, [])
      else do {
        (d, nalus) \<leftarrow> (if complete \<and> length (d_esBuf d) > 0
                       then do {
                         ns \<leftarrow> extractNALUs (d_esBuf d) (d_naluType d);
                         Some (d\<lparr>d_esBuf := []\<rparr>, ns) }
                       else Some (d, []));
        Some (maybeLatchCodecFromNALUs d nalus, nalus) })"

definition FeedAU :: "psdemuxer \<Rightarrow> bytes \<Rightarrow> i64 \<Rightarrow> bool \<Rightarrow> (psdemuxer \<times> bytes list) go" where
  "FeedAU d auPayload ptsTicks complete =
     (if length auPayload = 0 then Some (d, [])
      else do {
        d' \<leftarrow> feed_loop (clear_pending d) (feed_data d auPayload) 0 ptsTicks;
        feed_finish d' complete })"

definition DropPartialVideo :: "psdemuxer \<Rightarrow> psdemuxer" where
  "DropPartialVideo d = d\<lparr>d_videoPesBuf := [], d_esBuf := []\<rparr>"

definition Flush :: "psdemuxer \<Rightarrow> (psdemuxer \<times> bytes list) go" where
  "Flush d = do {
     n1 \<leftarrow> (if length (d_esBuf d) > 0 then extractNALUs (d_esBuf d) (d_naluType d) else Some []);
     n2 \<leftarrow> (if length (d_videoPesBuf d) > 0 then do {
             let payload = d_videoPesBuf d;
             payload \<leftarrow> (if length payload \<ge> 9 then do {
                           b8 \<leftarrow> go_idx payload 8;
                           let headerLen = 9 + unat b8;
                           if headerLen \<le> length payload then go_from payload headerLen
                           else Some payload }
                         else Some payload);
             extractNALUs payload (d_naluType d) }
           else Some []);
     n3 \<leftarrow> (if length (d_buf d) > 0 then extractNALUs (d_buf d) (d_naluType d) else Some []);
     Some (d\<lparr>d_esBuf := [], d_videoPesBuf := [], d_buf := []\<rparr>, n1 @ n2 @ n3) }"

definition DrainAudio :: "psdemuxer \<Rightarrow> psdemuxer \<times> audioFrame list" where
  "DrainAudio d = (d\<lparr>d_audioOut := []\<rparr>, d_audioOut d)"

definition Codec :: "psdemuxer \<Rightarrow> string" where
  "Codec d = d_naluType d"

subsection \<open>What the audio path leaves alone\<close>

definition bufs :: "psdemuxer \<Rightarrow> bytes \<times> bytes \<times> bytes \<times> bytes \<times> string" where
  "bufs d = (d_buf d, d_videoPesBuf d, d_audioPesBuf d, d_esBuf d, d_naluType d)"

lemma looks_adts_total [go_total]: "\<exists>a. looks_adts payload = Some a"
proof (cases "7 \<le> length payload")
  case True
  then have "0 < length payload" "1 < length payload" by linarith+
  with True show ?thesis by (auto simp: looks_adts_def Let_def)
qed (auto simp: looks_adts_def)

lemma guessAudioCodec_total [go_total]:
  "\<exists>c d'. guessAudioCodec d payload = Some (c, d') \<and> bufs d' = bufs d"
proof -
  obtain a where "looks_adts payload = Some a" using looks_adts_total by blast
  then show ?thesis by (simp add: guessAudioCodec_def Let_def bufs_def split: prod.split)
qed

lemma resolveFallback_total [go_total]:
  "\<exists>c d'. resolveFallbackAudioCodec d sid payload = Some (c, d') \<and> bufs d' = bufs d"
  using guessAudioCodec_total [of d payload]
  by (auto simp: resolveFallbackAudioCodec_def bufs_def split: option.splits)

lemma aac_frames_total [go_total]: "\<exists>d'. aac_frames d pts fs = Some d' \<and> bufs d' = bufs d"
proof (induction fs arbitrary: d pts)
  case Nil
  then show ?case by simp
next
  case (Cons f fs)
  obtain cfg where "adtsToASC (adts_header f) = Some cfg" using adtsToASC_total by blast
  moreover have "bufs (d\<lparr>d_audioOut := x, d_audioContPTSTicks := y, d_audioContSet := z\<rparr>) = bufs d" for x y z
    by (simp add: bufs_def)
  ultimately show ?case using Cons by (simp add: Let_def) metis
qed

lemma audio_pts_bufs: "bufs (snd (audio_pts d p t)) = bufs d"
  by (auto simp: audio_pts_def bufs_def Let_def split: option.splits)

lemma emitAudio_total [go_total]: "\<exists>d'. emitAudio d payload sid p t = Some d' \<and> bufs d' = bufs d"
proof -
  obtain codec d1 where c: "(if map_get (d_audioCodecs d) sid = '''' \<and> \<not> (d_psmSeen d \<and> d_psmAudioEntries d > 0)
      then resolveFallbackAudioCodec d sid payload else Some (map_get (d_audioCodecs d) sid, d)) = Some (codec, d1)"
    and b1: "bufs d1 = bufs d"
    using resolveFallback_total [of d sid payload] by (metis (full_types))
  define d2 where "d2 = (if \<not> d_ptsOffsetSet d1
      then d1\<lparr>d_ptsOffset := the p - t, d_ptsOffsetSet := True\<rparr> else d1)"
  have b2: "bufs d2 = bufs d" using b1 by (simp add: d2_def bufs_def)
  obtain pts d3 where d3: "audio_pts d2 p t = (pts, d3)" by (cases "audio_pts d2 p t")
  have b3: "bufs d3 = bufs d" using audio_pts_bufs [of d2 p t] b2 d3 by simp
  obtain fs where fs: "splitADTS payload = Some fs" using splitADTS_total by blast
  obtain d4 where d4: "aac_frames d3 pts fs = Some d4" "bufs d4 = bufs d3"
    using aac_frames_total by blast
  show ?thesis
    unfolding emitAudio_def Let_def c Option.bind.bind_lunit prod.case d2_def [symmetric] d3
    using b1 b2 b3 fs d4 by (simp add: bufs_def)
qed

lemma establishClockOffset_total [go_total]:
  "\<exists>d'. establishClockOffset d pes t = Some d' \<and> bufs d' = bufs d"
proof -
  obtain r where "parsePESPTS pes = Some r" using parsePESPTS_total by blast
  then show ?thesis by (cases r) (auto simp: establishClockOffset_def bufs_def)
qed

subsection \<open>Buffer invariant\<close>

text \<open>
  Between calls at most one of the three residual buffers is in use, and the reassembly buffers and
  the elementary stream stay within their caps.
\<close>

definition no_pending :: "psdemuxer \<Rightarrow> bool" where
  "no_pending d \<longleftrightarrow> d_buf d = [] \<and> d_videoPesBuf d = [] \<and> d_audioPesBuf d = []"

definition single_pending :: "psdemuxer \<Rightarrow> bool" where
  "single_pending d \<longleftrightarrow>
     d_videoPesBuf d = [] \<and> d_audioPesBuf d = [] \<or> d_buf d = [] \<and> d_audioPesBuf d = []
     \<or> d_buf d = [] \<and> d_videoPesBuf d = []"

text \<open>A frame the audio queue may hold: a codec with a handler, and its sample count.\<close>

definition frame_ok :: "audioFrame \<Rightarrow> bool" where
  "frame_ok f \<longleftrightarrow> af_codec f \<in> {''g711a'', ''g711u''} \<and> af_samples f = length (af_data f)
     \<or> af_codec f = ''aac'' \<and> af_samples f = 1024"

definition demux_bounded :: "psdemuxer \<Rightarrow> bool" where
  "demux_bounded d \<longleftrightarrow> length (d_videoPesBuf d) \<le> maxPendingPESBytes
     \<and> length (d_audioPesBuf d) \<le> maxPendingPESBytes \<and> length (d_esBuf d) \<le> maxESBufBytes
     \<and> list_all frame_ok (d_audioOut d)"

definition demux_inv :: "psdemuxer \<Rightarrow> bool" where
  "demux_inv d \<longleftrightarrow> single_pending d \<and> demux_bounded d"

lemmas demux_inv_defs = demux_inv_def single_pending_def demux_bounded_def no_pending_def

definition step_ok :: "feed_result \<Rightarrow> bool" where
  "step_ok r = (case r of Advance d off \<Rightarrow> no_pending d \<and> demux_bounded d | Break d \<Rightarrow> demux_inv d)"

lemma bufs_no_pending: "bufs d' = bufs d \<Longrightarrow> no_pending d' \<longleftrightarrow> no_pending d"
  by (simp add: bufs_def no_pending_def)

lemma bufs_bounded:
  "bufs d' = bufs d \<Longrightarrow> list_all frame_ok (d_audioOut d') \<longleftrightarrow> list_all frame_ok (d_audioOut d) \<Longrightarrow>
   demux_bounded d' \<longleftrightarrow> demux_bounded d"
  by (simp add: bufs_def demux_bounded_def)

lemma aac_frames_queue:
  "aac_frames d pts fs = Some d' \<Longrightarrow>
   list_all frame_ok (d_audioOut d') \<longleftrightarrow> list_all frame_ok (d_audioOut d)"
  by (induction d pts fs rule: aac_frames.induct)
    (auto simp: Option.bind_eq_Some_conv Let_def frame_ok_def)

lemma fallback_queue:
  "resolveFallbackAudioCodec d sid payload = Some (c, d') \<Longrightarrow> d_audioOut d' = d_audioOut d"
  by (auto simp: resolveFallbackAudioCodec_def guessAudioCodec_def Option.bind_eq_Some_conv Let_def
      split: option.splits if_splits prod.splits)

lemma audio_pts_queue: "d_audioOut (snd (audio_pts d p t)) = d_audioOut d"
  by (auto simp: audio_pts_def Let_def split: option.splits)

lemma emitAudio_queue:
  assumes "emitAudio d payload sid p t = Some d'"
  shows "list_all frame_ok (d_audioOut d') \<longleftrightarrow> list_all frame_ok (d_audioOut d)"
  using assms
  by (auto simp: emitAudio_def Let_def Option.bind_eq_Some_conv frame_ok_def
      split: if_splits prod.splits dest!: aac_frames_queue fallback_queue
      dest: arg_cong [where f = "d_audioOut \<circ> snd"] simp: audio_pts_queue)

lemma NewPSDemuxer_inv [simp]: "demux_inv NewPSDemuxer"
  by (simp add: demux_inv_defs NewPSDemuxer_def)

lemma keep_residual_ok:
  "no_pending d \<Longrightarrow> demux_bounded d \<Longrightarrow> pos \<le> length data \<Longrightarrow>
   \<exists>r. keep_residual d data pos = Some r \<and> step_ok r"
  by (auto simp: keep_residual_def step_ok_def demux_inv_defs)

lemma ff_loop_total [go_total]: "\<exists>off'. ff_loop data off = Some off'"
proof (induction data off rule: ff_loop.induct)
  case (1 data off)
  then show ?case by (subst ff_loop.simps) auto
qed

lemma feed_pack_ok:
  assumes "no_pending d" "demux_bounded d" "pos \<le> length data"
  shows "\<exists>r. feed_pack d data pos = Some r \<and> step_ok r"
proof (cases "pos + 14 > length data")
  case True
  then show ?thesis using keep_residual_ok [OF assms] by (simp add: feed_pack_def)
next
  case False
  let ?off = "pos + 14 + unat (data ! (pos + 13) AND 7)"
  obtain off' where "ff_loop data ?off = Some off'" using ff_loop_total by blast
  then show ?thesis using False assms by (auto simp: feed_pack_def Let_def step_ok_def)
qed

lemma feed_skip_ok:
  assumes "no_pending d" "demux_bounded d" "pos \<le> length data"
  shows "\<exists>r. feed_skip d data pos = Some r \<and> step_ok r"
  using keep_residual_ok [OF assms] assms by (auto simp: feed_skip_def Let_def step_ok_def)

lemma latch_pending:
  "no_pending (latch_audio (latch_video d st) es) \<longleftrightarrow> no_pending d"
  "demux_bounded (latch_audio (latch_video d st) es) \<longleftrightarrow> demux_bounded d"
  by (auto simp: latch_audio_def latch_video_def no_pending_def demux_bounded_def Let_def
      split: option.splits)

lemma feed_psm_ok:
  assumes "no_pending d" "demux_bounded d" "pos \<le> length data"
  shows "\<exists>r. feed_psm d data pos = Some r \<and> step_ok r"
proof -
  obtain r where r: "parsePSM (drop pos data) = Some r" using parsePSM_total by blast
  show ?thesis
  proof (cases r)
    case (Inl e)
    then show ?thesis using assms r by (auto simp: feed_psm_Inl step_ok_def demux_inv_defs)
  next
    case (Inr n)
    obtain st es where "findVideoStreamType (drop (pos + 6) (take (pos + n) data)) = Some st"
      "audioStreamTypes (drop (pos + 6) (take (pos + n) data)) = Some es"
      using findVideoStreamType_total audioStreamTypes_total by meson
    then show ?thesis using assms r Inr by (simp add: feed_psm_Inr step_ok_def latch_pending)
  qed
qed

lemma pending_ok:
  "no_pending d \<Longrightarrow> demux_bounded d \<Longrightarrow> step_ok (audio_pending d pes)"
  "no_pending d \<Longrightarrow> demux_bounded d \<Longrightarrow> step_ok (video_pending d pes)"
  by (auto simp: audio_pending_def video_pending_def step_ok_def demux_inv_defs warnPESOverflow_def)

lemma feed_audio_ok:
  assumes "no_pending d" "demux_bounded d" "pos \<le> length data"
  shows "\<exists>r. feed_audio d data pos code t = Some r \<and> step_ok r"
proof -
  obtain r where r: "parseAudioPES (drop pos data) = Some r" using parseAudioPES_total by blast
  show ?thesis
  proof (cases r)
    case (Inl e)
    then show ?thesis using assms r by (simp add: feed_audio_Inl pending_ok)
  next
    case (Inr x)
    then obtain payload pts n where x: "r = Inr (payload, pts, n)" by (cases x) auto
    obtain d' where "emitAudio d payload code pts t = Some d'" "bufs d' = bufs d"
      using emitAudio_total by blast
    then have "no_pending d'" "demux_bounded d'"
      using assms bufs_no_pending bufs_bounded emitAudio_queue by blast+
    then have "step_ok (Advance d' (pos + n))" "step_ok (Advance d (pos + n))"
      using assms by (simp_all add: step_ok_def)
    with \<open>emitAudio d payload code pts t = Some d'\<close> show ?thesis
      using assms r x by (simp add: feed_audio_Inr pending_ok)
  qed
qed

lemma es_append_ok:
  "no_pending (es_append d payload) \<longleftrightarrow> no_pending d"
  "demux_bounded d \<Longrightarrow> demux_bounded (es_append d payload)"
  by (auto simp: es_append_def no_pending_def demux_bounded_def Let_def)

lemma feed_video_ok:
  assumes "no_pending d" "demux_bounded d" "pos \<le> length data"
  shows "\<exists>r. feed_video d data pos t = Some r \<and> step_ok r"
proof -
  obtain r where r: "parseVideoPES (drop pos data) = Some r" using parseVideoPES_total by blast
  show ?thesis
  proof (cases r)
    case (Inl e)
    then show ?thesis using assms r by (simp add: feed_video_Inl pending_ok)
  next
    case (Inr x)
    then obtain payload n where x: "r = Inr (payload, n)" by (cases x) auto
    obtain d' where d': "establishClockOffset (d\<lparr>d_currentPTS := t\<rparr>) (drop pos data) t = Some d'"
      and "bufs d' = bufs (d\<lparr>d_currentPTS := t\<rparr>)"
      using establishClockOffset_total by blast
    then have "bufs d' = bufs d" by (simp add: bufs_def)
    moreover have "d_audioOut d' = d_audioOut d"
      using d' by (auto simp: establishClockOffset_def Option.bind_eq_Some_conv split: if_splits option.splits)
    ultimately have "no_pending d'" "demux_bounded d'"
      using assms bufs_no_pending bufs_bounded by metis+
    then have "step_ok (Advance (es_append d' payload) (pos + n))" "step_ok (Advance d (pos + n))"
      using assms by (simp_all add: step_ok_def es_append_ok)
    with d' show ?thesis using assms r x by (simp add: feed_video_Inr pending_ok)
  qed
qed

lemma feed_step_ok:
  assumes "no_pending d" "demux_bounded d" "offset \<le> length data"
  shows "\<exists>r. feed_step d data offset t = Some r \<and> step_ok r"
proof -
  obtain r where r: "findPSStartCode (drop offset data) = Some r" using findPSStartCode_total by blast
  show ?thesis
  proof (cases r)
    case (Inl e)
    then show ?thesis using assms r by (auto simp: feed_step_Inl step_ok_def demux_inv_defs)
  next
    case (Inr x)
    then obtain p code where pc: "r = Inr (p, code)" by (cases x) auto
    then have pos: "p + offset \<le> length data"
      using findPSStartCode_Inr(1) [of "drop offset data" p code] r assms by simp
    note ok = feed_pack_ok [OF assms(1,2) pos] feed_skip_ok [OF assms(1,2) pos]
      feed_psm_ok [OF assms(1,2) pos] feed_audio_ok [OF assms(1,2) pos]
      feed_video_ok [OF assms(1,2) pos]
    have adv: "\<exists>r. Some (Advance d (p + offset + 4)) = Some r \<and> step_ok r"
      using assms by (simp add: step_ok_def)
    show ?thesis
      unfolding feed_step_Inr [OF assms(3) r [unfolded pc]] Let_def
      using ok adv by presburger
  qed
qed

lemma feed_loop_inv:
  assumes "no_pending d" "demux_bounded d"
  shows "\<exists>d'. feed_loop d data offset t = Some d' \<and> demux_inv d'"
  using assms
proof (induction d data offset t rule: feed_loop.induct)
  case (1 d data offset t)
  show ?case
  proof (cases "offset < length data")
    case False
    then show ?thesis using "1.prems"
      by (subst feed_loop.simps) (auto simp: demux_inv_defs)
  next
    case True
    obtain r where r: "feed_step d data offset t = Some r" "step_ok r"
      using feed_step_ok [OF "1.prems", of offset data t] True by auto
    show ?thesis
    proof (cases r)
      case (Advance d' off')
      then have "\<exists>d''. feed_loop d' data off' t = Some d'' \<and> demux_inv d''"
        using "1.IH" True r by (simp add: step_ok_def)
      then show ?thesis using True r Advance by (subst feed_loop.simps) simp
    next
      case (Break d')
      then show ?thesis using True r by (subst feed_loop.simps) (simp add: step_ok_def)
    qed
  qed
qed

lemma maybeLatch_bufs:
  "d_buf (maybeLatchCodecFromNALUs d ns) = d_buf d"
  "d_videoPesBuf (maybeLatchCodecFromNALUs d ns) = d_videoPesBuf d"
  "d_audioPesBuf (maybeLatchCodecFromNALUs d ns) = d_audioPesBuf d"
  "d_esBuf (maybeLatchCodecFromNALUs d ns) = d_esBuf d"
  "d_audioOut (maybeLatchCodecFromNALUs d ns) = d_audioOut d"
  by (induction d ns rule: maybeLatchCodecFromNALUs.induct) (auto split: list.splits)

lemma maybeLatch_inv: "demux_inv (maybeLatchCodecFromNALUs d ns) \<longleftrightarrow> demux_inv d"
  by (simp add: demux_inv_defs maybeLatch_bufs)

lemma feed_finish_inv:
  assumes "demux_inv d"
  shows "\<exists>d' ns. feed_finish d complete = Some (d', ns) \<and> demux_inv d'"
proof -
  obtain ns where "extractNALUs (d_esBuf d) (d_naluType d) = Some ns"
    using extractNALUs_total by blast
  moreover have "demux_inv (d\<lparr>d_esBuf := []\<rparr>)" "demux_inv (d\<lparr>d_videoPesBuf := [], d_esBuf := []\<rparr>)"
    using assms by (auto simp: demux_inv_defs)
  ultimately show ?thesis using assms by (simp add: feed_finish_def maybeLatch_inv)
qed

lemma clear_pending_ok:
  "no_pending (clear_pending d)" "demux_inv d \<Longrightarrow> demux_bounded (clear_pending d)"
  by (auto simp: clear_pending_def demux_inv_defs)

lemma FeedAU_inv:
  assumes "demux_inv d"
  shows "\<exists>d' ns. FeedAU d auPayload t complete = Some (d', ns) \<and> demux_inv d'"
proof -
  obtain d1 where "feed_loop (clear_pending d) (feed_data d auPayload) 0 t = Some d1" "demux_inv d1"
    using feed_loop_inv clear_pending_ok assms by meson
  then show ?thesis using feed_finish_inv [of d1 complete] assms by (auto simp: FeedAU_def)
qed

lemma Flush_total: "\<exists>d' ns. Flush d = Some (d', ns)"
proof -
  have "\<exists>n. extractNALUs x (d_naluType d) = Some n" for x using extractNALUs_total by blast
  then obtain ex where "\<And>x. extractNALUs x (d_naluType d) = Some (ex x)" by metis
  then show ?thesis by (auto simp: Flush_def Let_def)
qed

subsection \<open>Any sequence of calls\<close>

datatype demux_call =
    CallFeed bytes i64 bool | CallFlush | CallDropPartial | CallDrain | CallHint string

fun demux_call_step :: "psdemuxer \<Rightarrow> demux_call \<Rightarrow> psdemuxer go" where
  "demux_call_step d (CallFeed au t complete) = map_option fst (FeedAU d au t complete)"
| "demux_call_step d CallFlush = map_option fst (Flush d)"
| "demux_call_step d CallDropPartial = Some (DropPartialVideo d)"
| "demux_call_step d CallDrain = Some (fst (DrainAudio d))"
| "demux_call_step d (CallHint c) = Some (SetAudioCodecHint d c)"

fun demux_calls :: "psdemuxer \<Rightarrow> demux_call list \<Rightarrow> psdemuxer go" where
  "demux_calls d [] = Some d"
| "demux_calls d (c # cs) = do { d \<leftarrow> demux_call_step d c; demux_calls d cs }"

lemma Flush_inv:
  assumes "demux_inv d" and "Flush d = Some (d', ns)"
  shows "demux_inv d'"
proof -
  have "d' = d\<lparr>d_esBuf := [], d_videoPesBuf := [], d_buf := []\<rparr>"
    using assms(2) unfolding Flush_def by (auto simp: Option.bind_eq_Some_conv)
  then show ?thesis using assms(1) by (auto simp: demux_inv_defs)
qed

lemma demux_call_step_inv:
  assumes "demux_inv d"
  shows "\<exists>d'. demux_call_step d c = Some d' \<and> demux_inv d'"
proof (cases c)
  case (CallFeed au t complete)
  then show ?thesis using FeedAU_inv [OF assms, of au t complete] by auto
next
  case CallFlush
  then show ?thesis using Flush_total [of d] Flush_inv [OF assms] by auto
qed (use assms in \<open>auto simp: DropPartialVideo_def DrainAudio_def SetAudioCodecHint_def demux_inv_defs\<close>)

lemma demux_calls_inv: "demux_inv d \<Longrightarrow> \<exists>d'. demux_calls d cs = Some d' \<and> demux_inv d'"
proof (induction cs arbitrary: d)
  case (Cons c cs)
  then show ?case using demux_call_step_inv [of d c] by fastforce
qed simp

subsection \<open>Garbage\<close>

lemma feed_loop_no_code:
  assumes "\<And>j. \<not> prefix001 data j" and "data \<noteq> []"
  shows "feed_loop d data 0 t = Some (d\<lparr>d_buf := data\<rparr>)"
proof -
  have "feed_step d data 0 t = Some (Break (d\<lparr>d_buf := data\<rparr>))"
    using feed_step_Inl [of 0 data] findPSStartCode_loop_none [of 0 data] assms
    by (simp add: findPSStartCode_def)
  then show ?thesis using assms(2) by (subst feed_loop.simps) simp
qed

fun feed_many :: "psdemuxer \<Rightarrow> bytes list \<Rightarrow> i64 \<Rightarrow> psdemuxer go" where
  "feed_many d [] t = Some d"
| "feed_many d (c # cs) t = do { (d, ns) \<leftarrow> FeedAU d c t False; feed_many d cs t }"

text \<open>A chunk of bytes with no byte 1 holds no start code, and neither do joined chunks.\<close>

lemma no_one_no_code: "(1 :: byte) \<notin> set data \<Longrightarrow> \<not> prefix001 data j"
  by (metis prefix001_def nth_mem)

lemma feed_many_garbage:
  assumes "d_videoPesBuf d = []" "d_audioPesBuf d = []" "1 \<notin> set (d_buf d)"
    and "\<forall>c \<in> set cs. 1 \<notin> set c"
  shows "\<exists>d'. feed_many d cs t = Some d' \<and> d_buf d' = d_buf d @ concat cs"
  using assms
proof (induction cs arbitrary: d)
  case Nil
  then show ?case by simp
next
  case (Cons c cs)
  show ?case
  proof (cases "c = []")
    case True
    then show ?thesis using Cons by (simp add: FeedAU_def)
  next
    case False
    let ?d = "(clear_pending d)\<lparr>d_buf := d_buf d @ c\<rparr>"
    have "feed_data d c = d_buf d @ c" using Cons.prems by (simp add: feed_data_def)
    moreover have "1 \<notin> set (d_buf d @ c)" using Cons.prems by simp
    ultimately have "feed_loop (clear_pending d) (feed_data d c) 0 t = Some ?d"
      using feed_loop_no_code [of "d_buf d @ c" "clear_pending d" t] no_one_no_code False by auto
    then have "FeedAU d c t False = Some (?d, [])"
      using False by (simp add: FeedAU_def feed_finish_def)
    moreover have "\<exists>d'. feed_many ?d cs t = Some d' \<and> d_buf d' = d_buf ?d @ concat cs"
      by (rule Cons.IH) (use Cons.prems in \<open>auto simp: clear_pending_def\<close>)
    ultimately show ?thesis by simp
  qed
qed

subsection \<open>A stuck program stream map\<close>

fun feed_calls :: "psdemuxer \<Rightarrow> (bytes \<times> i64 \<times> bool) list \<Rightarrow> (psdemuxer \<times> bytes list list) go" where
  "feed_calls d [] = Some (d, [])"
| "feed_calls d ((au, t, complete) # calls) = do {
     (d, ns) \<leftarrow> FeedAU d au t complete;
     (d, nss) \<leftarrow> feed_calls d calls;
     Some (d, ns # nss) }"

definition wedged :: "psdemuxer \<Rightarrow> bool" where
  "wedged d \<longleftrightarrow> d_videoPesBuf d = [] \<and> d_audioPesBuf d = [] \<and> d_esBuf d = []
     \<and> (\<exists>rest. d_buf d = [0, 0, 1, startCodePSM, 0, 0] @ rest)"

lemma feed_wedged:
  assumes "feed_data d au = [0, 0, 1, startCodePSM, 0, 0] @ rest" and "au \<noteq> []" and "d_esBuf d = []"
  shows "\<exists>d'. FeedAU d au t complete = Some (d', []) \<and> wedged d' \<and> d_buf d' = feed_data d au"
proof -
  let ?data = "feed_data d au" and ?d = "clear_pending d"
  have "findPSStartCode ?data = Some (Inr (0, startCodePSM))"
    using findPSStartCode_head [of ?data] assms(1) by (simp add: prefix001_def is_ps_code_def)
  moreover have "parsePSM ?data = Some (Inl ErrIncompletePSM)"
    using assms(1) by (simp add: parsePSM_def be16_eq Let_def)
  ultimately have "feed_step ?d ?data 0 t = Some (Break (?d\<lparr>d_buf := ?data\<rparr>))"
    using feed_step_Inr [of 0 ?data 0 startCodePSM ?d t] feed_psm_Inl [of 0 ?data _ ?d]
    by (simp add: ps_consts)
  then have "feed_loop ?d ?data 0 t = Some (?d\<lparr>d_buf := ?data\<rparr>)"
    using assms(1) by (subst feed_loop.simps) simp
  then show ?thesis using assms
    by (simp add: FeedAU_def feed_finish_def clear_pending_def wedged_def)
qed

lemma feed_calls_wedged:
  assumes "wedged d"
  shows "\<exists>d'. feed_calls d calls = Some (d', map (\<lambda>_. []) calls)
    \<and> d_buf d' = d_buf d @ concat (map fst calls)"
  using assms
proof (induction calls arbitrary: d)
  case Nil
  then show ?case by simp
next
  case (Cons call calls)
  obtain au t complete where c: "call = (au, t, complete)" by (cases call)
  obtain rest where rest: "d_buf d = [0, 0, 1, startCodePSM, 0, 0] @ rest"
    using Cons.prems by (auto simp: wedged_def)
  have data: "feed_data d au = d_buf d @ au" "d_esBuf d = []"
    using Cons.prems by (auto simp: feed_data_def wedged_def)
  obtain d' where "FeedAU d au t complete = Some (d', [])" "wedged d'" "d_buf d' = d_buf d @ au"
  proof (cases "au = []")
    case True
    then show ?thesis using that [of d] Cons.prems by (simp add: FeedAU_def)
  next
    case False
    then show ?thesis using that feed_wedged [of d au "rest @ au" t complete] data rest by auto
  qed
  then show ?case using Cons.IH [of d'] c by auto
qed

subsection \<open>Properties\<close>

text \<open>
  C8: the demuxer never panics. Any sequence of \<open>FeedAU\<close>, \<open>Flush\<close>, \<open>DropPartialVideo\<close>,
  \<open>DrainAudio\<close> and \<open>SetAudioCodecHint\<close> calls, on any bytes from the network and any timestamps, runs
  without an index or slice out of range; afterwards at most one residual buffer is in use, the PES
  reassembly buffers and the elementary stream are within their caps, and every queued audio frame has
  a codec with a handler and the sample count of that codec.
\<close>

theorem demuxer_safe:
  "\<exists>d. demux_calls NewPSDemuxer cs = Some d \<and> single_pending d
     \<and> length (d_videoPesBuf d) \<le> maxPendingPESBytes \<and> length (d_audioPesBuf d) \<le> maxPendingPESBytes
     \<and> length (d_esBuf d) \<le> maxESBufBytes \<and> list_all frame_ok (d_audioOut d)"
  using demux_calls_inv [OF NewPSDemuxer_inv, of cs] by (auto simp: demux_inv_def demux_bounded_def)

text \<open>
  the one buffer without a cap is the residual. Input that never contains a start code (here: no
  byte 1) is kept whole, call after call, so its size is the size of everything received.
\<close>

theorem residual_unbounded:
  assumes "\<forall>c \<in> set cs. 1 \<notin> set c"
  shows "\<exists>d. feed_many NewPSDemuxer cs t = Some d \<and> length (d_buf d) = length (concat cs)"
  using feed_many_garbage [of NewPSDemuxer cs t] assms by (auto simp: NewPSDemuxer_def)

theorem residual_unbounded_witness:
  "\<exists>d. feed_many NewPSDemuxer [[0xFF, 0xFF], [0xFF]] 0 = Some d \<and> length (d_buf d) = 3"
  using residual_unbounded [of "[[0xFF, 0xFF], [0xFF]]" 0] by (simp add: numeral_3_eq_3)

text \<open>
  a program stream map that announces length zero stops the demuxer for good. The map is reported
  as incomplete whatever follows it, so after such a map no later call, whatever its bytes, ever
  returns a NAL unit, and all the bytes pile up in the residual.
\<close>

theorem zero_length_psm_wedges:
  "\<exists>d. feed_calls NewPSDemuxer (([0, 0, 1, 0xBC, 0, 0], t, complete) # calls)
       = Some (d, map (\<lambda>_. []) (([0, 0, 1, 0xBC, 0, 0], t, complete) # calls))
     \<and> d_buf d = [0, 0, 1, 0xBC, 0, 0] @ concat (map fst calls)"
proof -
  let ?psm = "[0, 0, 1, 0xBC, 0, 0] :: bytes"
  obtain d where d: "FeedAU NewPSDemuxer ?psm t complete = Some (d, [])" "wedged d" "d_buf d = ?psm"
    using feed_wedged [of NewPSDemuxer ?psm "[]" t complete]
    by (auto simp: NewPSDemuxer_def feed_data_def startCodePSM_def)
  then show ?thesis using feed_calls_wedged [OF d(2), of calls] by auto
qed

end
