(* ===== verification/Ps_Roundtrip.thy ===== *)
theory Ps_Roundtrip
  imports Ps_Mux Ps_Demux
begin

text \<open>
  The multiplexer of \<open>src/psmux\<close> against the demuxer of \<open>src/platform\<close>: each unit that \<open>WriteAU\<close>
  and \<open>WriteAudio\<close> emit is one step of the feed loop, and a sequence of access units comes out of
  \<open>FeedAU\<close> as the NAL units that went in.
\<close>

subsection \<open>One step per unit\<close>

lemma feed_loop_advance:
  "offset < length data \<Longrightarrow> feed_step d data offset t = Some (Advance d' off') \<Longrightarrow>
   feed_loop d data offset t = feed_loop d' data off' t"
  by (subst feed_loop.simps) simp

lemma feed_loop_end: "length data \<le> offset \<Longrightarrow> feed_loop d data offset t = Some d"
  by (subst feed_loop.simps) simp

lemma feed_step_head:
  assumes "drop off data = [0, 0, 1, code] @ rest" and "is_ps_code code" and "off < length data"
  shows "feed_step d data off t =
     (if code = startCodePack then feed_pack d data off
      else if code = startCodeSystem then feed_skip d data off
      else if code = startCodePSM then feed_psm d data off
      else if code = startCodePadding \<or> code = startCodePrivate2 then feed_skip d data off
      else if is_audio_id code then feed_audio d data off code t
      else feed_video d data off t)"
proof -
  have "findPSStartCode (drop off data) = Some (Inr (0, code))"
    using findPSStartCode_head [of "drop off data"] assms by (simp add: prefix001_def)
  then show ?thesis using assms
    by (auto simp: feed_step_Inr Let_def is_ps_code_def)
qed

lemma drop_nth:
  "drop off data = xs @ post \<Longrightarrow> i < length xs \<Longrightarrow> off + length xs \<le> length data \<Longrightarrow> data ! (off + i) = xs ! i"
  by (metis add_leD1 nth_append nth_drop)

lemma drop_length_le: "drop off data = xs @ post \<Longrightarrow> xs \<noteq> [] \<Longrightarrow> off + length xs \<le> length data"
  by (metis add.commute append_eq_conv_conj append_is_Nil_conv drop_eq_Nil le_diff_conv2 length_append
      length_drop linear le_add1)

lemma feed_step_packHeader:
  assumes "drop off data = packHeader pts @ post" and "post = [] \<or> hd post AND 7 \<noteq> 7"
  shows "feed_step d data off t = Some (Advance d (off + 14))"
proof -
  have len: "off + 14 \<le> length data"
    using drop_length_le [OF assms(1)] length_packHeader [of pts] by (metis list.size(3) zero_neq_numeral)
  have b13: "data ! (off + 13) = 0xF8"
    using drop_nth [OF assms(1), of 13] len by (simp add: packHeader_nth)
  have post: "drop (off + 14) data = post"
    using arg_cong [OF assms(1), of "drop 14"] by (simp add: add.commute)
  have "data ! (off + 14) AND 7 \<noteq> 7" if "off + 14 < length data"
    using that assms(2) hd_drop_conv_nth [of "off + 14" data] post by auto
  then have pack: "feed_pack d data off = Some (Advance d (off + 14))"
    using len b13 by (simp add: feed_pack_def Let_def)
  have "drop off data = [0, 0, 1, startCodePack] @ drop 4 (packHeader pts) @ post"
    using assms(1) by (simp add: packHeader_def Let_def startCodePack_def)
  then show ?thesis
    using feed_step_head [of off data startCodePack] len pack by (simp add: is_ps_code_def)
qed

lemma feed_step_skip:
  assumes "drop off data = [0, 0, 1, code] @ put16 (length body) @ body @ post"
    and "code \<in> {startCodeSystem, startCodePadding, startCodePrivate2}" and "length body < 65536"
  shows "feed_step d data off t = Some (Advance d (off + 6 + length body))"
proof -
  let ?u = "[0, 0, 1, code] @ put16 (length body) @ body"
  have u: "drop off data = ?u @ post" using assms(1) by simp
  have len: "off + 6 + length body \<le> length data"
    using drop_length_le [OF u] by simp
  have "data ! (off + 4) = of_nat (drop_bit 8 (length body))" "data ! (off + 5) = of_nat (length body)"
    using drop_nth [OF u, of 4] drop_nth [OF u, of 5] len by (simp_all add: put16_def)
  then have skip: "feed_skip d data off = Some (Advance d (off + 6 + length body))"
    using len assms(3) by (simp add: feed_skip_def Let_def)
  show ?thesis
    using feed_step_head [of off data code "put16 (length body) @ body @ post"] assms len skip
    by (auto simp: is_ps_code_def ps_consts)
qed

lemma systemHeader_shape:
  "\<exists>body. systemHeader v a = [0, 0, 1, startCodeSystem] @ put16 (length body) @ body \<and> length body < 65536"
  by (rule exI [of _ "drop 6 (systemHeader v a)"])
    (simp add: systemHeader_def Let_def startCodeSystem_def put16_def)

lemma feed_step_systemHeader:
  assumes "drop off data = systemHeader v a @ post"
  shows "feed_step d data off t = Some (Advance d (off + length (systemHeader v a)))"
proof -
  obtain body where b: "systemHeader v a = [0, 0, 1, startCodeSystem] @ put16 (length body) @ body"
    "length body < 65536" using systemHeader_shape by blast
  then show ?thesis using feed_step_skip [of off data startCodeSystem body post d t] assms by simp
qed

subsection \<open>The program stream map\<close>

definition psm_body :: "byte \<Rightarrow> byte \<Rightarrow> bytes" where
  "psm_body v a = drop 6 (psm v a)"

lemma psm_shape:
  "psm v a = [0, 0, 1, startCodePSM] @ put16 (length (psm_body v a)) @ psm_body v a"
  "length (psm_body v a) = (if a = 0 then 14 else 18)"
  "psm_body v a = [0xE0, 0xFF, 0, 0, 0, if a = 0 then 4 else 8, v, 0xE0, 0, 0] @ drop 10 (psm_body v a)"
  by (simp_all add: psm_body_def psm_def psm_esm_def put32_def put16_def Let_def startCodePSM_def
      videoStreamID_def eval_nat_numeral(1) drop_bit_eq_div)

lemma findVideoStreamType_psm:
  assumes "v \<in> {st_H264, st_H265, st_SVACV}"
  shows "findVideoStreamType (psm_body v a) = Some (Some v)"
proof -
  let ?b = "psm_body v a"
  have len: "14 \<le> length ?b" using psm_shape(2) [of v a] by simp
  have nth: "?b ! 2 = 0" "?b ! 3 = 0" "?b ! 6 = v" "?b ! 7 = 0xE0" "?b ! 8 = 0" "?b ! 9 = 0"
    by (subst psm_shape(3), simp)+
  have "psm_entries_offset ?b = Some (Some 6)"
    using len nth by (simp add: psm_entries_offset_def be16_eq)
  moreover have "video_entries ?b 6 = Some (Some v)"
    using len nth assms by (subst video_entries.simps) (auto simp: is_video_id_def ps_consts)
  ultimately show ?thesis by (simp add: findVideoStreamType_def)
qed

lemma feed_step_psm:
  assumes "drop off data = psm v a @ post" and "v \<in> {st_H264, st_H265, st_SVACV}"
    and "audioStreamTypes (psm_body v a) = Some es"
  shows "feed_step d data off t =
    Some (Advance (latch_audio (latch_video d (Some v)) es) (off + length (psm v a)))"
proof -
  let ?b = "psm_body v a"
  have lb: "length ?b = (if a = 0 then 14 else 18)" by (rule psm_shape)
  have lp: "length (psm v a) = 6 + length ?b" by (subst psm_shape(1)) simp
  have u: "drop off data = [0, 0, 1, startCodePSM] @ put16 (length ?b) @ ?b @ post"
    using assms(1) psm_shape(1) [of v a] by simp
  have len: "off + 6 + length ?b \<le> length data"
    using drop_length_le [OF assms(1)] lp by (cases "psm v a") auto
  have "parsePSM (drop off data) = Some (Inr (6 + length ?b))"
    unfolding u using lb by (simp add: parsePSM_def put16_def Let_def)
  moreover have "drop (off + 6) (take (off + (6 + length ?b)) data) = ?b"
    using arg_cong [OF u, of "take (length ?b) \<circ> drop 6"]
    by (simp add: put16_def take_drop ac_simps)
  ultimately have "feed_psm d data off =
      Some (Advance (latch_audio (latch_video d (Some v)) es) (off + (6 + length ?b)))"
    using feed_psm_Inr [of off data] findVideoStreamType_psm assms len by simp
  then show ?thesis
    using feed_step_head [OF u] len lp by (simp add: is_ps_code_def ps_consts)
qed

subsection \<open>Video PES packets\<close>

text \<open>An elementary stream that starts with a start code of three or four bytes.\<close>

definition starts_with_code :: "bytes \<Rightarrow> bool" where
  "starts_with_code xs \<longleftrightarrow> prefix001 xs 0 \<or> sc4 xs 0"

lemma starts_with_code_take:
  "starts_with_code xs \<Longrightarrow> 4 \<le> n \<Longrightarrow> starts_with_code (take n xs)"
  by (auto simp: starts_with_code_def prefix001_def sc4_def)

lemma starts_with_code_stream:
  "us \<noteq> [] \<Longrightarrow> starts_with_code (annexB_stream us)"
  using start_code_at [of "[]"]
  by (cases us) (auto simp: starts_with_code_def)

lemma videoPES_shape:
  "videoPES p pts w = [0, 0, 1, 0xE0] @ put16 ((if w then 8 else 3) + length p)
     @ (if w then [0x80, 0x80, 5] @ encodePTS pts else [0x80, 0, 0]) @ p"
  by (simp add: videoPES_def Let_def videoStreamID_def)

lemma length_videoPES: "length (videoPES p pts w) = (if w then 14 else 9) + length p"
  by (simp add: videoPES_shape)

text \<open>Between the header and the first start code of the payload no start code appears.\<close>

lemma videoPES_scan:
  assumes "starts_with_code p" and "d = videoPES p pts True @ post"
  shows "\<exists>q. (q = 14 \<or> q = 15) \<and> prefix001 d q \<and> (\<forall>j. 8 \<le> j \<longrightarrow> j < q \<longrightarrow> \<not> prefix001 d j)
    \<and> q + 2 < 14 + length p"
proof -
  obtain e0 e1 e2 e3 e4 where e: "encodePTS pts = [e0, e1, e2, e3, e4]"
    by (simp add: encodePTS_def Let_def)
  have ne: "e0 \<noteq> 0" "e2 \<noteq> 0" "e4 \<noteq> 0"
    using encodePTS_marker_bytes [of pts] by (simp_all add: e)
  have d: "d = [0, 0, 1, 0xE0, of_nat (drop_bit 8 (8 + length p)), of_nat (8 + length p),
      0x80, 0x80, 5, e0, e1, e2, e3, e4] @ p @ post"
    using assms(2) by (simp add: videoPES_shape put16_def e)
  have hdr: "\<not> prefix001 d j" if "8 \<le> j" "j < 14" for j
  proof -
    from that consider "j = 8" | "j = 9" | "j = 10" | "j = 11" | "j = 12" | "j = 13" by linarith
    then show ?thesis using ne by cases (auto simp: d prefix001_def)
  qed
  show ?thesis
  proof (cases "prefix001 p 0")
    case True
    then have "prefix001 d 14" by (auto simp: d prefix001_def nth_append numeral_2_eq_2)
    then show ?thesis using hdr True by (intro exI [of _ 14]) (auto simp: prefix001_def)
  next
    case False
    then have s: "sc4 p 0" using assms(1) by (simp add: starts_with_code_def)
    then have "prefix001 d 15" "\<not> prefix001 d 14"
      by (auto simp: d prefix001_def sc4_def nth_append numeral_2_eq_2)
    moreover have "j < 14 \<or> j = 14" if "j < 15" for j :: nat using that by linarith
    ultimately show ?thesis using hdr s
      by (intro exI [of _ 15]) (auto simp: sc4_def)
  qed
qed

lemma videoPES_nth:
  assumes "d = videoPES p pts w @ post"
  shows "prefix001 d 0" "d ! 3 = 0xE0" "d ! 4 = of_nat (drop_bit 8 ((if w then 8 else 3) + length p))"
    "d ! 5 = of_nat ((if w then 8 else 3) + length p)" "d ! 7 = (if w then 0x80 else 0)"
    "d ! 8 = (if w then 5 else 0)"
  by (simp_all add: assms videoPES_shape put16_def prefix001_def)

lemma pesPayloadStart_videoPES:
  assumes "d = videoPES p pts w @ post" and "w \<longrightarrow> starts_with_code p"
  shows "pesPayloadStart d (length (videoPES p pts w)) = Some (if w then 14 else 9)"
proof -
  let ?n = "length (videoPES p pts w)"
  note nth = videoPES_nth [OF assms(1)]
  have n: "?n = (if w then 14 else 9) + length p" by (rule length_videoPES)
  have len: "?n \<le> length d" "9 \<le> length d" using n by (auto simp: assms(1))
  have lim: "pes_limit d ?n = ?n" using len by (simp add: pes_limit_def)
  show ?thesis
  proof (cases w)
    case False
    obtain sc where sc: "sc_scan d (pes_bound d ?n) 8 = Some sc"
      using sc_scan_total pes_bound_le by blast
    have "pes_std d ?n = 9" "pes_legacy d ?n = 9"
      using False n nth lim by (simp_all add: pes_std_def pes_legacy_def clampPES_def)
    then show ?thesis using pesPayloadStart_eq [OF len(2) sc] False by (cases sc) simp_all
  next
    case True
    then have code: "starts_with_code p" using assms(2) by simp
    then have p3: "3 \<le> length p" by (auto simp: starts_with_code_def prefix001_def sc4_def)
    have leg: "pes_legacy d ?n = min 136 ?n" and std: "pes_std d ?n = 14"
      using True n nth lim by (auto simp: pes_std_def pes_legacy_def clampPES_def)
    obtain q where q: "q = 14 \<or> q = 15" "prefix001 d q"
      "\<And>j. 8 \<le> j \<Longrightarrow> j < q \<Longrightarrow> \<not> prefix001 d j" "q + 2 < 14 + length p"
      using videoPES_scan [OF code, of d pts post] assms(1) True by auto
    have "pes_bound d ?n = min ?n (min 136 ?n + 4)"
      using True n leg std lim by (simp add: pes_bound_def)
    then have "q + 2 < pes_bound d ?n" using q n True by auto
    then have sc: "sc_scan d (pes_bound d ?n) 8 = Some (Some q)"
      using q pes_bound_le by (intro sc_scan_Some) auto
    have "\<not> near q (min 136 ?n) < near q 14" using q n True p3 by (auto simp: near_def)
    then show ?thesis using pesPayloadStart_eq [OF len(2) sc] True leg std by simp
  qed
qed

lemma parse_videoPES:
  assumes "w \<longrightarrow> starts_with_code p" and "length p \<le> maxPESPayload"
  shows "parseVideoPES (videoPES p pts w @ post) = Some (Inr (p, length (videoPES p pts w)))"
proof -
  let ?L = "(if w then 8 else 3) + length p"
  define d where "d = videoPES p pts w @ post"
  note nth = videoPES_nth [OF d_def]
  have n: "length (videoPES p pts w) = 6 + ?L" by (simp add: length_videoPES)
  have "parseVideoPES d = Some (Inr (drop (if w then 14 else 9) (take (6 + ?L) d), 6 + ?L))"
  proof (rule parseVideoPES_bounded)
    show "pesPayloadStart d (6 + ?L) = Some (if w then 14 else 9)"
      using pesPayloadStart_videoPES [OF d_def assms(1)] n by simp
    show "be16 (d ! 4) (d ! 5) = ?L"
      using assms(2) nth put16_be16_hi_lo [of ?L] by (auto simp: maxPESPayload_def)
    show "6 + ?L \<le> length d" using n by (simp add: d_def)
    then show "9 \<le> length d" by (auto split: if_splits)
  qed (use nth in \<open>auto simp: is_video_id_def ps_consts\<close>)
  moreover have "drop (if w then 14 else 9) (take (6 + ?L) d) = p"
  proof -
    have "take (6 + ?L) d = videoPES p pts w" unfolding d_def n [symmetric] by simp
    then show ?thesis by (auto simp: videoPES_shape)
  qed
  ultimately show ?thesis by (simp add: d_def n)
qed

lemma feed_step_videoPES:
  assumes "drop off data = videoPES p pts w @ post" and "w \<longrightarrow> starts_with_code p"
    and "p \<noteq> []" and "length p \<le> maxPESPayload"
  shows "\<exists>d'. feed_step d data off t = Some (Advance d' (off + length (videoPES p pts w)))
    \<and> bufs d' = bufs (es_append d p)"
proof -
  let ?n = "length (videoPES p pts w)"
  have len: "off + ?n \<le> length data"
    using drop_length_le [OF assms(1)] by (simp add: videoPES_shape)
  then have off: "off < length data" using length_videoPES [of p pts w] by (auto split: if_splits)
  obtain d1 where d1: "establishClockOffset (d\<lparr>d_currentPTS := t\<rparr>) (drop off data) t = Some d1"
    "bufs d1 = bufs (d\<lparr>d_currentPTS := t\<rparr>)" using establishClockOffset_total by blast
  have "parseVideoPES (drop off data) = Some (Inr (p, ?n))"
    using parse_videoPES [OF assms(2,4)] assms(1) by simp
  then have "feed_video d data off t = Some (Advance (es_append d1 p) (off + ?n))"
    using feed_video_Inr [of off data p ?n d t] d1 off len assms(3) by simp
  moreover have "feed_step d data off t = feed_video d data off t"
    using feed_step_head [of off data "0xE0" "drop 4 (videoPES p pts w) @ post" d t] assms(1) off
    by (simp add: videoPES_shape is_ps_code_def is_video_id_def is_audio_id_def ps_consts)
  moreover have "bufs (es_append d1 p) = bufs (es_append d p)"
    using d1(2) by (auto simp: bufs_def es_append_def Let_def)
  ultimately show ?thesis by auto
qed

subsection \<open>The packets of one access unit\<close>

lemma es_append_small:
  "length (d_esBuf d) + length p \<le> maxESBufBytes \<Longrightarrow> es_append d p = d\<lparr>d_esBuf := d_esBuf d @ p\<rparr>"
  by (simp add: es_append_def)

lemma feed_loop_pes:
  assumes "drop off data = videoPES p pts w @ post" and "w \<longrightarrow> starts_with_code p" and "p \<noteq> []"
    and "length p \<le> maxPESPayload" and "length (d_esBuf d) + length p \<le> maxESBufBytes"
  shows "\<exists>d'. feed_loop d data off t = feed_loop d' data (off + length (videoPES p pts w)) t
    \<and> bufs d' = bufs (d\<lparr>d_esBuf := d_esBuf d @ p\<rparr>)"
proof -
  have "off < length data"
    using assms(1) by (intro not_le_imp_less notI) (simp add: videoPES_shape)
  then show ?thesis
    using feed_step_videoPES [OF assms(1-4)] feed_loop_advance es_append_small [OF assms(5)] by metis
qed

lemma feed_loop_chunks:
  assumes "drop off data = concat (map (\<lambda>c. videoPES c 0 False) cs)"
    and "\<forall>c \<in> set cs. c \<noteq> [] \<and> length c \<le> maxPESPayload"
    and "length (d_esBuf d) + length (concat cs) \<le> maxESBufBytes"
  shows "\<exists>d'. feed_loop d data off t = Some d' \<and> bufs d' = bufs (d\<lparr>d_esBuf := d_esBuf d @ concat cs\<rparr>)"
  using assms
proof (induction cs arbitrary: off d)
  case Nil
  then show ?case by (simp add: feed_loop_end)
next
  case (Cons c cs)
  let ?k = "length (videoPES c 0 False)"
  obtain d1 where d1: "feed_loop d data off t = feed_loop d1 data (off + ?k) t"
    "bufs d1 = bufs (d\<lparr>d_esBuf := d_esBuf d @ c\<rparr>)"
    using feed_loop_pes [of off data c 0 False _ d t] Cons.prems by auto
  have "drop (off + ?k) data = concat (map (\<lambda>c. videoPES c 0 False) cs)"
    using arg_cong [OF Cons.prems(1), of "drop ?k"] by (simp add: add.commute)
  moreover have "d_esBuf d1 = d_esBuf d @ c" using d1(2) by (simp add: bufs_def)
  ultimately obtain d2 where "feed_loop d1 data (off + ?k) t = Some d2"
    "bufs d2 = bufs (d1\<lparr>d_esBuf := d_esBuf d1 @ concat cs\<rparr>)"
    using Cons.IH [of "off + ?k" d1] Cons.prems by auto
  then show ?case using d1 \<open>d_esBuf d1 = d_esBuf d @ c\<close> by (auto simp: bufs_def)
qed

lemma feed_loop_burst:
  assumes "drop off data = pes_burst annexB pts" and "starts_with_code annexB"
    and "length (d_esBuf d) + length annexB \<le> maxESBufBytes"
  shows "\<exists>d'. feed_loop d data off t = Some d' \<and> bufs d' = bufs (d\<lparr>d_esBuf := d_esBuf d @ annexB\<rparr>)"
proof -
  let ?n = maxPESPayload
  have ne: "annexB \<noteq> []" using assms(2) by (auto simp: starts_with_code_def prefix001_def sc4_def)
  let ?c = "take ?n annexB" and ?cs = "chunks ?n (drop ?n annexB)"
  have pos: "4 \<le> ?n" by (simp add: maxPESPayload_def)
  have burst: "drop off data = videoPES ?c pts True @ concat (map (\<lambda>c. videoPES c 0 False) ?cs)"
    using assms(1) ne pos by (simp add: pes_burst_def chunks_step)
  have all: "annexB = ?c @ concat ?cs" using pos by (simp add: concat_chunks)
  then have len: "length annexB = length ?c + length (concat ?cs)" by (metis length_append)
  obtain d1 where d1: "feed_loop d data off t = feed_loop d1 data (off + length (videoPES ?c pts True)) t"
    "bufs d1 = bufs (d\<lparr>d_esBuf := d_esBuf d @ ?c\<rparr>)"
  proof -
    have "length (d_esBuf d) + length ?c \<le> maxESBufBytes" using len assms(3) by linarith
    moreover have "?c \<noteq> []" "length ?c \<le> ?n" using ne pos by auto
    ultimately show ?thesis
      using that feed_loop_pes [OF burst, of d t] starts_with_code_take [OF assms(2) pos] by blast
  qed
  have es: "d_esBuf d1 = d_esBuf d @ ?c" using d1(2) by (simp add: bufs_def)
  have "drop (off + length (videoPES ?c pts True)) data = concat (map (\<lambda>c. videoPES c 0 False) ?cs)"
    using arg_cong [OF burst, of "drop (length (videoPES ?c pts True))"] by (simp add: add.commute)
  then obtain d2 where "feed_loop d1 data (off + length (videoPES ?c pts True)) t = Some d2"
    "bufs d2 = bufs (d1\<lparr>d_esBuf := d_esBuf d1 @ concat ?cs\<rparr>)"
  proof -
    have "length (d_esBuf d1) = length (d_esBuf d) + length ?c" unfolding es by (rule length_append)
    then have cap: "length (d_esBuf d1) + length (concat ?cs) \<le> maxESBufBytes"
      using len assms(3) by linarith
    have bnd: "\<forall>c \<in> set ?cs. c \<noteq> [] \<and> length c \<le> ?n" using chunks_bounds by blast
    show ?thesis
      using that feed_loop_chunks [OF \<open>drop (off + length (videoPES ?c pts True)) data = _\<close> bnd cap]
      by blast
  qed
  moreover have "d_esBuf d1 @ concat ?cs = d_esBuf d @ annexB"
    unfolding es append_assoc all [symmetric] ..
  ultimately show ?thesis using d1 by (auto simp: bufs_def)
qed

subsection \<open>An access unit through muxer and demuxer\<close>

text \<open>The codec name the demuxer latches for the muxer's stream type.\<close>

definition latched_codec :: "byte \<Rightarrow> string" where
  "latched_codec v = (if v = st_H264 then ''h264'' else if v = st_H265 then ''h265'' else ''svac'')"

lemma bufs_latch:
  "v \<in> {st_H264, st_H265, st_SVACV} \<Longrightarrow>
   bufs (latch_audio (latch_video d (Some v)) es) = bufs (d\<lparr>d_naluType := latched_codec v\<rparr>)"
  by (auto simp: bufs_def latch_audio_def latch_video_def latched_codec_def st_consts Let_def)

lemma pes_burst_hd: "pes_burst annexB pts \<noteq> [] \<and> hd (pes_burst annexB pts) = 0"
  by (simp add: pes_burst_def videoPES_shape split: list.split)

text \<open>The headers in front of the packets, for an IDR picture or not.\<close>

lemma feed_loop_headers:
  assumes v: "videoType m \<in> {st_H264, st_H265, st_SVACV}"
    and data: "data = packHeader pts
     @ (if isIDR then systemHeader (videoType m) (audioType m)
          @ (if psmDirty m then psm (videoType m) (audioType m) else []) else []) @ burst"
    and burst: "burst \<noteq> []" "hd burst = 0"
  shows "\<exists>d' off. feed_loop d data 0 t = feed_loop d' data off t \<and> drop off data = burst
     \<and> bufs d' = bufs (d\<lparr>d_naluType := if isIDR \<and> psmDirty m then latched_codec (videoType m)
                                        else d_naluType d\<rparr>)"
proof -
  let ?v = "videoType m" and ?a = "audioType m"
  let ?sys = "systemHeader ?v ?a" and ?psm = "psm ?v ?a"
  let ?mid = "if isIDR then ?sys @ (if psmDirty m then ?psm else []) else []"
  have sys0: "?sys \<noteq> []" "hd ?sys = 0" by (simp_all add: systemHeader_def Let_def)
  have "hd (?mid @ burst) = 0" using burst sys0 by auto
  then have pack: "feed_loop d data 0 t = feed_loop d data 14 t"
    using feed_step_packHeader [of 0 data pts "?mid @ burst" d t] data burst
    by (intro feed_loop_advance) auto
  have d14: "drop 14 data = ?mid @ burst" by (simp add: data)
  show ?thesis
  proof (cases isIDR)
    case False
    then show ?thesis using pack d14 by (intro exI [of _ d] exI [of _ 14]) (simp add: bufs_def)
  next
    case True
    let ?s = "14 + length ?sys"
    have "feed_loop d data 14 t = feed_loop d data ?s t"
      using feed_step_systemHeader [of 14 data ?v ?a _ d t] True d14 burst
      by (intro feed_loop_advance) (auto simp: data)
    then have sys: "feed_loop d data 0 t = feed_loop d data ?s t" using pack by simp
    have ds: "drop ?s data = (if psmDirty m then ?psm else []) @ burst" using True by (simp add: data)
    show ?thesis
    proof (cases "psmDirty m")
      case False
      then show ?thesis using sys ds by (intro exI [of _ d] exI [of _ ?s]) (simp add: bufs_def)
    next
      case dirty: True
      obtain es where es: "audioStreamTypes (psm_body ?v ?a) = Some es"
        using audioStreamTypes_total by blast
      let ?d = "latch_audio (latch_video d (Some ?v)) es"
      have "feed_loop d data ?s t = feed_loop ?d data (?s + length ?psm) t"
        using feed_step_psm [of ?s data ?v ?a burst es d t] dirty ds v es burst True
        by (intro feed_loop_advance) (auto simp: data)
      moreover have "drop (?s + length ?psm) data = burst" using True dirty by (simp add: data)
      ultimately show ?thesis
        using sys True dirty bufs_latch [OF v, of d es]
        by (intro exI [of _ ?d] exI [of _ "?s + length ?psm"]) simp
    qed
  qed
qed

text \<open>A demuxer at an access-unit boundary.\<close>

definition au_ready :: "psdemuxer \<Rightarrow> bool" where
  "au_ready d \<longleftrightarrow> no_pending d \<and> d_esBuf d = []"

lemma clear_pending_ready: "no_pending d \<Longrightarrow> bufs (clear_pending d) = bufs d"
  by (simp add: no_pending_def clear_pending_def bufs_def)

lemma feed_finish_ready:
  assumes "bufs d = ([], [], [], es, nt)" and "es \<noteq> []" and "extractNALUs es nt = Some ns"
  shows "feed_finish d True = Some (maybeLatchCodecFromNALUs (d\<lparr>d_esBuf := []\<rparr>) ns, ns)"
  using assms by (simp add: feed_finish_def bufs_def)

lemma maybeLatch_codec:
  "d_naluType (maybeLatchCodecFromNALUs d ns) \<in> {d_naluType d, ''h264'', ''h265''}"
  by (induction d ns rule: maybeLatchCodecFromNALUs.induct) (auto split: list.splits)

lemma maybeLatch_set: "d_naluType d \<noteq> '''' \<Longrightarrow> maybeLatchCodecFromNALUs d ns = d"
  by (cases ns) simp_all

lemma WriteAU_FeedAU:
  assumes "au_ready d" and "videoType m \<in> {st_H264, st_H265, st_SVACV}"
    and "starts_with_code annexB" and "length annexB \<le> maxESBufBytes"
    and "extractNALUs annexB (if isIDR \<and> psmDirty m then latched_codec (videoType m)
                                else d_naluType d) = Some ns"
  shows "\<exists>d'. FeedAU d (fst (WriteAU m annexB pts isIDR)) t True = Some (d', ns) \<and> au_ready d'
    \<and> d_naluType d' \<in> {if isIDR \<and> psmDirty m then latched_codec (videoType m) else d_naluType d,
                        ''h264'', ''h265''}
    \<and> ((if isIDR \<and> psmDirty m then latched_codec (videoType m) else d_naluType d) \<noteq> '''' \<longrightarrow>
        d_naluType d' = (if isIDR \<and> psmDirty m then latched_codec (videoType m) else d_naluType d))"
proof -
  let ?ps = "fst (WriteAU m annexB pts isIDR)" and ?d = "clear_pending d"
  let ?nt = "if isIDR \<and> psmDirty m then latched_codec (videoType m) else d_naluType d"
  have es: "d_esBuf ?d = []" "d_naluType ?d = d_naluType d"
    using assms(1) by (auto simp: au_ready_def clear_pending_def)
  obtain d1 off where d1: "feed_loop ?d ?ps 0 t = feed_loop d1 ?ps off t"
    "drop off ?ps = pes_burst annexB pts" "bufs d1 = bufs (?d\<lparr>d_naluType := ?nt\<rparr>)"
    using feed_loop_headers [OF assms(2) WriteAU_bytes, of annexB pts ?d isIDR t] pes_burst_hd es
    by metis
  moreover have "d_esBuf d1 = []" using d1(3) es by (simp add: bufs_def)
  ultimately obtain d2 where d2: "feed_loop ?d ?ps 0 t = Some d2" "bufs d2 = bufs (d1\<lparr>d_esBuf := annexB\<rparr>)"
    using feed_loop_burst [of off ?ps annexB pts d1 t] assms(3,4) by auto
  then have b2: "bufs d2 = ([], [], [], annexB, ?nt)"
    using d1(3) by (simp add: bufs_def clear_pending_def)
  have "annexB \<noteq> []" using assms(3) by (auto simp: starts_with_code_def prefix001_def sc4_def)
  then have fin: "feed_finish d2 True = Some (maybeLatchCodecFromNALUs (d2\<lparr>d_esBuf := []\<rparr>) ns, ns)"
    using feed_finish_ready [OF b2] assms(5) by simp
  have "feed_data d ?ps = ?ps" using assms(1) by (simp add: feed_data_def au_ready_def no_pending_def)
  moreover have "?ps \<noteq> []" using pes_burst_hd by (auto simp: WriteAU_bytes)
  ultimately have "FeedAU d ?ps t True = Some (maybeLatchCodecFromNALUs (d2\<lparr>d_esBuf := []\<rparr>) ns, ns)"
    using d2 fin by (simp add: FeedAU_def)
  then show ?thesis
    using b2 maybeLatch_codec [of "d2\<lparr>d_esBuf := []\<rparr>" ns] maybeLatch_set [of "d2\<lparr>d_esBuf := []\<rparr>" ns]
    by (auto simp: au_ready_def no_pending_def maybeLatch_bufs bufs_def)
qed

subsection \<open>A session\<close>

text \<open>One access unit as the sender sees it: its NAL units with their start codes, timestamp, IDR flag.\<close>

record sent_au =
  au_units :: "(bool \<times> bytes) list"
  au_pts :: i64
  au_idr :: bool

definition au_ok :: "sent_au \<Rightarrow> bool" where
  "au_ok au \<longleftrightarrow> au_units au \<noteq> [] \<and> (\<forall>u \<in> set (au_units au). nal_safe (snd u))
     \<and> length (annexB_stream (au_units au)) \<le> maxESBufBytes"

fun mux_session :: "muxer \<Rightarrow> sent_au list \<Rightarrow> bytes list" where
  "mux_session m [] = []"
| "mux_session m (au # aus) =
     (let (ps, m') = WriteAU m (annexB_stream (au_units au)) (au_pts au) (au_idr au)
      in ps # mux_session m' aus)"

fun feed_session :: "psdemuxer \<Rightarrow> (bytes \<times> i64) list \<Rightarrow> bytes list list go" where
  "feed_session d [] = Some []"
| "feed_session d ((ps, t) # rest) = do {
     (d, ns) \<leftarrow> FeedAU d ps t True;
     nss \<leftarrow> feed_session d rest;
     Some (ns # nss) }"

lemma feed_session_mux:
  assumes "au_ready d" and "d_naluType d \<noteq> ''svac''" and "videoType m \<in> {st_H264, st_H265}"
    and "\<forall>au \<in> set aus. au_ok au" and "length ts = length aus"
  shows "feed_session d (zip (mux_session m aus) ts) = Some (map (map snd \<circ> au_units) aus)"
  using assms
proof (induction aus arbitrary: d m ts)
  case Nil
  then show ?case by simp
next
  case (Cons au aus)
  obtain t ts' where ts: "ts = t # ts'" using Cons.prems(5) by (cases ts) auto
  let ?s = "annexB_stream (au_units au)"
  let ?nt = "if au_idr au \<and> psmDirty m then latched_codec (videoType m) else d_naluType d"
  obtain ps m' where w: "WriteAU m ?s (au_pts au) (au_idr au) = (ps, m')"
    by (cases "WriteAU m ?s (au_pts au) (au_idr au)")
  have ok: "au_ok au" using Cons.prems(4) by simp
  have nt: "?nt \<noteq> ''svac''" using Cons.prems(2,3) by (auto simp: latched_codec_def)
  have ex: "extractNALUs ?s ?nt = Some (map snd (au_units au))"
    using extractNALUs_stream [OF _ nt] ok by (simp add: au_ok_def)
  have "\<exists>d'. FeedAU d ps t True = Some (d', map snd (au_units au)) \<and> au_ready d'
      \<and> d_naluType d' \<in> {?nt, ''h264'', ''h265''}"
    using WriteAU_FeedAU [of d m ?s "au_idr au" _ "au_pts au" t, OF Cons.prems(1) _ _ _ ex]
      Cons.prems(3) ok starts_with_code_stream w
    by (auto simp: au_ok_def)
  then obtain d' where d': "FeedAU d ps t True = Some (d', map snd (au_units au))" "au_ready d'"
    "d_naluType d' \<noteq> ''svac''" using nt by auto
  have "videoType m' = videoType m"
    using WriteAU_state [of m ?s "au_pts au" "au_idr au"] w by (auto split: if_splits)
  then show ?case using Cons.IH [OF d'(2,3), of m' ts'] Cons.prems w d'(1) ts by simp
qed

lemma au_ready_New: "au_ready NewPSDemuxer" "d_naluType NewPSDemuxer = ''''"
  by (simp_all add: au_ready_def no_pending_def NewPSDemuxer_def)

lemma SetVideoCodec_type:
  "codec \<noteq> ''svac'' \<Longrightarrow> videoType (SetVideoCodec m codec) \<in> {st_H264, st_H265}"
  by (simp add: SetVideoCodec_def mux_consts st_consts)

subsection \<open>Timestamps\<close>

lemma bit_16_low: "n - 30 < 3 \<Longrightarrow> \<not> bit (16 :: 64 word) (n - 30)"
  using bit_exp_iff [of 4 "n - 30", where 'a = "64 word"] by simp

lemma pts_fields:
  fixes p pts :: "64 word"
  assumes p: "p = pts AND mask 33"
  shows "push_bit 30 (drop_bit 1 (ucast (0x21 OR push_bit 1 (ucast (drop_bit 30 p AND 0x07)) OR (1 :: 8 word))) AND 0x07)
     OR push_bit 22 (ucast (ucast (drop_bit 22 p) :: 8 word))
     OR push_bit 15 (drop_bit 1 (ucast ((ucast (drop_bit 14 p) AND 0xFE) OR (1 :: 8 word))))
     OR push_bit 7 (ucast (ucast (drop_bit 7 p) :: 8 word))
     OR drop_bit 1 (ucast ((ucast (push_bit 1 p) AND 0xFE) OR (1 :: 8 word))) = p" (is "?lhs = p")
proof (rule bit_word_eqI)
  fix n assume n: "n < LENGTH(64)"
  have c: "(0xFE :: 8 word) = NOT 1" "(7 :: 64 word) = mask 3" "(0x21 :: 8 word) = push_bit 5 1 OR 1"
    by (simp_all add: mask_eq_exp_minus_1)
  consider "n < 7" | "7 \<le> n" "n < 15" | "15 \<le> n" "n < 22" | "22 \<le> n" "n < 30"
    | "30 \<le> n" "n < 33" | "33 \<le> n" by linarith
  then show "bit ?lhs n = bit p n"
    unfolding c p
    by cases (use n in \<open>auto simp: bit_simps simp del: push_bit_Suc dest: bit_16_low [THEN notE]\<close>)
qed

lemma parsePESPTS_encodePTS:
  assumes "data = hdr @ encodePTS pts @ rest" and "length hdr = 9" and "hdr ! 7 AND 0x80 \<noteq> 0"
  shows "parsePESPTS data = Some (Some (pts AND 0x1FFFFFFFF))"
proof -
  define p where "p = pts AND 0x1FFFFFFFF"
  have "p = pts AND mask 33" by (simp add: p_def mask_eq_exp_minus_1)
  note pts = pts_fields [OF this]
  have enc: "encodePTS pts =
      [0x21 OR push_bit 1 (ucast (drop_bit 30 p AND 0x07)) OR 1, ucast (drop_bit 22 p),
       (ucast (drop_bit 14 p) AND 0xFE) OR 1, ucast (drop_bit 7 p), (ucast (push_bit 1 p) AND 0xFE) OR 1]"
    by (simp only: encodePTS_def Let_def p_def)
  have "drop 9 (take 14 data) = encodePTS pts" "data ! 7 = hdr ! 7" "14 \<le> length data"
    using assms by (auto simp: nth_append)
  then show ?thesis
    unfolding p_def [symmetric] enc using assms(3) pts by (simp add: parsePESPTS_def)
qed

subsection \<open>Audio\<close>

lemma parse_audioPES:
  assumes "length payload + 8 < 65536"
  shows "parseAudioPES (audioPES payload pts @ post) =
    Some (Inr (payload, Some (pts AND 0x1FFFFFFFF), length (audioPES payload pts)))"
proof -
  let ?n = "8 + length payload"
  let ?hdr = "[0, 0, 1, 0xC0] @ put16 ?n @ [0x80, 0x80, 5]"
  define d where "d = audioPES payload pts @ post"
  have d: "d = ?hdr @ encodePTS pts @ payload @ post" by (simp add: d_def audioPES_def audioStreamID_def)
  have pts: "parsePESPTS d = Some (Some (pts AND 0x1FFFFFFFF))"
    by (rule parsePESPTS_encodePTS [OF d]) (simp_all add: put16_def)
  have nth: "prefix001 d 0" "d ! 3 = 0xC0" "be16 (d ! 4) (d ! 5) = ?n" "d ! 8 = 5"
    "14 + length payload \<le> length d"
    using assms put16_be16_hi_lo [of ?n] by (simp_all add: d put16_def prefix001_def)
  have n: "length (audioPES payload pts) = 6 + ?n" by (simp add: audioPES_def)
  then have "take (6 + ?n) d = audioPES payload pts" by (simp add: d_def)
  then have cut: "drop 14 (take (6 + ?n) d) = payload" by (simp add: audioPES_def)
  show ?thesis
    unfolding d_def [symmetric] using nth pts cut n
    by (simp add: parseAudioPES_def Let_def is_audio_id_def ps_consts)
qed

text \<open>The clock of an audio frame: the PES timestamp moved by the offset of the two clocks.\<close>

definition frame_clock :: "psdemuxer \<Rightarrow> i64 \<Rightarrow> i64 \<Rightarrow> i64" where
  "frame_clock d p t = (if d_ptsOffsetSet d \<and> \<not> p - d_ptsOffset d <s 0 then p - d_ptsOffset d else t)"

lemma emitAudio_g711:
  assumes "d_audioCodecs d sid = Some codec" and "codec \<in> {''g711a'', ''g711u''}"
  shows "\<exists>d'. emitAudio d payload sid (Some p) t = Some d' \<and> bufs d' = bufs d \<and>
    d_audioOut d' = d_audioOut d @ [\<lparr>af_codec = codec, af_data = payload, af_config = None,
      af_pts = frame_clock d p t, af_samples = length payload\<rparr>]"
  using assms
  by (auto simp: emitAudio_def map_get_def audio_pts_def frame_clock_def bufs_def Let_def)

lemma feed_loop_WriteAudio:
  assumes "d_audioCodecs d 0xC0 = Some codec" and "codec \<in> {''g711a'', ''g711u''}"
    and "payload \<noteq> []" and "length payload + 8 < 65536"
  shows "\<exists>d'. feed_loop d (WriteAudio payload pts) 0 t = Some d' \<and> bufs d' = bufs d \<and>
    d_audioOut d' = d_audioOut d @ [\<lparr>af_codec = codec, af_data = payload, af_config = None,
      af_pts = frame_clock d (pts AND 0x1FFFFFFFF) t, af_samples = length payload\<rparr>]"
proof -
  let ?data = "WriteAudio payload pts" and ?pes = "audioPES payload pts"
  have pack: "feed_loop d ?data 0 t = feed_loop d ?data 14 t"
    using feed_step_packHeader [of 0 ?data pts ?pes d t]
    by (intro feed_loop_advance) (auto simp: WriteAudio_def audioPES_def)
  have d14: "drop 14 ?data = ?pes" "14 < length ?data" "length ?data = 14 + length ?pes"
    by (simp_all add: WriteAudio_def audioPES_def)
  obtain d' where d': "emitAudio d payload 0xC0 (Some (pts AND 0x1FFFFFFFF)) t = Some d'" "bufs d' = bufs d"
    "d_audioOut d' = d_audioOut d @ [\<lparr>af_codec = codec, af_data = payload, af_config = None,
      af_pts = frame_clock d (pts AND 0x1FFFFFFFF) t, af_samples = length payload\<rparr>]"
    using emitAudio_g711 [OF assms(1,2)] by blast
  have "feed_audio d ?data 14 0xC0 t = Some (Advance d' (14 + length ?pes))"
    using feed_audio_Inr [of 14 ?data payload _ "length ?pes" d "0xC0" t]
      parse_audioPES [OF assms(4), of pts "[]"] d14 d' assms(3) by simp
  moreover have "feed_step d ?data 14 t = feed_audio d ?data 14 0xC0 t"
    using feed_step_head [of 14 ?data "0xC0" "drop 4 ?pes" d t] d14
    by (simp add: audioPES_def audioStreamID_def is_ps_code_def is_audio_id_def ps_consts)
  ultimately have "feed_loop d ?data 14 t = Some d'"
    using d14 feed_loop_advance [of 14 ?data d t d' "length ?data"] by (simp add: feed_loop_end)
  then show ?thesis using pack d' by simp
qed

subsection \<open>Properties\<close>

text \<open>
  C2: a whole session of access units survives the wire format. For every codec but SVAC and every
  sequence of access units (each a non-empty Annex-B stream of NAL units of at most 8 MiB, IDR or not,
  of any number of PES packets), the program streams that successive \<open>WriteAU\<close> calls of one muxer
  produce, fed call by call to one fresh demuxer, give back exactly the NAL units of each access unit,
  without a panic.
\<close>

theorem session_roundtrip:
  assumes "codec \<noteq> ''svac''" and "\<forall>au \<in> set aus. au_ok au" and "length ts = length aus"
  shows "feed_session NewPSDemuxer (zip (mux_session (SetVideoCodec New_muxer codec) aus) ts)
    = Some (map (map snd \<circ> au_units) aus)"
  using assms SetVideoCodec_type by (intro feed_session_mux) (simp_all add: au_ready_New)

theorem session_roundtrip_witness:
  "feed_session NewPSDemuxer (zip (mux_session (SetVideoCodec New_muxer ''h264'')
      [\<lparr>au_units = [(True, [0x67, 1]), (False, [0x65, 2])], au_pts = 3000, au_idr = True\<rparr>,
       \<lparr>au_units = [(True, [0x41, 3])], au_pts = 6000, au_idr = False\<rparr>]) [10, 20])
    = Some [[[0x67, 1], [0x65, 2]], [[0x41, 3]]]"
  using session_roundtrip [of "''h264''"
      "[\<lparr>au_units = [(True, [0x67, 1]), (False, [0x65, 2])], au_pts = 3000, au_idr = True\<rparr>,
       \<lparr>au_units = [(True, [0x41, 3])], au_pts = 6000, au_idr = False\<rparr>]" "[10, 20]"]
  by (simp add: au_ok_def nal_safe_def prefix001_def start_code_def maxESBufBytes_def)

text \<open>
  the presentation timestamp written by the muxer is read back by the demuxer, modulo the 33 bits
  of the field, from video and from audio packets, whatever the payload.
\<close>

theorem pts_roundtrip:
  "parsePESPTS (videoPES payload pts True) = Some (Some (pts AND 0x1FFFFFFFF))
   \<and> parsePESPTS (audioPES payload pts) = Some (Some (pts AND 0x1FFFFFFFF))"
  using parsePESPTS_encodePTS [of _ "[0, 0, 1, 0xE0] @ put16 (8 + length payload) @ [0x80, 0x80, 5]"]
    parsePESPTS_encodePTS [of _ "[0, 0, 1, 0xC0] @ put16 (8 + length payload) @ [0x80, 0x80, 5]"]
  by (simp add: videoPES_shape audioPES_def audioStreamID_def put16_def)

text \<open>
  one G.711 packet through \<open>WriteAudio\<close> and \<open>FeedAU\<close>, at an access-unit boundary and with the
  stream's codec known from the map, appends exactly one frame to the audio queue: the payload byte
  for byte, one sample per byte, and the packet's timestamp on the video clock. Video state is left
  alone.
\<close>

theorem audio_roundtrip:
  assumes "au_ready d" and "d_audioCodecs d 0xC0 = Some codec" and "codec \<in> {''g711a'', ''g711u''}"
    and "payload \<noteq> []" and "length payload + 8 < 65536"
  shows "\<exists>d'. FeedAU d (WriteAudio payload pts) t complete = Some (d', []) \<and> au_ready d'
    \<and> DrainAudio d' = (d'\<lparr>d_audioOut := []\<rparr>, d_audioOut d @
        [\<lparr>af_codec = codec, af_data = payload, af_config = None,
          af_pts = frame_clock d (pts AND 0x1FFFFFFFF) t, af_samples = length payload\<rparr>])"
proof -
  let ?d = "clear_pending d"
  have fc: "frame_clock ?d = frame_clock d" "d_audioOut ?d = d_audioOut d" "d_audioCodecs ?d = d_audioCodecs d"
    by (auto simp: frame_clock_def clear_pending_def fun_eq_iff)
  obtain d' where d': "feed_loop ?d (WriteAudio payload pts) 0 t = Some d'" "bufs d' = bufs ?d"
    "d_audioOut d' = d_audioOut d @ [\<lparr>af_codec = codec, af_data = payload, af_config = None,
      af_pts = frame_clock d (pts AND 0x1FFFFFFFF) t, af_samples = length payload\<rparr>]"
    using feed_loop_WriteAudio [of ?d codec payload pts t] assms fc by auto
  have "feed_data d (WriteAudio payload pts) = WriteAudio payload pts" "WriteAudio payload pts \<noteq> []"
    using assms(1) by (auto simp: feed_data_def au_ready_def no_pending_def WriteAudio_def audioPES_def)
  moreover have "feed_finish d' complete = Some (d', [])"
    using d'(2) assms(1) clear_pending_ready [of d] by (simp add: feed_finish_def bufs_def au_ready_def no_pending_def)
  moreover have "au_ready d'"
    using d'(2) assms(1) clear_pending_ready [of d] by (simp add: bufs_def au_ready_def no_pending_def)
  ultimately show ?thesis using d' by (simp add: FeedAU_def DrainAudio_def)
qed

theorem audio_roundtrip_witness:
  "\<exists>d'. FeedAU (NewPSDemuxer\<lparr>d_audioCodecs := [0xC0 \<mapsto> ''g711a'']\<rparr>) (WriteAudio [0xD5, 0xD5] 90000) 7 False
      = Some (d', []) \<and> map af_data (d_audioOut d') = [[0xD5, 0xD5]]"
  using audio_roundtrip [of "NewPSDemuxer\<lparr>d_audioCodecs := [0xC0 \<mapsto> ''g711a'']\<rparr>" "''g711a''"
      "[0xD5, 0xD5]" 90000 7 False]
  by (auto simp: au_ready_def no_pending_def NewPSDemuxer_def DrainAudio_def)

text \<open>
  a receiver that runs the same CRC over the whole body of an emitted program stream map, its CRC
  field included, gets zero; and the map announces the length it has.
\<close>

theorem psm_crc_valid:
  "crc32MPEG (drop 6 (psm v a)) = 0 \<and> parsePSM (psm v a @ rest) = Some (Inr (length (psm v a)))"
proof
  let ?b = "[0xE0, 0xFF, 0, 0] @ put16 (length (psm_esm v a)) @ psm_esm v a"
  have "drop 6 (psm v a) = ?b @ put32 (crc32MPEG ?b)" by (simp add: psm_def Let_def)
  then show "crc32MPEG (drop 6 (psm v a)) = 0" by (simp only: crc32MPEG_residue)
  have "parsePSM ([0, 0, 1, startCodePSM] @ put16 (length b) @ b @ rest) = Some (Inr (6 + length b))"
    if "length b = (if a = 0 then 14 else 18)" for b
    using that by (simp add: parsePSM_def put16_def Let_def)
  then show "parsePSM (psm v a @ rest) = Some (Inr (length (psm v a)))"
    using psm_shape(2) [of v a] by (subst (1 2) psm_shape(1)) simp
qed

end
