(* ===== verification/Rtp_Send.thy ===== *)
theory Rtp_Send
  imports Gb_Prelude Ps_Mux
begin

text \<open>
  The RTP packetizer of \<open>src/psmux/rtp.go\<close>. The connection is a parameter: \<open>wr\<close> says whether a
  write succeeds after the writes made so far, which the record keeps in \<open>pz_out\<close>. The marshaller of
  \<open>pion/rtp\<close>, the payload cipher and the signer are parameters too.
\<close>

datatype send_error = ErrSend | ErrSign | ErrExtension | ErrMarshal

record rtp_out =
  ro_payloadType :: byte
  ro_marker :: bool
  ro_seq :: u16
  ro_timestamp :: u32
  ro_ssrc :: u32
  ro_ext :: "bytes option"
  ro_payload :: bytes

record packetizer =
  pz_udp :: bool
  pz_ssrc :: u32
  pz_seq :: u16
  pz_payloadTyp :: byte
  pz_sent :: u64
  pz_cryptor :: "(bytes \<Rightarrow> u32 \<Rightarrow> u16 \<Rightarrow> bytes) option"
  pz_signer :: "(bytes \<Rightarrow> u32 \<Rightarrow> u32 \<Rightarrow> bytes option option) option"
  pz_out :: "bytes list"

definition RTPMTU :: nat where "RTPMTU = 1400"

definition NewRTPPacketizer :: "u32 \<Rightarrow> u16 \<Rightarrow> packetizer" where
  "NewRTPPacketizer ssrc initialSeq =
     \<lparr>pz_udp = True, pz_ssrc = ssrc, pz_seq = initialSeq, pz_payloadTyp = 96, pz_sent = 0,
      pz_cryptor = None, pz_signer = None, pz_out = []\<rparr>"

definition NewRTPPacketizerTCP :: "u32 \<Rightarrow> u16 \<Rightarrow> packetizer" where
  "NewRTPPacketizerTCP ssrc initialSeq =
     \<lparr>pz_udp = False, pz_ssrc = ssrc, pz_seq = initialSeq, pz_payloadTyp = 96, pz_sent = 0,
      pz_cryptor = None, pz_signer = None, pz_out = []\<rparr>"

definition SetSecurity where
  "SetSecurity p cryptor signer = p\<lparr>pz_cryptor := cryptor, pz_signer := signer\<rparr>"

text \<open>The twelve header bytes of \<open>sendPlain\<close>.\<close>

definition plain_header :: "byte \<Rightarrow> bool \<Rightarrow> u16 \<Rightarrow> i64 \<Rightarrow> u32 \<Rightarrow> bytes" where
  "plain_header pt marker seq tsTicks ssrc =
     [0x80, (if marker then pt OR 0x80 else pt),
      ucast (drop_bit 8 seq), ucast seq,
      ucast (signed_drop_bit 24 tsTicks), ucast (signed_drop_bit 16 tsTicks),
      ucast (signed_drop_bit 8 tsTicks), ucast tsTicks,
      ucast (drop_bit 24 ssrc), ucast (drop_bit 16 ssrc), ucast (drop_bit 8 ssrc), ucast ssrc]"

text \<open>The datagram as it is, or behind the two-byte length of RFC 4571.\<close>

definition framed_out :: "packetizer \<Rightarrow> bytes \<Rightarrow> bytes" where
  "framed_out p pkt = (if pz_udp p then pkt else put16 (length pkt) @ pkt)"

type_synonym send_result = "packetizer \<times> send_error option"

function plain_loop :: "(bytes list \<Rightarrow> bytes \<Rightarrow> bool) \<Rightarrow> packetizer \<Rightarrow> bytes \<Rightarrow> i64 \<Rightarrow> nat \<Rightarrow> send_result" where
  "plain_loop wr p ps tsTicks off =
     (if off < length ps
      then let end' = (if off + RTPMTU > length ps then length ps else off + RTPMTU);
               marker = (end' = length ps);
               pkt = plain_header (pz_payloadTyp p) marker (pz_seq p) tsTicks (pz_ssrc p)
                       @ drop off (take end' ps);
               p = p\<lparr>pz_seq := pz_seq p + 1\<rparr>;
               data = framed_out p pkt
           in if wr (pz_out p) data
              then plain_loop wr (p\<lparr>pz_out := pz_out p @ [data], pz_sent := pz_sent p + 1\<rparr>) ps tsTicks (off + RTPMTU)
              else (p, Some ErrSend)
      else (p, None))"
  by pat_completeness auto
termination
  by (relation "measure (\<lambda>(wr, p, ps, ts, off). length ps - off)") (auto simp: RTPMTU_def)

declare plain_loop.simps [simp del]

definition sendPlain :: "(bytes list \<Rightarrow> bytes \<Rightarrow> bool) \<Rightarrow> packetizer \<Rightarrow> bytes \<Rightarrow> i64 \<Rightarrow> send_result" where
  "sendPlain wr p ps tsTicks = plain_loop wr p ps tsTicks 0"

text \<open>One packet of \<open>sendSecured\<close>, before marshalling.\<close>

definition secured_packet :: "packetizer \<Rightarrow> bytes \<Rightarrow> bool \<Rightarrow> i64 \<Rightarrow> bytes option \<Rightarrow> rtp_out" where
  "secured_packet p frag marker tsTicks sigDER =
     \<lparr>ro_payloadType = pz_payloadTyp p, ro_marker = marker, ro_seq = pz_seq p,
      ro_timestamp = ucast tsTicks, ro_ssrc = pz_ssrc p,
      ro_ext = (if marker then sigDER else None),
      ro_payload = (case pz_cryptor p of None \<Rightarrow> frag | Some c \<Rightarrow> c frag (pz_ssrc p) (pz_seq p))\<rparr>"

text \<open>
  \<open>marshal\<close> stands for \<open>Marshal\<close> and \<open>ext_ok\<close> for the success of \<open>SetExtension\<close> on the
  signature. The signer returns an error (the outer \<^const>\<open>None\<close>), a nil slice, for which no
  extension is set, or the signature.
\<close>

function secured_loop :: "(bytes list \<Rightarrow> bytes \<Rightarrow> bool) \<Rightarrow> (rtp_out \<Rightarrow> bytes option) \<Rightarrow> (bytes \<Rightarrow> bool)
    \<Rightarrow> packetizer \<Rightarrow> bytes \<Rightarrow> i64 \<Rightarrow> bytes option \<Rightarrow> nat \<Rightarrow> send_result" where
  "secured_loop wr marshal ext_ok p ps tsTicks sigDER off =
     (if off < length ps
      then let end' = (if off + RTPMTU > length ps then length ps else off + RTPMTU);
               marker = (end' = length ps);
               packet = secured_packet p (drop off (take end' ps)) marker tsTicks sigDER
           in if \<not> (case ro_ext packet of None \<Rightarrow> True | Some sig \<Rightarrow> ext_ok sig)
              then (p, Some ErrExtension)
              else case marshal packet of
                None \<Rightarrow> (p, Some ErrMarshal)
              | Some pkt \<Rightarrow>
                  let data = framed_out p pkt in
                  if wr (pz_out p) data
                  then secured_loop wr marshal ext_ok
                         (p\<lparr>pz_out := pz_out p @ [data], pz_seq := pz_seq p + 1, pz_sent := pz_sent p + 1\<rparr>)
                         ps tsTicks sigDER (off + RTPMTU)
                  else (p, Some ErrSend)
      else (p, None))"
  by pat_completeness auto
termination
  by (relation "measure (\<lambda>(wr, m, e, p, ps, ts, sig, off). length ps - off)") (auto simp: RTPMTU_def)

declare secured_loop.simps [simp del]

definition sendSecured where
  "sendSecured wr marshal ext_ok p ps tsTicks =
     (case pz_signer p of
        None \<Rightarrow> secured_loop wr marshal ext_ok p ps tsTicks None 0
      | Some signer \<Rightarrow>
          (case signer ps (pz_ssrc p) (ucast tsTicks) of
             None \<Rightarrow> (p, Some ErrSign)
           | Some sig \<Rightarrow> secured_loop wr marshal ext_ok p ps tsTicks sig 0))"

definition Send where
  "Send wr marshal ext_ok p ps tsTicks =
     (if pz_cryptor p \<noteq> None \<or> pz_signer p \<noteq> None
      then sendSecured wr marshal ext_ok p ps tsTicks else sendPlain wr p ps tsTicks)"

definition Sent :: "packetizer \<Rightarrow> u64" where
  "Sent p = pz_sent p"

subsection \<open>The burst as a list of fragments\<close>

definition frags :: "bytes \<Rightarrow> bytes list" where
  "frags ps = chunks RTPMTU ps"

text \<open>Number, marker and payload of each fragment, from sequence number \<open>s\<close> on.\<close>

fun number_frags :: "u16 \<Rightarrow> bytes list \<Rightarrow> (u16 \<times> bool \<times> bytes) list" where
  "number_frags s [] = []"
| "number_frags s (f # fs) = (s, fs = [], f) # number_frags (s + 1) fs"

definition plain_packets :: "packetizer \<Rightarrow> bytes \<Rightarrow> i64 \<Rightarrow> bytes list" where
  "plain_packets p ps tsTicks =
     map (\<lambda>(s, m, f). plain_header (pz_payloadTyp p) m s tsTicks (pz_ssrc p) @ f)
       (number_frags (pz_seq p) (frags ps))"

lemma plain_loop_frags:
  assumes "\<And>out pkt. wr out pkt"
  shows "plain_loop wr p ps ts off =
    (p\<lparr>pz_seq := pz_seq p + of_nat (length (chunks RTPMTU (drop off ps))),
       pz_sent := pz_sent p + of_nat (length (chunks RTPMTU (drop off ps))),
       pz_out := pz_out p @ map (framed_out p) (map (\<lambda>(s, m, f).
         plain_header (pz_payloadTyp p) m s ts (pz_ssrc p) @ f)
         (number_frags (pz_seq p) (chunks RTPMTU (drop off ps))))\<rparr>, None)"
proof (induction "length ps - off" arbitrary: p off rule: less_induct)
  case less
  show ?case
  proof (cases "off < length ps")
    case False
    then show ?thesis by (subst plain_loop.simps) simp
  next
    case True
    define e where "e = (if off + RTPMTU > length ps then length ps else off + RTPMTU)"
    let ?f = "take RTPMTU (drop off ps)"
    have mtu: "0 < RTPMTU" by (simp add: RTPMTU_def)
    have ch: "chunks RTPMTU (drop off ps) = ?f # chunks RTPMTU (drop (off + RTPMTU) ps)"
      using True mtu by (simp add: chunks_step add.commute)
    have f: "drop off (take e ps) = ?f" by (auto simp: e_def take_drop add.commute)
    have mk: "e = length ps \<longleftrightarrow> chunks RTPMTU (drop (off + RTPMTU) ps) = []"
      unfolding chunks_eq_Nil [OF mtu] by (auto simp: e_def)
    let ?pkt = "plain_header (pz_payloadTyp p) (e = length ps) (pz_seq p) ts (pz_ssrc p) @ ?f"
    let ?p = "p\<lparr>pz_seq := pz_seq p + 1, pz_out := pz_out p @ [framed_out p ?pkt], pz_sent := pz_sent p + 1\<rparr>"
    have fo: "framed_out (p\<lparr>pz_seq := x, pz_out := y, pz_sent := z\<rparr>) = framed_out p"
      "framed_out (p\<lparr>pz_seq := x\<rparr>) = framed_out p" for x y z
      by (simp_all add: framed_out_def fun_eq_iff)
    have step: "plain_loop wr p ps ts off = plain_loop wr ?p ps ts (off + RTPMTU)"
      unfolding plain_loop.simps [of wr p ps ts off] Let_def e_def [symmetric] f fo
      using True assms by simp
    have "length ps - (off + RTPMTU) < length ps - off" using True mtu by simp
    from less [OF this, of ?p] show ?thesis
      unfolding step ch using mk fo by (simp add: algebra_simps)
  qed
qed

lemma number_frags_nth:
  "number_frags s fs = map (\<lambda>i. (s + of_nat i, i + 1 = length fs, fs ! i)) [0..<length fs]"
proof (induction fs arbitrary: s)
  case (Cons f fs)
  have "map (\<lambda>i. (s + of_nat i, i + 1 = length (f # fs), (f # fs) ! i)) [0..<length (f # fs)] =
      (s, fs = [], f) # map (\<lambda>i. (s + 1 + of_nat i, i + 1 = length fs, fs ! i)) [0..<length fs]"
    by (simp add: upt_conv_Cons map_Suc_upt [symmetric] o_def algebra_simps del: upt_Suc)
  then show ?case using Cons by simp
qed simp

lemma length_number_frags [simp]: "length (number_frags s fs) = length fs"
  by (simp add: number_frags_nth)

text \<open>Whatever the connection does, what has been written is a prefix of the burst.\<close>

lemma plain_loop_prefix:
  "\<exists>k. pz_out (fst (plain_loop wr p ps ts off)) =
       pz_out p @ take k (map (framed_out p) (map (\<lambda>(s, m, f).
         plain_header (pz_payloadTyp p) m s ts (pz_ssrc p) @ f)
         (number_frags (pz_seq p) (chunks RTPMTU (drop off ps)))))
     \<and> (snd (plain_loop wr p ps ts off) = None \<longrightarrow> k = length (chunks RTPMTU (drop off ps)))"
  (is "\<exists>k. ?P p off k")
proof (induction "length ps - off" arbitrary: p off rule: less_induct)
  case less
  show ?case
  proof (cases "off < length ps")
    case False
    then show ?thesis by (subst (1 2) plain_loop.simps) simp
  next
    case True
    define e where "e = (if off + RTPMTU > length ps then length ps else off + RTPMTU)"
    define f where "f = take RTPMTU (drop off ps)"
    have mtu: "0 < RTPMTU" by (simp add: RTPMTU_def)
    have ch: "chunks RTPMTU (drop off ps) = f # chunks RTPMTU (drop (off + RTPMTU) ps)"
      using True mtu by (simp add: chunks_step f_def add.commute)
    have f: "drop off (take e ps) = f" by (auto simp: e_def f_def take_drop add.commute)
    have mk: "e = length ps \<longleftrightarrow> chunks RTPMTU (drop (off + RTPMTU) ps) = []"
      unfolding chunks_eq_Nil [OF mtu] by (auto simp: e_def)
    define pkt where "pkt = framed_out p (plain_header (pz_payloadTyp p) (e = length ps) (pz_seq p) ts (pz_ssrc p) @ f)"
    let ?p = "p\<lparr>pz_seq := pz_seq p + 1, pz_out := pz_out p @ [pkt], pz_sent := pz_sent p + 1\<rparr>"
    have fo: "framed_out (p\<lparr>pz_seq := x, pz_out := y, pz_sent := z\<rparr>) = framed_out p"
      "framed_out (p\<lparr>pz_seq := x\<rparr>) = framed_out p" for x y z
      by (simp_all add: framed_out_def fun_eq_iff)
    have step: "plain_loop wr p ps ts off = (if wr (pz_out p) pkt
        then plain_loop wr ?p ps ts (off + RTPMTU) else (p\<lparr>pz_seq := pz_seq p + 1\<rparr>, Some ErrSend))"
      unfolding plain_loop.simps [of wr p ps ts off] Let_def e_def [symmetric] f fo pkt_def [symmetric]
      using True by (cases "wr (pz_out p) pkt") (simp_all add: fo f pkt_def [symmetric])
    show ?thesis
    proof (cases "wr (pz_out p) pkt")
      case False
      then show ?thesis unfolding step by (intro exI [of _ 0]) simp
    next
      case ok: True
      have "length ps - (off + RTPMTU) < length ps - off" using True mtu by simp
      then have "\<exists>k. ?P ?p (off + RTPMTU) k" by (rule less)
      then obtain k where "?P ?p (off + RTPMTU) k" ..
      then show ?thesis
        unfolding step ch using ok mk fo by (intro exI [of _ "Suc k"]) (simp add: pkt_def)
    qed
  qed
qed

subsection \<open>Properties\<close>

text \<open>
  an unsecured burst over a connection that accepts every write goes out as one contiguous block of
  RTP packets: the payloads are non-empty, at most 1400 bytes, and together are the program stream; the
  sequence numbers count up from the packetizer's (modulo \<open>2^16\<close>); exactly the last packet carries
  the marker; every packet has the burst's timestamp and the session's SSRC; and the next burst
  continues the numbering.
\<close>

theorem send_burst:
  assumes "\<And>out pkt. wr out pkt" and "pz_cryptor p = None" and "pz_signer p = None"
  shows "\<exists>fs. concat fs = ps \<and> (\<forall>f \<in> set fs. f \<noteq> [] \<and> length f \<le> 1400)
    \<and> Send wr marshal ext_ok p ps ts =
      (p\<lparr>pz_seq := pz_seq p + of_nat (length fs), pz_sent := pz_sent p + of_nat (length fs),
         pz_out := pz_out p @ map (\<lambda>i. framed_out p
           (plain_header (pz_payloadTyp p) (i + 1 = length fs) (pz_seq p + of_nat i) ts (pz_ssrc p) @ fs ! i))
           [0..<length fs]\<rparr>, None)"
proof (intro exI [of _ "chunks RTPMTU ps"] conjI)
  show "concat (chunks RTPMTU ps) = ps" by (simp add: concat_chunks RTPMTU_def)
  show "\<forall>f \<in> set (chunks RTPMTU ps). f \<noteq> [] \<and> length f \<le> 1400"
    using chunks_bounds [of _ RTPMTU ps] by (simp add: RTPMTU_def)
qed (use plain_loop_frags [of wr p ps ts 0] assms in
      \<open>simp add: Send_def sendPlain_def number_frags_nth o_def\<close>)

theorem send_burst_witness:
  "\<exists>fs. concat fs = [1, 2, 3 :: byte] \<and>
     pz_seq (fst (Send (\<lambda>out pkt. True) (\<lambda>r. None) (\<lambda>s. True) (NewRTPPacketizer 7 0xFFFF) [1, 2, 3] 90000))
       = 0xFFFF + of_nat (length fs)"
  using send_burst [of "\<lambda>out pkt. True" "NewRTPPacketizer 7 0xFFFF" "[1, 2, 3]" "\<lambda>r. None" "\<lambda>s. True" 90000]
  by (auto simp: NewRTPPacketizer_def)

text \<open>
  Whatever the connection does, the packets written by an unsecured burst are a prefix of the
  burst's packets, all of them when \<open>Send\<close> reports no error: an error never leaves a hole or a wrong
  packet behind.
\<close>

theorem send_writes_prefix:
  "\<exists>k. pz_out (fst (sendPlain wr p ps ts)) = pz_out p @ take k (map (framed_out p) (plain_packets p ps ts))
     \<and> (snd (sendPlain wr p ps ts) = None \<longrightarrow> k = length (frags ps))"
  using plain_loop_prefix [of wr p ps ts 0]
  by (simp add: sendPlain_def plain_packets_def frags_def)

theorem send_writes_prefix_witness:
  "\<exists>k. pz_out (fst (sendPlain (\<lambda>out pkt. False) (NewRTPPacketizer 7 1) [1, 2] 0))
     = take k (map (framed_out (NewRTPPacketizer 7 1)) (plain_packets (NewRTPPacketizer 7 1) [1, 2] 0))"
  using send_writes_prefix [of "\<lambda>out pkt. False" "NewRTPPacketizer 7 1" "[1, 2]" 0]
  by (auto simp: NewRTPPacketizer_def)

end
