(* ===== verification/Au_Split.thy ===== *)
theory Au_Split
  imports Gb_Prelude "HOL-Library.Sublist"
begin

text \<open>
  Splitting a demuxed NAL unit list into one access unit per frame: \<open>src/platform/au_split.go\<close>.
  \<open>split_step\<close> is one pass of the Go loop over its four local variables.
\<close>

subsection \<open>The code\<close>

definition isVCLNALU :: "bytes \<Rightarrow> bool \<Rightarrow> bool go" where
  "isVCLNALU nalu isH265 = do {
     b \<leftarrow> go_idx nalu 0;
     if isH265 then let t = drop_bit 1 b AND 0x3F in Some (t \<le> 31)
     else let t = b AND 0x1F in Some (t \<ge> 1 \<and> t \<le> 5) }"

definition startsNewFrame :: "bytes \<Rightarrow> bool \<Rightarrow> bool go" where
  "startsNewFrame nalu isH265 = do {
     let hdrLen = (if isH265 then 2 else 1);
     if length nalu \<le> hdrLen then Some True
     else do {
       rbsp \<leftarrow> go_from nalu hdrLen;
       esc \<leftarrow> (if length rbsp \<ge> 4 then do {
                 a \<leftarrow> go_idx rbsp 0; b \<leftarrow> go_idx rbsp 1; c \<leftarrow> go_idx rbsp 2;
                 Some (a = 0 \<and> b = 0 \<and> c = 3) }
               else Some False);
       rbsp \<leftarrow> (if esc then go_from rbsp 3 else Some rbsp);
       b \<leftarrow> go_idx rbsp 0;
       Some (b AND 0x80 \<noteq> 0) } }"

record split_state =
  sp_out :: "bytes list list"
  sp_cur :: "bytes list"
  sp_trailing :: "bytes list"
  sp_seenVCL :: bool

definition split_init :: split_state where
  "split_init = \<lparr>sp_out = [], sp_cur = [], sp_trailing = [], sp_seenVCL = False\<rparr>"

definition split_step :: "bool \<Rightarrow> bytes \<Rightarrow> split_state \<Rightarrow> split_state go" where
  "split_step isH265 nalu s =
     (if length nalu = 0 then Some s
      else do {
        vcl \<leftarrow> isVCLNALU nalu isH265;
        cut \<leftarrow> (if vcl \<and> sp_seenVCL s
                then do { n \<leftarrow> startsNewFrame nalu isH265; Some (n \<and> length (sp_cur s) > 0) }
                else Some False);
        let s = (if cut then s\<lparr>sp_out := sp_out s @ [sp_cur s], sp_cur := []\<rparr> else s);
        Some (if vcl
              then let s = (if length (sp_cur s) = 0 then s\<lparr>sp_cur := sp_cur s @ sp_trailing s\<rparr> else s)
                   in s\<lparr>sp_trailing := [], sp_cur := sp_cur s @ [nalu], sp_seenVCL := True\<rparr>
              else if sp_seenVCL s then s\<lparr>sp_trailing := sp_trailing s @ [nalu]\<rparr>
              else s\<lparr>sp_cur := sp_cur s @ [nalu]\<rparr>) })"

fun split_loop :: "bool \<Rightarrow> bytes list \<Rightarrow> split_state \<Rightarrow> split_state go" where
  "split_loop isH265 [] s = Some s"
| "split_loop isH265 (n # ns) s = do { s \<leftarrow> split_step isH265 n s; split_loop isH265 ns s }"

definition split_finish :: "split_state \<Rightarrow> bytes list list" where
  "split_finish s =
     (let cur = (if length (sp_trailing s) > 0 then sp_cur s @ sp_trailing s else sp_cur s)
      in if length cur > 0 then sp_out s @ [cur] else sp_out s)"

definition splitAUsByFrame :: "bytes list \<Rightarrow> bool \<Rightarrow> bytes list list go" where
  "splitAUsByFrame nalus isH265 =
     (if length nalus \<le> 1 then (if length nalus = 1 then Some [nalus] else Some [])
      else map_option split_finish (split_loop isH265 nalus split_init))"

subsection \<open>The step as a case distinction\<close>

text \<open>The same two tests on a unit that is not empty.\<close>

definition vcl :: "bool \<Rightarrow> bytes \<Rightarrow> bool" where
  "vcl isH265 nalu =
     (case nalu of [] \<Rightarrow> False
      | b # _ \<Rightarrow> if isH265 then drop_bit 1 b AND 0x3F \<le> 31 else b AND 0x1F \<ge> 1 \<and> b AND 0x1F \<le> 5)"

definition opens :: "bool \<Rightarrow> bytes \<Rightarrow> bool" where
  "opens isH265 nalu =
     (let h = (if isH265 then 2 else 1); rbsp = drop h nalu in
      length nalu \<le> h \<or>
      (if length rbsp \<ge> 4 \<and> take 3 rbsp = [0, 0, 3] then rbsp ! 3 else rbsp ! 0) AND 0x80 \<noteq> 0)"

lemma isVCLNALU_eq: "nalu \<noteq> [] \<Longrightarrow> isVCLNALU nalu isH265 = Some (vcl isH265 nalu)"
  by (cases nalu) (simp_all add: isVCLNALU_def vcl_def Let_def)

lemma take_3_eq: "3 \<le> length xs \<Longrightarrow> take 3 xs = [a, b, c] \<longleftrightarrow> xs ! 0 = a \<and> xs ! 1 = b \<and> xs ! 2 = c"
  by (auto simp: numeral_3_eq_3 numeral_2_eq_2 Suc_le_length_iff)

lemma startsNewFrame_eq: "startsNewFrame nalu isH265 = Some (opens isH265 nalu)"
proof -
  define h where "h = (if isH265 then 2 else (1 :: nat))"
  define r where "r = drop h nalu"
  show ?thesis
  proof (cases "length nalu \<le> h")
    case True
    then show ?thesis unfolding startsNewFrame_def opens_def Let_def h_def [symmetric] by simp
  next
    case False
    have go: "go_from nalu h = Some r" using False by (simp add: r_def)
    have r: "r \<noteq> []" using False by (simp add: r_def)
    have "0 < length r \<and> 1 < length r \<and> 2 < length r \<and> 3 < length r" if "4 \<le> length r"
      using that r by simp
    then show ?thesis using False r take_3_eq [of r 0 0 3]
      unfolding startsNewFrame_def opens_def Let_def h_def [symmetric] go r_def [symmetric]
        Option.bind.bind_lunit
      by auto
  qed
qed

lemma split_step_cases:
  assumes "nalu \<noteq> []"
  shows "split_step isH265 nalu s = Some (
    if \<not> vcl isH265 nalu
    then (if sp_seenVCL s then s\<lparr>sp_trailing := sp_trailing s @ [nalu]\<rparr>
          else s\<lparr>sp_cur := sp_cur s @ [nalu]\<rparr>)
    else if sp_cur s = [] \<or> sp_seenVCL s \<and> opens isH265 nalu
    then s\<lparr>sp_out := sp_out s @ (if sp_cur s = [] then [] else [sp_cur s]),
           sp_cur := sp_trailing s @ [nalu], sp_trailing := [], sp_seenVCL := True\<rparr>
    else s\<lparr>sp_cur := sp_cur s @ [nalu], sp_trailing := [], sp_seenVCL := True\<rparr>)"
  using assms
  by (auto simp: split_step_def isVCLNALU_eq startsNewFrame_eq Let_def)

lemma split_loop_total: "\<exists>s'. split_loop isH265 ns s = Some s'"
proof (induction ns arbitrary: s)
  case (Cons n ns)
  then show ?case
    by (cases "n = []") (simp add: split_step_def, simp add: split_step_cases)
qed simp

lemma splitAUs_total [go_total]: "\<exists>aus. splitAUsByFrame ns h = Some aus"
proof -
  obtain s where "split_loop h ns split_init = Some s" using split_loop_total by blast
  then show ?thesis by (simp add: splitAUsByFrame_def)
qed

subsection \<open>Invariant of the loop\<close>

text \<open>At most the first slice of an access unit opens a picture.\<close>

definition one_frame :: "bool \<Rightarrow> bytes list \<Rightarrow> bool" where
  "one_frame h au \<longleftrightarrow> (\<forall>n \<in> set (tl (filter (vcl h) au)). \<not> opens h n)"

definition split_inv :: "bool \<Rightarrow> split_state \<Rightarrow> bool" where
  "split_inv h s \<longleftrightarrow>
     (\<forall>au \<in> set (sp_out s). au \<noteq> [] \<and> one_frame h au) \<and> one_frame h (sp_cur s)
     \<and> filter (vcl h) (sp_trailing s) = []
     \<and> (if sp_seenVCL s then filter (vcl h) (sp_cur s) \<noteq> []
        else filter (vcl h) (sp_cur s) = [] \<and> sp_trailing s = [] \<and> sp_out s = [])"

text \<open>Everything the loop holds, in order, and the input read so far.\<close>

definition held :: "split_state \<Rightarrow> bytes list" where
  "held s = concat (sp_out s) @ sp_cur s @ sp_trailing s"

lemma split_init_inv: "split_inv h split_init" "held split_init = []"
  by (simp_all add: split_inv_def split_init_def one_frame_def held_def)

lemma one_frame_append:
  "filter (vcl h) xs \<noteq> [] \<Longrightarrow> one_frame h xs \<Longrightarrow> vcl h n \<Longrightarrow> \<not> opens h n \<Longrightarrow> one_frame h (xs @ [n])"
  by (auto simp: one_frame_def)

lemma one_frame_first: "filter (vcl h) xs = [] \<Longrightarrow> one_frame h (xs @ [n])"
  by (simp add: one_frame_def)

lemma one_frame_nonvcl: "\<not> vcl h n \<Longrightarrow> one_frame h (xs @ [n]) = one_frame h xs"
  by (simp add: one_frame_def)

lemma split_step_ok:
  assumes inv: "split_inv h s" and step: "split_step h n s = Some s'" and ne: "n \<noteq> []"
  shows "split_inv h s' \<and> filter (vcl h) (held s') = filter (vcl h) (held s @ [n])
    \<and> subseq (held s') (held s @ [n])"
proof -
  consider (late) "\<not> vcl h n" "sp_seenVCL s" | (lead) "\<not> vcl h n" "\<not> sp_seenVCL s"
    | (first) "vcl h n" "sp_cur s = [] \<or> sp_seenVCL s \<and> opens h n"
    | (more) "vcl h n" "\<not> (sp_cur s = [] \<or> sp_seenVCL s \<and> opens h n)" by blast
  then show ?thesis
  proof cases
    case late
    then have "s' = s\<lparr>sp_trailing := sp_trailing s @ [n]\<rparr>"
      using step ne by (simp add: split_step_cases)
    then show ?thesis using inv late by (simp add: split_inv_def held_def)
  next
    case lead
    then have "s' = s\<lparr>sp_cur := sp_cur s @ [n]\<rparr>"
      using step ne by (simp add: split_step_cases)
    then show ?thesis using inv lead by (simp add: split_inv_def held_def one_frame_nonvcl)
  next
    case first
    then have "s' = s\<lparr>sp_out := sp_out s @ (if sp_cur s = [] then [] else [sp_cur s]),
           sp_cur := sp_trailing s @ [n], sp_trailing := [], sp_seenVCL := True\<rparr>"
      using step ne by (simp add: split_step_cases)
    moreover have "one_frame h (sp_trailing s @ [n])"
      using inv by (simp add: split_inv_def one_frame_first)
    ultimately show ?thesis using inv first by (simp add: split_inv_def held_def)
  next
    case more
    then have "s' = s\<lparr>sp_cur := sp_cur s @ [n], sp_trailing := [], sp_seenVCL := True\<rparr>"
      using step ne by (auto simp: split_step_cases)
    moreover have "one_frame h (sp_cur s @ [n])"
      using inv more by (cases "sp_seenVCL s") (simp_all add: split_inv_def one_frame_append one_frame_first)
    moreover have "subseq (sp_cur s @ [n]) (sp_cur s @ sp_trailing s @ [n])"
      by (intro list_emb_append_mono) (simp_all add: list_emb_append2)
    ultimately show ?thesis using inv more
      by (auto simp: split_inv_def held_def list_emb_append_mono)
  qed
qed

lemma split_loop_ok:
  assumes "split_inv h s" and "split_loop h ns s = Some s'"
  shows "split_inv h s' \<and> filter (vcl h) (held s') = filter (vcl h) (held s @ ns)
    \<and> subseq (held s') (held s @ ns)"
  using assms
proof (induction ns arbitrary: s)
  case Nil
  then show ?case by simp
next
  case (Cons n ns)
  show ?case
  proof (cases "n = []")
    case True
    then have "split_inv h s' \<and> filter (vcl h) (held s') = filter (vcl h) (held s @ ns)
        \<and> subseq (held s') (held s @ ns)"
      using Cons by (simp add: split_step_def)
    moreover have "subseq (held s @ ns) (held s @ n # ns)" by (intro list_emb_append_mono) auto
    moreover have "\<not> vcl h []" by (simp add: vcl_def)
    ultimately show ?thesis using True subseq_order.trans by (auto simp del: append.simps)
  next
    case False
    obtain s1 where s1: "split_step h n s = Some s1" using split_step_cases [OF False] by blast
    have ok: "split_inv h s1 \<and> filter (vcl h) (held s1) = filter (vcl h) (held s @ [n])
        \<and> subseq (held s1) (held s @ [n])"
      by (rule split_step_ok [OF Cons.prems(1) s1 False])
    then have "split_inv h s' \<and> filter (vcl h) (held s') = filter (vcl h) (held s1 @ ns)
        \<and> subseq (held s') (held s1 @ ns)"
      using Cons.IH [of s1] Cons.prems(2) s1 by simp
    moreover have "subseq (held s1 @ ns) ((held s @ [n]) @ ns)"
      using ok by (intro list_emb_append_mono) auto
    ultimately show ?thesis using ok subseq_order.trans by auto
  qed
qed

subsection \<open>When nothing is lost\<close>

text \<open>
  Non-slice units between two slices are kept only when the next slice opens a picture;
  \<open>framed\<close> says that they never stand inside a picture.
\<close>

fun framed :: "bool \<Rightarrow> bool \<Rightarrow> bool \<Rightarrow> bytes list \<Rightarrow> bool" where
  "framed h seen pending [] = True"
| "framed h seen pending (n # ns) =
     (if n = [] then framed h seen pending ns
      else if vcl h n then (pending \<longrightarrow> opens h n) \<and> framed h True False ns
      else framed h seen seen ns)"

lemma split_loop_framed:
  assumes "split_inv h s" and "split_loop h ns s = Some s'"
    and "framed h (sp_seenVCL s) (sp_trailing s \<noteq> []) ns"
  shows "held s' = held s @ filter (\<lambda>n. n \<noteq> []) ns"
  using assms
proof (induction ns arbitrary: s)
  case Nil
  then show ?case by simp
next
  case (Cons n ns)
  show ?case
  proof (cases "n = []")
    case True
    then show ?thesis using Cons by (simp add: split_step_def)
  next
    case False
    obtain s1 where s1: "split_step h n s = Some s1" using split_step_cases [OF False] by blast
    have inv: "split_inv h s1" using split_step_ok [OF Cons.prems(1) s1 False] by simp
    have tr: "\<not> sp_seenVCL s \<Longrightarrow> sp_trailing s = []"
      using Cons.prems(1) by (auto simp: split_inv_def)
    have "held s1 = held s @ [n] \<and> framed h (sp_seenVCL s1) (sp_trailing s1 \<noteq> []) ns"
    proof (cases "vcl h n")
      case vcl: True
      have "sp_trailing s = []" if "\<not> (sp_cur s = [] \<or> sp_seenVCL s \<and> opens h n)"
        using that tr Cons.prems(3) False vcl by auto
      then show ?thesis
        using Cons.prems(3) s1 False vcl
        by (cases "sp_cur s = [] \<or> sp_seenVCL s \<and> opens h n") (auto simp: split_step_cases held_def)
    next
      case nonvcl: False
      then show ?thesis using Cons.prems(3) s1 False tr
        by (cases "sp_seenVCL s") (auto simp: split_step_cases held_def)
    qed
    then show ?thesis using Cons.IH [OF inv] Cons.prems(2) s1 False by simp
  qed
qed

lemma split_finish_held: "concat (split_finish s) = held s"
  by (simp add: split_finish_def held_def Let_def)

lemma split_finish_ok:
  assumes "split_inv h s"
  shows "\<forall>au \<in> set (split_finish s). au \<noteq> [] \<and> one_frame h au"
proof -
  have "one_frame h (sp_cur s @ sp_trailing s)"
    using assms by (simp add: split_inv_def one_frame_def)
  then show ?thesis using assms by (auto simp: split_finish_def split_inv_def Let_def)
qed

lemma one_frame_single: "one_frame h [n]"
  by (simp add: one_frame_def)

subsection \<open>Properties\<close>

text \<open>
  splitting by frame never panics, gives only non-empty access units, and no access unit holds two
  pictures: only the first slice of each may open one. No slice is lost, duplicated or moved to
  another place, and no unit is invented: the output read in order is a subsequence of the input with
  all its slices.
\<close>

theorem split_one_frame_each:
  "\<exists>aus. splitAUsByFrame nalus h = Some aus \<and> (\<forall>au \<in> set aus. au \<noteq> [] \<and> one_frame h au)
     \<and> filter (vcl h) (concat aus) = filter (vcl h) nalus \<and> subseq (concat aus) nalus"
proof (cases "length nalus \<le> 1")
  case True
  then show ?thesis by (cases nalus) (auto simp: splitAUsByFrame_def one_frame_single)
next
  case False
  obtain s where s: "split_loop h nalus split_init = Some s" using split_loop_total by blast
  then show ?thesis
    using False split_loop_ok [OF split_init_inv(1) s] split_finish_ok [of h s]
    by (simp add: splitAUsByFrame_def split_finish_held split_init_inv)
qed

theorem split_one_frame_each_witness:
  "\<exists>aus. splitAUsByFrame [[0x67, 1], [0x65, 0x80], [0x65, 0x20], [0x41, 0x90]] False = Some aus
     \<and> concat aus = [[0x67, 1], [0x65, 0x80], [0x65, 0x20], [0x41, 0x90]]"
proof -
  let ?ns = "[[0x67, 1], [0x65, 0x80], [0x65, 0x20], [0x41, 0x90]] :: bytes list"
  have "splitAUsByFrame ?ns False =
      Some [[[0x67, 1], [0x65, 0x80], [0x65, 0x20]], [[0x41, 0x90]]]" by code_simp
  then show ?thesis using split_one_frame_each [of ?ns False] by simp
qed

text \<open>
  when non-slice units (parameter sets, SEI) stand only before the first slice of a picture, the
  split is lossless: its concatenation is the input less its empty units.
\<close>

theorem split_lossless:
  assumes "framed h False False nalus" and "[] \<notin> set nalus"
  shows "\<exists>aus. splitAUsByFrame nalus h = Some aus \<and> concat aus = nalus"
proof (cases "length nalus \<le> 1")
  case True
  then show ?thesis by (cases nalus) (auto simp: splitAUsByFrame_def)
next
  case False
  obtain s where s: "split_loop h nalus split_init = Some s" using split_loop_total by blast
  have "filter (\<lambda>n. n \<noteq> []) nalus = nalus" using assms(2) by (auto simp: filter_id_conv)
  moreover have "held s = held split_init @ filter (\<lambda>n. n \<noteq> []) nalus"
    using split_loop_framed [OF split_init_inv(1) s] assms(1) by (simp add: split_init_def)
  ultimately show ?thesis
    using False s split_finish_held [of s] by (simp add: splitAUsByFrame_def split_init_inv)
qed

theorem split_lossless_witness:
  "\<exists>aus. splitAUsByFrame [[0x67, 1], [0x65, 0x80], [0x06, 5], [0x41, 0x90]] False = Some aus
     \<and> concat aus = [[0x67, 1], [0x65, 0x80], [0x06, 5], [0x41, 0x90]]"
proof (rule split_lossless)
  show "framed False False False [[0x67, 1], [0x65, 0x80], [0x06, 5], [0x41, 0x90]]" by code_simp
qed simp

text \<open>
  a non-slice unit between two slices of one picture is dropped: the SEI unit below is in the
  input and in no access unit of the output.
\<close>

theorem split_drops_inner_units:
  "splitAUsByFrame [[0x65, 0x80], [0x06, 5], [0x65, 0x20]] False = Some [[[0x65, 0x80], [0x65, 0x20]]]"
  by code_simp

end
