(* ===== verification/Es_Demux.thy ===== *)
theory Es_Demux
  imports Gb_Prelude
begin

text \<open>
  Depacketization of bare H.264/H.265 elementary streams over RTP: \<open>src/platform/esdemux.go\<close>.
  Each feed returns the changed depacketizer together with the Go \<open>error\<close>, since an aggregation
  packet may have appended units before it fails.
\<close>

datatype es_error =
    ForbiddenZero | UnsupportedH264 | UnsupportedH265 | ShortH265
  | AggTruncated | AggOverrun | FuShort | FuStartEnd | FuNoStart

record esdemuxer =
  es_h265 :: bool
  es_nalus :: "bytes list"
  es_fu :: bytes
  es_inFU :: bool

type_synonym es_result = "(esdemuxer \<times> es_error option) go"

definition NewESDemuxer :: esdemuxer where
  "NewESDemuxer = \<lparr>es_h265 = False, es_nalus = [], es_fu = [], es_inFU = False\<rparr>"

definition es_codec :: "esdemuxer \<Rightarrow> string" where
  "es_codec d = (if es_h265 d then ''h265'' else ''h264'')"

definition TakeAU :: "esdemuxer \<Rightarrow> esdemuxer \<times> bytes list" where
  "TakeAU d = (d\<lparr>es_nalus := []\<rparr>, es_nalus d)"

definition DropPartial :: "esdemuxer \<Rightarrow> esdemuxer" where
  "DropPartial d = d\<lparr>es_fu := [], es_inFU := False, es_nalus := []\<rparr>"

definition looksLikeESPacket :: "bytes \<Rightarrow> bool go" where
  "looksLikeESPacket p =
     (if length p = 0 then Some False
      else do {
        b \<leftarrow> go_idx p 0;
        if b AND 0x80 \<noteq> 0 then Some False
        else do {
          sc \<leftarrow> (if b = 0 \<and> length p > 1 then do { c \<leftarrow> go_idx p 1; Some (c = 0) } else Some False);
          if sc then Some False
          else let h264t = b AND 0x1F in
            if h264t \<ge> 1 \<and> h264t \<le> 23 \<or> h264t = 24 \<or> h264t = 28 then Some True
            else let h265t = drop_bit 1 b AND 0x3F in Some (h265t \<ge> 32 \<and> h265t \<le> 49) } })"

text \<open>The entry loop shared by \<open>feedSTAPA\<close> (from offset 1) and the AP case of \<open>feedH265\<close> (from 2).\<close>

function agg_loop :: "bytes \<Rightarrow> nat \<Rightarrow> esdemuxer \<Rightarrow> es_result" where
  "agg_loop p off d =
     (if off < length p then
        (if off + 2 > length p then Some (d, Some AggTruncated)
         else do {
           hi \<leftarrow> go_idx p off;
           lo \<leftarrow> go_idx p (off + 1);
           let size = be16 hi lo;
           let off' = off + 2;
           if size = 0 \<or> off' + size > length p then Some (d, Some AggOverrun)
           else do {
             n \<leftarrow> go_slice p off' (off' + size);
             agg_loop p (off' + size) (d\<lparr>es_nalus := es_nalus d @ [n]\<rparr>) } })
      else Some (d, None))"
  by pat_completeness auto
termination
  by (relation "measure (\<lambda>(p, off, d). length p - off)") auto

declare agg_loop.simps [simp del]

definition feedSTAPA :: "esdemuxer \<Rightarrow> bytes \<Rightarrow> es_result" where
  "feedSTAPA d p = agg_loop p 1 d"

text \<open>
  The fragment switch of \<open>feedFUA\<close> and of the FU case of \<open>feedH265\<close>: \<open>hdr\<close> is the rebuilt
  NAL header, \<open>body\<close> the fragment.
\<close>

definition fu_step :: "esdemuxer \<Rightarrow> byte \<Rightarrow> bytes \<Rightarrow> bytes \<Rightarrow> esdemuxer \<times> es_error option" where
  "fu_step d fuHdr hdr body =
     (let start = fuHdr AND 0x80 \<noteq> 0; end' = fuHdr AND 0x40 \<noteq> 0;
          finish = (\<lambda>d. if end' \<and> es_inFU d
                        then (d\<lparr>es_nalus := es_nalus d @ [es_fu d], es_fu := [], es_inFU := False\<rparr>, None)
                        else (d, None))
      in if start
         then (if end' then (d, Some FuStartEnd)
               else finish (d\<lparr>es_fu := hdr @ body, es_inFU := True\<rparr>))
         else if es_inFU d then finish (d\<lparr>es_fu := es_fu d @ body\<rparr>)
         else (d, Some FuNoStart))"

definition feedFUA :: "esdemuxer \<Rightarrow> bytes \<Rightarrow> es_result" where
  "feedFUA d p =
     (if length p < 2 then Some (d, Some FuShort)
      else do {
        fuHdr \<leftarrow> go_idx p 1;
        p0 \<leftarrow> go_idx p 0;
        body \<leftarrow> go_from p 2;
        Some (fu_step d fuHdr [(p0 AND 0xE0) OR (fuHdr AND 0x1F)] body) })"

definition fu_hdr265 :: "byte \<Rightarrow> byte \<Rightarrow> byte" where
  "fu_hdr265 p0 fuHdr = (let type6 = fuHdr AND 0x3F in (p0 AND 0x81) OR push_bit 1 type6)"

definition feedH265 :: "esdemuxer \<Rightarrow> bytes \<Rightarrow> es_result" where
  "feedH265 d p =
     (if length p < 2 then Some (d, Some ShortH265)
      else do {
        p0 \<leftarrow> go_idx p 0;
        let t = drop_bit 1 p0 AND 0x3F;
        if t < 48 then Some (d\<lparr>es_nalus := es_nalus d @ [p]\<rparr>, None)
        else if t = 48 then agg_loop p 2 d
        else if t = 49 then
          (if length p < 3 then Some (d, Some FuShort)
           else do {
             fuHdr \<leftarrow> go_idx p 2;
             p1 \<leftarrow> go_idx p 1;
             body \<leftarrow> go_from p 3;
             Some (fu_step d fuHdr [fu_hdr265 p0 fuHdr, p1] body) })
        else Some (d, Some UnsupportedH265) })"

definition tryLatchH265 :: "esdemuxer \<Rightarrow> bytes \<Rightarrow> (bool \<times> esdemuxer) go" where
  "tryLatchH265 d p = do {
     p0 \<leftarrow> go_idx p 0;
     let t = drop_bit 1 p0 AND 0x3F;
     Some (if t \<ge> 32 \<and> t \<le> 49 then (True, d\<lparr>es_h265 := True\<rparr>) else (False, d)) }"

definition FeedPacket :: "esdemuxer \<Rightarrow> bytes \<Rightarrow> es_result" where
  "FeedPacket d p =
     (if length p = 0 then Some (d, None)
      else do {
        p0 \<leftarrow> go_idx p 0;
        if p0 AND 0x80 \<noteq> 0 then Some (d, Some ForbiddenZero)
        else if \<not> es_h265 d then
          let t = p0 AND 0x1F in
          if t \<ge> 1 \<and> t \<le> 23 then Some (d\<lparr>es_nalus := es_nalus d @ [p]\<rparr>, None)
          else if t = 24 then feedSTAPA d p
          else if t = 28 then feedFUA d p
          else do {
            (ok, d) \<leftarrow> tryLatchH265 d p;
            if \<not> ok then Some (d, Some UnsupportedH264) else feedH265 d p }
        else feedH265 d p })"

subsection \<open>No panic\<close>

lemma agg_loop_total [go_total]: "\<exists>r. agg_loop p off d = Some r"
proof (induction p off d rule: agg_loop.induct)
  case (1 p off d)
  show ?case
  proof (cases "off + 2 \<le> length p")
    case False
    then show ?thesis by (subst agg_loop.simps) auto
  next
    case True
    then have "go_idx p off = Some (p ! off)" "go_idx p (off + 1) = Some (p ! (off + 1))" by auto
    then show ?thesis
      using 1 True by (subst agg_loop.simps) (auto simp: Let_def)
  qed
qed

lemma feedH265_total [go_total]: "\<exists>r. feedH265 d p = Some r"
proof -
  have "2 \<le> length p \<Longrightarrow> p \<noteq> [] \<and> 1 < length p" by auto
  then show ?thesis using agg_loop_total [of p 2 d] by (auto simp: feedH265_def Let_def)
qed

lemma feedFUA_total [go_total]: "\<exists>r. feedFUA d p = Some r"
proof -
  have "2 \<le> length p \<Longrightarrow> p \<noteq> [] \<and> 1 < length p" by auto
  then show ?thesis by (auto simp: feedFUA_def)
qed

lemma FeedPacket_total [go_total]: "\<exists>r. FeedPacket d p = Some r"
  using agg_loop_total feedFUA_total feedH265_total
  by (auto simp: FeedPacket_def feedSTAPA_def tryLatchH265_def Let_def)

lemma looksLikeESPacket_total [go_total]: "\<exists>r. looksLikeESPacket p = Some r"
  by (auto simp: looksLikeESPacket_def Let_def)

subsection \<open>What a sender puts on the wire\<close>

text \<open>
  Fragmentation of one NAL unit after RFC 6184 (FU-A) and RFC 7798 (FU): \<open>pre\<close> are the bytes in
  front of the FU header, \<open>ty\<close> the unit type, and S and E mark the first and last fragment.
\<close>

fun fu_cont :: "bytes \<Rightarrow> byte \<Rightarrow> bytes list \<Rightarrow> bytes list" where
  "fu_cont pre ty [] = []"
| "fu_cont pre ty [p] = [pre @ [0x40 OR ty] @ p]"
| "fu_cont pre ty (p # q # ps) = (pre @ [ty] @ p) # fu_cont pre ty (q # ps)"

definition fu_a :: "byte \<Rightarrow> bytes \<Rightarrow> bytes list \<Rightarrow> bytes list" where
  "fu_a b p ps =
     (let pre = [(b AND 0xE0) OR 28]; ty = b AND 0x1F
      in (pre @ [0x80 OR ty] @ p) # fu_cont pre ty ps)"

definition fu_h265 :: "byte \<Rightarrow> byte \<Rightarrow> bytes \<Rightarrow> bytes list \<Rightarrow> bytes list" where
  "fu_h265 b0 b1 p ps =
     (let pre = [(b0 AND 0x81) OR 0x62, b1]; ty = drop_bit 1 b0 AND 0x3F
      in (pre @ [0x80 OR ty] @ p) # fu_cont pre ty ps)"

definition aggregate :: "bytes \<Rightarrow> bytes list \<Rightarrow> bytes" where
  "aggregate pre ns = pre @ concat (map (\<lambda>n. put16 (length n) @ n) ns)"

fun es_feed :: "esdemuxer \<Rightarrow> bytes list \<Rightarrow> (esdemuxer \<times> es_error list) go" where
  "es_feed d [] = Some (d, [])"
| "es_feed d (p # ps) = do {
     (d, e) \<leftarrow> FeedPacket d p;
     (d, es) \<leftarrow> es_feed d ps;
     Some (d, (case e of None \<Rightarrow> es | Some x \<Rightarrow> x # es)) }"



subsection \<open>Fragments\<close>

text \<open>How \<open>FeedPacket\<close> treats a fragment, whichever codec: \<open>fu_of\<close> names the FU header and body.\<close>

definition fu_of :: "esdemuxer \<Rightarrow> bytes \<Rightarrow> byte \<Rightarrow> bytes \<Rightarrow> bool" where
  "fu_of d pre ty hdr \<longleftrightarrow>
     (\<forall>d' f body. es_h265 d' = es_h265 d \<longrightarrow> f AND 0x3F = ty \<longrightarrow>
        FeedPacket d' (pre @ [f] @ body) = Some (fu_step d' f hdr body))"

lemma fu_flags:
  fixes ty :: byte
  assumes "ty AND 0xC0 = 0"
  shows "ty AND 0x80 = 0" "ty AND 0x40 = 0" "ty AND 0x3F = ty"
    "(0x80 OR ty) AND 0x80 \<noteq> 0" "(0x80 OR ty) AND 0x40 = 0" "(0x80 OR ty) AND 0x3F = ty"
    "(0x40 OR ty) AND 0x80 = 0" "(0x40 OR ty) AND 0x40 \<noteq> 0" "(0x40 OR ty) AND 0x3F = ty"
proof -
  have "ty AND 0x80 = (ty AND 0xC0) AND 0x80" by (simp add: and.assoc)
  then show 1: "ty AND 0x80 = 0" using assms by simp
  have "ty AND 0x40 = (ty AND 0xC0) AND 0x40" by (simp add: and.assoc)
  then show 2: "ty AND 0x40 = 0" using assms by simp
  have "ty = ty AND (0x3F OR 0xC0)" by simp
  also have "\<dots> = (ty AND 0x3F) OR (ty AND 0xC0)" by (rule bit.conj_disj_distrib)
  finally show 3: "ty AND 0x3F = ty" using assms by simp
  show "(0x80 OR ty) AND 0x80 \<noteq> 0" "(0x80 OR ty) AND 0x40 = 0" "(0x80 OR ty) AND 0x3F = ty"
    "(0x40 OR ty) AND 0x80 = 0" "(0x40 OR ty) AND 0x40 \<noteq> 0" "(0x40 OR ty) AND 0x3F = ty"
    using 1 2 3 by (simp_all add: bit.conj_disj_distrib2)
qed

lemma es_feed_cont:
  assumes "fu_of d pre ty hdr" and "ty AND 0xC0 = 0" and "es_inFU d" and "ps \<noteq> []"
  shows "es_feed d (fu_cont pre ty ps) =
    Some (d\<lparr>es_nalus := es_nalus d @ [es_fu d @ concat ps], es_fu := [], es_inFU := False\<rparr>, [])"
  using assms
proof (induction pre ty ps arbitrary: d rule: fu_cont.induct)
  case (1 pre ty)
  then show ?case by simp
next
  case (2 pre ty p)
  then have "FeedPacket d (pre @ [0x40 OR ty] @ p) = Some (fu_step d (0x40 OR ty) hdr p)"
    using fu_flags [OF "2.prems"(2)] unfolding fu_of_def by blast
  then show ?case using fu_flags [OF "2.prems"(2)] "2.prems"(3) by (simp add: fu_step_def Let_def)
next
  case (3 pre ty p q ps)
  let ?d = "d\<lparr>es_fu := es_fu d @ p\<rparr>"
  have "FeedPacket d (pre @ [ty] @ p) = Some (fu_step d ty hdr p)"
    using fu_flags [OF "3.prems"(2)] "3.prems"(1) unfolding fu_of_def by blast
  then have step: "FeedPacket d (pre @ [ty] @ p) = Some (?d, None)"
    using fu_flags [OF "3.prems"(2)] "3.prems"(3) by (simp add: fu_step_def Let_def)
  have "fu_of ?d pre ty hdr" using "3.prems"(1) by (simp add: fu_of_def)
  then show ?case using "3.IH" [of ?d] "3.prems" step by simp
qed

lemma es_feed_fragments:
  assumes "fu_of d pre ty hdr" and "ty AND 0xC0 = 0" and "ps \<noteq> []"
  shows "es_feed d ((pre @ [0x80 OR ty] @ p) # fu_cont pre ty ps) =
    Some (d\<lparr>es_nalus := es_nalus d @ [hdr @ p @ concat ps], es_fu := [], es_inFU := False\<rparr>, [])"
proof -
  let ?d = "d\<lparr>es_fu := hdr @ p, es_inFU := True\<rparr>"
  have "FeedPacket d (pre @ [0x80 OR ty] @ p) = Some (fu_step d (0x80 OR ty) hdr p)"
    using fu_flags [OF assms(2)] assms(1) unfolding fu_of_def by blast
  then have "FeedPacket d (pre @ [0x80 OR ty] @ p) = Some (?d, None)"
    using fu_flags [OF assms(2)] by (simp add: fu_step_def Let_def)
  moreover have "fu_of ?d pre ty hdr" using assms(1) by (simp add: fu_of_def)
  ultimately show ?thesis using es_feed_cont [of ?d pre ty hdr ps] assms by simp
qed

lemma byte_masks:
  fixes b :: byte
  shows "(b AND 0x1F) AND 0xC0 = 0" "(b AND 0x3F) AND 0xC0 = 0"
    "((b AND 0xE0) OR 28) AND 0x80 = b AND 0x80" "((b AND 0xE0) OR 28) AND 0x1F = 28"
    "((b AND 0xE0) OR 28) AND 0xE0 = b AND 0xE0" "(b AND 0xE0) OR (b AND 0x1F) = b"
    "((b AND 0x81) OR 0x62) AND 0x80 = b AND 0x80" "((b AND 0x81) OR 0x62) AND 0x81 = b AND 0x81"
    "((b AND 0x81) OR 0x62) AND 0x7E = 0x62"
  by (simp_all add: bit.conj_disj_distrib2 and.assoc flip: bit.conj_disj_distrib)

text \<open>Bits 1 to 6 of a byte, the H.265 unit type.\<close>

lemma h265_type: "drop_bit 1 (b :: byte) AND 0x3F = drop_bit 1 (b AND 0x7E)"
  by (simp add: drop_bit_and)

lemma h265_header: "(b AND 0x81) OR push_bit 1 (drop_bit 1 b AND 0x3F) = (b :: byte)"
proof -
  have "push_bit 1 (drop_bit 1 b AND 0x3F) = b AND 0x7E"
    unfolding h265_type
  proof (rule bit_word_eqI)
    fix n assume "n < LENGTH(8)"
    then show "bit (push_bit 1 (drop_bit 1 (b AND 0x7E))) n = bit (b AND 0x7E) n"
      by (cases n) (auto simp: bit_simps bit_0 even_and_iff simp del: push_bit_Suc)
  qed
  then show ?thesis by (simp only: bit.conj_disj_distrib [symmetric]) simp
qed

lemma fu_of_h264:
  assumes "\<not> es_h265 d" and "b AND 0x80 = 0"
  shows "fu_of d [(b AND 0xE0) OR 28] (b AND 0x1F) [b]"
  unfolding fu_of_def
proof (intro allI impI)
  fix d' :: esdemuxer and f body
  assume h: "es_h265 d' = es_h265 d" and f: "f AND 0x3F = b AND (0x1F :: byte)"
  let ?p = "[(b AND 0xE0) OR 28] @ [f] @ body"
  have "f AND 0x1F = (f AND 0x3F) AND 0x1F" by (simp add: and.assoc)
  then have f': "f AND 0x1F = b AND 0x1F" using f by (simp add: and.assoc)
  have "FeedPacket d' ?p = feedFUA d' ?p"
    using assms h byte_masks [of b] by (simp add: FeedPacket_def Let_def)
  also have "\<dots> = Some (fu_step d' f [b] body)"
    using byte_masks [of b] f' by (simp add: feedFUA_def)
  finally show "FeedPacket d' ?p = Some (fu_step d' f [b] body)" .
qed

lemma fu_of_h265:
  assumes "es_h265 d" and "b0 AND 0x80 = 0"
  shows "fu_of d [(b0 AND 0x81) OR 0x62, b1] (drop_bit 1 b0 AND 0x3F) [b0, b1]"
  unfolding fu_of_def
proof (intro allI impI)
  fix d' :: esdemuxer and f body
  assume h: "es_h265 d' = es_h265 d" and f: "f AND 0x3F = drop_bit 1 b0 AND (0x3F :: byte)"
  let ?p = "[(b0 AND 0x81) OR 0x62, b1] @ [f] @ body"
  have "drop_bit 1 ((b0 AND 0x81) OR 0x62) AND 0x3F = drop_bit 1 (0x62 :: byte)"
    using byte_masks [of b0] by (simp only: h265_type)
  then have t: "drop_bit 1 ((b0 AND 0x81) OR 0x62) AND 0x3F = (49 :: byte)" by simp
  have hdr: "fu_hdr265 ((b0 AND 0x81) OR 0x62) f = b0"
    unfolding fu_hdr265_def Let_def by (simp only: byte_masks(8) f h265_header)
  have "FeedPacket d' ?p = feedH265 d' ?p"
    using assms h byte_masks [of b0] by (simp add: FeedPacket_def Let_def)
  also have "\<dots> = Some (fu_step d' f [b0, b1] body)"
    using hdr t unfolding feedH265_def by (simp add: Let_def)
  finally show "FeedPacket d' ?p = Some (fu_step d' f [b0, b1] body)" .
qed

subsection \<open>Aggregation packets\<close>

lemma agg_loop_entries:
  assumes "\<forall>n \<in> set ns. n \<noteq> [] \<and> length n < 65536"
    and "drop off p = concat (map (\<lambda>n. put16 (length n) @ n) ns)" and "off \<le> length p"
  shows "agg_loop p off d = Some (d\<lparr>es_nalus := es_nalus d @ ns\<rparr>, None)"
  using assms
proof (induction ns arbitrary: off d)
  case Nil
  then show ?case by (subst agg_loop.simps) simp
next
  case (Cons n ns)
  let ?u = "put16 (length n) @ n" and ?rest = "concat (map (\<lambda>n. put16 (length n) @ n) ns)"
  have u: "drop off p = ?u @ ?rest" using Cons.prems(2) by simp
  have len: "off + 2 + length n \<le> length p"
    using arg_cong [OF u, of length] Cons.prems(3) by simp
  have nth: "p ! off = of_nat (drop_bit 8 (length n))" "p ! Suc off = of_nat (length n)"
    using nth_drop [of off p 0] nth_drop [of off p 1] u len by (auto simp: put16_def)
  have body: "drop (off + 2) (take (off + 2 + length n) p) = n"
    using arg_cong [OF u, of "take (length n) \<circ> drop 2"] by (simp add: take_drop ac_simps)
  have "drop (off + 2 + length n) p = ?rest"
    using arg_cong [OF u, of "drop (2 + length n)"] by (simp add: ac_simps)
  then have "agg_loop p (off + 2 + length n) (d\<lparr>es_nalus := es_nalus d @ [n]\<rparr>) =
      Some (d\<lparr>es_nalus := es_nalus d @ n # ns\<rparr>, None)"
    using Cons.IH [of "off + 2 + length n" "d\<lparr>es_nalus := es_nalus d @ [n]\<rparr>"] Cons.prems(1) len
    by simp
  then show ?case
    using Cons.prems(1) len nth body by (subst agg_loop.simps) (simp add: Let_def)
qed

subsection \<open>Properties\<close>

lemma es_feed_fu_a:
  assumes "ps \<noteq> []" and "\<not> es_h265 d" and "b AND 0x80 = 0"
  shows "es_feed d (fu_a b p ps) =
    Some (d\<lparr>es_nalus := es_nalus d @ [b # p @ concat ps], es_fu := [], es_inFU := False\<rparr>, [])"
  using es_feed_fragments [OF fu_of_h264 _ assms(1), of d b p] byte_masks(1) [of b] assms
  by (simp add: fu_a_def Let_def)

lemma es_feed_fu_h265:
  assumes "ps \<noteq> []" and "es_h265 d" and "b AND 0x80 = 0"
  shows "es_feed d (fu_h265 b b1 p ps) =
    Some (d\<lparr>es_nalus := es_nalus d @ [b # b1 # p @ concat ps], es_fu := [], es_inFU := False\<rparr>, [])"
  using es_feed_fragments [OF fu_of_h265 _ assms(1), of d b b1 p] byte_masks(2) [of "drop_bit 1 b"] assms
  unfolding fu_h265_def Let_def by (simp only: append.simps)

text \<open>
  NAL units survive RTP fragmentation, for H.264 (FU-A) and, once the codec is latched, for H.265
  (FU): feeding the packets of one unit cut into two or more pieces appends exactly that unit, its
  header rebuilt from the fragments, with no error and no fragment left over.
\<close>

theorem es_fragment_roundtrip:
  assumes "ps \<noteq> []" and "b AND 0x80 = 0"
  shows "es_feed d (if es_h265 d then fu_h265 b b1 p ps else fu_a b p ps) =
    Some (d\<lparr>es_nalus := es_nalus d @ [if es_h265 d then b # b1 # p @ concat ps else b # p @ concat ps],
            es_fu := [], es_inFU := False\<rparr>, [])"
  using es_feed_fu_a [OF assms(1) _ assms(2)] es_feed_fu_h265 [OF assms(1) _ assms(2)] by simp

theorem es_fragment_roundtrip_witness:
  "es_feed NewESDemuxer [[0x7C, 0x85, 1], [0x7C, 0x05, 2, 3], [0x7C, 0x45, 4]]
     = Some (NewESDemuxer\<lparr>es_nalus := [[0x65, 1, 2, 3, 4]]\<rparr>, [])"
  using es_fragment_roundtrip [of "[[2, 3], [4]]" "0x65" NewESDemuxer 0 "[1]"]
  by (simp add: NewESDemuxer_def fu_a_def)

text \<open>
  an aggregation packet (STAP-A for H.264, AP for H.265) appends exactly its entries, in order.
\<close>

theorem es_aggregate_roundtrip:
  assumes "\<forall>n \<in> set ns. n \<noteq> [] \<and> length n < 65536"
  shows "FeedPacket d (aggregate (if es_h265 d then [0x60, b1] else [24]) ns)
      = Some (d\<lparr>es_nalus := es_nalus d @ ns\<rparr>, None)"
  using agg_loop_entries [OF assms, of 1 "aggregate [24] ns" d]
    agg_loop_entries [OF assms, of 2 "aggregate [0x60, b1] ns" d]
  by (simp add: FeedPacket_def feedSTAPA_def feedH265_def aggregate_def Let_def)

theorem es_aggregate_roundtrip_witness:
  "FeedPacket NewESDemuxer [24, 0, 2, 0x67, 1, 0, 1, 0x68]
     = Some (NewESDemuxer\<lparr>es_nalus := [[0x67, 1], [0x68]]\<rparr>, None)"
  using es_aggregate_roundtrip [of "[[0x67, 1], [0x68]]" NewESDemuxer 0]
  by (simp add: NewESDemuxer_def aggregate_def put16_def drop_bit_eq_div)

text \<open>
  An H.265 stream joined at a sequence or picture parameter set, or at a fragment, is not
  recognised: their first bytes read as H.264 slice types, so the packet is stored whole as an H.264
  unit and the codec stays H.264. Only types whose low bits are reserved in H.264 (the video parameter
  set, type 32, and the aggregation packet, type 48) latch H.265.
\<close>

theorem h265_latch_gap:
  "map (\<lambda>b. map_option (\<lambda>(d, e). (es_codec d, es_nalus d, e)) (FeedPacket NewESDemuxer [b, 1, 0x93]))
     [0x40, 0x42, 0x44, 0x62]
   = [Some (''h265'', [[0x40, 1, 0x93]], None), Some (''h264'', [[0x42, 1, 0x93]], None),
      Some (''h264'', [[0x44, 1, 0x93]], None), Some (''h264'', [[0x62, 1, 0x93]], None)]"
  by code_simp


end
