(* ===== verification/Rtp_Receiver.thy ===== *)
theory Rtp_Receiver
  imports Ps_Demux Au_Split Es_Demux Nal_Util
begin

text \<open>
  The RTP receiver of \<open>src/platform/rtp.go\<close>: SSRC isolation, the jitter buffer with its loss
  recovery, the payload classification, the media-security hooks and the emission of access units and
  audio frames. The RTP header decoder (\<open>pion/rtp\<close>) and the cryptographic functions are parameters.

  The jitter buffer is an association list with distinct keys. What the receiver hands to the hub and
  the callbacks is appended to \<open>r_out\<close>; which of them are set is a field of the record. \<open>r_now\<close>
  is the value \<open>time.Now().UnixNano()\<close> returns during a call. A stored pointer to a nil interface or
  nil function is \<open>Some None\<close>: the program tests the pointer and then calls through it.
\<close>

subsection \<open>State\<close>

record rtp_packet =
  pk_payloadType :: byte
  pk_marker :: bool
  pk_seq :: u16
  pk_timestamp :: u32
  pk_ssrc :: u32
  pk_ext :: bytes
  pk_payload :: bytes

type_synonym cryptor = "bytes \<Rightarrow> u32 \<Rightarrow> u16 \<Rightarrow> bytes"
type_synonym verifier = "bytes \<Rightarrow> u32 \<Rightarrow> u32 \<Rightarrow> bytes \<Rightarrow> bool"

datatype rx_event =
    EvFirstRTP
  | EvHub i64 "bytes list" bool
  | EvAU "bytes list" i64 bool
  | EvNALU bytes i64 bool
  | EvAudio audioFrame
  | EvVerifyFailed

record receiver =
  r_hub :: bool
  r_auCb :: bool
  r_naluCb :: bool
  r_audioCb :: bool
  r_failHook :: bool
  r_running :: bool
  r_doneClosed :: bool
  r_jitter :: "(u16 \<times> rtp_packet) list"
  r_lastSeq :: u16
  r_baseSeq :: u16
  r_baseSeqSet :: bool
  r_maxJitter :: nat
  r_gaps :: u64
  r_decryptor :: "cryptor option option"
  r_verifier :: "verifier option option"
  r_verifyFailed :: u64
  r_demuxer :: psdemuxer
  r_es :: "esdemuxer option"
  r_esLatch :: bool
  r_classified :: bool
  r_expectDecryptor :: bool
  r_audioOnlyHint :: bool
  r_bareAudio :: bool
  r_received :: i64
  r_dropped :: i64
  r_auEmitted :: i64
  r_audioEmitted :: i64
  r_ptsClock :: i64
  r_lastIDR :: i64
  r_lastPkt :: i64
  r_lastEmission :: i64
  r_classification :: string
  r_ssrcLatched :: bool
  r_expectedSSRC :: u32
  r_foreignDrops :: i64
  r_foreignLogged :: bool
  r_now :: i64
  r_out :: "rx_event list"

definition NewReceiver :: "bool \<Rightarrow> bool \<Rightarrow> bool \<Rightarrow> bool \<Rightarrow> bool \<Rightarrow> receiver" where
  "NewReceiver hub auCb naluCb audioCb failHook =
     \<lparr>r_hub = hub, r_auCb = auCb, r_naluCb = naluCb, r_audioCb = audioCb, r_failHook = failHook,
      r_running = False, r_doneClosed = False, r_jitter = [], r_lastSeq = 0, r_baseSeq = 0, r_baseSeqSet = False,
      r_maxJitter = 32, r_gaps = 0, r_decryptor = None, r_verifier = None, r_verifyFailed = 0,
      r_demuxer = NewPSDemuxer, r_es = None, r_esLatch = False, r_classified = False,
      r_expectDecryptor = False, r_audioOnlyHint = False, r_bareAudio = False, r_received = 0,
      r_dropped = 0, r_auEmitted = 0, r_audioEmitted = 0, r_ptsClock = 0, r_lastIDR = 0, r_lastPkt = 0,
      r_lastEmission = 0, r_classification = '''', r_ssrcLatched = False, r_expectedSSRC = 0,
      r_foreignDrops = 0, r_foreignLogged = False, r_now = 0, r_out = []\<rparr>"

definition emit :: "receiver \<Rightarrow> rx_event list \<Rightarrow> receiver" where
  "emit r evs = r\<lparr>r_out := r_out r @ evs\<rparr>"

definition SetAudioOnly :: "receiver \<Rightarrow> bool \<Rightarrow> receiver" where
  "SetAudioOnly r v = r\<lparr>r_audioOnlyHint := v\<rparr>"

definition SetExpectPayloadDecryptor :: "receiver \<Rightarrow> bool \<Rightarrow> receiver" where
  "SetExpectPayloadDecryptor r expect = r\<lparr>r_expectDecryptor := expect\<rparr>"

definition SetAUVerifier :: "receiver \<Rightarrow> verifier option \<Rightarrow> receiver" where
  "SetAUVerifier r fn = r\<lparr>r_verifier := Some fn\<rparr>"

definition rx_SetAudioCodecHint :: "receiver \<Rightarrow> string \<Rightarrow> receiver" where
  "rx_SetAudioCodecHint r codec = r\<lparr>r_demuxer := SetAudioCodecHint (r_demuxer r) codec\<rparr>"

definition MediaSecurityArmed :: "receiver \<Rightarrow> bool \<times> bool" where
  "MediaSecurityArmed r = (r_decryptor r \<noteq> None, r_verifier r \<noteq> None)"

definition AudioOnly :: "receiver \<Rightarrow> bool" where
  "AudioOnly r = (r_audioOnlyHint r \<or> r_bareAudio r)"

definition rx_Codec :: "receiver \<Rightarrow> string" where
  "rx_Codec r =
     (case r_es r of
        Some es \<Rightarrow> if r_esLatch r then es_codec es else Codec (r_demuxer r)
      | None \<Rightarrow> Codec (r_demuxer r))"

definition looksLikePSPacket :: "bytes \<Rightarrow> bool" where
  "looksLikePSPacket p = (case p of a # b # c # d # _ \<Rightarrow> a = 0 \<and> b = 0 \<and> c = 1 \<and> d \<ge> 0xB9 | _ \<Rightarrow> False)"

text \<open>\<open>time.Since(time.Unix(0, ns))\<close> in nanoseconds, zero when nothing happened yet.\<close>

definition since :: "receiver \<Rightarrow> i64 \<Rightarrow> i64" where
  "since r ns = (if ns = 0 then 0 else r_now r - ns)"

definition Stalled :: "receiver \<Rightarrow> i64 \<Rightarrow> bool" where
  "Stalled r stallFor =
     (if \<not> r_running r \<or> r_received r = 0 then False
      else if stallFor <s since r (r_lastPkt r) then False
      else stallFor <s since r (r_lastEmission r))"

definition SinceLastIDR :: "receiver \<Rightarrow> i64 \<times> bool" where
  "SinceLastIDR r = (if r_lastIDR r = 0 then (0, False) else (r_now r - r_lastIDR r, True))"

definition Metrics :: "receiver \<Rightarrow> (string \<times> i64) list" where
  "Metrics r =
     [(''packets_received'', r_received r), (''packets_dropped'', r_dropped r),
      (''gap_skipped_packets'', r_gaps r), (''au_emitted'', r_auEmitted r),
      (''audio_frames_emitted'', r_audioEmitted r)]"

datatype start_error = AlreadyRunning | NilConn

definition rx_Start :: "receiver \<Rightarrow> bool \<Rightarrow> start_error + receiver" where
  "rx_Start r connNil =
     (if r_running r then Inl AlreadyRunning
      else if connNil then Inl NilConn
      else Inr (r\<lparr>r_running := True\<rparr>))"

text \<open>
  \<open>Stop\<close> closes the \<open>done\<close> channel; closing a closed channel panics, as does zeroing a stored
  nil cryptor.
\<close>

definition Stop :: "receiver \<Rightarrow> receiver go" where
  "Stop r =
     (if \<not> r_running r then Some r
      else if r_decryptor r = Some None \<or> r_doneClosed r then None
      else Some (r\<lparr>r_running := False, r_doneClosed := True, r_decryptor := None, r_verifier := None\<rparr>))"

text \<open>The deferred function of \<open>readLoop\<close>, run when a read fails.\<close>

definition read_exit :: "receiver \<Rightarrow> receiver" where
  "read_exit r = r\<lparr>r_running := False\<rparr>"

subsection \<open>Emission\<close>

definition rx_emitBareAudio :: "receiver \<Rightarrow> rtp_packet \<Rightarrow> receiver" where
  "rx_emitBareAudio r pkt =
     (let codec = (if pk_payloadType pkt = 0 then ''g711u'' else ''g711a'');
          frame = \<lparr>af_codec = codec, af_data = pk_payload pkt, af_config = None,
                   af_pts = ucast (pk_timestamp pkt), af_samples = length (pk_payload pkt)\<rparr>;
          r = r\<lparr>r_audioEmitted := r_audioEmitted r + 1, r_lastEmission := r_now r\<rparr>
      in if r_audioCb r then emit r [EvAudio frame] else r)"

definition au_events :: "receiver \<Rightarrow> bytes list \<Rightarrow> i64 \<Rightarrow> bool \<Rightarrow> rx_event list" where
  "au_events r au pts isIDR =
     (if r_hub r then [EvHub pts au isIDR] else [])
     @ (if r_auCb r then [EvAU au pts isIDR]
        else if r_naluCb r then map (\<lambda>n. EvNALU n pts isIDR) au else [])"

definition emitAULocked :: "i64 \<Rightarrow> receiver \<Rightarrow> bytes list \<Rightarrow> receiver" where
  "emitAULocked pts r au =
     (let r = r\<lparr>r_auEmitted := r_auEmitted r + 1, r_lastEmission := r_now r\<rparr>;
          isIDR = IsIDR au (rx_Codec r = ''h265'');
          r = (if isIDR then r\<lparr>r_lastIDR := r_now r\<rparr> else r)
      in emit r (au_events r au pts isIDR))"

definition dispatchAudioLocked :: "receiver \<Rightarrow> receiver" where
  "dispatchAudioLocked r =
     (let (d, frames) = DrainAudio (r_demuxer r);
          r = r\<lparr>r_demuxer := d\<rparr>;
          r = (if length frames > 0
               then r\<lparr>r_audioEmitted := r_audioEmitted r + of_nat (length frames), r_lastEmission := r_now r\<rparr>
               else r)
      in if r_audioCb r then emit r (map EvAudio frames) else r)"

definition verify_failed :: "receiver \<Rightarrow> receiver" where
  "verify_failed r =
     (let r = r\<lparr>r_verifyFailed := r_verifyFailed r + 1\<rparr>
      in if r_failHook r then emit r [EvVerifyFailed] else r)"

text \<open>
  The signature test shared by the three payload modes: \<^const>\<open>None\<close> is the panic of calling a nil
  function, reached only with a signature present.
\<close>

definition check_sig :: "verifier option \<Rightarrow> bytes \<Rightarrow> rtp_packet \<Rightarrow> bool go" where
  "check_sig v data pkt =
     (if length (pk_ext pkt) = 0 then Some False
      else case v of None \<Rightarrow> None
           | Some f \<Rightarrow> Some (f data (pk_ssrc pkt) (pk_timestamp pkt) (pk_ext pkt)))"

subsection \<open>Processing one run of packets\<close>

text \<open>The once-per-session decision on the first payload.\<close>

definition classify :: "receiver \<Rightarrow> bytes \<Rightarrow> receiver go" where
  "classify r payload =
     (if r_classified r \<or> length payload = 0 then Some r
      else do {
        let r = r\<lparr>r_classified := True\<rparr>;
        if r_audioOnlyHint r \<and> \<not> looksLikePSPacket payload
        then Some (r\<lparr>r_bareAudio := True, r_classification := ''bare-audio''\<rparr>)
        else do {
          es \<leftarrow> looksLikeESPacket payload;
          Some (if es then r\<lparr>r_es := Some NewESDemuxer, r_esLatch := True, r_classification := ''es''\<rparr>
                else r\<lparr>r_classification := ''ps''\<rparr>) } })"

fun bare_run :: "receiver \<Rightarrow> rtp_packet list \<Rightarrow> receiver go" where
  "bare_run r [] = Some r"
| "bare_run r (pkt # pkts) =
     (if length (pk_payload pkt) = 0 then bare_run r pkts
      else case r_verifier r of
        None \<Rightarrow> bare_run (rx_emitBareAudio r pkt) pkts
      | Some v \<Rightarrow> do {
          ok \<leftarrow> check_sig v (pk_payload pkt) pkt;
          bare_run (if ok then rx_emitBareAudio r pkt else verify_failed r) pkts })"

fun es_run :: "esdemuxer \<Rightarrow> rtp_packet list \<Rightarrow> esdemuxer go" where
  "es_run es [] = Some es"
| "es_run es (pkt # pkts) = do { (es, err) \<leftarrow> FeedPacket es (pk_payload pkt); es_run es pkts }"

definition stitched :: "rtp_packet list \<Rightarrow> bytes" where
  "stitched pkts = concat (map pk_payload pkts)"

text \<open>Split what the demuxer returned into frames and hand them out.\<close>

definition deliver :: "receiver \<Rightarrow> bytes list \<Rightarrow> bool \<Rightarrow> i64 \<Rightarrow> receiver go" where
  "deliver r nalus isH265 pts = do {
     aus \<leftarrow> splitAUsByFrame nalus isH265;
     Some (foldl (emitAULocked pts) r aus) }"

definition sig_ok :: "receiver \<Rightarrow> rtp_packet list \<Rightarrow> bool go" where
  "sig_ok r pkts =
     (case r_verifier r of
        None \<Rightarrow> Some True
      | Some v \<Rightarrow> if pk_marker (last pkts) then check_sig v (stitched pkts) (last pkts) else Some True)"

definition process_es :: "receiver \<Rightarrow> esdemuxer \<Rightarrow> rtp_packet list \<Rightarrow> receiver go" where
  "process_es r es0 pkts = do {
     es \<leftarrow> es_run es0 pkts;
     let r = r\<lparr>r_es := Some es\<rparr>;
     let lastPkt = last pkts;
     if \<not> pk_marker lastPkt then Some r
     else do {
       ok \<leftarrow> sig_ok r pkts;
       if \<not> ok then Some ((verify_failed r)\<lparr>r_es := Some (DropPartial es)\<rparr>)
       else
         let (es, nalus) = TakeAU es; r = r\<lparr>r_es := Some es\<rparr> in
         if length nalus = 0 then Some r
         else do {
           let pts = ucast (pk_timestamp lastPkt);
           deliver (r\<lparr>r_ptsClock := pts\<rparr>) nalus (es_codec es = ''h265'') pts } } }"

definition ps_feed :: "receiver \<Rightarrow> bytes \<Rightarrow> i64 \<Rightarrow> bool \<Rightarrow> receiver go" where
  "ps_feed r auPayload pts endedOnMarker = do {
     (d, nalus) \<leftarrow> FeedAU (r_demuxer r) auPayload pts endedOnMarker;
     let r = r\<lparr>r_demuxer := d\<rparr>;
     if length nalus = 0 then Some (dispatchAudioLocked r)
     else map_option dispatchAudioLocked (deliver r nalus (Codec d = ''h265'') pts) }"

definition process_ps :: "receiver \<Rightarrow> rtp_packet list \<Rightarrow> receiver go" where
  "process_ps r pkts = do {
     let auPayload = stitched pkts;
     if length auPayload = 0 then Some r
     else do {
       let lastPkt = last pkts;
       let pts = ucast (pk_timestamp lastPkt);
       let r = r\<lparr>r_ptsClock := pts\<rparr>;
       ok \<leftarrow> sig_ok r pkts;
       if \<not> ok then Some (verify_failed r) else ps_feed r auPayload pts (pk_marker lastPkt) } }"

text \<open>\<open>packets\<close> is never empty here; the last read mirrors \<open>packets[len(packets)-1]\<close>.\<close>

definition processRunLocked :: "receiver \<Rightarrow> rtp_packet list \<Rightarrow> receiver go" where
  "processRunLocked r pkts = do {
     let r = r\<lparr>r_baseSeq := r_baseSeq r + of_nat (length pkts)\<rparr>;
     first \<leftarrow> go_idx pkts 0;
     r \<leftarrow> classify r (pk_payload first);
     if r_bareAudio r then bare_run r pkts
     else if r_esLatch r then (case r_es r of None \<Rightarrow> None | Some es \<Rightarrow> process_es r es pkts)
     else process_ps r pkts }"

subsection \<open>The jitter buffer\<close>

text \<open>\<open>int16(a - b)\<close>, the signed distance of two sequence numbers.\<close>

definition seq_dist :: "u16 \<Rightarrow> u16 \<Rightarrow> int" where
  "seq_dist a b = sint (a - b)"

fun next_loop :: "u16 \<Rightarrow> u16 list \<Rightarrow> u16 option \<Rightarrow> u16 option" where
  "next_loop base [] best = best"
| "next_loop base (seq # seqs) best =
     (if seq_dist seq base \<le> 0 then next_loop base seqs best
      else case best of
        None \<Rightarrow> next_loop base seqs (Some seq)
      | Some b \<Rightarrow> next_loop base seqs (if seq_dist seq b < 0 then Some seq else Some b))"

definition nextBufferedSeqLocked :: "receiver \<Rightarrow> u16 option \<times> receiver" where
  "nextBufferedSeqLocked r =
     (case next_loop (r_baseSeq r) (map fst (r_jitter r)) None of
        Some best \<Rightarrow> (Some best, r)
      | None \<Rightarrow> (None, r\<lparr>r_jitter := []\<rparr>))"

function collect_run :: "(u16 \<times> rtp_packet) list \<Rightarrow> u16 \<Rightarrow> rtp_packet list \<Rightarrow> rtp_packet list \<times> (u16 \<times> rtp_packet) list" where
  "collect_run jb base pkts =
     (let target = base + of_nat (length pkts) in
      case map_of jb target of
        None \<Rightarrow> (pkts, jb)
      | Some pkt \<Rightarrow> collect_run (AList.delete target jb) base (pkts @ [pkt]))"
  by pat_completeness auto
termination
proof (relation "measure (\<lambda>(jb, base, pkts). length jb)")
  fix jb :: "(u16 \<times> rtp_packet) list" and base target pkt and pkts :: "rtp_packet list"
  assume "target = base + of_nat (length pkts)" and "map_of jb target = Some (pkt :: rtp_packet)"
  then have "target \<in> fst ` set jb" by (meson domI dom_map_of_conv_image_fst [THEN equalityD1] subsetD)
  then have "length (AList.delete target jb) < length jb"
    unfolding AList.delete_eq by (auto intro: length_filter_less)
  then show "((AList.delete target jb, base, pkts @ [pkt]), (jb, base, pkts))
      \<in> measure (\<lambda>(jb, base, pkts). length jb)" by simp
qed simp

declare collect_run.simps [simp del]

text \<open>What a sequence gap does: the access unit in flight is dropped and the base moves on.\<close>

definition skip_gap :: "receiver \<Rightarrow> u16 \<Rightarrow> receiver" where
  "skip_gap r next' =
     r\<lparr>r_gaps := r_gaps r + 1, r_demuxer := DropPartialVideo (r_demuxer r),
       r_es := map_option DropPartial (r_es r), r_baseSeq := next'\<rparr>"

definition drain_once :: "receiver \<Rightarrow> rtp_packet list \<times> receiver" where
  "drain_once r =
     (let (pkts, jb) = collect_run (r_jitter r) (r_baseSeq r) [] in (pkts, r\<lparr>r_jitter := jb\<rparr>))"

definition drainContiguousRunLocked :: "receiver \<Rightarrow> rtp_packet list \<times> receiver" where
  "drainContiguousRunLocked r =
     (let (pkts, r) = drain_once r in
      if length pkts = 0
      then (case nextBufferedSeqLocked r of
              (None, r) \<Rightarrow> ([], r)
            | (Some next', r) \<Rightarrow> drain_once (skip_gap r next'))
      else (pkts, r))"

text \<open>Cut a run behind every marker packet; the rest is its own segment.\<close>

fun segments :: "rtp_packet list \<Rightarrow> rtp_packet list list" where
  "segments [] = []"
| "segments (p # ps) =
     (if pk_marker p then [p] # segments ps
      else case segments ps of [] \<Rightarrow> [[p]] | s # ss \<Rightarrow> (p # s) # ss)"

fun process_all :: "receiver \<Rightarrow> rtp_packet list list \<Rightarrow> receiver go" where
  "process_all r [] = Some r"
| "process_all r (s # ss) = do { r \<leftarrow> processRunLocked r s; process_all r ss }"

subsubsection \<open>Each round of the emission loop takes packets out of the buffer\<close>

lemma delete_length_le: "length (AList.delete k jb) \<le> length jb"
  by (simp add: AList.delete_eq)

lemma update_length: "length (AList.update k v jb) \<le> Suc (length jb)"
  by (induction jb) auto

lemma collect_run_length: "length (fst (collect_run jb base pkts)) + length (snd (collect_run jb base pkts)) \<le> length pkts + length jb"
proof (induction jb base pkts rule: collect_run.induct)
  case (1 jb base pkts)
  let ?t = "base + of_nat (length pkts)"
  show ?case
  proof (cases "map_of jb ?t")
    case None
    then show ?thesis by (subst (1 2) collect_run.simps) simp
  next
    case (Some pkt)
    then have "?t \<in> fst ` set jb"
      by (meson domI dom_map_of_conv_image_fst [THEN equalityD1] subsetD)
    then have "length (AList.delete ?t jb) < length jb"
      unfolding AList.delete_eq by (auto intro: length_filter_less)
    then show ?thesis
      using 1 [OF refl Some] Some by (subst (1 2) collect_run.simps) simp
  qed
qed

lemma drain_once_length:
  "length (fst (drain_once r)) + length (r_jitter (snd (drain_once r))) \<le> length (r_jitter r)"
  using collect_run_length [of "r_jitter r" "r_baseSeq r" "[]"]
  by (auto simp: drain_once_def split: prod.split)

lemma nextBufferedSeq_jitter:
  "length (r_jitter (snd (nextBufferedSeqLocked r))) \<le> length (r_jitter r)"
  by (simp add: nextBufferedSeqLocked_def split: option.split)

lemma drain_length:
  "length (fst (drainContiguousRunLocked r)) + length (r_jitter (snd (drainContiguousRunLocked r)))
     \<le> length (r_jitter r)"
proof -
  obtain pkts r1 where d: "drain_once r = (pkts, r1)" by (cases "drain_once r")
  obtain nx r2 where n: "nextBufferedSeqLocked r1 = (nx, r2)" by (cases "nextBufferedSeqLocked r1")
  have 1: "length pkts + length (r_jitter r1) \<le> length (r_jitter r)"
    using drain_once_length [of r] d by simp
  have 2: "length (r_jitter r2) \<le> length (r_jitter r1)"
    using nextBufferedSeq_jitter [of r1] n by simp
  have 3: "length (fst (drain_once (skip_gap r2 s))) + length (r_jitter (snd (drain_once (skip_gap r2 s))))
      \<le> length (r_jitter r2)" for s
    using drain_once_length [of "skip_gap r2 s"] by (simp add: skip_gap_def)
  show ?thesis
    using 1 2 3 [of "the nx"] d n
    by (cases nx) (simp_all add: drainContiguousRunLocked_def)
qed

text \<open>Processing a run leaves the jitter buffer alone.\<close>

lemma emit_fields [simp]:
  "r_jitter (emit r evs) = r_jitter r" "r_jitter (verify_failed r) = r_jitter r"
  "r_jitter (rx_emitBareAudio r pkt) = r_jitter r" "r_jitter (emitAULocked pts r au) = r_jitter r"
  "r_jitter (dispatchAudioLocked r) = r_jitter r"
  by (simp_all add: emit_def verify_failed_def rx_emitBareAudio_def emitAULocked_def
      dispatchAudioLocked_def DrainAudio_def Let_def)

lemma foldl_emit_jitter [simp]: "r_jitter (foldl (emitAULocked pts) r aus) = r_jitter r"
  by (induction aus arbitrary: r) simp_all

lemma bare_run_jitter: "bare_run r pkts = Some r' \<Longrightarrow> r_jitter r' = r_jitter r"
  by (induction r pkts rule: bare_run.induct)
    (auto simp: Option.bind_eq_Some_conv split: if_splits option.splits)

lemma classify_jitter: "classify r p = Some r' \<Longrightarrow> r_jitter r' = r_jitter r"
  by (auto simp: classify_def Let_def Option.bind_eq_Some_conv split: if_splits)

lemma deliver_jitter: "deliver r nalus h pts = Some r' \<Longrightarrow> r_jitter r' = r_jitter r"
  by (auto simp: deliver_def Option.bind_eq_Some_conv)

lemma ps_feed_jitter: "ps_feed r au pts m = Some r' \<Longrightarrow> r_jitter r' = r_jitter r"
  by (auto simp: ps_feed_def Let_def Option.bind_eq_Some_conv dest!: deliver_jitter split: if_splits)

lemma process_es_jitter: "process_es r es pkts = Some r' \<Longrightarrow> r_jitter r' = r_jitter r"
  by (auto simp: process_es_def TakeAU_def Let_def Option.bind_eq_Some_conv dest!: deliver_jitter
      split: if_splits)

lemma process_ps_jitter: "process_ps r pkts = Some r' \<Longrightarrow> r_jitter r' = r_jitter r"
  by (auto simp: process_ps_def Let_def Option.bind_eq_Some_conv dest!: ps_feed_jitter split: if_splits)

lemma processRun_jitter: "processRunLocked r pkts = Some r' \<Longrightarrow> r_jitter r' = r_jitter r"
  by (auto simp: processRunLocked_def Let_def Option.bind_eq_Some_conv split: if_splits option.splits
      dest!: classify_jitter bare_run_jitter process_es_jitter process_ps_jitter)

lemma process_all_jitter: "process_all r ss = Some r' \<Longrightarrow> r_jitter r' = r_jitter r"
  by (induction r ss rule: process_all.induct)
    (auto simp: Option.bind_eq_Some_conv processRun_jitter)

function emitAccessUnitsLocked :: "receiver \<Rightarrow> receiver go" where
  "emitAccessUnitsLocked r =
     (case drainContiguousRunLocked r of
        (pkts, r1) \<Rightarrow>
          if length pkts = 0 then Some r1
          else (case process_all r1 (segments pkts) of
                  None \<Rightarrow> None
                | Some r2 \<Rightarrow> emitAccessUnitsLocked r2))"
  by pat_completeness auto
termination
proof (relation "measure (\<lambda>r. length (r_jitter r))", goal_cases)
  case (2 r pkts r1 r2)
  have "length pkts + length (r_jitter r1) \<le> length (r_jitter r)" "r_jitter r2 = r_jitter r1"
    using drain_length [of r] process_all_jitter 2 by (metis fst_conv snd_conv)+
  moreover from this(2) have "length (r_jitter r2) = length (r_jitter r1)" by simp
  ultimately have "length (r_jitter r2) < length (r_jitter r)" using 2(2) by linarith
  then show ?case by simp
qed simp

declare emitAccessUnitsLocked.simps [simp del]

subsection \<open>Feeding packets\<close>

text \<open>The body of \<open>feedJitterBuffer\<close> under the lock, for a packet of the latched source.\<close>

definition feed_locked :: "receiver \<Rightarrow> rtp_packet \<Rightarrow> receiver go" where
  "feed_locked r pkt = do {
     let seq = pk_seq pkt;
     let r = (if \<not> r_baseSeqSet r then r\<lparr>r_baseSeq := seq, r_baseSeqSet := True, r_lastSeq := seq\<rparr> else r);
     let r = (if seq_dist seq (r_lastSeq r) < - 1000 then r\<lparr>r_baseSeq := seq\<rparr> else r);
     r \<leftarrow> (if length (r_jitter r) \<ge> r_maxJitter r then emitAccessUnitsLocked r else Some r);
     let r = r\<lparr>r_jitter := AList.update seq pkt (r_jitter r), r_lastSeq := seq\<rparr>;
     if r_expectDecryptor r \<and> r_decryptor r = None then Some r
     else if pk_marker pkt then emitAccessUnitsLocked r
     else Some r }"

definition drop_foreign :: "receiver \<Rightarrow> receiver" where
  "drop_foreign r =
     r\<lparr>r_foreignDrops := r_foreignDrops r + 1, r_foreignLogged := True, r_dropped := r_dropped r + 1\<rparr>"

definition feedJitterBuffer :: "receiver \<Rightarrow> rtp_packet \<Rightarrow> receiver go" where
  "feedJitterBuffer r pkt =
     (if \<not> r_ssrcLatched r
      then feed_locked (r\<lparr>r_expectedSSRC := pk_ssrc pkt, r_ssrcLatched := True\<rparr>) pkt
      else if pk_ssrc pkt \<noteq> r_expectedSSRC r then Some (drop_foreign r)
      else feed_locked r pkt)"

text \<open>Un-XOR a payload through the stored cryptor; a stored nil interface panics.\<close>

definition decrypt :: "receiver \<Rightarrow> rtp_packet \<Rightarrow> rtp_packet go" where
  "decrypt r pkt =
     (case r_decryptor r of
        None \<Rightarrow> Some pkt
      | Some None \<Rightarrow> None
      | Some (Some c) \<Rightarrow> Some (pkt\<lparr>pk_payload := c (pk_payload pkt) (pk_ssrc pkt) (pk_seq pkt)\<rparr>))"

text \<open>One round of \<open>readLoop\<close> on a datagram; \<open>unmarshal\<close> is the RTP header decoder.\<close>

definition readLoop_step :: "(bytes \<Rightarrow> rtp_packet option) \<Rightarrow> receiver \<Rightarrow> bytes \<Rightarrow> receiver go" where
  "readLoop_step unmarshal r buf =
     (if length buf = 0 then Some r
      else do {
        let r = r\<lparr>r_received := r_received r + 1, r_lastPkt := r_now r\<rparr>;
        let r = (if r_received r = 1 then emit (r\<lparr>r_lastEmission := r_now r\<rparr>) [EvFirstRTP] else r);
        case unmarshal buf of
          None \<Rightarrow> Some (r\<lparr>r_dropped := r_dropped r + 1\<rparr>)
        | Some pkt \<Rightarrow> do { pkt \<leftarrow> decrypt r pkt; feedJitterBuffer r pkt } })"

definition retro_decrypt :: "cryptor \<Rightarrow> (u16 \<times> rtp_packet) list \<Rightarrow> (u16 \<times> rtp_packet) list" where
  "retro_decrypt c jb =
     map (\<lambda>(seq, pkt). (seq, if length (pk_payload pkt) > 0
            then pkt\<lparr>pk_payload := c (pk_payload pkt) (pk_ssrc pkt) (pk_seq pkt)\<rparr> else pkt)) jb"

definition SetPayloadDecryptor :: "receiver \<Rightarrow> cryptor option \<Rightarrow> receiver go" where
  "SetPayloadDecryptor r c =
     (let r = r\<lparr>r_decryptor := Some c\<rparr> in
      case c of
        None \<Rightarrow> Some r
      | Some cr \<Rightarrow>
          let held = r_expectDecryptor r; r = r\<lparr>r_expectDecryptor := False\<rparr> in
          if \<not> held \<and> \<not> r_classified r \<and> length (r_jitter r) = 0 then Some r
          else emitAccessUnitsLocked
            (r\<lparr>r_jitter := retro_decrypt cr (r_jitter r), r_classified := False, r_esLatch := False,
               r_bareAudio := False, r_es := None, r_demuxer := NewPSDemuxer\<rparr>))"

definition flush_emit :: "bool \<Rightarrow> receiver \<Rightarrow> bytes list \<Rightarrow> receiver" where
  "flush_emit isH265 r au = emit r (au_events r au (r_ptsClock r) (IsIDR au isH265))"

definition flushJitterBuffer :: "receiver \<Rightarrow> receiver go" where
  "flushJitterBuffer r = do {
     r \<leftarrow> (if length (r_jitter r) > 0 then emitAccessUnitsLocked r else Some r);
     (d, nalus) \<leftarrow> Flush (r_demuxer r);
     let r = r\<lparr>r_demuxer := d\<rparr>;
     if length nalus > 0 then do {
       let isH265 = (Codec d = ''h265'');
       aus \<leftarrow> splitAUsByFrame nalus isH265;
       Some (dispatchAudioLocked (foldl (flush_emit isH265) r aus)) }
     else Some r }"

subsection \<open>TCP framing\<close>

datatype tcpMode = TCPModeAuto | TCPModeRFC4571 | TCPMode0x24

datatype tcp_error = TcpEOF | TcpLength

text \<open>\<open>io.ReadFull\<close> of \<open>n\<close> bytes from a stream: the bytes and the rest.\<close>

definition read_full :: "nat \<Rightarrow> bytes \<Rightarrow> (bytes \<times> bytes) option" where
  "read_full n stream = (if n \<le> length stream then Some (take n stream, drop n stream) else None)"

text \<open>
  The framing header: the mode after detection, the two length bytes and the rest of the stream. In
  auto mode the first byte decides.
\<close>

definition read_header :: "tcpMode \<Rightarrow> bytes \<Rightarrow> tcpMode \<times> (bytes \<times> bytes) option" where
  "read_header mode stream =
     (case mode of
        TCPModeAuto \<Rightarrow>
          (case read_full 1 stream of
             None \<Rightarrow> (TCPModeAuto, None)
           | Some (first, rest) \<Rightarrow>
               if first = [0x24]
               then (TCPMode0x24, map_option (\<lambda>(h, rest). (drop 1 h, rest)) (read_full 3 rest))
               else (TCPModeRFC4571, map_option (\<lambda>(h, rest). (first @ h, rest)) (read_full 1 rest)))
      | TCPMode0x24 \<Rightarrow> (TCPMode0x24, map_option (\<lambda>(h, rest). (drop 2 h, rest)) (read_full 4 stream))
      | TCPModeRFC4571 \<Rightarrow> (TCPModeRFC4571, read_full 2 stream))"

text \<open>A packet length cannot exceed the 65535-byte buffer, so only zero is refused.\<close>

definition rtpReadBufSize :: nat where "rtpReadBufSize = 65535"

definition readTCP :: "tcpMode \<Rightarrow> bytes \<Rightarrow> tcpMode \<times> (tcp_error + bytes \<times> bytes)" where
  "readTCP mode stream =
     (case read_header mode stream of
        (mode, None) \<Rightarrow> (mode, Inl TcpEOF)
      | (mode, Some (h, rest)) \<Rightarrow>
          let len = be16 (h ! 0) (h ! 1) in
          if len = 0 \<or> len > rtpReadBufSize then (mode, Inl TcpLength)
          else case read_full len rest of
            None \<Rightarrow> (mode, Inl TcpEOF)
          | Some (pkt, rest) \<Rightarrow> (mode, Inr (pkt, rest)))"

end
