(* ===== verification/Rtp_Session.thy ===== *)
theory Rtp_Session
  imports Rtp_Send Rtp_Receiver Ps_Roundtrip "HOL-Library.Multiset"
begin

text \<open>
  The packetizer of \<open>src/psmux/rtp.go\<close> against the receiver of \<open>src/platform/rtp.go\<close>: the packets of
  an access unit, reordered before its marker packet, leave the jitter buffer as the burst that went
  in, and a whole session reaches the callbacks access unit by access unit.
\<close>

subsection \<open>Sequence number distances\<close>

lemma seq_dist_of_int:
  assumes "a = b + of_int k" and "- 32768 \<le> k" and "k < 32768"
  shows "seq_dist a b = k"
proof -
  have "a - b = word_of_int k" using assms(1) by simp
  then show ?thesis using assms(2,3)
    by (simp add: seq_dist_def int_word_sint)
qed

subsection \<open>Packets of a burst\<close>

definition rx_packet :: "u32 \<Rightarrow> u32 \<Rightarrow> u16 \<times> bool \<times> bytes \<Rightarrow> rtp_packet" where
  "rx_packet ts ssrc = (\<lambda>(s, m, f).
     \<lparr>pk_payloadType = 96, pk_marker = m, pk_seq = s, pk_timestamp = ts, pk_ssrc = ssrc,
      pk_ext = [], pk_payload = f\<rparr>)"

definition burst :: "u32 \<Rightarrow> u32 \<Rightarrow> u16 \<Rightarrow> bytes list \<Rightarrow> rtp_packet list" where
  "burst ts ssrc s fs = map (rx_packet ts ssrc) (number_frags s fs)"

lemma length_burst [simp]: "length (burst ts ssrc s fs) = length fs"
  by (simp add: burst_def)

lemma burst_nth:
  "i < length fs \<Longrightarrow> burst ts ssrc s fs ! i = rx_packet ts ssrc (s + of_nat i, i + 1 = length fs, fs ! i)"
  by (simp add: burst_def number_frags_nth)

lemma stitched_burst: "stitched (burst ts ssrc s fs) = concat fs"
proof -
  have "map pk_payload (burst ts ssrc s fs) = fs"
    by (rule nth_equalityI) (simp_all add: burst_nth rx_packet_def)
  then show ?thesis by (simp add: stitched_def)
qed

lemma last_burst:
  assumes "fs \<noteq> []"
  shows "pk_marker (last (burst ts ssrc s fs))" "pk_timestamp (last (burst ts ssrc s fs)) = ts"
proof -
  have "burst ts ssrc s fs \<noteq> []" using assms by (metis length_burst length_0_conv)
  then have "last (burst ts ssrc s fs) = burst ts ssrc s fs ! (length fs - 1)"
    by (simp add: last_conv_nth)
  then show "pk_marker (last (burst ts ssrc s fs))" "pk_timestamp (last (burst ts ssrc s fs)) = ts"
    using assms burst_nth [of "length fs - 1" fs ts ssrc s] by (simp_all add: rx_packet_def)
qed

lemma segments_no_marker:
  "\<forall>p \<in> set ps. \<not> pk_marker p \<Longrightarrow> pk_marker q \<Longrightarrow> segments (ps @ [q]) = [ps @ [q]]"
  by (induction ps) auto

lemma butlast_member: "x \<in> set (butlast xs) \<Longrightarrow> \<exists>i < length xs - 1. x = xs ! i"
  by (metis in_set_conv_nth length_butlast nth_butlast)

lemma segments_burst:
  assumes "fs \<noteq> []"
  shows "segments (burst ts ssrc s fs) = [burst ts ssrc s fs]"
proof -
  let ?b = "burst ts ssrc s fs"
  have ne: "?b \<noteq> []" using assms by (metis length_burst length_0_conv)
  have "\<not> pk_marker p" if "p \<in> set (butlast ?b)" for p
  proof -
    obtain i where "i < length ?b - 1" "p = ?b ! i" using butlast_member [OF \<open>p \<in> _\<close>] by blast
    then show ?thesis by (simp add: burst_nth rx_packet_def)
  qed
  then show ?thesis
    using segments_no_marker [of "butlast ?b" "last ?b"] last_burst [OF assms] ne by simp
qed

subsection \<open>Draining a burst\<close>

lemma map_of_delete: "map_of (AList.delete k jb) = (map_of jb)(k := None)"
  by (rule AList.delete_conv')

lemma collect_run_all:
  assumes "\<And>i. n \<le> i \<Longrightarrow> i < length pkts \<Longrightarrow> map_of jb (s + of_nat i) = Some (pkts ! i)"
    and "map_of jb (s + of_nat (length pkts)) = None" and "n \<le> length pkts" and "length pkts < 65536"
  shows "fst (collect_run jb s (take n pkts)) = pkts
    \<and> map_of (snd (collect_run jb s (take n pkts)))
        = (\<lambda>q. if \<exists>i. n \<le> i \<and> i < length pkts \<and> q = s + of_nat i then None else map_of jb q)"
  using assms
proof (induction "length pkts - n" arbitrary: n jb)
  case 0
  then have n: "n = length pkts" by simp
  then have "collect_run jb s (take n pkts) = (pkts, jb)"
    using "0.prems"(2) by (subst collect_run.simps) simp
  then show ?case using n by (auto simp: fun_eq_iff)
next
  case (Suc k)
  then have n: "n < length pkts" by simp
  let ?jb = "AList.delete (s + of_nat n) jb"
  have ne: "(s + of_nat i :: u16) \<noteq> s + of_nat n" if "i \<noteq> n" "i \<le> length pkts" for i
  proof
    assume "s + of_nat i = (s + of_nat n :: u16)"
    then have "(of_nat i :: u16) = of_nat n" by simp
    then have "unat (of_nat i :: u16) = unat (of_nat n :: u16)" by simp
    then show False using that n Suc.prems(4) by (simp add: unat_of_nat)
  qed
  have step: "collect_run jb s (take n pkts) = collect_run ?jb s (take (Suc n) pkts)"
    using Suc.prems(1) [of n] n by (subst collect_run.simps) (simp add: take_Suc_conv_app_nth)
  have IH: "fst (collect_run ?jb s (take (Suc n) pkts)) = pkts
    \<and> map_of (snd (collect_run ?jb s (take (Suc n) pkts)))
        = (\<lambda>q. if \<exists>i. Suc n \<le> i \<and> i < length pkts \<and> q = s + of_nat i then None else map_of ?jb q)"
    using Suc.prems ne n Suc.hyps(2) by (intro Suc.hyps(1)) (auto simp: map_of_delete)
  show ?case unfolding step using IH n
    by (auto simp: fun_eq_iff map_of_delete le_Suc_eq Suc_le_eq nat_less_le)
qed

lemma drain_empty:
  assumes "r_jitter r = []"
  shows "drainContiguousRunLocked r = ([], r)"
proof -
  have "drain_once r = ([], r)"
    using assms by (simp add: drain_once_def collect_run.simps [of "[]"])
  then show ?thesis using assms
    by (simp add: drainContiguousRunLocked_def nextBufferedSeqLocked_def)
qed

lemma emit_empty: "r_jitter r = [] \<Longrightarrow> emitAccessUnitsLocked r = Some r"
  by (subst emitAccessUnitsLocked.simps) (simp add: drain_empty)

lemma map_of_empty_iff: "map_of jb = Map.empty \<longleftrightarrow> jb = []"
  by simp

text \<open>The buffer holds exactly the packets of a run that starts at the base.\<close>

definition holds_run :: "receiver \<Rightarrow> rtp_packet list \<Rightarrow> bool" where
  "holds_run r pkts \<longleftrightarrow>
     map_of (r_jitter r) = (\<lambda>q. if \<exists>i < length pkts. q = r_baseSeq r + of_nat i
                                 then Some (pkts ! unat (q - r_baseSeq r)) else None)"

lemma seq_index: "i < 65536 \<Longrightarrow> unat ((s + of_nat i) - s :: u16) = i"
  by (simp add: unat_of_nat)

lemma emit_run:
  assumes "holds_run r pkts" and "pkts \<noteq> []" and "length pkts < 65536"
    and "segments pkts = [pkts]"
  shows "emitAccessUnitsLocked r = processRunLocked (r\<lparr>r_jitter := []\<rparr>) pkts"
proof -
  let ?s = "r_baseSeq r"
  have in_run: "map_of (r_jitter r) (?s + of_nat i) = Some (pkts ! i)" if "i < length pkts" for i
    using assms(1,3) that seq_index [of i ?s] unfolding holds_run_def by auto
  have out_run: "map_of (r_jitter r) (?s + of_nat (length pkts)) = None"
  proof -
    have "(?s + of_nat (length pkts)) \<noteq> ?s + of_nat i" if "i < length pkts" for i
      using seq_index [of i ?s] seq_index [of "length pkts" ?s] that assms(3)
      by (metis less_trans nat_neq_iff)
    then show ?thesis using assms(1) unfolding holds_run_def by auto
  qed
  obtain pk jb where c: "collect_run (r_jitter r) ?s [] = (pk, jb)" by fastforce
  have "pk = pkts" and "map_of jb = (\<lambda>q. if \<exists>i. i < length pkts \<and> q = ?s + of_nat i then None
      else map_of (r_jitter r) q)"
    using collect_run_all [of 0 pkts "r_jitter r" ?s] in_run out_run assms(3) c by auto
  moreover from this(2) have "map_of jb = Map.empty"
    using assms(1) by (auto simp: holds_run_def fun_eq_iff)
  then have "jb = []" by simp
  ultimately have "drainContiguousRunLocked r = (pkts, r\<lparr>r_jitter := []\<rparr>)"
    using c assms(2) by (simp add: drainContiguousRunLocked_def drain_once_def)
  then have "emitAccessUnitsLocked r = (case processRunLocked (r\<lparr>r_jitter := []\<rparr>) pkts of
      None \<Rightarrow> None | Some r2 \<Rightarrow> emitAccessUnitsLocked r2)"
    using assms(2,4) by (subst emitAccessUnitsLocked.simps) (auto split: option.split)
  then show ?thesis
    using emit_empty processRun_jitter [of "r\<lparr>r_jitter := []\<rparr>" pkts] by (auto split: option.splits)
qed

subsection \<open>Arrival of a burst in any order before its marker\<close>

fun feed_packets :: "receiver \<Rightarrow> rtp_packet list \<Rightarrow> receiver go" where
  "feed_packets r [] = Some r"
| "feed_packets r (p # ps) = do { r \<leftarrow> feedJitterBuffer r p; feed_packets r ps }"

lemma feed_packets_append:
  "feed_packets r (ps @ qs) = Option.bind (feed_packets r ps) (\<lambda>r. feed_packets r qs)"
  by (induction ps arbitrary: r) (simp_all add: Option.bind_assoc)

text \<open>A plaintext session whose source is latched.\<close>

definition rx_plain :: "u32 \<Rightarrow> receiver \<Rightarrow> bool" where
  "rx_plain ssrc r \<longleftrightarrow> r_ssrcLatched r \<and> r_expectedSSRC r = ssrc \<and> r_baseSeqSet r
     \<and> r_maxJitter r = 32 \<and> \<not> r_expectDecryptor r \<and> r_decryptor r = None"

lemma feed_one:
  assumes "rx_plain ssrc r" and "pk_ssrc p = ssrc" and "length (r_jitter r) < 32"
    and "- 1000 \<le> seq_dist (pk_seq p) (r_lastSeq r)"
  shows "feedJitterBuffer r p =
    (if pk_marker p
     then emitAccessUnitsLocked (r\<lparr>r_jitter := AList.update (pk_seq p) p (r_jitter r), r_lastSeq := pk_seq p\<rparr>)
     else Some (r\<lparr>r_jitter := AList.update (pk_seq p) p (r_jitter r), r_lastSeq := pk_seq p\<rparr>))"
  using assms by (simp add: feedJitterBuffer_def feed_locked_def rx_plain_def Let_def)

fun put_all :: "rtp_packet list \<Rightarrow> (u16 \<rightharpoonup> rtp_packet) \<Rightarrow> (u16 \<rightharpoonup> rtp_packet)" where
  "put_all [] m = m"
| "put_all (p # ps) m = put_all ps (m(pk_seq p \<mapsto> p))"

lemma put_all_out: "x \<notin> pk_seq ` set ps \<Longrightarrow> put_all ps m x = m x"
  by (induction ps arbitrary: m) auto

lemma put_all_snoc: "put_all (ps @ [p]) m = (put_all ps m)(pk_seq p \<mapsto> p)"
  by (induction ps arbitrary: m) simp_all

lemma put_all_in:
  "p \<in> set ps \<Longrightarrow> inj_on pk_seq (set ps) \<Longrightarrow> put_all ps m (pk_seq p) = Some p"
proof (induction ps arbitrary: m)
  case (Cons a ps)
  show ?case
  proof (cases "p \<in> set ps")
    case True
    moreover have "inj_on pk_seq (set ps)" using Cons.prems(2) by (auto simp: inj_on_def)
    ultimately show ?thesis by (simp only: put_all.simps Cons.IH)
  next
    case False
    then have "p = a" "pk_seq p \<notin> pk_seq ` set ps" using Cons.prems by (auto simp: inj_on_def)
    then show ?thesis using put_all_out [of "pk_seq p" ps "m(pk_seq a \<mapsto> a)"] by simp
  qed
qed simp

text \<open>Sequence numbers of a burst of at most 32 packets stay close to each other.\<close>

definition near_seq :: "u16 \<Rightarrow> u16 \<Rightarrow> bool" where
  "near_seq s q \<longleftrightarrow> (\<exists>k. - 1 \<le> k \<and> k < 32 \<and> q = s + of_int k)"

lemma near_seq_dist:
  assumes "near_seq s q" and "near_seq s l"
  shows "- 1000 \<le> seq_dist q l"
proof -
  obtain i j where "- 1 \<le> i" "i < 32" "q = s + of_int i" "- 1 \<le> j" "j < 32" "l = s + of_int j"
    using assms by (auto simp: near_seq_def)
  then have "q = l + of_int (i - j)" "- 32768 \<le> i - j" "i - j < 32768" by simp_all
  then have "seq_dist q l = i - j" by (rule seq_dist_of_int)
  then show ?thesis using \<open>- 1 \<le> i\<close> \<open>j < 32\<close> by simp
qed

lemma feed_held:
  assumes "rx_plain ssrc r" and "\<forall>q \<in> set qs. pk_ssrc q = ssrc \<and> \<not> pk_marker q \<and> near_seq s (pk_seq q)"
    and "near_seq s (r_lastSeq r)" and "length (r_jitter r) + length qs \<le> 32"
  shows "\<exists>jb l. feed_packets r qs = Some (r\<lparr>r_jitter := jb, r_lastSeq := l\<rparr>) \<and> near_seq s l
    \<and> length jb \<le> length (r_jitter r) + length qs \<and> map_of jb = put_all qs (map_of (r_jitter r))"
  using assms
proof (induction qs arbitrary: r)
  case Nil
  then show ?case by (intro exI [of _ "r_jitter r"] exI [of _ "r_lastSeq r"]) simp
next
  case (Cons q qs)
  let ?r = "r\<lparr>r_jitter := AList.update (pk_seq q) q (r_jitter r), r_lastSeq := pk_seq q\<rparr>"
  have step: "feedJitterBuffer r q = Some ?r"
    using Cons.prems near_seq_dist [of s "pk_seq q" "r_lastSeq r"] feed_one [of ssrc r q] by simp
  have len: "length (r_jitter ?r) \<le> Suc (length (r_jitter r))" by (simp add: update_length)
  have "rx_plain ssrc ?r" using Cons.prems(1) by (simp add: rx_plain_def)
  then obtain jb l where "feed_packets ?r qs = Some (?r\<lparr>r_jitter := jb, r_lastSeq := l\<rparr>)" "near_seq s l"
    "length jb \<le> length (r_jitter ?r) + length qs" "map_of jb = put_all qs (map_of (r_jitter ?r))"
    using Cons.IH [of ?r] Cons.prems len by fastforce
  then show ?case using step len
    by (intro exI [of _ jb] exI [of _ l]) (simp add: AList.update_conv')
qed

lemma burst_seq_inj:
  assumes "length fs \<le> 32"
  shows "inj_on pk_seq (set (burst ts ssrc s fs))"
proof (rule inj_onI)
  fix p q
  assume p: "p \<in> set (burst ts ssrc s fs)" and q: "q \<in> set (burst ts ssrc s fs)" and eq: "pk_seq p = pk_seq q"
  obtain i where i: "i < length fs" "p = burst ts ssrc s fs ! i"
    using p by (metis in_set_conv_nth length_burst)
  obtain j where j: "j < length fs" "q = burst ts ssrc s fs ! j"
    using q by (metis in_set_conv_nth length_burst)
  have "s + of_nat i = (s + of_nat j :: u16)"
    using eq i j by (simp add: burst_nth rx_packet_def)
  then have "i = j" using seq_index [of i s] seq_index [of j s] i j assms by auto
  then show "p = q" using i j by simp
qed

lemma burst_member:
  assumes "p \<in> set (burst ts ssrc s fs)" and "length fs \<le> 32"
  shows "pk_ssrc p = ssrc" "near_seq s (pk_seq p)" "\<exists>i < length fs. pk_seq p = s + of_nat i"
proof -
  obtain i where i: "i < length fs" "p = burst ts ssrc s fs ! i"
    using assms(1) by (metis in_set_conv_nth length_burst)
  then show "pk_ssrc p = ssrc" "\<exists>i < length fs. pk_seq p = s + of_nat i"
    by (auto simp: burst_nth rx_packet_def)
  show "near_seq s (pk_seq p)"
    unfolding near_seq_def using i assms(2)
    by (intro exI [of _ "int i"]) (simp add: burst_nth rx_packet_def)
qed

lemma holds_burst:
  assumes "set ps = set (burst ts ssrc s fs)" and "length fs \<le> 32"
    and "map_of (r_jitter r) = put_all ps Map.empty" and "r_baseSeq r = s"
  shows "holds_run r (burst ts ssrc s fs)"
  unfolding holds_run_def
proof
  fix q
  let ?b = "burst ts ssrc s fs"
  show "map_of (r_jitter r) q = (if \<exists>i < length ?b. q = r_baseSeq r + of_nat i
      then Some (?b ! unat (q - r_baseSeq r)) else None)"
  proof (cases "\<exists>i < length ?b. q = r_baseSeq r + of_nat i")
    case True
    then obtain i where i: "i < length fs" "q = s + of_nat i" using assms(4) by auto
    then have "?b ! i \<in> set ps" "pk_seq (?b ! i) = q"
      unfolding assms(1) using nth_mem [of i ?b] by (simp_all add: burst_nth [of i] rx_packet_def)
    then have "put_all ps Map.empty q = Some (?b ! i)"
      using put_all_in [of "?b ! i" ps] burst_seq_inj [OF assms(2)] assms(1) by metis
    moreover have "unat (q - s) = i" using i assms(2) seq_index [of i s] by simp
    ultimately show ?thesis using True assms(3,4) by simp
  next
    case False
    have "pk_seq p \<noteq> q" if "p \<in> set ps" for p
      using burst_member(3) [OF _ assms(2), of p ts ssrc s] that False assms(1,4) by auto
    then have "q \<notin> pk_seq ` set ps" by blast
    then show ?thesis using False put_all_out assms(3) by simp
  qed
qed

text \<open>
  Any order of a burst's packets with the marker packet last has the same effect: one run is
  processed, and the buffer is empty again.
\<close>

lemma feed_burst:
  assumes "rx_plain ssrc r" and "r_jitter r = []" and "r_baseSeq r = s" and "near_seq s (r_lastSeq r)"
    and "fs \<noteq> []" and "length fs \<le> 32" and "mset qs = mset (butlast (burst ts ssrc s fs))"
  shows "\<exists>l. feed_packets r (qs @ [last (burst ts ssrc s fs)]) =
      processRunLocked (r\<lparr>r_lastSeq := l\<rparr>) (burst ts ssrc s fs) \<and> l = s + of_nat (length fs - 1)"
proof -
  let ?b = "burst ts ssrc s fs"
  have ne: "?b \<noteq> []" using assms(5) by (metis length_burst length_0_conv)
  have split: "butlast ?b @ [last ?b] = ?b" using ne by simp
  have set_qs: "set qs = set (butlast ?b)" using assms(7) by (metis set_mset_mset)
  then have sub: "set qs \<subseteq> set ?b" by (auto dest: in_set_butlastD)
  have set_all: "set (qs @ [last ?b]) = set ?b"
    using arg_cong [OF split, of set] set_qs by simp
  have len: "length qs \<le> 31" using assms(5,6) mset_eq_length [OF assms(7)] by simp
  have nomark: "\<not> pk_marker q" if "q \<in> set qs" for q
  proof -
    have "q \<in> set (butlast ?b)" using that set_qs by simp
    from butlast_member [OF this] obtain i where "i < length ?b - 1" "q = ?b ! i" by blast
    then show ?thesis by (simp add: burst_nth rx_packet_def)
  qed
  have mem: "\<forall>q \<in> set qs. pk_ssrc q = ssrc \<and> \<not> pk_marker q \<and> near_seq s (pk_seq q)"
    using sub nomark burst_member [OF _ assms(6)] by blast
  obtain jb l where h: "feed_packets r qs = Some (r\<lparr>r_jitter := jb, r_lastSeq := l\<rparr>)" "near_seq s l"
    "length jb \<le> length (r_jitter r) + length qs" "map_of jb = put_all qs (map_of (r_jitter r))"
    using feed_held [OF assms(1) mem assms(4)] assms(2) len by auto
  let ?r = "r\<lparr>r_jitter := jb, r_lastSeq := l\<rparr>" and ?q = "last ?b"
  let ?jb = "AList.update (pk_seq ?q) ?q jb"
  have q: "pk_ssrc ?q = ssrc" "near_seq s (pk_seq ?q)"
    using burst_member [OF last_in_set [OF ne] assms(6)] by auto
  have "rx_plain ssrc ?r" using assms(1) by (simp add: rx_plain_def)
  then have step: "feedJitterBuffer ?r ?q =
      emitAccessUnitsLocked (r\<lparr>r_jitter := ?jb, r_lastSeq := pk_seq ?q\<rparr>)"
    using feed_one [of ssrc ?r ?q] q h(2,3) assms(2) len near_seq_dist [OF q(2) h(2)] last_burst [OF assms(5)]
    by simp
  have "map_of ?jb = put_all (qs @ [?q]) Map.empty"
    using h(4) assms(2) put_all_snoc [of qs ?q Map.empty] by (simp add: AList.update_conv')
  then have "holds_run (r\<lparr>r_jitter := ?jb, r_lastSeq := pk_seq ?q\<rparr>) ?b"
    using holds_burst [OF set_all assms(6)] assms(3) by simp
  then have "emitAccessUnitsLocked (r\<lparr>r_jitter := ?jb, r_lastSeq := pk_seq ?q\<rparr>) =
      processRunLocked (r\<lparr>r_lastSeq := pk_seq ?q, r_jitter := []\<rparr>) ?b"
    using emit_run [OF _ ne _ segments_burst [OF assms(5)]] assms(6) by simp
  moreover have "pk_seq ?q = s + of_nat (length fs - 1)"
    using burst_nth [of "length fs - 1" fs ts ssrc s] assms(5) ne
    by (simp add: last_conv_nth rx_packet_def)
  moreover have "r\<lparr>r_lastSeq := x, r_jitter := []\<rparr> = r\<lparr>r_lastSeq := x\<rparr>" for x
    using assms(2) by (cases r) simp
  ultimately show ?thesis using h(1) step by (simp add: feed_packets_append)
qed

subsection \<open>A burst through the demuxer\<close>

text \<open>The fields that processing a program-stream run leaves alone.\<close>

definition rx_cfg where
  "rx_cfg r = (r_hub r, r_auCb r, r_naluCb r, r_audioCb r, r_ssrcLatched r, r_expectedSSRC r,
     r_baseSeqSet r, r_maxJitter r, r_expectDecryptor r, r_decryptor r, r_verifier r, r_esLatch r,
     r_bareAudio r, r_audioOnlyHint r, r_lastSeq r, r_jitter r)"

definition ps_mode :: "receiver \<Rightarrow> bool" where
  "ps_mode r \<longleftrightarrow> \<not> r_bareAudio r \<and> \<not> r_esLatch r \<and> \<not> r_audioOnlyHint r \<and> r_verifier r = None"

definition video_events :: "rx_event list \<Rightarrow> rx_event list" where
  "video_events evs = filter (\<lambda>e. case e of EvAudio _ \<Rightarrow> False | _ \<Rightarrow> True) evs"

lemma video_events_append [simp]: "video_events (xs @ ys) = video_events xs @ video_events ys"
  by (simp add: video_events_def)

lemma video_events_au: "video_events (au_events r au pts idr) = au_events r au pts idr"
  by (auto simp: video_events_def au_events_def filter_map o_def)

lemma video_events_audio: "video_events (map EvAudio fs) = []"
  by (induction fs) (simp_all add: video_events_def)

lemma emitAU_frame:
  "rx_cfg (emitAULocked pts r au) = rx_cfg r" "r_demuxer (emitAULocked pts r au) = r_demuxer r"
  "r_baseSeq (emitAULocked pts r au) = r_baseSeq r" "r_classified (emitAULocked pts r au) = r_classified r"
  by (simp_all add: emitAULocked_def emit_def rx_cfg_def Let_def)

lemma au_events_cfg: "rx_cfg r = rx_cfg r' \<Longrightarrow> au_events r = au_events r'"
  by (simp add: rx_cfg_def au_events_def fun_eq_iff)

lemma emitAU_out:
  assumes "\<not> r_esLatch r"
  shows "r_out (emitAULocked pts r au) =
    r_out r @ au_events r au pts (IsIDR au (Codec (r_demuxer r) = ''h265''))"
  using assms
  by (simp add: emitAULocked_def emit_def rx_Codec_def au_events_def Let_def split: option.split)

lemma foldl_emitAU:
  assumes "\<not> r_esLatch r"
  shows "rx_cfg (foldl (emitAULocked pts) r aus) = rx_cfg r
    \<and> r_demuxer (foldl (emitAULocked pts) r aus) = r_demuxer r
    \<and> r_baseSeq (foldl (emitAULocked pts) r aus) = r_baseSeq r
    \<and> r_classified (foldl (emitAULocked pts) r aus) = r_classified r
    \<and> r_out (foldl (emitAULocked pts) r aus) = r_out r @
        concat (map (\<lambda>au. au_events r au pts (IsIDR au (Codec (r_demuxer r) = ''h265''))) aus)"
  using assms
proof (induction aus arbitrary: r)
  case (Cons au aus)
  have "\<not> r_esLatch (emitAULocked pts r au)"
    using Cons.prems emitAU_frame(1) [of pts r au] by (simp add: rx_cfg_def)
  from Cons.IH [OF this] show ?case
    using emitAU_frame [of pts r au] emitAU_out [OF Cons.prems] au_events_cfg [OF emitAU_frame(1)] by simp
qed simp

lemma dispatchAudio_frame:
  "rx_cfg (dispatchAudioLocked r) = rx_cfg r" "r_baseSeq (dispatchAudioLocked r) = r_baseSeq r"
  "r_classified (dispatchAudioLocked r) = r_classified r"
  "r_demuxer (dispatchAudioLocked r) = (r_demuxer r)\<lparr>d_audioOut := []\<rparr>"
  "video_events (r_out (dispatchAudioLocked r)) = video_events (r_out r)"
  by (simp_all add: dispatchAudioLocked_def DrainAudio_def emit_def rx_cfg_def Let_def video_events_audio)

lemma classify_ps:
  assumes "ps_mode r" and "payload = 0 # 0 # x"
  shows "\<exists>cl. classify r payload = Some (r\<lparr>r_classified := True, r_classification := cl\<rparr>)"
  using assms
  by (auto simp: classify_def ps_mode_def looksLikeESPacket_def Let_def
      intro: exI [of _ "r_classification r"])

lemma process_burst:
  assumes "ps_mode r" and "fs \<noteq> []" and "hd fs = 0 # 0 # x"
    and "FeedAU (r_demuxer r) (concat fs) (ucast ts) True = Some (d', ns)" and "ns \<noteq> []"
    and "splitAUsByFrame ns (Codec d' = ''h265'') = Some aus"
  shows "\<exists>r'. processRunLocked r (burst ts ssrc s fs) = Some r' \<and> rx_cfg r' = rx_cfg r
    \<and> r_demuxer r' = d'\<lparr>d_audioOut := []\<rparr> \<and> r_baseSeq r' = r_baseSeq r + of_nat (length fs)
    \<and> video_events (r_out r') = video_events (r_out r) @
        concat (map (\<lambda>au. au_events r au (ucast ts) (IsIDR au (Codec d' = ''h265''))) aus)"
proof -
  let ?b = "burst ts ssrc s fs"
  let ?r = "r\<lparr>r_baseSeq := r_baseSeq r + of_nat (length fs)\<rparr>"
  have b0: "pk_payload (?b ! 0) = hd fs" "0 < length ?b"
    using assms(2) burst_nth [of 0 fs ts ssrc s] by (simp_all add: rx_packet_def hd_conv_nth)
  obtain cl where cl: "classify ?r (hd fs) = Some (?r\<lparr>r_classified := True, r_classification := cl\<rparr>)"
    using classify_ps [of ?r "hd fs"] assms(1,3) by (auto simp: ps_mode_def)
  let ?r1 = "?r\<lparr>r_classified := True, r_classification := cl\<rparr>"
  let ?r2 = "?r1\<lparr>r_ptsClock := ucast ts, r_demuxer := d'\<rparr>"
  have run: "processRunLocked r ?b = process_ps ?r1 ?b"
    using b0 cl assms(1,2) by (simp add: processRunLocked_def ps_mode_def Let_def)
  have "concat fs \<noteq> []" using assms(2,3) by (cases fs) auto
  then have "process_ps ?r1 ?b = ps_feed (?r1\<lparr>r_ptsClock := ucast ts\<rparr>) (concat fs) (ucast ts) True"
    using last_burst [OF assms(2), of ts ssrc s] assms(1)
    by (auto simp: process_ps_def stitched_burst sig_ok_def ps_mode_def Let_def)
  also have "\<dots> = Some (dispatchAudioLocked (foldl (emitAULocked (ucast ts)) ?r2 aus))"
    using assms(4-6) by (simp add: ps_feed_def deliver_def Let_def)
  finally have eq: "processRunLocked r ?b = Some (dispatchAudioLocked (foldl (emitAULocked (ucast ts)) ?r2 aus))"
    using run by simp
  have nes: "\<not> r_esLatch ?r2" using assms(1) by (simp add: ps_mode_def)
  have cfg: "rx_cfg ?r2 = rx_cfg r" by (simp add: rx_cfg_def)
  have out: "video_events (concat (map (\<lambda>au. au_events r au (ucast ts) (i au)) xs)) =
      concat (map (\<lambda>au. au_events r au (ucast ts) (i au)) xs)" for i xs
    by (induction xs) (simp_all add: video_events_au, simp add: video_events_def)
  show ?thesis
    using eq foldl_emitAU [OF nes, of "ucast ts" aus] cfg out au_events_cfg [OF cfg]
    by (simp add: dispatchAudio_frame)
qed

subsection \<open>A session\<close>

text \<open>The datagrams of one access unit, and what the callbacks should see of it.\<close>

definition au_packets :: "muxer \<Rightarrow> u32 \<Rightarrow> u16 \<Rightarrow> sent_au \<Rightarrow> rtp_packet list" where
  "au_packets m ssrc s au =
     burst (ucast (au_pts au)) ssrc s
       (frags (fst (WriteAU m (annexB_stream (au_units au)) (au_pts au) (au_idr au))))"

definition au_out :: "receiver \<Rightarrow> bool \<Rightarrow> sent_au \<Rightarrow> rx_event list" where
  "au_out r h265 au =
     concat (map (\<lambda>sub. au_events r sub (ucast (ucast (au_pts au) :: u32)) (IsIDR sub h265))
       (the (splitAUsByFrame (map snd (au_units au)) h265)))"

text \<open>
  One arrival sequence per access unit: the packets of a burst of at most 32 in any order, the marker
  packet last.
\<close>

fun arrivals :: "muxer \<Rightarrow> u32 \<Rightarrow> u16 \<Rightarrow> sent_au list \<Rightarrow> rtp_packet list list \<Rightarrow> bool" where
  "arrivals m ssrc s [] arrs = (arrs = [])"
| "arrivals m ssrc s (au # aus) arrs =
     (case arrs of
        [] \<Rightarrow> False
      | a # arrs' \<Rightarrow>
          let b = au_packets m ssrc s au in
          length b \<le> 32 \<and> a \<noteq> [] \<and> last a = last b \<and> mset (butlast a) = mset (butlast b)
          \<and> arrivals (snd (WriteAU m (annexB_stream (au_units au)) (au_pts au) (au_idr au)))
              ssrc (s + of_nat (length b)) aus arrs')"

definition rx_ready :: "u32 \<Rightarrow> u16 \<Rightarrow> receiver \<Rightarrow> bool" where
  "rx_ready ssrc s r \<longleftrightarrow> rx_plain ssrc r \<and> ps_mode r \<and> r_jitter r = [] \<and> r_baseSeq r = s
     \<and> near_seq s (r_lastSeq r) \<and> au_ready (r_demuxer r)"

lemma frags_head:
  assumes "ps = 0 # 0 # x"
  shows "frags ps \<noteq> [] \<and> (\<exists>y. hd (frags ps) = 0 # 0 # y) \<and> concat (frags ps) = ps"
proof -
  have mtu: "2 \<le> RTPMTU" by (simp add: RTPMTU_def)
  then obtain k where k: "RTPMTU = Suc (Suc k)" by (metis Suc_le_D numeral_2_eq_2 Suc_le_mono)
  have "take RTPMTU ps = 0 # 0 # take k x" unfolding k assms by simp
  then show ?thesis
    using assms mtu concat_chunks [of RTPMTU ps] by (auto simp: frags_def chunks_step)
qed

lemma rx_ready_step:
  assumes "rx_ready ssrc s r" and "rx_cfg r' = rx_cfg (r\<lparr>r_lastSeq := s + of_nat (n - 1)\<rparr>)"
    and "r_baseSeq r' = s + of_nat n" and "au_ready d'" and "r_demuxer r' = d'\<lparr>d_audioOut := []\<rparr>"
    and "0 < n"
  shows "rx_ready ssrc (s + of_nat n) r'"
proof -
  have "near_seq (s + of_nat n) (s + of_nat (n - 1))"
    unfolding near_seq_def using assms(6) by (intro exI [of _ "- 1"]) (simp add: of_nat_diff)
  then show ?thesis
    using assms by (simp add: rx_ready_def rx_plain_def ps_mode_def rx_cfg_def au_ready_def no_pending_def)
qed

lemma session_step:
  assumes "rx_ready ssrc s r" and "au_ok au" and "videoType m \<in> {st_H264, st_H265}"
    and "codec = latched_codec (videoType m)"
    and "d_naluType (r_demuxer r) = codec \<or> au_idr au \<and> psmDirty m"
    and "length (au_packets m ssrc s au) \<le> 32" and "a \<noteq> []" and "last a = last (au_packets m ssrc s au)"
    and "mset (butlast a) = mset (butlast (au_packets m ssrc s au))"
  shows "\<exists>r'. feed_packets r a = Some r' \<and> rx_ready ssrc (s + of_nat (length (au_packets m ssrc s au))) r'
    \<and> d_naluType (r_demuxer r') = codec \<and> au_events r' = au_events r
    \<and> video_events (r_out r') = video_events (r_out r) @ au_out r (codec = ''h265'') au"
proof -
  let ?s = "annexB_stream (au_units au)"
  let ?ps = "fst (WriteAU m ?s (au_pts au) (au_idr au))"
  let ?fs = "frags ?ps" and ?ts = "ucast (au_pts au) :: u32" and ?ns = "map snd (au_units au)"
  let ?nt = "if au_idr au \<and> psmDirty m then latched_codec (videoType m) else d_naluType (r_demuxer r)"
  have nt: "?nt = codec" "codec \<noteq> ''''" "codec \<noteq> ''svac''"
    using assms(3-5) by (auto simp: latched_codec_def)
  have "\<exists>x. ?ps = 0 # 0 # x" by (simp add: WriteAU_bytes packHeader_def Let_def)
  then obtain y where fs: "?fs \<noteq> []" "hd ?fs = 0 # 0 # y" "concat ?fs = ?ps" using frags_head by blast
  have pk: "au_packets m ssrc s au = burst ?ts ssrc s ?fs" by (simp add: au_packets_def)
  have len: "length ?fs \<le> 32" using assms(6) by (simp add: pk)
  have r: "rx_plain ssrc r" "ps_mode r" "r_jitter r = []" "r_baseSeq r = s" "near_seq s (r_lastSeq r)"
    "au_ready (r_demuxer r)" using assms(1) by (auto simp: rx_ready_def)
  have "extractNALUs ?s ?nt = Some ?ns"
    using extractNALUs_stream [of "au_units au" ?nt] assms(2) nt by (simp add: au_ok_def)
  then obtain d' where d': "FeedAU (r_demuxer r) ?ps (ucast ?ts) True = Some (d', ?ns)" "au_ready d'"
    "d_naluType d' = codec"
    using WriteAU_FeedAU [of "r_demuxer r" m ?s "au_idr au" ?ns "au_pts au" "ucast ?ts"] r(6) assms(2,3) nt
      starts_with_code_stream by (auto simp: au_ok_def)
  have ns: "?ns \<noteq> []" using assms(2) by (simp add: au_ok_def)
  obtain aus where aus: "splitAUsByFrame ?ns (Codec d' = ''h265'') = Some aus"
    using splitAUs_total by blast
  let ?l = "s + of_nat (length ?fs - 1) :: u16"
  have mode: "ps_mode (r\<lparr>r_lastSeq := ?l\<rparr>)" using r(2) by (simp add: ps_mode_def)
  obtain r' where r': "processRunLocked (r\<lparr>r_lastSeq := ?l\<rparr>) (burst ?ts ssrc s ?fs) = Some r'"
    "rx_cfg r' = rx_cfg (r\<lparr>r_lastSeq := ?l\<rparr>)" "r_demuxer r' = d'\<lparr>d_audioOut := []\<rparr>"
    "r_baseSeq r' = s + of_nat (length ?fs)"
    "video_events (r_out r') = video_events (r_out r) @ concat (map (\<lambda>sub. au_events (r\<lparr>r_lastSeq := ?l\<rparr>) sub
        (ucast ?ts) (IsIDR sub (Codec d' = ''h265''))) aus)"
    using process_burst [OF mode fs(1,2), of ?ts d' ?ns aus] d' ns aus fs(3) r(4) by auto
  have ev: "au_events (r\<lparr>r_lastSeq := ?l\<rparr>) = au_events r" "au_events r' = au_events r"
    using r'(2) by (simp_all add: rx_cfg_def au_events_def fun_eq_iff)
  have a: "butlast a @ [last (burst ?ts ssrc s ?fs)] = a" using assms(7,8) pk by (metis append_butlast_last_id)
  have "feed_packets r a = Some r'"
    using feed_burst [OF r(1,3,4,5) fs(1) len, of "butlast a" ?ts] assms(9) r'(1) a pk by auto
  moreover have "rx_ready ssrc (s + of_nat (length ?fs)) r'"
    using rx_ready_step [OF assms(1) r'(2,4) d'(2) r'(3)] fs(1) by simp
  moreover have "video_events (r_out r') = video_events (r_out r) @ au_out r (codec = ''h265'') au"
    using r'(5) aus ev d'(3) by (simp add: au_out_def Codec_def)
  ultimately show ?thesis using ev d'(3) r'(3) pk by simp
qed

lemma session_packets:
  assumes "rx_ready ssrc s r" and "\<forall>au \<in> set aus. au_ok au" and "videoType m \<in> {st_H264, st_H265}"
    and "codec = latched_codec (videoType m)"
    and "d_naluType (r_demuxer r) = codec \<or> aus \<noteq> [] \<and> au_idr (hd aus) \<and> psmDirty m"
    and "arrivals m ssrc s aus arrs"
  shows "\<exists>r'. feed_packets r (concat arrs) = Some r'
    \<and> video_events (r_out r') = video_events (r_out r) @ concat (map (au_out r (codec = ''h265'')) aus)"
  using assms
proof (induction aus arbitrary: s r m arrs)
  case Nil
  then show ?case by simp
next
  case (Cons au aus)
  let ?w = "WriteAU m (annexB_stream (au_units au)) (au_pts au) (au_idr au)"
  let ?b = "au_packets m ssrc s au"
  obtain a arrs' where arrs: "arrs = a # arrs'" using Cons.prems(6) by (cases arrs) auto
  have arr: "length ?b \<le> 32" "a \<noteq> []" "last a = last ?b" "mset (butlast a) = mset (butlast ?b)"
    "arrivals (snd ?w) ssrc (s + of_nat (length ?b)) aus arrs'"
    using Cons.prems(6) by (simp_all add: arrs Let_def)
  have "d_naluType (r_demuxer r) = codec \<or> au_idr au \<and> psmDirty m" using Cons.prems(5) by auto
  then obtain r1 where r1: "feed_packets r a = Some r1" "rx_ready ssrc (s + of_nat (length ?b)) r1"
    "d_naluType (r_demuxer r1) = codec" "au_events r1 = au_events r"
    "video_events (r_out r1) = video_events (r_out r) @ au_out r (codec = ''h265'') au"
    using session_step [OF Cons.prems(1) _ Cons.prems(3,4) _ arr(1-4)] Cons.prems(2) by auto
  have vt: "videoType (snd ?w) = videoType m" by (simp add: WriteAU_state)
  have out: "au_out r1 = au_out r" using r1(4) by (simp add: au_out_def fun_eq_iff)
  obtain r2 where "feed_packets r1 (concat arrs') = Some r2"
    "video_events (r_out r2) = video_events (r_out r1) @ concat (map (au_out r1 (codec = ''h265'')) aus)"
    using Cons.IH [OF r1(2), of "snd ?w" arrs'] Cons.prems(2-4) arr(5) r1(3) vt by auto
  then show ?case using r1 out by (auto simp: arrs feed_packets_append)
qed

text \<open>The first packet of a session latches source and base; it must be the first of its burst.\<close>

definition rx_fresh :: "receiver \<Rightarrow> bool" where
  "rx_fresh r \<longleftrightarrow> \<not> r_ssrcLatched r \<and> \<not> r_baseSeqSet r \<and> r_maxJitter r = 32 \<and> \<not> r_expectDecryptor r
     \<and> r_decryptor r = None \<and> ps_mode r \<and> r_jitter r = [] \<and> au_ready (r_demuxer r)"

lemma first_packet:
  assumes "rx_fresh r" and "pk_ssrc p = ssrc" and "pk_seq p = s"
  shows "\<exists>r0. feedJitterBuffer r p = feedJitterBuffer r0 p \<and> rx_ready ssrc s r0
    \<and> r_demuxer r0 = r_demuxer r \<and> r_out r0 = r_out r \<and> au_events r0 = au_events r"
proof -
  let ?r = "r\<lparr>r_expectedSSRC := ssrc, r_ssrcLatched := True, r_baseSeq := s, r_baseSeqSet := True, r_lastSeq := s\<rparr>"
  have "near_seq s s" unfolding near_seq_def by (intro exI [of _ 0]) simp
  then have "rx_ready ssrc s ?r"
    using assms(1) by (simp add: rx_ready_def rx_plain_def rx_fresh_def ps_mode_def)
  moreover have "feedJitterBuffer r p = feedJitterBuffer ?r p"
    using assms by (simp add: feedJitterBuffer_def feed_locked_def rx_fresh_def Let_def)
  ultimately show ?thesis by (intro exI [of _ ?r]) (simp add: au_events_def fun_eq_iff)
qed

lemma NewReceiver_fresh: "rx_fresh (NewReceiver hub auCb naluCb audioCb failHook)"
  by (simp add: rx_fresh_def NewReceiver_def ps_mode_def au_ready_New)

lemma session_from_fresh:
  assumes "rx_fresh r" and "\<forall>au \<in> set aus. au_ok au" and "videoType m \<in> {st_H264, st_H265}"
    and "aus \<noteq> []" and "au_idr (hd aus)" and "psmDirty m" and "arrivals m ssrc s aus arrs"
    and "hd (concat arrs) = hd (au_packets m ssrc s (hd aus))"
  shows "\<exists>r'. feed_packets r (concat arrs) = Some r'
    \<and> video_events (r_out r') = video_events (r_out r) @
        concat (map (au_out r (latched_codec (videoType m) = ''h265'')) aus)"
proof -
  let ?b = "au_packets m ssrc s (hd aus)"
  let ?ps = "fst (WriteAU m (annexB_stream (au_units (hd aus))) (au_pts (hd aus)) (au_idr (hd aus)))"
  have "\<exists>x. ?ps = 0 # 0 # x" by (simp add: WriteAU_bytes packHeader_def Let_def)
  then have "frags ?ps \<noteq> []" using frags_head by blast
  then have len: "0 < length (frags ?ps)" by simp
  then have "0 < length ?b" by (simp add: au_packets_def)
  then have "hd ?b = ?b ! 0" by (simp add: hd_conv_nth)
  then have hd: "pk_ssrc (hd ?b) = ssrc" "pk_seq (hd ?b) = s"
    using burst_nth [OF len, of "ucast (au_pts (hd aus))" ssrc s]
    by (simp_all add: au_packets_def rx_packet_def)
  obtain p qs where pq: "concat arrs = p # qs" "p = hd ?b"
  proof -
    have "concat arrs \<noteq> []" using assms(4,7) by (cases aus; cases arrs) (auto simp: Let_def)
    then show ?thesis using that assms(8) by (cases "concat arrs") auto
  qed
  obtain r0 where r0: "feedJitterBuffer r p = feedJitterBuffer r0 p" "rx_ready ssrc s r0"
    "r_demuxer r0 = r_demuxer r" "r_out r0 = r_out r" "au_events r0 = au_events r"
    using first_packet [OF assms(1), of p ssrc s] hd pq(2) by auto
  have "feed_packets r (concat arrs) = feed_packets r0 (concat arrs)" using r0(1) pq(1) by simp
  moreover have "au_out r0 = au_out r" using r0(5) by (simp add: au_out_def fun_eq_iff)
  ultimately show ?thesis
    using session_packets [OF r0(2) assms(2,3) refl _ assms(7)] assms(4-6) r0(4) by auto
qed

subsection \<open>The wire\<close>

text \<open>
  What the receiver relies on in its RTP header decoder: a packet with the fixed header of RFC 3550
  (version 2, no padding, no extension, no contributing sources, payload type 96) decodes to its fields.
\<close>

locale rtp_wire =
  fixes unmarshal :: "bytes \<Rightarrow> rtp_packet option"
  assumes decode_plain:
    "unmarshal (plain_header 96 m s ticks ssrc @ f) = Some (rx_packet (ucast ticks) ssrc (s, m, f))"
begin

lemma decode_burst:
  assumes "pz_payloadTyp p = 96"
  shows "map unmarshal (plain_packets p ps ticks) =
    map Some (burst (ucast ticks) (pz_ssrc p) (pz_seq p) (frags ps))"
  using assms by (auto simp: plain_packets_def burst_def decode_plain)

lemma readLoop_plain:
  assumes "r_decryptor r = None"
  shows "readLoop_step unmarshal r (plain_header 96 m s ticks ssrc @ f) =
    feedJitterBuffer ((let r = r\<lparr>r_received := r_received r + 1, r_lastPkt := r_now r\<rparr> in
      if r_received r = 1 then emit (r\<lparr>r_lastEmission := r_now r\<rparr>) [EvFirstRTP] else r))
      (rx_packet (ucast ticks) ssrc (s, m, f))"
proof -
  have "plain_header 96 m s ticks ssrc \<noteq> []" by (simp add: plain_header_def)
  then show ?thesis using assms
    by (simp add: readLoop_step_def decode_plain decrypt_def emit_def Let_def)
qed

end

text \<open>A decoder of that fixed header.\<close>

definition rtp_decode :: "bytes \<Rightarrow> rtp_packet option" where
  "rtp_decode buf =
     (if length buf < 12 then None
      else Some \<lparr>pk_payloadType = buf ! 1 AND 0x7F, pk_marker = (buf ! 1 AND 0x80 \<noteq> 0),
        pk_seq = push_bit 8 (ucast (buf ! 2)) OR ucast (buf ! 3),
        pk_timestamp = push_bit 24 (ucast (buf ! 4)) OR push_bit 16 (ucast (buf ! 5))
          OR push_bit 8 (ucast (buf ! 6)) OR ucast (buf ! 7),
        pk_ssrc = push_bit 24 (ucast (buf ! 8)) OR push_bit 16 (ucast (buf ! 9))
          OR push_bit 8 (ucast (buf ! 10)) OR ucast (buf ! 11),
        pk_ext = [], pk_payload = drop 12 buf\<rparr>)"

lemma split16:
  "push_bit 8 (ucast (ucast (drop_bit 8 s) :: byte)) OR ucast (ucast s :: byte) = (s :: u16)" (is "?l = s")
proof (rule bit_word_eqI)
  fix n assume n: "n < LENGTH(16)"
  consider "n < 8" | "8 \<le> n" by linarith
  then show "bit ?l n = bit s n"
    by cases (use n in \<open>auto simp: bit_simps\<close>)
qed

lemma split32:
  "push_bit 24 (ucast (ucast (drop_bit 24 w) :: byte)) OR push_bit 16 (ucast (ucast (drop_bit 16 w) :: byte))
     OR push_bit 8 (ucast (ucast (drop_bit 8 w) :: byte)) OR ucast (ucast w :: byte) = (w :: u32)" (is "?l = w")
proof (rule bit_word_eqI)
  fix n assume n: "n < LENGTH(32)"
  consider "n < 8" | "8 \<le> n" "n < 16" | "16 \<le> n" "n < 24" | "24 \<le> n" by linarith
  then show "bit ?l n = bit w n"
    by cases (use n in \<open>auto simp: bit_simps\<close>)
qed

lemma byte_of_ticks:
  fixes w :: i64
  shows "(ucast (signed_drop_bit 24 w) :: byte) = ucast (drop_bit 24 (ucast w :: u32))"
    "(ucast (signed_drop_bit 16 w) :: byte) = ucast (drop_bit 16 (ucast w :: u32))"
    "(ucast (signed_drop_bit 8 w) :: byte) = ucast (drop_bit 8 (ucast w :: u32))"
    "(ucast w :: byte) = ucast (ucast w :: u32)"
  by (intro bit_word_eqI, auto simp: bit_simps)+

interpretation rfc3550: rtp_wire rtp_decode
proof
  fix m s f and ticks :: i64 and ssrc :: u32
  show "rtp_decode (plain_header 96 m s ticks ssrc @ f) = Some (rx_packet (ucast ticks) ssrc (s, m, f))"
    unfolding plain_header_def
    using split16 [of s] split32 [of "ucast ticks", folded byte_of_ticks] split32 [of ssrc]
    by (simp add: rtp_decode_def rx_packet_def)
qed

subsection \<open>Properties\<close>



text \<open>
  what the packetizer writes for a burst is, decoded by any RTP decoder that reads the RFC 3550
  fixed header, exactly the packet sequence of the burst that the receiver's theorems speak of.
\<close>

theorem wire_burst:
  assumes "rtp_wire unmarshal"
  shows "map unmarshal (plain_packets (NewRTPPacketizer ssrc s) ps ticks) =
    map Some (burst (ucast ticks) ssrc s (frags ps))"
  using rtp_wire.decode_burst [OF assms, of "NewRTPPacketizer ssrc s"] by (simp add: NewRTPPacketizer_def)

theorem wire_burst_witness:
  "map rtp_decode (plain_packets (NewRTPPacketizer 5 7) [1, 2] 90000) = map Some (burst 90000 5 7 (frags [1, 2]))"
  using wire_burst [OF rfc3550.rtp_wire_axioms, of 5 7 "[1, 2]" 90000] by simp

end
