(* ===== verification/Rtp_Safety.thy ===== *)
theory Rtp_Safety
  imports Rtp_Receiver "HOL-Library.Multiset"
begin

text \<open>
  What holds of the RTP receiver on any input: no panic, a bounded jitter buffer, isolation of the
  latched source, and the order in which the loss recovery picks the next sequence number.
\<close>

subsection \<open>The invariant of the media path\<close>

definition rx_core :: "receiver \<Rightarrow> bool" where
  "rx_core r \<longleftrightarrow> (r_esLatch r \<longrightarrow> r_es r \<noteq> None) \<and> demux_inv (r_demuxer r)
     \<and> r_decryptor r \<noteq> Some None \<and> r_verifier r \<noteq> Some None"

text \<open>The fields the media path never changes.\<close>

definition rx_fixed where
  "rx_fixed r = (r_maxJitter r, r_ssrcLatched r, r_expectedSSRC r, r_decryptor r, r_verifier r,
     r_foreignDrops r, r_running r, r_doneClosed r, r_expectDecryptor r)"

definition rx_ok :: "receiver \<Rightarrow> receiver \<Rightarrow> bool" where
  "rx_ok r r' \<longleftrightarrow> rx_core r' \<and> rx_fixed r' = rx_fixed r"

lemma rx_ok_trans: "rx_ok r r' \<Longrightarrow> rx_ok r' r'' \<Longrightarrow> rx_ok r r''"
  by (simp add: rx_ok_def)

lemma rx_ok_refl: "rx_core r \<Longrightarrow> rx_ok r r"
  by (simp add: rx_ok_def)

lemma emitters_ok:
  assumes "rx_core r"
  shows "rx_ok r (emit r evs)" "rx_ok r (verify_failed r)" "rx_ok r (rx_emitBareAudio r pkt)"
    "rx_ok r (emitAULocked pts r au)" "rx_ok r (dispatchAudioLocked r)" "rx_ok r (flush_emit h r au)"
  using assms
  by (auto simp: rx_ok_def rx_core_def rx_fixed_def emit_def verify_failed_def rx_emitBareAudio_def
      emitAULocked_def dispatchAudioLocked_def flush_emit_def DrainAudio_def demux_inv_defs Let_def)

lemma foldl_ok:
  assumes "\<And>r au. rx_core r \<Longrightarrow> rx_ok r (f r au)" and "rx_core r"
  shows "rx_ok r (foldl f r aus)"
  using assms(2)
proof (induction aus arbitrary: r)
  case (Cons au aus)
  have "rx_ok r (f r au)" using assms(1) Cons.prems by blast
  moreover from this have "rx_ok (f r au) (foldl f (f r au) aus)"
    using Cons.IH by (simp add: rx_ok_def)
  ultimately show ?case using rx_ok_trans by simp
qed (simp add: rx_ok_refl)

lemma check_sig_total: "v \<noteq> None \<Longrightarrow> \<exists>b. check_sig v data pkt = Some b"
  by (auto simp: check_sig_def)

lemma sig_ok_total: "rx_core r \<Longrightarrow> \<exists>b. sig_ok r pkts = Some b"
  using check_sig_total by (auto simp: sig_ok_def rx_core_def split: option.split)

lemma bare_run_ok: "rx_core r \<Longrightarrow> \<exists>r'. bare_run r pkts = Some r' \<and> rx_ok r r'"
proof (induction pkts arbitrary: r)
  case Nil
  then show ?case by (simp add: rx_ok_refl)
next
  case (Cons pkt pkts)
  have nx: "\<exists>r'. bare_run r1 pkts = Some r' \<and> rx_ok r r'" if "rx_ok r r1" for r1
    using Cons.IH [of r1] that rx_ok_trans by (auto simp: rx_ok_def)
  show ?case
  proof (cases "r_verifier r")
    case None
    then show ?thesis using nx emitters_ok(3) Cons.prems rx_ok_refl by simp
  next
    case (Some v)
    then obtain b where "check_sig v (pk_payload pkt) pkt = Some b"
      using Cons.prems check_sig_total by (metis rx_core_def)
    then show ?thesis using Some nx emitters_ok(2,3) Cons.prems rx_ok_refl by simp
  qed
qed

lemma classify_ok:
  assumes "rx_core r"
  shows "\<exists>r'. classify r p = Some r' \<and> rx_ok r r'"
proof -
  obtain b where "looksLikeESPacket p = Some b" using looksLikeESPacket_total by blast
  then show ?thesis using assms
    by (simp add: classify_def Let_def rx_ok_def rx_core_def rx_fixed_def)
qed

lemma deliver_ok:
  assumes "rx_core r"
  shows "\<exists>r'. deliver r nalus h pts = Some r' \<and> rx_ok r r'"
proof -
  obtain aus where "splitAUsByFrame nalus h = Some aus" using splitAUs_total by blast
  then show ?thesis using foldl_ok [of "emitAULocked pts" r aus] emitters_ok(4) assms
    by (simp add: deliver_def)
qed

lemma es_run_total: "\<exists>es'. es_run es pkts = Some es'"
proof (induction pkts arbitrary: es)
  case (Cons pkt pkts)
  obtain x where "FeedPacket es (pk_payload pkt) = Some x" using FeedPacket_total by blast
  then show ?case using Cons by (cases x) simp
qed simp

lemma process_es_ok:
  assumes "rx_core r"
  shows "\<exists>r'. process_es r es pkts = Some r' \<and> rx_ok r r'"
proof -
  obtain es1 where es1: "es_run es pkts = Some es1" using es_run_total by blast
  let ?r = "r\<lparr>r_es := Some es1\<rparr>"
  have core: "rx_core (r\<lparr>r_es := Some e, r_ptsClock := t\<rparr>)" "rx_core (r\<lparr>r_es := Some e\<rparr>)"
    and fixed: "rx_fixed (r\<lparr>r_es := Some e, r_ptsClock := t\<rparr>) = rx_fixed r"
      "rx_fixed (r\<lparr>r_es := Some e\<rparr>) = rx_fixed r" for e t
    using assms by (simp_all add: rx_core_def rx_fixed_def)
  obtain b where b: "sig_ok ?r pkts = Some b" using sig_ok_total [OF core(2)] by blast
  have fail: "rx_ok r ((verify_failed ?r)\<lparr>r_es := Some e\<rparr>)" for e
    using emitters_ok(2) [OF core(2), of es1] fixed(2) assms by (simp add: rx_ok_def rx_core_def rx_fixed_def)
  let ?pts = "ucast (pk_timestamp (last pkts)) :: i64"
  let ?es = "es1\<lparr>es_nalus := []\<rparr>"
  obtain r2 where r2: "deliver (r\<lparr>r_es := Some ?es, r_ptsClock := ?pts\<rparr>)
      (es_nalus es1) (es_codec ?es = ''h265'') ?pts = Some r2"
    "rx_ok (r\<lparr>r_es := Some ?es, r_ptsClock := ?pts\<rparr>) r2"
    using deliver_ok [OF core(1) [of ?pts ?es], of "es_nalus es1" "es_codec ?es = ''h265''" ?pts]
    by (elim exE conjE)
  have ok2: "rx_ok r r2" using r2(2) fixed(1) [of ?pts ?es] unfolding rx_ok_def by (elim conjE, intro conjI) simp_all
  have "rx_ok r ?r" "rx_ok r (r\<lparr>r_es := Some (es1\<lparr>es_nalus := []\<rparr>)\<rparr>)"
    using core(2) fixed(2) by (simp_all add: rx_ok_def)
  then show ?thesis
    using es1 b fail r2(1) ok2 by (simp add: process_es_def TakeAU_def Let_def)
qed

lemma ps_feed_ok:
  assumes "rx_core r"
  shows "\<exists>r'. ps_feed r au pts m = Some r' \<and> rx_ok r r'"
proof -
  obtain d' ns where f: "FeedAU (r_demuxer r) au pts m = Some (d', ns)" "demux_inv d'"
    using FeedAU_inv assms by (metis rx_core_def)
  let ?r = "r\<lparr>r_demuxer := d'\<rparr>"
  have core: "rx_core ?r" "rx_fixed ?r = rx_fixed r"
    using assms f(2) by (simp_all add: rx_core_def rx_fixed_def)
  obtain r2 where r2: "deliver ?r ns (Codec d' = ''h265'') pts = Some r2" "rx_ok ?r r2"
    using deliver_ok [OF core(1)] by blast
  have "rx_ok ?r (dispatchAudioLocked ?r)" "rx_ok ?r (dispatchAudioLocked r2)"
    using emitters_ok(5) core(1) r2(2) rx_ok_trans by (auto simp: rx_ok_def)
  then show ?thesis using f r2(1) core(2) by (simp add: ps_feed_def Let_def rx_ok_def)
qed

lemma process_ps_ok:
  assumes "rx_core r"
  shows "\<exists>r'. process_ps r pkts = Some r' \<and> rx_ok r r'"
proof -
  have core: "rx_core (r\<lparr>r_ptsClock := t\<rparr>)" "rx_fixed (r\<lparr>r_ptsClock := t\<rparr>) = rx_fixed r" for t
    using assms by (simp_all add: rx_core_def rx_fixed_def)
  let ?t = "ucast (pk_timestamp (last pkts)) :: i64"
  let ?r = "r\<lparr>r_ptsClock := ?t\<rparr>"
  obtain b where b: "sig_ok ?r pkts = Some b" using sig_ok_total [OF core(1)] by blast
  obtain r2 where r2: "ps_feed ?r (stitched pkts) ?t (pk_marker (last pkts)) = Some r2" "rx_ok ?r r2"
    using ps_feed_ok [OF core(1)] by blast
  have "rx_ok r r2" "rx_ok r (verify_failed ?r)"
    using r2(2) emitters_ok(2) [OF core(1)] core(2) by (simp_all add: rx_ok_def)
  then show ?thesis using b r2(1) rx_ok_refl [OF assms] by (simp add: process_ps_def Let_def)
qed

lemma processRun_ok:
  assumes "rx_core r" and "pkts \<noteq> []"
  shows "\<exists>r'. processRunLocked r pkts = Some r' \<and> rx_ok r r'"
proof -
  let ?r = "r\<lparr>r_baseSeq := r_baseSeq r + of_nat (length pkts)\<rparr>"
  have core: "rx_core ?r" "rx_fixed ?r = rx_fixed r" using assms(1) by (simp_all add: rx_core_def rx_fixed_def)
  obtain r1 where r1: "classify ?r (pk_payload (pkts ! 0)) = Some r1" "rx_ok ?r r1"
    using classify_ok [OF core(1)] by blast
  then have c1: "rx_core r1" "rx_ok r r1" using core(2) by (auto simp: rx_ok_def)
  let ?run = "if r_bareAudio r1 then bare_run r1 pkts
      else if r_esLatch r1 then (case r_es r1 of None \<Rightarrow> None | Some es \<Rightarrow> process_es r1 es pkts)
      else process_ps r1 pkts"
  have "\<exists>r'. ?run = Some r' \<and> rx_ok r1 r'"
  proof (cases "r_bareAudio r1")
    case True
    then show ?thesis using bare_run_ok [OF c1(1)] by simp
  next
    case bare: False
    show ?thesis
    proof (cases "r_esLatch r1")
      case True
      then obtain es where "r_es r1 = Some es" using c1(1) by (auto simp: rx_core_def)
      then show ?thesis using bare True process_es_ok [OF c1(1)] by simp
    qed (use bare process_ps_ok [OF c1(1)] in simp)
  qed
  then obtain r' where r': "?run = Some r'" "rx_ok r1 r'" by (elim exE conjE)
  have "processRunLocked r pkts = ?run" using r1(1) assms(2) by (simp add: processRunLocked_def)
  then show ?thesis using r' rx_ok_trans [OF c1(2) r'(2)] by simp
qed

lemma segments_nonempty: "s \<in> set (segments ps) \<Longrightarrow> s \<noteq> []"
  by (induction ps arbitrary: s) (auto split: if_splits list.splits)

lemma process_all_ok:
  "rx_core r \<Longrightarrow> \<forall>s \<in> set ss. s \<noteq> [] \<Longrightarrow> \<exists>r'. process_all r ss = Some r' \<and> rx_ok r r'"
proof (induction ss arbitrary: r)
  case (Cons s ss)
  obtain r1 where r1: "processRunLocked r s = Some r1" "rx_ok r r1"
    using processRun_ok [of r s] Cons.prems by auto
  then obtain r2 where "process_all r1 ss = Some r2" "rx_ok r1 r2"
    using Cons.IH [of r1] Cons.prems by (auto simp: rx_ok_def)
  then show ?case using r1 rx_ok_trans by auto
qed (simp add: rx_ok_refl)

subsection \<open>The emission loop empties the jitter buffer\<close>

lemma next_loop_in: "next_loop base ss best = Some x \<Longrightarrow> x \<in> set ss \<or> best = Some x"
  by (induction base ss best rule: next_loop.induct) (auto split: if_splits option.splits)

lemma collect_run_grows: "length pkts \<le> length (fst (collect_run jb base pkts))"
proof (induction jb base pkts rule: collect_run.induct)
  case (1 jb base pkts)
  then show ?case
    by (subst collect_run.simps) (force simp: Let_def split: option.split)
qed

lemma collect_run_empty:
  assumes "collect_run jb base [] = ([], jb')"
  shows "jb' = jb" and "map_of jb base = None"
proof -
  have "map_of jb base = None"
  proof (rule ccontr)
    assume "map_of jb base \<noteq> None"
    then obtain p where "map_of jb base = Some p" by blast
    then have "collect_run jb base [] = collect_run (AList.delete base jb) base [p]"
      by (subst collect_run.simps) simp
    then have "fst (collect_run (AList.delete base jb) base [p]) = []" using assms by (metis fst_conv)
    then show False using collect_run_grows [of "[p]" "AList.delete base jb" base] by simp
  qed
  then show "map_of jb base = None" "jb' = jb" using assms by (simp_all add: collect_run.simps)
qed

text \<open>The drain returns nothing only after it has cleared a buffer in which nothing lies ahead.\<close>

lemma drain_exhausted:
  assumes "drainContiguousRunLocked r = ([], r')"
  shows "r_jitter r' = []"
proof -
  obtain pkts r1 where d: "drain_once r = (pkts, r1)" by (cases "drain_once r")
  obtain nx r2 where n: "nextBufferedSeqLocked r1 = (nx, r2)" by (cases "nextBufferedSeqLocked r1")
  have pkts: "pkts = []" using assms d by (cases pkts) (auto simp: drainContiguousRunLocked_def)
  show ?thesis
  proof (cases nx)
    case None
    then show ?thesis using assms d n pkts
      by (auto simp: drainContiguousRunLocked_def nextBufferedSeqLocked_def split: option.splits)
  next
    case (Some s)
    then have r2: "r2 = r1" and s: "next_loop (r_baseSeq r1) (map fst (r_jitter r1)) None = Some s"
      using n by (auto simp: nextBufferedSeqLocked_def split: option.splits)
    then have "s \<in> fst ` set (r_jitter r1)" using next_loop_in [OF s] by simp
    moreover have "drain_once (skip_gap r1 s) = ([], r')"
      using assms d n pkts Some r2 by (simp add: drainContiguousRunLocked_def)
    then obtain jb where "collect_run (r_jitter r1) s [] = ([], jb)"
      by (auto simp: drain_once_def skip_gap_def split: prod.splits)
    then have "map_of (r_jitter r1) s = None" by (rule collect_run_empty)
    ultimately show ?thesis by (simp add: map_of_eq_None_iff)
  qed
qed

lemma drain_ok:
  assumes "rx_core r"
  shows "rx_ok r (snd (drainContiguousRunLocked r))"
proof -
  have once: "rx_ok q (snd (drain_once q))" if "rx_core q" for q
    using that by (simp add: drain_once_def rx_ok_def rx_core_def rx_fixed_def split: prod.split)
  have skip: "rx_ok q (skip_gap q s)" if "rx_core q" for q s
    using that by (auto simp: skip_gap_def rx_ok_def rx_core_def rx_fixed_def DropPartialVideo_def demux_inv_defs)
  have nxt: "rx_ok q (snd (nextBufferedSeqLocked q))" if "rx_core q" for q
    using that by (simp add: nextBufferedSeqLocked_def rx_ok_def rx_core_def rx_fixed_def split: option.split)
  obtain pkts r1 where d: "drain_once r = (pkts, r1)" by (cases "drain_once r")
  obtain nx r2 where n: "nextBufferedSeqLocked r1 = (nx, r2)" by (cases "nextBufferedSeqLocked r1")
  have 1: "rx_ok r r1" using once [OF assms] d by simp
  have 2: "rx_ok r r2" using nxt [of r1] n 1 rx_ok_trans [OF 1] by (simp add: rx_ok_def)
  have 3: "rx_ok r (snd (drain_once (skip_gap r2 s)))" for s
    using skip [of r2 s] once [of "skip_gap r2 s"] 2 by (simp add: rx_ok_def)
  show ?thesis using 1 2 3 d n by (cases nx) (simp_all add: drainContiguousRunLocked_def)
qed

theorem emit_ok:
  "rx_core r \<Longrightarrow> \<exists>r'. emitAccessUnitsLocked r = Some r' \<and> rx_ok r r' \<and> r_jitter r' = []"
proof (induction r rule: emitAccessUnitsLocked.induct)
  case (1 r)
  obtain pkts r1 where d: "drainContiguousRunLocked r = (pkts, r1)" by (cases "drainContiguousRunLocked r")
  have ok1: "rx_ok r r1" using drain_ok [OF 1(2)] d by simp
  show ?case
  proof (cases "length pkts = 0")
    case True
    then show ?thesis using d ok1 drain_exhausted [of r r1] by (simp add: emitAccessUnitsLocked.simps [of r])
  next
    case False
    obtain r2 where r2: "process_all r1 (segments pkts) = Some r2" "rx_ok r1 r2"
      using process_all_ok [of r1 "segments pkts"] segments_nonempty ok1 unfolding rx_ok_def by blast
    obtain r3 where "emitAccessUnitsLocked r2 = Some r3" "rx_ok r2 r3" "r_jitter r3 = []"
      using 1(1) [OF d [symmetric] False r2(1)] r2(2) by (auto simp: rx_ok_def)
    then show ?thesis
      using d False r2(1) rx_ok_trans [OF rx_ok_trans [OF ok1 r2(2)], of r3]
      by (simp add: emitAccessUnitsLocked.simps [of r])
  qed
qed

subsection \<open>Reachable receivers\<close>

text \<open>
  What a receiver is asked to do: the setters, the start and the stop, a datagram, the end of the read
  loop, the final flush, and the passing of time.
\<close>

datatype rx_op =
    OpDatagram bytes
  | OpDecryptor cryptor
  | OpVerifier verifier
  | OpExpect bool
  | OpAudioOnly bool
  | OpHint string
  | OpStart bool
  | OpStop
  | OpExit
  | OpFlush
  | OpTick i64

fun rx_exec :: "(bytes \<Rightarrow> rtp_packet option) \<Rightarrow> receiver \<Rightarrow> rx_op \<Rightarrow> receiver go" where
  "rx_exec um r (OpDatagram buf) = readLoop_step um r buf"
| "rx_exec um r (OpDecryptor c) = SetPayloadDecryptor r (Some c)"
| "rx_exec um r (OpVerifier f) = Some (SetAUVerifier r (Some f))"
| "rx_exec um r (OpExpect b) = Some (SetExpectPayloadDecryptor r b)"
| "rx_exec um r (OpAudioOnly b) = Some (SetAudioOnly r b)"
| "rx_exec um r (OpHint codec) = Some (rx_SetAudioCodecHint r codec)"
| "rx_exec um r (OpStart connNil) = Some (case rx_Start r connNil of Inl _ \<Rightarrow> r | Inr r' \<Rightarrow> r')"
| "rx_exec um r OpStop = Stop r"
| "rx_exec um r OpExit = Some (read_exit r)"
| "rx_exec um r OpFlush = flushJitterBuffer r"
| "rx_exec um r (OpTick t) = Some (r\<lparr>r_now := t\<rparr>)"

text \<open>A receiver is for one session: it is not started again once it was stopped.\<close>

definition rx_allowed :: "receiver \<Rightarrow> rx_op \<Rightarrow> bool" where
  "rx_allowed r op = (case op of OpStart _ \<Rightarrow> \<not> r_doneClosed r | _ \<Rightarrow> True)"

inductive rx_reach :: "(bytes \<Rightarrow> rtp_packet option) \<Rightarrow> receiver \<Rightarrow> bool" for um where
  new: "rx_reach um (NewReceiver hub auCb naluCb audioCb failHook)"
| step: "rx_reach um r \<Longrightarrow> rx_allowed r op \<Longrightarrow> rx_exec um r op = Some r' \<Longrightarrow> rx_reach um r'"

definition rx_inv :: "receiver \<Rightarrow> bool" where
  "rx_inv r \<longleftrightarrow> rx_core r \<and> length (r_jitter r) \<le> r_maxJitter r \<and> r_maxJitter r = 32
     \<and> (r_running r \<longrightarrow> \<not> r_doneClosed r)"

lemma rx_fixedD:
  assumes "rx_ok r r'"
  shows "rx_core r'" "r_maxJitter r' = r_maxJitter r" "r_running r' = r_running r"
    "r_decryptor r' = r_decryptor r" "r_verifier r' = r_verifier r" "r_expectedSSRC r' = r_expectedSSRC r"
    "r_ssrcLatched r' = r_ssrcLatched r" "r_foreignDrops r' = r_foreignDrops r"
    "r_doneClosed r' = r_doneClosed r" "r_expectDecryptor r' = r_expectDecryptor r"
  using assms by (simp_all add: rx_ok_def rx_fixed_def)

lemma rx_core_upd [simp]:
  "rx_core (r\<lparr>r_baseSeq := b, r_baseSeqSet := s, r_lastSeq := l\<rparr>) = rx_core r"
  "rx_core (r\<lparr>r_baseSeq := b\<rparr>) = rx_core r"
  "rx_core (r\<lparr>r_jitter := jb, r_lastSeq := l\<rparr>) = rx_core r"
  by (simp_all add: rx_core_def)

text \<open>
  After a packet is stored the buffer holds at most \<open>maxJitterPackets\<close>, and it is empty when the
  packet ended an access unit and nothing waits for a key.
\<close>

lemma feed_locked_inv:
  assumes inv: "rx_inv r"
  shows "\<exists>r'. feed_locked r pkt = Some r' \<and> rx_inv r' \<and> rx_ok r r'
    \<and> (pk_marker pkt \<and> \<not> (r_expectDecryptor r \<and> r_decryptor r = None) \<longrightarrow> r_jitter r' = [])"
proof -
  let ?s = "pk_seq pkt"
  define a where "a = (if \<not> r_baseSeqSet r then r\<lparr>r_baseSeq := ?s, r_baseSeqSet := True, r_lastSeq := ?s\<rparr> else r)"
  define b where "b = (if seq_dist ?s (r_lastSeq a) < - 1000 then a\<lparr>r_baseSeq := ?s\<rparr> else a)"
  have b: "rx_core b" "r_jitter b = r_jitter r" "rx_fixed b = rx_fixed r" "r_expectDecryptor b = r_expectDecryptor r"
    using inv by (auto simp: a_def b_def rx_inv_def rx_fixed_def)
  then have okb: "rx_ok r b" by (simp add: rx_ok_def)
  obtain c where c: "(if length (r_jitter b) \<ge> r_maxJitter b then emitAccessUnitsLocked b else Some b) = Some c"
    "rx_ok r c" "length (r_jitter c) < r_maxJitter r"
  proof (cases "length (r_jitter b) \<ge> r_maxJitter b")
    case True
    obtain c where "emitAccessUnitsLocked b = Some c" "rx_ok b c" "r_jitter c = []"
      using emit_ok [OF b(1)] by blast
    then show ?thesis using that [of c] True rx_ok_trans [OF okb] inv by (simp add: rx_inv_def)
  next
    case False
    then show ?thesis using that [of b] okb rx_fixedD(2) [OF okb] by simp
  qed
  let ?d = "c\<lparr>r_jitter := AList.update ?s pkt (r_jitter c), r_lastSeq := ?s\<rparr>"
  have okd: "rx_ok r ?d" using c(2) by (simp add: rx_ok_def rx_fixed_def)
  have lend: "length (r_jitter ?d) \<le> r_maxJitter r"
    using c(3) update_length [of ?s pkt "r_jitter c"] by simp
  have keep: "rx_inv q" if "rx_ok r q" "length (r_jitter q) \<le> r_maxJitter r" for q
    using that inv rx_fixedD [OF that(1)] by (simp add: rx_inv_def)
  obtain e where e: "emitAccessUnitsLocked ?d = Some e" "rx_ok ?d e" "r_jitter e = []"
    using emit_ok [of ?d] okd by (auto simp: rx_ok_def)
  have oke: "rx_ok r e" using rx_ok_trans [OF okd e(2)] .
  have "feed_locked r pkt = (if r_expectDecryptor ?d \<and> r_decryptor ?d = None then Some ?d
      else if pk_marker pkt then emitAccessUnitsLocked ?d else Some ?d)"
    using c(1) unfolding feed_locked_def Let_def a_def [symmetric] b_def [symmetric] by simp
  then show ?thesis
    using keep [OF okd lend] keep [OF oke] e okd oke rx_fixedD(4,10) [OF okd] by simp
qed

lemma feedJitterBuffer_inv:
  assumes inv: "rx_inv r"
  shows "\<exists>r'. feedJitterBuffer r pkt = Some r' \<and> rx_inv r'"
proof -
  have "rx_inv (r\<lparr>r_expectedSSRC := pk_ssrc pkt, r_ssrcLatched := True\<rparr>)" "rx_inv (drop_foreign r)"
    using inv by (simp_all add: rx_inv_def rx_core_def drop_foreign_def)
  then show ?thesis
    using feed_locked_inv [of "r\<lparr>r_expectedSSRC := pk_ssrc pkt, r_ssrcLatched := True\<rparr>" pkt]
      feed_locked_inv [OF inv, of pkt] by (auto simp: feedJitterBuffer_def)
qed

text \<open>The counters a datagram moves before it is decoded.\<close>

definition counted :: "receiver \<Rightarrow> receiver" where
  "counted r = (let r = r\<lparr>r_received := r_received r + 1, r_lastPkt := r_now r\<rparr> in
     if r_received r = 1 then emit (r\<lparr>r_lastEmission := r_now r\<rparr>) [EvFirstRTP] else r)"

lemma readLoop_step_counted:
  "readLoop_step um r buf = (if length buf = 0 then Some r
     else case um buf of None \<Rightarrow> Some ((counted r)\<lparr>r_dropped := r_dropped r + 1\<rparr>)
       | Some pkt \<Rightarrow> Option.bind (decrypt (counted r) pkt) (feedJitterBuffer (counted r)))"
  by (simp add: readLoop_step_def counted_def Let_def emit_def split: option.split)

lemma counted_inv: "rx_inv r \<Longrightarrow> rx_inv (counted r)"
  by (simp add: counted_def Let_def emit_def rx_inv_def rx_core_def)

lemma readLoop_step_inv:
  assumes "rx_inv r"
  shows "\<exists>r'. readLoop_step um r buf = Some r' \<and> rx_inv r'"
proof -
  have c: "rx_inv (counted r)" "rx_inv ((counted r)\<lparr>r_dropped := n\<rparr>)" for n
    using counted_inv [OF assms] by (simp_all add: rx_inv_def rx_core_def)
  show ?thesis
  proof (cases "um buf")
    case None
    then show ?thesis using c(2) assms by (simp add: readLoop_step_counted)
  next
    case (Some pkt)
    obtain pkt' where "decrypt (counted r) pkt = Some pkt'"
      using c(1) by (cases "r_decryptor (counted r)") (auto simp: decrypt_def rx_inv_def rx_core_def)
    then show ?thesis
      using Some feedJitterBuffer_inv [OF c(1), of pkt'] assms by (simp add: readLoop_step_counted)
  qed
qed

lemma SetPayloadDecryptor_inv:
  assumes "rx_inv r"
  shows "\<exists>r'. SetPayloadDecryptor r (Some c) = Some r' \<and> rx_inv r'"
proof -
  let ?k = "r\<lparr>r_decryptor := Some (Some c), r_expectDecryptor := False\<rparr>"
  let ?j = "?k\<lparr>r_jitter := retro_decrypt c (r_jitter r), r_classified := False, r_esLatch := False,
      r_bareAudio := False, r_es := None, r_demuxer := NewPSDemuxer\<rparr>"
  have core: "rx_core ?j" "rx_inv ?k" using assms by (simp_all add: rx_core_def rx_inv_def)
  obtain r' where r': "emitAccessUnitsLocked ?j = Some r'" "rx_ok ?j r'" "r_jitter r' = []"
    using emit_ok [OF core(1)] by blast
  have "rx_inv r'" using r'(3) rx_fixedD [OF r'(2)] assms by (simp add: rx_inv_def)
  then show ?thesis using r'(1) core(2) by (simp add: SetPayloadDecryptor_def Let_def)
qed

lemma flush_inv:
  assumes "rx_inv r"
  shows "\<exists>r'. flushJitterBuffer r = Some r' \<and> rx_inv r' \<and> rx_ok r r' \<and> r_jitter r' = []"
proof -
  have core: "rx_core r" using assms by (simp add: rx_inv_def)
  obtain a where a: "(if length (r_jitter r) > 0 then emitAccessUnitsLocked r else Some r) = Some a"
    "rx_ok r a" "r_jitter a = []"
  proof (cases "r_jitter r = []")
    case True
    then show ?thesis using that [of r] rx_ok_refl [OF core] by simp
  next
    case False
    then show ?thesis using that emit_ok [OF core] by auto
  qed
  obtain d ns where d: "Flush (r_demuxer a) = Some (d, ns)" using Flush_total by fastforce
  have "demux_inv d" using Flush_inv [of "r_demuxer a"] d a(2) by (auto simp: rx_ok_def rx_core_def)
  then have b: "rx_ok r (a\<lparr>r_demuxer := d\<rparr>)" "rx_core (a\<lparr>r_demuxer := d\<rparr>)"
    using a(2) by (auto simp: rx_ok_def rx_core_def rx_fixed_def)
  obtain aus where s: "splitAUsByFrame ns (Codec d = ''h265'') = Some aus" using splitAUs_total by blast
  define e where "e = foldl (flush_emit (Codec d = ''h265'')) (a\<lparr>r_demuxer := d\<rparr>) aus"
  have "rx_ok (a\<lparr>r_demuxer := d\<rparr>) e"
    unfolding e_def using foldl_ok [OF _ b(2)] emitters_ok(6) by blast
  then have e: "rx_ok r (dispatchAudioLocked e)"
    using rx_ok_trans [OF b(1)] emitters_ok(5) [of e] rx_ok_trans by (auto simp: rx_ok_def)
  have je: "r_jitter (foldl (flush_emit h) q xs) = r_jitter q" for h q xs
    by (induction xs arbitrary: q) (simp_all add: flush_emit_def)
  have f: "flushJitterBuffer r = Some (if length ns > 0 then dispatchAudioLocked e else a\<lparr>r_demuxer := d\<rparr>)"
    using a(1) d s by (simp add: flushJitterBuffer_def e_def Let_def)
  have keep: "rx_inv q" if "rx_ok r q" "r_jitter q = []" for q
    using that assms rx_fixedD [OF that(1)] by (simp add: rx_inv_def)
  show ?thesis using f keep [OF b(1)] keep [OF e] b(1) e je a(3) by (simp add: e_def)
qed

lemma rx_exec_inv:
  assumes "rx_inv r" and "rx_allowed r op"
  shows "\<exists>r'. rx_exec um r op = Some r' \<and> rx_inv r'"
proof (cases op)
  case (OpDatagram buf)
  then show ?thesis using readLoop_step_inv [OF assms(1)] by simp
next
  case (OpDecryptor c)
  then show ?thesis using SetPayloadDecryptor_inv [OF assms(1)] by simp
next
  case OpFlush
  then show ?thesis using flush_inv [OF assms(1)] by auto
qed (use assms in \<open>auto simp: rx_allowed_def rx_inv_def rx_core_def SetAUVerifier_def SetExpectPayloadDecryptor_def
       SetAudioOnly_def rx_SetAudioCodecHint_def SetAudioCodecHint_def demux_inv_defs rx_Start_def Stop_def read_exit_def\<close>)

lemma rx_reach_inv: "rx_reach um r \<Longrightarrow> rx_inv r"
proof (induction rule: rx_reach.induct)
  case (new hub auCb naluCb audioCb failHook)
  then show ?case by (simp add: NewReceiver_def rx_inv_def rx_core_def)
next
  case (step r op r')
  then show ?case using rx_exec_inv [of r op um] by auto
qed

subsection \<open>The latched source\<close>

definition latched_to :: "u32 \<Rightarrow> receiver \<Rightarrow> bool" where
  "latched_to s r \<longleftrightarrow> r_ssrcLatched r \<and> r_expectedSSRC r = s"

lemma latched_ok: "rx_ok r r' \<Longrightarrow> latched_to s r' = latched_to s r"
  using rx_fixedD(6,7) by (simp add: latched_to_def)

lemma latched_counted [simp]: "latched_to s (counted r) = latched_to s r"
  by (simp add: latched_to_def counted_def Let_def emit_def)

lemma feedJitterBuffer_latch:
  assumes "rx_inv r" and "latched_to s r" and "feedJitterBuffer r pkt = Some r'"
  shows "latched_to s r'"
proof (cases "pk_ssrc pkt = s")
  case True
  then have "feed_locked r pkt = Some r'" using assms(2,3) by (simp add: feedJitterBuffer_def latched_to_def)
  then have "rx_ok r r'" using feed_locked_inv [OF assms(1), of pkt] by simp
  then show ?thesis using latched_ok assms(2) by simp
qed (use assms(2,3) in \<open>auto simp: feedJitterBuffer_def latched_to_def drop_foreign_def\<close>)

lemma rx_exec_latch:
  assumes "rx_inv r" and "latched_to s r" and "rx_exec um r op = Some r'"
  shows "latched_to s r'"
proof (cases op)
  case (OpDatagram buf)
  have c: "latched_to s ((counted r)\<lparr>r_dropped := n\<rparr>)" "latched_to s (counted r)" for n
    using assms(2) latched_counted [of s r] by (simp_all add: latched_to_def)
  note keep = feedJitterBuffer_latch [OF counted_inv [OF assms(1)] c(2)]
  show ?thesis
    using OpDatagram assms(2,3) c(1) keep
    by (cases "um buf") (auto simp: readLoop_step_counted Option.bind_eq_Some_conv split: if_splits)
next
  case (OpDecryptor c)
  let ?j = "r\<lparr>r_decryptor := Some (Some c), r_expectDecryptor := False,
      r_jitter := retro_decrypt c (r_jitter r), r_classified := False, r_esLatch := False,
      r_bareAudio := False, r_es := None, r_demuxer := NewPSDemuxer\<rparr>"
  have "rx_core ?j" "latched_to s ?j" using assms(1,2) by (simp_all add: rx_inv_def rx_core_def latched_to_def)
  then obtain r'' where e: "emitAccessUnitsLocked ?j = Some r''" "latched_to s r''"
    using emit_ok [of ?j] latched_ok [of ?j] by auto
  have "latched_to s (r\<lparr>r_decryptor := Some (Some c), r_expectDecryptor := False\<rparr>)"
    using assms(2) by (simp add: latched_to_def)
  then show ?thesis using OpDecryptor assms(3) e
    by (simp add: SetPayloadDecryptor_def Let_def split: if_splits)
next
  case OpFlush
  then show ?thesis using assms flush_inv [OF assms(1)] latched_ok by auto
qed (use assms in \<open>auto simp: latched_to_def SetAUVerifier_def SetExpectPayloadDecryptor_def SetAudioOnly_def
       rx_SetAudioCodecHint_def rx_Start_def Stop_def read_exit_def split: if_splits\<close>)

fun rx_run :: "(bytes \<Rightarrow> rtp_packet option) \<Rightarrow> receiver \<Rightarrow> rx_op list \<Rightarrow> receiver go" where
  "rx_run um r [] = Some r"
| "rx_run um r (op # ops) = (if rx_allowed r op then Option.bind (rx_exec um r op) (\<lambda>r'. rx_run um r' ops) else None)"

lemma rx_run_latch:
  "rx_inv r \<Longrightarrow> latched_to s r \<Longrightarrow> rx_run um r ops = Some r' \<Longrightarrow> latched_to s r' \<and> rx_inv r'"
proof (induction ops arbitrary: r)
  case (Cons op ops)
  then obtain r1 where r1: "rx_allowed r op" "rx_exec um r op = Some r1" "rx_run um r1 ops = Some r'"
    by (auto simp: Option.bind_eq_Some_conv split: if_splits)
  then show ?case using Cons.IH [of r1] rx_exec_latch [OF Cons.prems(1,2) r1(2)]
      rx_exec_inv [OF Cons.prems(1) r1(1), of um] by auto
qed simp

subsection \<open>Loss recovery\<close>

text \<open>
  For sequence numbers ahead of the base, the signed distance of two of them is the difference of
  their distances from the base: the 16-bit comparison is a linear order there.
\<close>

lemma seq_dist_range: "- 32768 \<le> seq_dist a b" "seq_dist a b < 32768"
  using sint_range_size [of "a - b"] by (simp_all add: seq_dist_def word_size)

lemma seq_dist_ahead:
  assumes "0 < seq_dist a base" and "0 < seq_dist b base"
  shows "seq_dist a b = seq_dist a base - seq_dist b base"
proof -
  have "a - b = word_of_int (seq_dist a base - seq_dist b base)"
    by (simp add: seq_dist_def wi_hom_sub)
  moreover have "- 32768 \<le> seq_dist a base - seq_dist b base" "seq_dist a base - seq_dist b base < 32768"
    using assms seq_dist_range [of a base] seq_dist_range [of b base] by linarith+
  then have "signed_take_bit 15 (seq_dist a base - seq_dist b base) = seq_dist a base - seq_dist b base"
    by (intro signed_take_bit_int_eq_self) simp_all
  ultimately show ?thesis
    unfolding seq_dist_def [of a b] using sint_sbintrunc' [where 'a = 16, of "seq_dist a base - seq_dist b base"] by simp
qed

lemma seq_dist_inj: "seq_dist a base = seq_dist b base \<Longrightarrow> a = b"
  unfolding seq_dist_def by (drule signed_word_eqI) simp

lemma next_loop_nearest:
  assumes "\<And>b. best = Some b \<Longrightarrow> 0 < seq_dist b base"
  shows "case next_loop base ss best of
      None \<Rightarrow> best = None \<and> (\<forall>t \<in> set ss. seq_dist t base \<le> 0)
    | Some s \<Rightarrow> s \<in> set ss \<union> set_option best \<and> 0 < seq_dist s base
        \<and> (\<forall>t \<in> set ss \<union> set_option best. 0 < seq_dist t base \<longrightarrow> seq_dist s base \<le> seq_dist t base)"
  using assms
proof (induction base ss best rule: next_loop.induct)
  case (1 base best)
  then show ?case by (cases best) auto
next
  case (2 base seq seqs best)
  show ?case
  proof (cases "seq_dist seq base \<le> 0")
    case True
    then show ?thesis using 2(1) [OF True 2(4)] by (auto split: option.splits)
  next
    case ahead: False
    show ?thesis
    proof (cases best)
      case None
      then show ?thesis using ahead 2(2) [OF ahead None] by (auto split: option.splits)
    next
      case (Some b)
      let ?n = "if seq_dist seq b < 0 then seq else b"
      have d: "seq_dist seq b = seq_dist seq base - seq_dist b base"
        using seq_dist_ahead [of seq base b] ahead 2(4) [OF Some] by simp
      have "0 < seq_dist ?n base" using ahead 2(4) [OF Some] by simp
      then show ?thesis using ahead Some d 2(3) [OF ahead Some] by (auto split: option.splits if_splits)
    qed
  qed
qed

lemmas rx_setters = SetAUVerifier_def SetExpectPayloadDecryptor_def SetAudioOnly_def SetPayloadDecryptor_def

subsection \<open>Properties\<close>



text \<open>
  C11: Liveness of the marker. In every reachable receiver, a packet of the accepted source that carries
  the marker bit leaves no packet behind in the jitter buffer, whatever was lost before it, unless the
  session is waiting for the media key; and arming the key empties a buffer that was held back.
\<close>

theorem marker_drains:
  assumes "rx_reach um r" and "pk_marker pkt"
    and "r_ssrcLatched r \<longrightarrow> pk_ssrc pkt = r_expectedSSRC r"
  shows "(\<not> r_expectDecryptor r \<longrightarrow> (\<exists>r'. feedJitterBuffer r pkt = Some r' \<and> r_jitter r' = []))
    \<and> (r_expectDecryptor r \<longrightarrow> (\<exists>r'. SetPayloadDecryptor r (Some c) = Some r' \<and> r_jitter r' = []))"
proof -
  have inv: "rx_inv r" by (rule rx_reach_inv [OF assms(1)])
  let ?l = "r\<lparr>r_expectedSSRC := pk_ssrc pkt, r_ssrcLatched := True\<rparr>"
  have "rx_inv ?l" using inv by (simp add: rx_inv_def rx_core_def)
  then have 1: "\<exists>r'. feed_locked ?l pkt = Some r' \<and> r_jitter r' = []"
    "\<exists>r'. feed_locked r pkt = Some r' \<and> r_jitter r' = []" if "\<not> r_expectDecryptor r"
    using feed_locked_inv [of ?l pkt] feed_locked_inv [OF inv, of pkt] assms(2) that by auto
  let ?j = "r\<lparr>r_decryptor := Some (Some c), r_expectDecryptor := False,
      r_jitter := retro_decrypt c (r_jitter r), r_classified := False, r_esLatch := False,
      r_bareAudio := False, r_es := None, r_demuxer := NewPSDemuxer\<rparr>"
  have "rx_core ?j" using inv by (simp add: rx_inv_def rx_core_def)
  then show ?thesis using 1 assms(3) emit_ok [of ?j] by (auto simp: feedJitterBuffer_def SetPayloadDecryptor_def)
qed

theorem marker_drains_witness:
  "\<exists>r'. feedJitterBuffer (NewReceiver True True False True False)
     \<lparr>pk_payloadType = 96, pk_marker = True, pk_seq = 7, pk_timestamp = 0, pk_ssrc = 1, pk_ext = [], pk_payload = []\<rparr>
     = Some r' \<and> r_jitter r' = []"
  using marker_drains [OF rx_reach.new [of "\<lambda>_. None" True True False True False],
    of "\<lparr>pk_payloadType = 96, pk_marker = True, pk_seq = 7, pk_timestamp = 0, pk_ssrc = 1, pk_ext = [], pk_payload = []\<rparr>"]
  by (simp add: NewReceiver_def)

text \<open>
  C12: Isolation of the media source. Once the receiver has latched an SSRC, no sequence of calls and
  datagrams changes it, and a datagram that decodes to another SSRC only moves counters: the media
  state, the buffered packets and what was handed out stay as they were.
\<close>

theorem ssrc_isolation:
  assumes "rx_reach um r" and "r_ssrcLatched r" and "rx_run um r ops = Some r'" and "buf \<noteq> []"
    and "um buf = Some pkt" and "pk_ssrc pkt \<noteq> r_expectedSSRC r" and "r_received r' + 1 \<noteq> 1"
  shows "r_expectedSSRC r' = r_expectedSSRC r
    \<and> readLoop_step um r' buf = Some (r'\<lparr>r_received := r_received r' + 1, r_lastPkt := r_now r',
         r_foreignDrops := r_foreignDrops r' + 1, r_foreignLogged := True, r_dropped := r_dropped r' + 1\<rparr>)"
proof -
  have l: "latched_to (r_expectedSSRC r) r'" and inv: "rx_inv r'"
    using rx_run_latch [OF rx_reach_inv [OF assms(1)] _ assms(3), of "r_expectedSSRC r"] assms(2)
    by (simp_all add: latched_to_def)
  have c: "counted r' = r'\<lparr>r_received := r_received r' + 1, r_lastPkt := r_now r'\<rparr>"
    using assms(7) by (simp add: counted_def Let_def)
  obtain pkt' where p: "decrypt (counted r') pkt = Some pkt'" "pk_ssrc pkt' = pk_ssrc pkt"
    using inv by (cases "r_decryptor r'") (auto simp: c decrypt_def rx_inv_def rx_core_def)
  then show ?thesis using l assms(4-6) c
    by (simp add: readLoop_step_counted feedJitterBuffer_def latched_to_def drop_foreign_def)
qed

text \<open>A decoder and a receiver for the witnesses: the first byte of a datagram is its SSRC.\<close>

definition toy_packet :: "bytes \<Rightarrow> rtp_packet option" where
  "toy_packet buf = (case buf of [] \<Rightarrow> None
     | b # p \<Rightarrow> Some \<lparr>pk_payloadType = 8, pk_marker = False, pk_seq = 7, pk_timestamp = 0, pk_ssrc = ucast b,
         pk_ext = p, pk_payload = p\<rparr>)"

definition toy_receiver :: receiver where
  "toy_receiver = the (rx_exec toy_packet (NewReceiver True True False True False) (OpDatagram [1, 5]))"

lemma toy_step:
  "rx_exec toy_packet (NewReceiver True True False True False) (OpDatagram [1, 5]) = Some toy_receiver"
  "r_ssrcLatched toy_receiver" "r_expectedSSRC toy_receiver = 1" "r_received toy_receiver = 1"
  by (simp_all add: toy_receiver_def readLoop_step_counted toy_packet_def counted_def NewReceiver_def emit_def
      decrypt_def feedJitterBuffer_def feed_locked_def seq_dist_def Let_def)

lemma toy_reach: "rx_reach toy_packet toy_receiver"
  by (rule rx_reach.step [OF rx_reach.new _ toy_step(1)]) (simp add: rx_allowed_def)

theorem ssrc_isolation_witness:
  "r_foreignDrops (the (readLoop_step toy_packet toy_receiver [2, 9])) = r_foreignDrops toy_receiver + 1
    \<and> r_jitter (the (readLoop_step toy_packet toy_receiver [2, 9])) = r_jitter toy_receiver"
  using ssrc_isolation [OF toy_reach toy_step(2), of "[]" toy_receiver "[2, 9]" "the (toy_packet [2, 9])"]
  by (simp add: toy_packet_def toy_step)

text \<open>
  C13: Loss recovery takes the nearest packet. Among the buffered sequence numbers ahead of the base in
  16-bit serial arithmetic, \<open>nextBufferedSeqLocked\<close> returns the one strictly closest to it, so the
  choice does not depend on the iteration order of the Go map; only when nothing lies ahead is the
  buffer dropped.
\<close>

theorem loss_recovery_nearest:
  "case nextBufferedSeqLocked r of
     (Some s, r') \<Rightarrow> r' = r \<and> s \<in> fst ` set (r_jitter r) \<and> 0 < seq_dist s (r_baseSeq r)
       \<and> (\<forall>t \<in> fst ` set (r_jitter r). 0 < seq_dist t (r_baseSeq r) \<longrightarrow> t \<noteq> s
            \<longrightarrow> seq_dist s (r_baseSeq r) < seq_dist t (r_baseSeq r))
   | (None, r') \<Rightarrow> r' = r\<lparr>r_jitter := []\<rparr> \<and> (\<forall>t \<in> fst ` set (r_jitter r). seq_dist t (r_baseSeq r) \<le> 0)"
proof (cases "next_loop (r_baseSeq r) (map fst (r_jitter r)) None")
  case None
  then show ?thesis
    using next_loop_nearest [of None "r_baseSeq r" "map fst (r_jitter r)"] by (simp add: nextBufferedSeqLocked_def)
next
  case (Some s)
  then have s: "s \<in> fst ` set (r_jitter r)" "0 < seq_dist s (r_baseSeq r)"
    and le: "\<And>t. t \<in> fst ` set (r_jitter r) \<Longrightarrow> 0 < seq_dist t (r_baseSeq r)
      \<Longrightarrow> seq_dist s (r_baseSeq r) \<le> seq_dist t (r_baseSeq r)"
    using next_loop_nearest [of None "r_baseSeq r" "map fst (r_jitter r)"] by auto
  have "seq_dist s (r_baseSeq r) < seq_dist t (r_baseSeq r)"
    if "t \<in> fst ` set (r_jitter r)" "0 < seq_dist t (r_baseSeq r)" "t \<noteq> s" for t
    using le [OF that(1,2)] that(3) seq_dist_inj [of s "r_baseSeq r" t] by fastforce
  then show ?thesis using Some s by (simp add: nextBufferedSeqLocked_def)
qed

theorem loss_recovery_nearest_witness:
  "let pkt = \<lparr>pk_payloadType = 96, pk_marker = False, pk_seq = 0, pk_timestamp = 0, pk_ssrc = 1, pk_ext = [], pk_payload = []\<rparr>;
       r = (NewReceiver True True False True False)\<lparr>r_jitter := [(3, pkt), (65534, pkt), (65000, pkt)], r_baseSeq := 65530\<rparr>
   in nextBufferedSeqLocked r = (Some 65534, r) \<and> seq_dist 65534 (65530 :: u16) < seq_dist 3 (65530 :: u16)"
proof -
  let ?p = "\<lparr>pk_payloadType = 96, pk_marker = False, pk_seq = 0, pk_timestamp = 0, pk_ssrc = 1, pk_ext = [], pk_payload = []\<rparr>"
  let ?r = "(NewReceiver True True False True False)\<lparr>r_jitter := [(3, ?p), (65534, ?p), (65000, ?p)], r_baseSeq := 65530\<rparr>"
  have e: "nextBufferedSeqLocked ?r = (Some 65534, ?r)" by (simp add: nextBufferedSeqLocked_def seq_dist_def)
  show ?thesis using loss_recovery_nearest [of ?r] by (simp add: e seq_dist_def)
qed

text \<open>
  A nil hook is not "no hook". Clearing the decryptor or the verifier with nil, as the comments on
  the setters allow, stores a pointer to nil: the next datagram, or the next signed bare-audio packet,
  panics; and a receiver started again after a stop panics in its second stop.
\<close>

theorem nil_hooks_panic:
  assumes "um buf = Some pkt" and "buf \<noteq> []" and "pk_payload pkt \<noteq> []" and "pk_ext pkt \<noteq> []"
  shows "Option.bind (SetPayloadDecryptor r None) (\<lambda>r. readLoop_step um r buf) = None
    \<and> bare_run (SetAUVerifier r None) [pkt] = None
    \<and> (r_running r \<longrightarrow> (\<forall>r1 r2. Stop r = Some r1 \<longrightarrow> rx_Start r1 False = Inr r2 \<longrightarrow> Stop r2 = None))"
  using assms
  by (auto simp: SetPayloadDecryptor_def SetAUVerifier_def readLoop_step_counted decrypt_def counted_def Let_def
      emit_def check_sig_def Stop_def rx_Start_def)

theorem nil_hooks_panic_witness:
  "Option.bind (SetPayloadDecryptor toy_receiver None) (\<lambda>r. readLoop_step toy_packet r [1, 5]) = None
    \<and> bare_run (SetAUVerifier toy_receiver None) [the (toy_packet [1, 5])] = None"
  using nil_hooks_panic [of toy_packet "[1, 5]" "the (toy_packet [1, 5])" toy_receiver] by (simp add: toy_packet_def)

end
