(* ===== verification/Port_Pool.thy ===== *)
theory Port_Pool
  imports Gb_Prelude
begin

text \<open>
  The RTP port pool of \<open>src/platform/portmanager.go\<close>. Its contract is the locale \<open>port_pool\<close>: an
  allocator of ports from a finite set. The sequential \<open>Get\<close> and \<open>Recycle\<close> implement it, and
  under concurrency, where \<open>Get\<close> is a channel receive followed by a compare-and-swap loop, no
  interleaving hands one port to two sessions.
\<close>

subsection \<open>The pool\<close>

datatype port_error = ErrNoAvailablePorts

record port_manager =
  pm_start :: u16
  pm_end :: u16
  pm_recycle :: "u16 list"
  pm_next :: u32

text \<open>The capacity of the recycle channel.\<close>

definition pm_cap :: "port_manager \<Rightarrow> nat" where
  "pm_cap pm = unat (pm_end pm) - unat (pm_start pm) + 1"

definition NewPortManager :: "u16 \<Rightarrow> u16 \<Rightarrow> port_manager go" where
  "NewPortManager start end' =
     (if start > end' then None
      else Some \<lparr>pm_start = start, pm_end = end', pm_recycle = [], pm_next = ucast start\<rparr>)"

text \<open>\<open>Get\<close> without contention: the compare-and-swap succeeds at once.\<close>

definition pm_Get :: "port_manager \<Rightarrow> port_manager \<times> (port_error + u16)" where
  "pm_Get pm =
     (case pm_recycle pm of
        p # ps \<Rightarrow> (pm\<lparr>pm_recycle := ps\<rparr>, Inr p)
      | [] \<Rightarrow>
          let cur = pm_next pm in
          if cur > ucast (pm_end pm) then (pm, Inl ErrNoAvailablePorts)
          else (pm\<lparr>pm_next := cur + 1\<rparr>, Inr (ucast cur)))"

definition pm_Recycle :: "port_manager \<Rightarrow> u16 \<Rightarrow> port_manager" where
  "pm_Recycle pm p =
     (if length (pm_recycle pm) < pm_cap pm then pm\<lparr>pm_recycle := pm_recycle pm @ [p]\<rparr> else pm)"

subsection \<open>The contract\<close>

text \<open>
  A client of an allocator that opens sessions (\<open>True\<close>) and closes the oldest one (\<open>False\<close>); the
  list is what it holds.
\<close>

fun serve :: "('s \<Rightarrow> 's \<times> ('e + 'p)) \<Rightarrow> ('s \<Rightarrow> 'p \<Rightarrow> 's) \<Rightarrow> 's \<Rightarrow> 'p list \<Rightarrow> bool list \<Rightarrow> 's \<times> 'p list" where
  "serve get put s out [] = (s, out)"
| "serve get put s out (True # ops) =
     (case get s of (s', Inr p) \<Rightarrow> serve get put s' (out @ [p]) ops | (s', Inl _) \<Rightarrow> serve get put s' out ops)"
| "serve get put s out (False # ops) =
     (case out of [] \<Rightarrow> serve get put s [] ops | p # ps \<Rightarrow> serve get put (put s p) ps ops)"

text \<open>
  An allocator over a set of ports: \<open>get\<close> takes a free port and fails only when there is none, and
  giving back a port that is out makes it free again.
\<close>

locale port_pool =
  fixes wf :: "'s \<Rightarrow> bool" and free :: "'s \<Rightarrow> 'p set" and all_ports :: "'s \<Rightarrow> 'p set"
    and get :: "'s \<Rightarrow> 's \<times> ('e + 'p)" and put :: "'s \<Rightarrow> 'p \<Rightarrow> 's"
  assumes free_sub: "wf s \<Longrightarrow> free s \<subseteq> all_ports s"
    and get_ok: "wf s \<Longrightarrow> get s = (s', Inr p) \<Longrightarrow>
      wf s' \<and> p \<in> free s \<and> free s' = free s - {p} \<and> all_ports s' = all_ports s"
    and get_err: "wf s \<Longrightarrow> get s = (s', Inl e) \<Longrightarrow> s' = s \<and> free s = {}"
    and put_ok: "wf s \<Longrightarrow> p \<in> all_ports s - free s \<Longrightarrow>
      wf (put s p) \<and> free (put s p) = insert p (free s) \<and> all_ports (put s p) = all_ports s"
begin

definition accounted :: "'s \<Rightarrow> 'p list \<Rightarrow> bool" where
  "accounted s out \<longleftrightarrow> wf s \<and> distinct out \<and> set out \<inter> free s = {} \<and> set out \<union> free s = all_ports s"

lemma accounted_get: "accounted s out \<Longrightarrow> get s = (s', Inr p) \<Longrightarrow> accounted s' (out @ [p])"
  using get_ok [of s s' p] free_sub [of s] by (auto simp: accounted_def)

lemma accounted_put:
  assumes "accounted s (p # ps)"
  shows "accounted (put s p) ps \<and> all_ports (put s p) = all_ports s"
proof -
  have "wf s" "p \<in> all_ports s - free s" using assms by (auto simp: accounted_def)
  then show ?thesis using put_ok [of s p] assms by (auto simp: accounted_def)
qed

lemma serve_accounted:
  "accounted s out \<Longrightarrow> accounted (fst (serve get put s out ops)) (snd (serve get put s out ops))
     \<and> all_ports (fst (serve get put s out ops)) = all_ports s"
proof (induction ops arbitrary: s out)
  case (Cons op ops)
  show ?case
  proof (cases op)
    case True
    obtain s' r where g: "get s = (s', r)" by (cases "get s")
    show ?thesis
    proof (cases r)
      case (Inl e)
      then show ?thesis using Cons True g get_err [of s s' e] by (simp add: accounted_def)
    next
      case (Inr p)
      have "all_ports s' = all_ports s" using get_ok [of s s' p] g Inr Cons.prems by (simp add: accounted_def)
      then show ?thesis using Cons.IH [of s' "out @ [p]"] accounted_get [OF Cons.prems] g Inr True by simp
    qed
  next
    case False
    show ?thesis
    proof (cases out)
      case (Cons p ps)
      then show ?thesis using Cons.IH [of "put s p" ps] accounted_put [of s p ps] Cons.prems False by simp
    qed (use Cons False in simp)
  qed
qed simp

text \<open>
  The view of a client that keeps its ports in a table: \<open>P a\<close> is the port of entry \<open>a\<close>, and the
  entries in \<open>A\<close> are in use.
\<close>

definition leased :: "'s \<Rightarrow> ('a \<Rightarrow> 'p) \<Rightarrow> 'a set \<Rightarrow> bool" where
  "leased s P A \<longleftrightarrow> wf s \<and> inj_on P A \<and> P ` A \<inter> free s = {} \<and> P ` A \<union> free s = all_ports s"

lemma leased_cong: "(\<And>a. a \<in> A \<Longrightarrow> P a = Q a) \<Longrightarrow> leased s P A = leased s Q A"
  by (simp add: leased_def cong: inj_on_cong image_cong)

lemma leased_put:
  assumes "leased s P A" and "a \<in> A"
  shows "leased (put s (P a)) P (A - {a}) \<and> all_ports (put s (P a)) = all_ports s"
proof -
  have "P ` (A - {a}) = P ` A - {P a}" using assms by (auto simp: leased_def inj_on_def)
  moreover have "P a \<in> all_ports s - free s" using assms by (auto simp: leased_def)
  ultimately show ?thesis using put_ok [of s "P a"] assms
    by (auto simp: leased_def intro: inj_on_diff)
qed

lemma leased_get:
  assumes "leased s P A" and "get s = (s', Inr p)" and "a \<notin> A" and "P a = p"
  shows "leased s' P (insert a A) \<and> all_ports s' = all_ports s"
  using get_ok [of s s' p] assms by (auto simp: leased_def)

lemma leased_get_put:
  assumes "leased s P A" and "get s = (s', Inr p)"
  shows "leased (put s' p) P A \<and> all_ports (put s' p) = all_ports s"
proof -
  have g: "wf s'" "p \<in> free s" "free s' = free s - {p}" "all_ports s' = all_ports s"
    using get_ok [of s s' p] assms by (auto simp: leased_def)
  then have "p \<in> all_ports s' - free s'" using free_sub [of s] assms(1) by (auto simp: leased_def)
  then show ?thesis using put_ok [of s' p] g assms(1) by (auto simp: leased_def)
qed

lemma leased_err: "leased s P A \<Longrightarrow> get s = (s', Inl e) \<Longrightarrow> s' = s \<and> P ` A = all_ports s"
  using get_err [of s s' e] by (auto simp: leased_def)

end

subsection \<open>The pool meets the contract\<close>

text \<open>The ports handed out so far by the counter, and all the pool has.\<close>

definition issued :: "port_manager \<Rightarrow> u16 set" where
  "issued pm = {p. unat (pm_start pm) \<le> unat p \<and> unat p < unat (pm_next pm)}"

definition pm_all :: "port_manager \<Rightarrow> u16 set" where
  "pm_all pm = {pm_start pm..pm_end pm}"

definition pm_free :: "port_manager \<Rightarrow> u16 set" where
  "pm_free pm = set (pm_recycle pm) \<union> (pm_all pm - issued pm)"

definition pm_wf :: "port_manager \<Rightarrow> bool" where
  "pm_wf pm \<longleftrightarrow> pm_start pm \<le> pm_end pm \<and> unat (pm_start pm) \<le> unat (pm_next pm)
     \<and> unat (pm_next pm) \<le> unat (pm_end pm) + 1 \<and> distinct (pm_recycle pm) \<and> set (pm_recycle pm) \<subseteq> issued pm"

lemma u16_less: "unat (p :: u16) < 65536"
  using unsigned_less [of p, where ?'a = nat] by simp

lemma next_port:
  assumes "pm_wf pm" and "unat (pm_next pm) \<le> unat (pm_end pm)"
  shows "unat (ucast (pm_next pm) :: u16) = unat (pm_next pm)" and "unat (pm_next pm + 1) = unat (pm_next pm) + 1"
  using assms u16_less [of "pm_end pm"] unat_add_lem [of "pm_next pm" 1]
  by (simp_all add: unsigned_ucast_eq take_bit_nat_eq_self)

lemma next_exhausted: "(pm_next pm > ucast (pm_end pm)) = (unat (pm_next pm) > unat (pm_end pm))"
  using u16_less [of "pm_end pm"] by (simp add: word_less_nat_alt unsigned_ucast_eq take_bit_nat_eq_self)

lemma issued_step:
  assumes "pm_wf pm" and "unat (pm_next pm) \<le> unat (pm_end pm)"
  shows "issued (pm\<lparr>pm_next := pm_next pm + 1\<rparr>) = insert (ucast (pm_next pm)) (issued pm)"
    and "ucast (pm_next pm) \<notin> issued pm" and "ucast (pm_next pm) \<in> pm_all pm"
  using assms next_port [OF assms]
  by (auto simp: issued_def pm_all_def pm_wf_def word_le_nat_alt less_Suc_eq) (metis unsigned_word_eqI)+

lemma issued_all: "pm_wf pm \<Longrightarrow> issued pm \<subseteq> pm_all pm"
  by (auto simp: issued_def pm_all_def pm_wf_def word_le_nat_alt)

text \<open>The recycle channel has room for every port that is out.\<close>

lemma recycle_room:
  assumes "pm_wf pm" and "p \<in> issued pm" and "p \<notin> set (pm_recycle pm)"
  shows "length (pm_recycle pm) < pm_cap pm"
proof -
  have "card (issued pm) \<le> card {unat (pm_start pm)..<unat (pm_next pm)}"
    by (rule card_inj_on_le [of unat]) (auto simp: issued_def inj_on_def unsigned_word_eqI)
  moreover have "set (p # pm_recycle pm) \<subseteq> issued pm" using assms by (auto simp: pm_wf_def)
  then have "card (set (p # pm_recycle pm)) \<le> card (issued pm)" by (rule card_mono [rotated]) simp
  then have "length (pm_recycle pm) + 1 \<le> card (issued pm)"
    using assms(1,3) distinct_card [of "pm_recycle pm"] by (simp add: pm_wf_def)
  ultimately show ?thesis using assms(1) unfolding pm_cap_def pm_wf_def word_le_nat_alt by auto
qed

interpretation rtp_ports: port_pool pm_wf pm_free pm_all pm_Get pm_Recycle
proof
  fix pm assume "pm_wf pm"
  then show "pm_free pm \<subseteq> pm_all pm" using issued_all [of pm] by (auto simp: pm_free_def pm_wf_def)
next
  fix pm pm' p assume wf: "pm_wf pm" and g: "pm_Get pm = (pm', Inr p)"
  show "pm_wf pm' \<and> p \<in> pm_free pm \<and> pm_free pm' = pm_free pm - {p} \<and> pm_all pm' = pm_all pm"
  proof (cases "pm_recycle pm")
    case Nil
    then have le: "unat (pm_next pm) \<le> unat (pm_end pm)"
      and "pm' = pm\<lparr>pm_next := pm_next pm + 1\<rparr>" "p = ucast (pm_next pm)"
      using g next_exhausted [of pm] by (auto simp: pm_Get_def Let_def split: if_splits)
    then show ?thesis using Nil wf issued_step [OF wf le] next_port [OF wf le]
      by (auto simp: pm_wf_def pm_free_def pm_all_def)
  next
    case (Cons q qs)
    then have "pm' = pm\<lparr>pm_recycle := qs\<rparr>" "p = q" using g by (auto simp: pm_Get_def)
    then show ?thesis using Cons wf by (auto simp: pm_wf_def pm_free_def pm_all_def issued_def)
  qed
next
  fix pm pm' e assume wf: "pm_wf pm" and "pm_Get pm = (pm', Inl e)"
  then have "pm_recycle pm = []" "unat (pm_next pm) > unat (pm_end pm)" "pm' = pm"
    using next_exhausted [of pm] by (auto simp: pm_Get_def Let_def split: if_splits list.splits)
  then show "pm' = pm \<and> pm_free pm = {}" by (auto simp: pm_free_def pm_all_def issued_def word_le_nat_alt)
next
  fix pm p assume wf: "pm_wf pm" and p: "p \<in> pm_all pm - pm_free pm"
  then have out: "p \<in> issued pm" "p \<notin> set (pm_recycle pm)" by (auto simp: pm_free_def)
  then have "pm_Recycle pm p = pm\<lparr>pm_recycle := pm_recycle pm @ [p]\<rparr>"
    using recycle_room [OF wf] by (simp add: pm_Recycle_def)
  then show "pm_wf (pm_Recycle pm p) \<and> pm_free (pm_Recycle pm p) = insert p (pm_free pm)
      \<and> pm_all (pm_Recycle pm p) = pm_all pm"
    using wf out by (auto simp: pm_wf_def pm_free_def pm_all_def issued_def)
qed

subsection \<open>Concurrent sessions\<close>

text \<open>
  A goroutine is between calls, has found the recycle channel empty, has loaded the counter, holds a
  port, or got the error. Every step is one atomic action of \<open>Get\<close> or \<open>Recycle\<close>.
\<close>

datatype session_pc = Idle | Looping | Loaded u32 | Holding u16 | NoPort

record pool_sys =
  sys_pm :: port_manager
  sys_pc :: "nat \<Rightarrow> session_pc"

inductive pool_step :: "pool_sys \<Rightarrow> pool_sys \<Rightarrow> bool" where
  receive: "sys_pc s t = Idle \<Longrightarrow> pm_recycle (sys_pm s) = p # ps \<Longrightarrow>
    pool_step s (s\<lparr>sys_pm := (sys_pm s)\<lparr>pm_recycle := ps\<rparr>, sys_pc := (sys_pc s)(t := Holding p)\<rparr>)"
| none_recycled: "sys_pc s t = Idle \<Longrightarrow> pm_recycle (sys_pm s) = [] \<Longrightarrow>
    pool_step s (s\<lparr>sys_pc := (sys_pc s)(t := Looping)\<rparr>)"
| exhausted: "sys_pc s t = Looping \<Longrightarrow> pm_next (sys_pm s) > ucast (pm_end (sys_pm s)) \<Longrightarrow>
    pool_step s (s\<lparr>sys_pc := (sys_pc s)(t := NoPort)\<rparr>)"
| load: "sys_pc s t = Looping \<Longrightarrow> \<not> pm_next (sys_pm s) > ucast (pm_end (sys_pm s)) \<Longrightarrow>
    pool_step s (s\<lparr>sys_pc := (sys_pc s)(t := Loaded (pm_next (sys_pm s)))\<rparr>)"
| swap: "sys_pc s t = Loaded cur \<Longrightarrow> pm_next (sys_pm s) = cur \<Longrightarrow>
    pool_step s (s\<lparr>sys_pm := (sys_pm s)\<lparr>pm_next := cur + 1\<rparr>, sys_pc := (sys_pc s)(t := Holding (ucast cur))\<rparr>)"
| lost_race: "sys_pc s t = Loaded cur \<Longrightarrow> pm_next (sys_pm s) \<noteq> cur \<Longrightarrow>
    pool_step s (s\<lparr>sys_pc := (sys_pc s)(t := Looping)\<rparr>)"
| give_back: "sys_pc s t = Holding p \<Longrightarrow>
    pool_step s (s\<lparr>sys_pm := pm_Recycle (sys_pm s) p, sys_pc := (sys_pc s)(t := Idle)\<rparr>)"
| report: "sys_pc s t = NoPort \<Longrightarrow> pool_step s (s\<lparr>sys_pc := (sys_pc s)(t := Idle)\<rparr>)"

inductive pool_reach :: "u16 \<Rightarrow> u16 \<Rightarrow> pool_sys \<Rightarrow> bool" for start end' where
  init: "NewPortManager start end' = Some pm \<Longrightarrow> pool_reach start end' \<lparr>sys_pm = pm, sys_pc = (\<lambda>_. Idle)\<rparr>"
| step: "pool_reach start end' s \<Longrightarrow> pool_step s s' \<Longrightarrow> pool_reach start end' s'"

definition ports_held :: "pool_sys \<Rightarrow> u16 set" where
  "ports_held s = {p. \<exists>t. sys_pc s t = Holding p}"

definition pool_inv :: "u16 \<Rightarrow> u16 \<Rightarrow> pool_sys \<Rightarrow> bool" where
  "pool_inv start end' s \<longleftrightarrow> pm_wf (sys_pm s) \<and> pm_start (sys_pm s) = start \<and> pm_end (sys_pm s) = end'
     \<and> (\<forall>t cur. sys_pc s t = Loaded cur \<longrightarrow> unat cur \<le> unat end')
     \<and> (\<forall>t u p. sys_pc s t = Holding p \<longrightarrow> sys_pc s u = Holding p \<longrightarrow> t = u)
     \<and> set (pm_recycle (sys_pm s)) \<inter> ports_held s = {} \<and> set (pm_recycle (sys_pm s)) \<union> ports_held s = issued (sys_pm s)"

lemma held_upd:
  assumes "\<forall>t u p. sys_pc s t = Holding p \<longrightarrow> sys_pc s u = Holding p \<longrightarrow> t = u"
  shows "ports_held (s\<lparr>sys_pc := (sys_pc s)(t := pc)\<rparr>)
    = (case sys_pc s t of Holding p \<Rightarrow> ports_held s - {p} | _ \<Rightarrow> ports_held s) \<union> (case pc of Holding p \<Rightarrow> {p} | _ \<Rightarrow> {})"
proof -
  have "ports_held (s\<lparr>sys_pc := (sys_pc s)(t := pc)\<rparr>)
      = {p. \<exists>u. u \<noteq> t \<and> sys_pc s u = Holding p} \<union> (case pc of Holding p \<Rightarrow> {p} | _ \<Rightarrow> {})"
    by (cases pc) (auto simp: ports_held_def)
  moreover have "{p. \<exists>u. u \<noteq> t \<and> sys_pc s u = Holding p}
      = (case sys_pc s t of Holding p \<Rightarrow> ports_held s - {p} | _ \<Rightarrow> ports_held s)"
  proof (cases "sys_pc s t")
    case (Holding p)
    then have "(\<exists>u. u \<noteq> t \<and> sys_pc s u = Holding q) \<longleftrightarrow> q \<noteq> p \<and> (\<exists>u. sys_pc s u = Holding q)" for q
      using assms by (metis session_pc.inject(2))
    then show ?thesis using Holding by (auto simp: ports_held_def)
  qed (use assms in \<open>simp_all add: ports_held_def\<close>, (metis session_pc.distinct)+)
  ultimately show ?thesis by simp
qed

lemma held_pm [simp]: "ports_held (s\<lparr>sys_pm := pm, sys_pc := pc\<rparr>) = ports_held (s\<lparr>sys_pc := pc\<rparr>)"
  by (simp add: ports_held_def)

lemma issued_recycle [simp]: "issued (pm\<lparr>pm_recycle := ps\<rparr>) = issued pm"
  by (simp add: issued_def)

lemma pool_step_inv:
  assumes "pool_step s s'" and inv: "pool_inv start end' s"
  shows "pool_inv start end' s'"
proof -
  have one: "\<forall>t u p. sys_pc s t = Holding p \<longrightarrow> sys_pc s u = Holding p \<longrightarrow> t = u"
    and wf: "pm_wf (sys_pm s)" using inv by (simp_all add: pool_inv_def)
  note upd = held_upd [OF one]
  have in_held: "sys_pc s t = Holding p \<Longrightarrow> p \<in> ports_held s" for t p by (auto simp: ports_held_def)
  show ?thesis using assms(1)
  proof cases
    case (receive t p ps)
    have "p \<notin> ports_held s" using inv receive by (auto simp: pool_inv_def)
    then show ?thesis using inv receive upd [of t "Holding p"] in_held by (auto simp: pool_inv_def pm_wf_def)
  next
    case (swap t cur)
    then have le: "unat (pm_next (sys_pm s)) \<le> unat (pm_end (sys_pm s))" using inv by (auto simp: pool_inv_def)
    note st = issued_step [OF wf le] next_port [OF wf le]
    have new: "ucast cur \<notin> ports_held s" "ucast cur \<notin> set (pm_recycle (sys_pm s))"
      using st(2) inv swap by (auto simp: pool_inv_def)
    show ?thesis using inv swap upd [of t "Holding (ucast cur)"] in_held st new le
      by (auto simp: pool_inv_def pm_wf_def)
  next
    case (give_back t p)
    have out: "p \<in> issued (sys_pm s)" "p \<notin> set (pm_recycle (sys_pm s))"
      using inv in_held [OF give_back(2)] by (auto simp: pool_inv_def)
    then have "pm_Recycle (sys_pm s) p = (sys_pm s)\<lparr>pm_recycle := pm_recycle (sys_pm s) @ [p]\<rparr>"
      using recycle_room [OF wf] by (simp add: pm_Recycle_def)
    then show ?thesis using inv give_back upd [of t Idle] in_held [OF give_back(2)] out
      by (auto simp: pool_inv_def pm_wf_def)
  qed (use inv upd next_exhausted [of "sys_pm s"] in \<open>auto simp: pool_inv_def\<close>)
qed

lemma pool_reach_inv: "pool_reach start end' s \<Longrightarrow> pool_inv start end' s"
proof (induction rule: pool_reach.induct)
  case (init pm)
  have "unat (ucast start :: u32) = unat start"
    using u16_less [of start] by (simp add: unsigned_ucast_eq take_bit_nat_eq_self)
  moreover have "start \<le> end'" using init by (simp add: NewPortManager_def not_less split: if_splits)
  ultimately show ?case using init
    by (auto simp: NewPortManager_def pool_inv_def pm_wf_def ports_held_def issued_def word_le_nat_alt split: if_splits)
qed (rule pool_step_inv)


subsection \<open>Properties\<close>


text \<open>
  C6: No interleaving of concurrent sessions shares a port. However the channel operations, the loads
  and the compare-and-swaps of any number of goroutines interleave, two of them never hold the same
  port, every held port lies in the configured range and is not on the recycle channel, and every port
  ever issued is either held or recycled.
\<close>

theorem ports_exclusive:
  assumes "pool_reach start end' s"
  shows "(\<forall>t u p. sys_pc s t = Holding p \<longrightarrow> sys_pc s u = Holding p \<longrightarrow> t = u)
    \<and> ports_held s \<subseteq> {start..end'} \<and> distinct (pm_recycle (sys_pm s)) \<and> set (pm_recycle (sys_pm s)) \<inter> ports_held s = {}
    \<and> set (pm_recycle (sys_pm s)) \<union> ports_held s = issued (sys_pm s)"
  using pool_reach_inv [OF assms] issued_all [of "sys_pm s"]
  by (simp add: pool_inv_def pm_wf_def pm_all_def) blast

text \<open>
  A double recycle breaks the exclusion. When a session returns its port twice, the channel (sized
  for the whole pool) accepts both copies, and the next two sessions are given the same port, although
  the comment on \<open>Recycle\<close> says a double recycle is caught by the full channel.
\<close>

theorem double_recycle_shares:
  assumes "pm_recycle pm = []" and "pm_start pm < pm_end pm"
  shows "\<exists>pm1 pm2. pm_Get (pm_Recycle (pm_Recycle pm p) p) = (pm1, Inr p) \<and> pm_Get pm1 = (pm2, Inr p)"
proof -
  have "1 < pm_cap pm" using assms(2) by (simp add: pm_cap_def word_less_nat_alt)
  then show ?thesis using assms(1) by (simp add: pm_Recycle_def pm_Get_def pm_cap_def)
qed


theorem ports_exclusive_witness:
  "ports_held \<lparr>sys_pm = the (NewPortManager 30000 30001), sys_pc = (\<lambda>_. Idle)\<rparr> \<subseteq> {30000..30001}"
  using ports_exclusive [OF pool_reach.init [of 30000 30001 "the (NewPortManager 30000 30001)"]]
  by (auto simp: NewPortManager_def)

theorem double_recycle_shares_witness:
  "\<exists>pm1 pm2. pm_Get (pm_Recycle (pm_Recycle (the (NewPortManager 30000 30001)) 30000) 30000) = (pm1, Inr 30000)
     \<and> pm_Get pm1 = (pm2, Inr 30000)"
  using double_recycle_shares [of "the (NewPortManager 30000 30001)" 30000] by (simp add: NewPortManager_def)

end
