(* ===== verification/Frame_Hub.thy ===== *)
theory Frame_Hub
  imports Gb_Prelude "HOL-Library.AList" "HOL-Library.Sublist"
begin

text \<open>
  The frame fan-out of \<open>src/platform/framehub.go\<close>: named consumers with bounded queues, each drained
  by its own goroutine. A consumer is its queue and what its callback has received; one step of the
  drain goroutine is an operation of its own, so the order of deliveries and broadcasts is arbitrary.
  Video and audio consumers are two instances of the same queue.
\<close>

subsection \<open>State\<close>

definition frameHubQueueSize :: nat where "frameHubQueueSize = 150"

record frameHubFrame =
  ff_pts :: i64
  ff_au :: "bytes list"
  ff_isIDR :: bool

record frameHubAudioFrame =
  fa_pts :: i64
  fa_codec :: string
  fa_data :: bytes

record 'f hub_consumer =
  hc_ch :: "'f list"
  hc_got :: "'f list"

type_synonym 'f consumers = "(string \<times> 'f hub_consumer) list"

record frame_hub =
  fh_cameraID :: string
  fh_consumers :: "frameHubFrame consumers"
  fh_audio :: "frameHubAudioFrame consumers"
  fh_dropped :: i64

datatype hub_error = AlreadySubscribed

definition NewFrameHub :: frame_hub where
  "NewFrameHub = \<lparr>fh_cameraID = '''', fh_consumers = [], fh_audio = [], fh_dropped = 0\<rparr>"

definition SetCameraID :: "frame_hub \<Rightarrow> string \<Rightarrow> frame_hub" where
  "SetCameraID h i = h\<lparr>fh_cameraID := i\<rparr>"

subsection \<open>Operations on one family of consumers\<close>

definition add_consumer :: "'f consumers \<Rightarrow> string \<Rightarrow> hub_error + 'f consumers" where
  "add_consumer cs i =
     (if map_of cs i \<noteq> None then Inl AlreadySubscribed else Inr (AList.update i \<lparr>hc_ch = [], hc_got = []\<rparr> cs))"

text \<open>The non-blocking send: the frame goes to the back of the queue, or is dropped when it is full.\<close>

definition offer :: "'f \<Rightarrow> 'f hub_consumer \<Rightarrow> 'f hub_consumer" where
  "offer f c = (if length (hc_ch c) < frameHubQueueSize then c\<lparr>hc_ch := hc_ch c @ [f]\<rparr> else c)"

definition offer_all :: "'f \<Rightarrow> 'f consumers \<Rightarrow> 'f consumers" where
  "offer_all f cs = map (\<lambda>(i, c). (i, offer f c)) cs"

definition count_full :: "'f consumers \<Rightarrow> nat" where
  "count_full cs = length (filter (\<lambda>(i, c). \<not> length (hc_ch c) < frameHubQueueSize) cs)"

definition drain :: "'f hub_consumer \<Rightarrow> 'f hub_consumer" where
  "drain c = (case hc_ch c of [] \<Rightarrow> c | f # fs \<Rightarrow> c\<lparr>hc_ch := fs, hc_got := hc_got c @ [f]\<rparr>)"

subsection \<open>The hub\<close>

definition Subscribe :: "frame_hub \<Rightarrow> string \<Rightarrow> hub_error + frame_hub" where
  "Subscribe h i = map_sum id (\<lambda>cs. h\<lparr>fh_consumers := cs\<rparr>) (add_consumer (fh_consumers h) i)"

definition SubscribeAudio :: "frame_hub \<Rightarrow> string \<Rightarrow> hub_error + frame_hub" where
  "SubscribeAudio h i = map_sum id (\<lambda>cs. h\<lparr>fh_audio := cs\<rparr>) (add_consumer (fh_audio h) i)"

definition Unsubscribe :: "frame_hub \<Rightarrow> string \<Rightarrow> frame_hub" where
  "Unsubscribe h i = h\<lparr>fh_consumers := AList.delete i (fh_consumers h)\<rparr>"

definition UnsubscribeAudio :: "frame_hub \<Rightarrow> string \<Rightarrow> frame_hub" where
  "UnsubscribeAudio h i = h\<lparr>fh_audio := AList.delete i (fh_audio h)\<rparr>"

definition Broadcast :: "frame_hub \<Rightarrow> i64 \<Rightarrow> bytes list \<Rightarrow> bool \<Rightarrow> frame_hub" where
  "Broadcast h pts au isIDR =
     h\<lparr>fh_consumers := offer_all \<lparr>ff_pts = pts, ff_au = au, ff_isIDR = isIDR\<rparr> (fh_consumers h),
       fh_dropped := fh_dropped h + of_nat (count_full (fh_consumers h))\<rparr>"

definition BroadcastAudio :: "frame_hub \<Rightarrow> i64 \<Rightarrow> string \<Rightarrow> bytes \<Rightarrow> frame_hub" where
  "BroadcastAudio h pts codec data =
     h\<lparr>fh_audio := offer_all \<lparr>fa_pts = pts, fa_codec = codec, fa_data = data\<rparr> (fh_audio h),
       fh_dropped := fh_dropped h + of_nat (count_full (fh_audio h))\<rparr>"

definition Dropped :: "frame_hub \<Rightarrow> i64" where "Dropped h = fh_dropped h"

definition ConsumerCount :: "frame_hub \<Rightarrow> nat" where
  "ConsumerCount h = length (fh_consumers h) + length (fh_audio h)"

text \<open>One round of a consumer's drain goroutine.\<close>

definition drain_video :: "frame_hub \<Rightarrow> string \<Rightarrow> frame_hub" where
  "drain_video h i = h\<lparr>fh_consumers := AList.map_entry i drain (fh_consumers h)\<rparr>"

definition drain_audio :: "frame_hub \<Rightarrow> string \<Rightarrow> frame_hub" where
  "drain_audio h i = h\<lparr>fh_audio := AList.map_entry i drain (fh_audio h)\<rparr>"

subsection \<open>The contract of a lossy queue\<close>

datatype 'f q_op = QSend 'f | QRecv

fun q_run :: "('f \<Rightarrow> 'q \<Rightarrow> 'q) \<Rightarrow> ('q \<Rightarrow> 'q) \<Rightarrow> 'q \<Rightarrow> 'f q_op list \<Rightarrow> 'q" where
  "q_run send recv q [] = q"
| "q_run send recv q (QSend f # ops) = q_run send recv (send f q) ops"
| "q_run send recv q (QRecv # ops) = q_run send recv (recv q) ops"

fun q_sent :: "'f q_op list \<Rightarrow> 'f list" where
  "q_sent [] = []"
| "q_sent (QSend f # ops) = f # q_sent ops"
| "q_sent (QRecv # ops) = q_sent ops"

text \<open>A bounded queue that forgets the newest item when it is full and otherwise is first in, first out.\<close>

locale lossy_queue =
  fixes pending taken :: "'q \<Rightarrow> 'f list" and send :: "'f \<Rightarrow> 'q \<Rightarrow> 'q" and recv :: "'q \<Rightarrow> 'q" and cap :: nat
  assumes send_room: "length (pending q) < cap \<Longrightarrow> pending (send f q) = pending q @ [f]"
    and send_full: "\<not> length (pending q) < cap \<Longrightarrow> pending (send f q) = pending q"
    and send_taken: "taken (send f q) = taken q"
    and recv_item: "pending q = f # fs \<Longrightarrow> pending (recv q) = fs \<and> taken (recv q) = taken q @ [f]"
    and recv_none: "pending q = [] \<Longrightarrow> recv q = q"
begin

definition history :: "'q \<Rightarrow> 'f list" where
  "history q = taken q @ pending q"

lemma history_recv: "history (recv q) = history q" "length (pending (recv q)) \<le> length (pending q)"
  using recv_item [of q] recv_none [of q] by (cases "pending q"; simp add: history_def)+

lemma history_send:
  "history (send f q) = (if length (pending q) < cap then history q @ [f] else history q)"
  by (simp add: history_def send_room send_full send_taken)

lemma run_bounded: "length (pending q) \<le> cap \<Longrightarrow> length (pending (q_run send recv q ops)) \<le> cap"
proof (induction ops arbitrary: q)
  case (Cons op ops)
  then show ?case
  proof (cases op)
    case (QSend f)
    then show ?thesis using Cons by (cases "length (pending q) < cap") (simp_all add: send_room send_full)
  next
    case QRecv
    then show ?thesis using Cons.IH [of "recv q"] Cons.prems history_recv(2) [of q] by simp
  qed
qed simp

text \<open>What was received and what is waiting is, in order, part of what was sent.\<close>

lemma run_subseq: "subseq (history q) us \<Longrightarrow> subseq (history (q_run send recv q ops)) (us @ q_sent ops)"
proof (induction ops arbitrary: q us)
  case (Cons op ops)
  show ?case
  proof (cases op)
    case (QSend f)
    have "subseq (history (send f q)) (us @ [f])"
      using Cons.prems by (auto simp: history_send intro: list_emb_append_mono subseq_order.trans [OF _ subseq_rev_drop_many])
    then show ?thesis using Cons.IH [of "send f q" "us @ [f]"] QSend by simp
  next
    case QRecv
    then show ?thesis using Cons by (simp add: history_recv)
  qed
qed simp

text \<open>A consumer that never lets its queue fill up loses nothing.\<close>

lemma run_lossless:
  "(\<And>k. k \<le> length ops \<Longrightarrow> length (pending (q_run send recv q (take k ops))) < cap)
     \<Longrightarrow> history (q_run send recv q ops) = history q @ q_sent ops"
proof (induction ops arbitrary: q)
  case (Cons op ops)
  have room: "length (pending q) < cap" using Cons.prems [of 0] by simp
  show ?case
  proof (cases op)
    case (QSend f)
    then show ?thesis
      using Cons.IH [of "send f q"] Cons.prems [of "Suc k" for k] room by (simp add: history_send)
  next
    case QRecv
    then show ?thesis
      using Cons.IH [of "recv q"] Cons.prems [of "Suc k" for k] by (simp add: history_recv)
  qed
qed simp

end

interpretation hub_queue: lossy_queue hc_ch hc_got offer drain frameHubQueueSize
  by unfold_locales (auto simp: offer_def drain_def)

subsection \<open>Runs of the hub\<close>

datatype hub_op =
    HSubscribe string
  | HUnsubscribe string
  | HBroadcast i64 "bytes list" bool
  | HDrain string
  | HSubscribeAudio string
  | HUnsubscribeAudio string
  | HBroadcastAudio i64 string bytes
  | HDrainAudio string

fun hub_step :: "frame_hub \<Rightarrow> hub_op \<Rightarrow> frame_hub" where
  "hub_step h (HSubscribe i) = (case Subscribe h i of Inl _ \<Rightarrow> h | Inr h' \<Rightarrow> h')"
| "hub_step h (HUnsubscribe i) = Unsubscribe h i"
| "hub_step h (HBroadcast pts au idr) = Broadcast h pts au idr"
| "hub_step h (HDrain i) = drain_video h i"
| "hub_step h (HSubscribeAudio i) = (case SubscribeAudio h i of Inl _ \<Rightarrow> h | Inr h' \<Rightarrow> h')"
| "hub_step h (HUnsubscribeAudio i) = UnsubscribeAudio h i"
| "hub_step h (HBroadcastAudio pts codec data) = BroadcastAudio h pts codec data"
| "hub_step h (HDrainAudio i) = drain_audio h i"

text \<open>What a run of the hub means to the video consumer \<open>i\<close>.\<close>

fun view :: "string \<Rightarrow> hub_op \<Rightarrow> frameHubFrame q_op list" where
  "view i (HBroadcast pts au idr) = [QSend \<lparr>ff_pts = pts, ff_au = au, ff_isIDR = idr\<rparr>]"
| "view i (HDrain j) = (if i = j then [QRecv] else [])"
| "view i _ = []"

lemma map_of_offer_all: "map_of (offer_all f cs) i = map_option (offer f) (map_of cs i)"
  by (induction cs) (auto simp: offer_all_def)

lemma add_consumer_other:
  "add_consumer cs j = Inr cs' \<Longrightarrow> map_of cs i = Some c \<Longrightarrow> map_of cs' i = Some c"
  by (auto simp: add_consumer_def update_conv' split: if_splits)

lemma q_run_append: "q_run s r q (xs @ ys) = q_run s r (q_run s r q xs) ys"
  by (induction s r q xs rule: q_run.induct) simp_all

lemma hub_step_view:
  assumes "map_of (fh_consumers h) i = Some c" and "op \<noteq> HUnsubscribe i"
  shows "map_of (fh_consumers (hub_step h op)) i = Some (q_run offer drain c (view i op))"
proof (cases op)
  case (HSubscribe j)
  then show ?thesis using assms add_consumer_other [of "fh_consumers h" j]
    by (cases "add_consumer (fh_consumers h) j") (auto simp: Subscribe_def)
next
  case (HSubscribeAudio j)
  then show ?thesis using assms by (cases "add_consumer (fh_audio h) j") (auto simp: SubscribeAudio_def)
qed (use assms in \<open>auto simp: Unsubscribe_def UnsubscribeAudio_def Broadcast_def BroadcastAudio_def drain_video_def
      drain_audio_def map_of_offer_all AList.map_of_map_entry AList.delete_conv'\<close>)

lemma hub_run_view:
  "map_of (fh_consumers h) i = Some c \<Longrightarrow> HUnsubscribe i \<notin> set ops \<Longrightarrow>
     map_of (fh_consumers (foldl hub_step h ops)) i = Some (q_run offer drain c (concat (map (view i) ops)))"
proof (induction ops arbitrary: h c)
  case (Cons op ops)
  then show ?case using hub_step_view [of h i c op] Cons.IH [of "hub_step h op"] by (auto simp: q_run_append)
qed simp

lemma count_full_pos:
  assumes "map_of cs i = Some c" and "\<not> length (hc_ch c) < frameHubQueueSize"
  shows "0 < count_full cs"
proof -
  have "(i, c) \<in> set (filter (\<lambda>(i, c). \<not> length (hc_ch c) < frameHubQueueSize) cs)"
    using map_of_SomeD [OF assms(1)] assms(2) by simp
  then have "filter (\<lambda>(i, c). \<not> length (hc_ch c) < frameHubQueueSize) cs \<noteq> []" by fastforce
  then show ?thesis unfolding count_full_def by (rule length_greater_0_conv [THEN iffD2])
qed

text \<open>Every frame a consumer misses is counted.\<close>

lemma hub_step_drops:
  assumes "map_of (fh_consumers h) i = Some c" and "op \<noteq> HUnsubscribe i"
  shows "\<exists>n. fh_dropped (hub_step h op) = fh_dropped h + of_nat n
    \<and> length (q_sent (view i op)) + length (hub_queue.history c)
        \<le> length (hub_queue.history (q_run offer drain c (view i op))) + n"
proof -
  have zero: "\<exists>n. (of_nat n :: i64) = 0" by (rule exI [of _ 0]) simp
  show ?thesis
  proof (cases op)
    case (HBroadcast pts au idr)
    let ?f = "\<lparr>ff_pts = pts, ff_au = au, ff_isIDR = idr\<rparr>"
    have "1 + length (hub_queue.history c) \<le> length (hub_queue.history (offer ?f c)) + count_full (fh_consumers h)"
      using count_full_pos [OF assms(1)] by (cases "length (hc_ch c) < frameHubQueueSize") (simp_all add: hub_queue.history_send)
    then show ?thesis using HBroadcast
      by (intro exI [of _ "count_full (fh_consumers h)"]) (simp add: Broadcast_def)
  next
    case (HBroadcastAudio pts codec data)
    then show ?thesis by (intro exI [of _ "count_full (fh_audio h)"]) (simp add: BroadcastAudio_def)
  next
    case (HSubscribe j)
    then show ?thesis by (cases "add_consumer (fh_consumers h) j") (simp_all add: Subscribe_def zero)
  next
    case (HSubscribeAudio j)
    then show ?thesis by (cases "add_consumer (fh_audio h) j") (simp_all add: SubscribeAudio_def zero)
  qed (simp_all add: zero Unsubscribe_def UnsubscribeAudio_def drain_video_def drain_audio_def hub_queue.history_recv)
qed

lemma q_sent_append: "q_sent (xs @ ys) = q_sent xs @ q_sent ys"
  by (induction xs rule: q_sent.induct) simp_all

lemma hub_run_drops:
  "map_of (fh_consumers h) i = Some c \<Longrightarrow> HUnsubscribe i \<notin> set ops \<Longrightarrow>
     \<exists>n. fh_dropped (foldl hub_step h ops) = fh_dropped h + of_nat n
       \<and> length (q_sent (concat (map (view i) ops))) + length (hub_queue.history c)
         \<le> length (hub_queue.history (q_run offer drain c (concat (map (view i) ops)))) + n"
proof (induction ops arbitrary: h c)
  case (Cons op ops)
  let ?c = "q_run offer drain c (view i op)"
  have ne: "op \<noteq> HUnsubscribe i" using Cons.prems(2) by auto
  obtain n where n: "fh_dropped (hub_step h op) = fh_dropped h + of_nat n"
    "length (q_sent (view i op)) + length (hub_queue.history c) \<le> length (hub_queue.history ?c) + n"
    using hub_step_drops [OF Cons.prems(1) ne] by blast
  obtain m where "fh_dropped (foldl hub_step (hub_step h op) ops) = fh_dropped (hub_step h op) + of_nat m"
    "length (q_sent (concat (map (view i) ops))) + length (hub_queue.history ?c)
       \<le> length (hub_queue.history (q_run offer drain ?c (concat (map (view i) ops)))) + m"
    using Cons.IH [OF hub_step_view [OF Cons.prems(1) ne]] Cons.prems(2) by auto
  then show ?case using n by (intro exI [of _ "n + m"]) (simp add: q_run_append q_sent_append)
next
  case Nil
  then show ?case by (intro exI [of _ 0]) simp
qed

subsection \<open>Properties\<close>

text \<open>The frames broadcast by a run.\<close>

definition broadcast_frames :: "hub_op list \<Rightarrow> frameHubFrame list" where
  "broadcast_frames ops = concat (map (\<lambda>op. case op of
     HBroadcast pts au idr \<Rightarrow> [\<lparr>ff_pts = pts, ff_au = au, ff_isIDR = idr\<rparr>] | _ \<Rightarrow> []) ops)"

lemma broadcast_frames_view: "q_sent (concat (map (view i) ops)) = broadcast_frames ops"
proof (induction ops)
  case (Cons op ops)
  then show ?case by (cases op) (simp_all add: broadcast_frames_def q_sent_append)
qed (simp add: broadcast_frames_def)



end
