(* ===== verification/Auth_Limiter.thy ===== *)
theory Auth_Limiter
  imports Gb_Prelude
begin

text \<open>
  The REGISTER lockout of \<open>src/platform/sip/authlimiter.go\<close>. A \<open>time.Time\<close> is a number of
  nanoseconds whose zero value is 0, a duration an integer; \<open>Sub\<close> saturates at the range of
  \<open>int64\<close> as the standard library's does. \<open>timeNow\<close> is an argument of the operations.
\<close>

subsection \<open>The tracker\<close>

definition maxDuration :: int where "maxDuration = 2 ^ 63 - 1"
definition minDuration :: int where "minDuration = - (2 ^ 63)"

definition time_sub :: "int \<Rightarrow> int \<Rightarrow> int" where
  "time_sub t u = max minDuration (min maxDuration (t - u))"

record authFailEntry =
  fails :: int
  lastFailure :: int
  lockedUntil :: int

record authFailureTracker =
  entries :: "string \<rightharpoonup> authFailEntry"
  af_max :: int
  af_window :: int
  af_lockout :: int

definition newAuthFailureTracker :: "int \<Rightarrow> int \<Rightarrow> int \<Rightarrow> authFailureTracker" where
  "newAuthFailureTracker limit window lockout =
     \<lparr>entries = Map.empty, af_max = limit, af_window = window, af_lockout = lockout\<rparr>"

definition locked :: "authFailureTracker \<Rightarrow> string \<Rightarrow> int \<Rightarrow> authFailureTracker \<times> bool" where
  "locked t key now =
     (if af_max t \<le> 0 then (t, False)
      else case entries t key of
        None \<Rightarrow> (t, False)
      | Some e \<Rightarrow>
          if now < lockedUntil e then (t, True)
          else if lockedUntil e \<noteq> 0 \<and> now > lockedUntil e
          then (t\<lparr>entries := (entries t)(key := None)\<rparr>, False)
          else (t, False))"

definition fresh_entry :: authFailEntry where
  "fresh_entry = \<lparr>fails = 0, lastFailure = 0, lockedUntil = 0\<rparr>"

definition recordFailure :: "authFailureTracker \<Rightarrow> string \<Rightarrow> int \<Rightarrow> authFailureTracker" where
  "recordFailure t key now =
     (if af_max t \<le> 0 then t
      else let e = (case entries t key of
                      None \<Rightarrow> fresh_entry
                    | Some e \<Rightarrow> if time_sub now (lastFailure e) > af_window t then fresh_entry else e);
               e = e\<lparr>fails := fails e + 1, lastFailure := now\<rparr>;
               e = (if fails e \<ge> af_max t then e\<lparr>lockedUntil := now + af_lockout t\<rparr> else e)
           in t\<lparr>entries := (entries t)(key \<mapsto> e)\<rparr>)"

definition recordSuccess :: "authFailureTracker \<Rightarrow> string \<Rightarrow> authFailureTracker" where
  "recordSuccess t key = t\<lparr>entries := (entries t)(key := None)\<rparr>"

subsection \<open>Runs\<close>

datatype auth_op = AFail string int | ASuccess string | ACheck string int

fun auth_step :: "authFailureTracker \<Rightarrow> auth_op \<Rightarrow> authFailureTracker" where
  "auth_step t (AFail key now) = recordFailure t key now"
| "auth_step t (ASuccess key) = recordSuccess t key"
| "auth_step t (ACheck key now) = fst (locked t key now)"

fun op_key :: "auth_op \<Rightarrow> string" where
  "op_key (AFail key _) = key"
| "op_key (ASuccess key) = key"
| "op_key (ACheck key _) = key"

definition auth_run :: "authFailureTracker \<Rightarrow> auth_op list \<Rightarrow> authFailureTracker" where
  "auth_run t ops = foldl auth_step t ops"

lemma auth_run_simps [simp]: "auth_run t [] = t" "auth_run t (op # ops) = auth_run (auth_step t op) ops"
  by (simp_all add: auth_run_def)

definition af_conf where "af_conf t = (af_max t, af_window t, af_lockout t)"

lemma auth_step_conf [simp]: "af_conf (auth_step t op) = af_conf t"
  by (cases op) (auto simp: af_conf_def recordFailure_def recordSuccess_def locked_def Let_def split: option.splits)

lemma auth_run_conf [simp]: "af_conf (auth_run t ops) = af_conf t"
  by (induction ops arbitrary: t) simp_all

lemma auth_step_other: "op_key op \<noteq> key \<Longrightarrow> entries (auth_step t op) key = entries t key"
  by (cases op) (auto simp: recordFailure_def recordSuccess_def locked_def Let_def split: option.splits)

text \<open>What an operation does to a key depends on that key's entry and the configuration only.\<close>

lemma auth_step_local:
  assumes "entries t key = entries u key" and "af_conf t = af_conf u"
  shows "entries (auth_step t op) key = entries (auth_step u op) key"
  using assms
  by (cases op) (auto simp: recordFailure_def recordSuccess_def locked_def af_conf_def Let_def split: option.splits)

lemma auth_run_local:
  "entries t key = entries u key \<Longrightarrow> af_conf t = af_conf u \<Longrightarrow>
     entries (auth_run t ops) key = entries (auth_run u (filter (\<lambda>op. op_key op = key) ops)) key"
proof (induction ops arbitrary: t u)
  case (Cons op ops)
  show ?case
  proof (cases "op_key op = key")
    case True
    then show ?thesis using Cons.IH [of "auth_step t op" "auth_step u op"] auth_step_local [OF Cons.prems, of op] Cons.prems by simp
  next
    case False
    then show ?thesis using Cons.IH [of "auth_step t op" u] auth_step_other [OF False, of t] Cons.prems by simp
  qed
qed simp

lemma locked_iff:
  "snd (locked t key now) \<longleftrightarrow> 0 < af_max t \<and> (\<exists>e. entries t key = Some e \<and> now < lockedUntil e)"
  by (auto simp: locked_def split: option.splits)

text \<open>Failures that follow each other within the window accumulate.\<close>

fun close_by :: "int \<Rightarrow> int list \<Rightarrow> bool" where
  "close_by w (t # u # ts) = (u - t \<le> w \<and> close_by w (u # ts))"
| "close_by w _ = True"

lemma time_sub_le: "t - u \<le> w \<Longrightarrow> minDuration \<le> w \<Longrightarrow> time_sub t u \<le> w"
  by (auto simp: time_sub_def)

definition burst_entry :: "authFailureTracker \<Rightarrow> nat \<Rightarrow> int \<Rightarrow> authFailEntry" where
  "burst_entry t n lst =
     \<lparr>fails = int n, lastFailure = lst, lockedUntil = (if int n \<ge> af_max t then lst + af_lockout t else 0)\<rparr>"

lemma burst_step:
  assumes "0 < af_max t" and "entries t key = Some (burst_entry t n u)" and "now - u \<le> af_window t" and "minDuration \<le> af_window t"
  shows "entries (recordFailure t key now) key = Some (burst_entry t (Suc n) now)"
  using assms time_sub_le [OF assms(3,4)]
  by (auto simp: recordFailure_def burst_entry_def Let_def)

lemma burst_conf: "af_conf t = af_conf u \<Longrightarrow> burst_entry t = burst_entry u"
  by (auto simp: burst_entry_def af_conf_def fun_eq_iff)

lemma burst_more:
  assumes "0 < af_max t" and "minDuration \<le> af_window t"
  shows "entries t key = Some (burst_entry t n u) \<Longrightarrow> close_by (af_window t) (u # ts) \<Longrightarrow>
    entries (auth_run t (map (AFail key) ts)) key = Some (burst_entry t (n + length ts) (last (u # ts)))"
  using assms
proof (induction ts arbitrary: t n u)
  case (Cons v ts)
  let ?t = "recordFailure t key v"
  have c: "af_conf ?t = af_conf t" using auth_step_conf [of t "AFail key v"] by simp
  then have "af_max ?t = af_max t" "af_window ?t = af_window t" by (simp_all add: af_conf_def)
  then show ?case using Cons burst_step [of t key n u v] burst_conf [OF c] by simp
qed simp

subsection \<open>Properties\<close>

text \<open>
  C39: The lockout, exactly. Let a source fail to authenticate at times \<open>ts\<close>, each failure within the
  window after the one before, on a tracker that has no record of it, while other sources do whatever
  they do. Then it is locked out at a time \<open>now\<close> if and only if it has reached the limit and
  \<open>now\<close> lies before the last failure plus the lockout duration. (The failures need not all lie within
  one window: only the gaps count.)
\<close>

theorem lockout_exact:
  assumes "0 < af_max t" and "entries t key = None" and "minDuration \<le> af_window t"
    and "filter (\<lambda>op. op_key op = key) ops = map (AFail key) ts" and "ts \<noteq> []"
    and "close_by (af_window t) ts" and "0 \<le> now"
  shows "snd (locked (auth_run t ops) key now) \<longleftrightarrow>
    af_max t \<le> int (length ts) \<and> now < last ts + af_lockout t"
proof -
  obtain u us where ts: "ts = u # us" using assms(5) by (cases ts) auto
  let ?t = "recordFailure t key u"
  have c: "af_conf ?t = af_conf t" using auth_step_conf [of t "AFail key u"] by simp
  have m: "af_max ?t = af_max t" "af_window ?t = af_window t" using c by (simp_all add: af_conf_def)
  have "entries ?t key = Some (burst_entry ?t 1 u)"
    using assms(1,2) by (auto simp: recordFailure_def fresh_entry_def burst_entry_def Let_def)
  then have "entries (auth_run ?t (map (AFail key) us)) key = Some (burst_entry ?t (1 + length us) (last ts))"
    using burst_more [of ?t key 1 u us] assms(1,3,6) m ts by simp
  then have "entries (auth_run t ops) key = Some (burst_entry t (length ts) (last ts))"
    using auth_run_local [of t key t ops] assms(4) ts burst_conf [OF c] by simp
  moreover have "af_max (auth_run t ops) = af_max t" using auth_run_conf [of t ops] by (simp add: af_conf_def)
  ultimately show ?thesis using assms(1,7) by (auto simp: locked_iff burst_entry_def)
qed

theorem lockout_exact_witness:
  "snd (locked (auth_run (newAuthFailureTracker 3 60 60)
      [AFail ''1.2.3.4'' 100, AFail ''9.9.9.9'' 110, AFail ''1.2.3.4'' 160, AFail ''1.2.3.4'' 220]) ''1.2.3.4'' 279)"
  using lockout_exact [of "newAuthFailureTracker 3 60 60" "''1.2.3.4''"
      "[AFail ''1.2.3.4'' 100, AFail ''9.9.9.9'' 110, AFail ''1.2.3.4'' 160, AFail ''1.2.3.4'' 220]" "[100, 160, 220]" 279]
  by (simp add: newAuthFailureTracker_def minDuration_def)

text \<open>
  A disabled limiter never locks, and an authenticated source starts afresh: with a limit of zero or
  less no run locks anyone out; after a success, or after a check later than the end of its lockout, a
  source has no record left, so its full budget is restored.
\<close>

theorem lockout_released:
  "(af_max t \<le> 0 \<longrightarrow> \<not> snd (locked (auth_run t ops) key now))
   \<and> entries (recordSuccess t key) key = None
   \<and> (\<forall>e. 0 < af_max t \<longrightarrow> entries t key = Some e \<longrightarrow> lockedUntil e \<noteq> 0 \<longrightarrow> lockedUntil e < now
        \<longrightarrow> \<not> snd (locked t key now) \<and> entries (fst (locked t key now)) key = None)"
  using auth_run_conf [of t ops] by (auto simp: locked_def recordSuccess_def af_conf_def)

theorem lockout_released_witness:
  "let t = auth_run (newAuthFailureTracker 1 60 60) [AFail ''1.2.3.4'' 100]
   in snd (locked t ''1.2.3.4'' 159) \<and> \<not> snd (locked t ''1.2.3.4'' 161) \<and> entries (fst (locked t ''1.2.3.4'' 161)) ''1.2.3.4'' = None"
proof -
  let ?t = "auth_run (newAuthFailureTracker 1 60 60) [AFail ''1.2.3.4'' 100]"
  have e: "entries ?t ''1.2.3.4'' = Some \<lparr>fails = 1, lastFailure = 100, lockedUntil = 160\<rparr>" "af_max ?t = 1"
    by (simp_all add: newAuthFailureTracker_def recordFailure_def fresh_entry_def Let_def)
  then show ?thesis using lockout_released [of ?t "[]" "''1.2.3.4''" 161] by (simp add: locked_def)
qed

end
