(* ===== verification/Go_Text.thy ===== *)
theory Go_Text
  imports Gb_Prelude
begin

text \<open>
  The parts of Go's \<open>strconv\<close>, \<open>encoding/hex\<close> and \<open>strings\<close> that the program uses on text. A Go
  string is a list of characters, each one byte.
\<close>

subsection \<open>Decimal numbers\<close>

definition is_digit :: "char \<Rightarrow> bool" where
  "is_digit c \<longleftrightarrow> 48 \<le> (of_char c :: nat) \<and> (of_char c :: nat) \<le> 57"

definition digit_val :: "char \<Rightarrow> nat" where
  "digit_val c = of_char c - 48"

definition digit_char :: "nat \<Rightarrow> char" where
  "digit_char d = char_of (48 + d)"

fun dec_val :: "nat \<Rightarrow> string \<Rightarrow> nat" where
  "dec_val acc [] = acc"
| "dec_val acc (c # cs) = dec_val (10 * acc + digit_val c) cs"

fun nat_text :: "nat \<Rightarrow> string" where
  "nat_text n = (if n < 10 then [digit_char n] else nat_text (n div 10) @ [digit_char (n mod 10)])"

declare nat_text.simps [simp del]

text \<open>\<open>strconv.Itoa\<close> and the \<open>%d\<close> verb.\<close>

definition go_itoa :: "int \<Rightarrow> string" where
  "go_itoa n = (if n < 0 then CHR ''-'' # nat_text (nat (- n)) else nat_text (nat n))"

text \<open>\<open>strconv.Atoi\<close>: an optional sign, at least one digit, nothing else, in the range of \<open>int\<close>.\<close>

definition go_atoi :: "string \<Rightarrow> int option" where
  "go_atoi s =
     (let (neg, ds) = (case s of c # cs \<Rightarrow> if c = CHR ''-'' then (True, cs) else if c = CHR ''+'' then (False, cs) else (False, s)
                        | [] \<Rightarrow> (False, []));
          n = int (dec_val 0 ds); v = (if neg then - n else n)
      in if ds \<noteq> [] \<and> list_all is_digit ds \<and> - (2 ^ 63) \<le> v \<and> v < 2 ^ 63 then Some v else None)"

lemma digit_char_facts [simp]:
  assumes "d < 10"
  shows "is_digit (digit_char d)" "digit_val (digit_char d) = d"
  using assms by (simp_all add: is_digit_def digit_val_def digit_char_def)

lemma dec_val_append: "dec_val a (xs @ ys) = dec_val (dec_val a xs) ys"
  by (induction a xs rule: dec_val.induct) simp_all

lemma nat_text_digits: "list_all is_digit (nat_text n)" and nat_text_ne: "nat_text n \<noteq> []"
  by (induction n rule: nat_text.induct) (subst nat_text.simps; simp)+

lemma dec_val_nat_text: "dec_val 0 (nat_text n) = n"
  by (induction n rule: nat_text.induct) (subst nat_text.simps; simp add: dec_val_append)

lemma digit_not_sign: "is_digit c \<Longrightarrow> c \<noteq> CHR ''-'' \<and> c \<noteq> CHR ''+''"
  by (auto simp: is_digit_def)

lemma go_atoi_itoa:
  assumes "- (2 ^ 63) \<le> n" and "n < 2 ^ 63"
  shows "go_atoi (go_itoa n) = Some n"
proof -
  obtain c cs where t: "nat_text (nat n) = c # cs" by (cases "nat_text (nat n)") (simp_all add: nat_text_ne)
  have "is_digit c" using nat_text_digits [of "nat n"] t by simp
  then have "c \<noteq> CHR ''-''" "c \<noteq> CHR ''+''" using digit_not_sign by simp_all
  then have pos: "go_atoi (nat_text (nat n)) = Some n" if "0 \<le> n"
    using that assms nat_text_digits [of "nat n"] dec_val_nat_text [of "nat n"] t
    by (simp add: go_atoi_def Let_def)
  have neg: "go_atoi (CHR ''-'' # nat_text (nat (- n))) = Some n" if "n < 0"
    using that assms nat_text_digits [of "nat (- n)"] nat_text_ne [of "nat (- n)"]
    by (simp add: go_atoi_def Let_def dec_val_nat_text)
  show ?thesis using pos neg by (simp add: go_itoa_def)
qed

subsection \<open>Hexadecimal\<close>

definition hex_digit :: "nat \<Rightarrow> char" where
  "hex_digit d = (if d < 10 then char_of (48 + d) else char_of (87 + d))"

definition unhex :: "char \<Rightarrow> nat option" where
  "unhex c = (let n = (of_char c :: nat) in
     if 48 \<le> n \<and> n \<le> 57 then Some (n - 48)
     else if 97 \<le> n \<and> n \<le> 102 then Some (n - 87)
     else if 65 \<le> n \<and> n \<le> 70 then Some (n - 55) else None)"

text \<open>\<open>hex.EncodeToString\<close> (lower case) and \<open>strings.ToUpper\<close> on ASCII text.\<close>

definition hex_encode :: "bytes \<Rightarrow> string" where
  "hex_encode bs = concat (map (\<lambda>b. [hex_digit (unat b div 16), hex_digit (unat b mod 16)]) bs)"

definition upper_char :: "char \<Rightarrow> char" where
  "upper_char c = (if 97 \<le> (of_char c :: nat) \<and> (of_char c :: nat) \<le> 122 then char_of ((of_char c :: nat) - 32) else c)"

definition to_upper :: "string \<Rightarrow> string" where
  "to_upper s = map upper_char s"

text \<open>\<open>hex.DecodeString\<close>: both cases, an error on an odd length or another character.\<close>

fun hex_decode :: "string \<Rightarrow> bytes option" where
  "hex_decode [] = Some []"
| "hex_decode [_] = None"
| "hex_decode (a # b # cs) = do {
     x \<leftarrow> unhex a; y \<leftarrow> unhex b; bs \<leftarrow> hex_decode cs; Some (of_nat (16 * x + y) # bs) }"

lemma unhex_upper: "d < 16 \<Longrightarrow> unhex (upper_char (hex_digit d)) = Some d"
proof -
  assume "d < 16"
  then consider "d < 10" | "10 \<le> d" "d < 16" by linarith
  then show ?thesis by cases (simp_all add: unhex_def upper_char_def hex_digit_def Let_def)
qed

lemma hex_decode_upper: "hex_decode (to_upper (hex_encode bs)) = Some bs"
proof (induction bs)
  case (Cons b bs)
  have "unat b div 16 < 16" using unat_byte_less [of b] by simp
  moreover have "(of_nat (16 * (unat b div 16) + unat b mod 16) :: byte) = b"
    by (simp only: mult_div_mod_eq of_nat_unat ucast_id)
  ultimately show ?case using Cons
    by (simp add: hex_encode_def to_upper_def unhex_upper del: of_nat_add of_nat_mult)
qed (simp add: hex_encode_def to_upper_def)

lemma hex_encode_length [simp]: "length (hex_encode bs) = 2 * length bs"
  by (induction bs) (simp_all add: hex_encode_def)

subsection \<open>Trimming\<close>

text \<open>The characters \<open>unicode.IsSpace\<close> accepts, in UTF-8.\<close>

definition go_spaces :: "string list" where
  "go_spaces = map (\<lambda>n. [char_of (n :: nat)]) [9, 10, 11, 12, 13, 32]
     @ map (map char_of) [[0xC2, 0x85], [0xC2, 0xA0 :: nat], [0xE1, 0x9A, 0x80]]
     @ map (\<lambda>n. map char_of [0xE2, 0x80, n]) [0x80 ..< 0x8B]
     @ map (map char_of) [[0xE2, 0x80, 0xA8], [0xE2, 0x80, 0xA9], [0xE2, 0x80, 0xAF], [0xE2, 0x81, 0x9F], [0xE3, 0x80, 0x80 :: nat]]"

definition strip1 :: "string list \<Rightarrow> string \<Rightarrow> string option" where
  "strip1 sps s = map_option (\<lambda>p. drop (length p) s) (find (\<lambda>p. take (length p) s = p) sps)"

lemma strip1_shorter:
  assumes "strip1 sps s = Some s'" and "\<forall>p \<in> set sps. p \<noteq> []"
  shows "length s' < length s"
proof -
  obtain p where "p \<in> set sps" "take (length p) s = p" "s' = drop (length p) s"
    using assms(1) by (auto simp: strip1_def find_Some_iff) (metis nth_mem)
  then show ?thesis using assms(2) by (cases s) (auto simp: take_Cons' split: if_splits)
qed

function trim_left :: "string list \<Rightarrow> string \<Rightarrow> string" where
  "trim_left sps s =
     (if \<forall>p \<in> set sps. p \<noteq> [] then (case strip1 sps s of None \<Rightarrow> s | Some s' \<Rightarrow> trim_left sps s') else s)"
  by pat_completeness auto
termination by (relation "measure (length \<circ> snd)") (auto simp: strip1_shorter)

declare trim_left.simps [simp del]

text \<open>\<open>strings.TrimSpace\<close>.\<close>

definition TrimSpace :: "string \<Rightarrow> string" where
  "TrimSpace s = (let l = trim_left go_spaces s in rev (trim_left (map rev go_spaces) (rev l)))"

lemma trim_left_id:
  assumes "\<And>p. p \<in> set sps \<Longrightarrow> s \<noteq> [] \<Longrightarrow> hd p \<noteq> hd s"
  shows "trim_left sps s = s"
proof (cases "\<forall>p \<in> set sps. p \<noteq> []")
  case True
  have "take (length p) s \<noteq> p" if "p \<in> set sps" for p
  proof
    assume t: "take (length p) s = p"
    then have "s \<noteq> []" using True that by auto
    then show False using assms [OF that] True that t by (metis hd_take length_greater_0_conv)
  qed
  then have "strip1 sps s = None" by (auto simp: strip1_def find_None_iff)
  then show ?thesis by (subst trim_left.simps) simp
next
  case False
  then show ?thesis by (subst trim_left.simps) auto
qed

text \<open>A space character is no letter and no digit, at either end of its encoding.\<close>

definition plain_char :: "char \<Rightarrow> bool" where
  "plain_char c \<longleftrightarrow> 33 \<le> (of_char c :: nat) \<and> (of_char c :: nat) < 127"

lemma go_spaces_ends: "p \<in> set go_spaces \<Longrightarrow> \<not> plain_char (hd p) \<and> \<not> plain_char (last p)"
  by (auto simp: go_spaces_def plain_char_def)

lemma TrimSpace_plain:
  assumes "\<And>c. c \<in> set s \<Longrightarrow> plain_char c"
  shows "TrimSpace s = s"
proof -
  have l: "trim_left go_spaces s = s"
    using go_spaces_ends assms by (intro trim_left_id) (metis hd_in_set)
  have "trim_left (map rev go_spaces) (rev s) = rev s"
  proof (rule trim_left_id)
    fix p assume "p \<in> set (map rev go_spaces)" and ne: "rev s \<noteq> []"
    then obtain q where q: "q \<in> set go_spaces" "p = rev q" by auto
    have "plain_char (hd (rev s))" using assms ne by (metis hd_in_set set_rev)
    then show "hd p \<noteq> hd (rev s)" using go_spaces_ends [OF q(1)] q(2) by (auto simp: hd_rev)
  qed
  then show ?thesis using l by (simp add: TrimSpace_def)
qed

lemma hex_upper_plain:
  assumes "c \<in> set (to_upper (hex_encode bs))"
  shows "plain_char c"
proof -
  have d: "plain_char (upper_char (hex_digit d))" if "d < 16" for d :: nat
    using that by (cases "d < 10") (simp_all add: plain_char_def upper_char_def hex_digit_def)
  obtain b :: byte where "c = upper_char (hex_digit (unat b div 16)) \<or> c = upper_char (hex_digit (unat b mod 16))"
    using assms by (auto simp: to_upper_def hex_encode_def)
  moreover have "unat b div 16 < 16" using unat_byte_less [of b] by simp
  ultimately show ?thesis using d by auto
qed

end
