(* ===== verification/Registry.thy ===== *)
theory Registry
  imports Go_Text "HOL-Library.AList" "HOL-Library.List_Lexorder" "HOL-Library.Char_ord"
begin

text \<open>
  The device registry of \<open>src/platform/device.go\<close>, the channels of \<open>src/platform/channel.go\<close> and the
  catalog query of \<open>src/platform/catalog.go\<close>. A \<open>sync.Map\<close> is an association list with distinct
  keys; each method is one atomic step on it. Times are nanoseconds since the epoch; \<open>now\<close> is an
  argument. The order of strings is Go's, byte by byte.
\<close>

subsection \<open>Channels and devices\<close>

definition ChannelTypeAudioInput :: int where "ChannelTypeAudioInput = 136"

definition ChannelTypeCode :: "string \<Rightarrow> int" where
  "ChannelTypeCode i =
     (if length i < 13 then 0
      else case go_atoi (drop 10 (take 13 i)) of None \<Rightarrow> 0 | Some n \<Rightarrow> n)"

definition IsAudioInputChannel :: "string \<Rightarrow> bool" where
  "IsAudioInputChannel i = (ChannelTypeCode i = ChannelTypeAudioInput)"

datatype channel_status = ChannelIdle | ChannelInviting | ChannelPlaying

record channel =
  ch_DeviceID :: string
  ch_ID :: string
  ch_Name :: string
  ch_Parental :: int
  ch_Status :: channel_status
  ch_PTZType :: int
  ch_Photoelectric :: int
  ch_SubProbe :: bool
  ch_TypeCode :: int
  ch_AudioOnly :: bool

datatype device_status = DeviceOffline | DeviceOnline

record device =
  dv_ID :: string
  dv_Name :: string
  dv_Manufacturer :: string
  dv_Model :: string
  dv_NetAddr :: string
  dv_Transport :: string
  dv_Status :: device_status
  dv_channels :: "(string \<times> channel) list"
  dv_lastKeepalive :: int

record device_manager =
  dm_devices :: "(string \<times> device) list"
  dm_heartbeatTimeout :: int
  dm_checkInterval :: int
  dm_started :: bool

subsection \<open>The manager\<close>

definition DefaultHeartbeatInterval :: int where "DefaultHeartbeatInterval = 60 * 10 ^ 9"

definition NewDeviceManager :: "int \<Rightarrow> device_manager" where
  "NewDeviceManager heartbeatInterval =
     (let h = (if heartbeatInterval \<le> 0 then DefaultHeartbeatInterval else heartbeatInterval)
      in \<lparr>dm_devices = [], dm_heartbeatTimeout = wrap64 (3 * h), dm_checkInterval = h div 2, dm_started = False\<rparr>)"

definition dm_Start :: "device_manager \<Rightarrow> device_manager" where
  "dm_Start m = m\<lparr>dm_started := True\<rparr>"

definition dm_Stop :: "device_manager \<Rightarrow> device_manager" where
  "dm_Stop m = m\<lparr>dm_started := False\<rparr>"

definition expired :: "device_manager \<Rightarrow> int \<Rightarrow> device \<Rightarrow> bool" where
  "expired m now d \<longleftrightarrow> dv_lastKeepalive d + dm_heartbeatTimeout m < now"

text \<open>The devices the checker takes offline are reported to the callback.\<close>

definition checkHeartbeats :: "device_manager \<Rightarrow> int \<Rightarrow> device_manager \<times> string list" where
  "checkHeartbeats m now =
     (m\<lparr>dm_devices := map (\<lambda>(i, d). (i, if expired m now d then d\<lparr>dv_Status := DeviceOffline\<rparr> else d)) (dm_devices m)\<rparr>,
      map (dv_ID \<circ> snd) (filter (\<lambda>(i, d). expired m now d \<and> dv_Status d = DeviceOnline) (dm_devices m)))"

definition Register :: "device_manager \<Rightarrow> device \<Rightarrow> int \<Rightarrow> device_manager" where
  "Register m d now =
     (let dev = (case map_of (dm_devices m) (dv_ID d) of
          None \<Rightarrow> d\<lparr>dv_Status := DeviceOnline, dv_lastKeepalive := now\<rparr>
        | Some e \<Rightarrow> e\<lparr>dv_Name := dv_Name d, dv_Manufacturer := dv_Manufacturer d, dv_Model := dv_Model d,
                     dv_NetAddr := dv_NetAddr d, dv_Transport := dv_Transport d,
                     dv_Status := DeviceOnline, dv_lastKeepalive := now\<rparr>)
      in m\<lparr>dm_devices := AList.update (dv_ID d) dev (dm_devices m)\<rparr>)"

definition Unregister :: "device_manager \<Rightarrow> string \<Rightarrow> device_manager" where
  "Unregister m i = m\<lparr>dm_devices := AList.delete i (dm_devices m)\<rparr>"

definition Touch :: "device_manager \<Rightarrow> string \<Rightarrow> int \<Rightarrow> device_manager" where
  "Touch m i now =
     m\<lparr>dm_devices := AList.map_entry i (\<lambda>d. d\<lparr>dv_Status := DeviceOnline, dv_lastKeepalive := now\<rparr>) (dm_devices m)\<rparr>"

definition MarkOffline :: "device_manager \<Rightarrow> string \<Rightarrow> device_manager" where
  "MarkOffline m i = m\<lparr>dm_devices := AList.map_entry i (\<lambda>d. d\<lparr>dv_Status := DeviceOffline\<rparr>) (dm_devices m)\<rparr>"

definition Channels :: "device_manager \<Rightarrow> string \<Rightarrow> channel list" where
  "Channels m i =
     (case map_of (dm_devices m) i of None \<Rightarrow> [] | Some d \<Rightarrow> sort_key ch_ID (map snd (dv_channels d)))"

definition FindChannel :: "device_manager \<Rightarrow> string \<Rightarrow> string \<Rightarrow> channel option" where
  "FindChannel m i c = (case map_of (dm_devices m) i of None \<Rightarrow> None | Some d \<Rightarrow> map_of (dv_channels d) c)"

definition dm_Device :: "device_manager \<Rightarrow> string \<Rightarrow> device option" where
  "dm_Device m i = map_of (dm_devices m) i"

definition AllDevices :: "device_manager \<Rightarrow> device list" where
  "AllDevices m = sort_key dv_ID (map snd (dm_devices m))"

definition attach :: "string \<Rightarrow> channel \<Rightarrow> channel" where
  "attach devID ch =
     ch\<lparr>ch_DeviceID := devID, ch_TypeCode := ChannelTypeCode (ch_ID ch),
        ch_AudioOnly := (ChannelTypeCode (ch_ID ch) = ChannelTypeAudioInput)\<rparr>"

definition RegisterChannel :: "device_manager \<Rightarrow> string \<Rightarrow> channel \<Rightarrow> device_manager" where
  "RegisterChannel m devID ch =
     m\<lparr>dm_devices := AList.map_entry devID
         (\<lambda>d. d\<lparr>dv_channels := AList.update (ch_ID ch) (attach devID ch) (dv_channels d)\<rparr>) (dm_devices m)\<rparr>"

definition UnregisterChannel :: "device_manager \<Rightarrow> string \<Rightarrow> string \<Rightarrow> device_manager" where
  "UnregisterChannel m i c =
     m\<lparr>dm_devices := AList.map_entry i (\<lambda>d. d\<lparr>dv_channels := AList.delete c (dv_channels d)\<rparr>) (dm_devices m)\<rparr>"

subsection \<open>The catalog query\<close>

datatype ctl_error =
    ErrChannelNotFound | ErrDeviceOffline | ErrPTZUnsupported | ErrZoomUnsupported
  | ErrBadCommand string | ErrEncode | ErrSendFailed

text \<open>
  A controller keeps the MANSCDP sequence counter; \<open>sender\<close> is \<open>MessageSender.SendMessage\<close>, its
  result whether the send succeeded. The result of an operation is the counter, the message handed to
  the sender, if any, and the error, if any.
\<close>

type_synonym ctl_result = "i64 \<times> (string \<times> string) option \<times> ctl_error option"

definition catalog_body :: "i64 \<Rightarrow> string \<Rightarrow> string" where
  "catalog_body sn i =
     ''<Query><CmdType>Catalog</CmdType><SN>'' @ go_itoa (sint sn) @ ''</SN><DeviceID>'' @ i @ ''</DeviceID></Query>''"

definition send_via :: "(string \<Rightarrow> string \<Rightarrow> bool) \<Rightarrow> i64 \<Rightarrow> string \<Rightarrow> string \<Rightarrow> ctl_result" where
  "send_via sender sn i body = (sn, Some (i, body), if sender i body then None else Some ErrSendFailed)"

definition RequestCatalog :: "(string \<Rightarrow> string \<Rightarrow> bool) \<Rightarrow> i64 \<Rightarrow> device_manager \<Rightarrow> string \<Rightarrow> ctl_result" where
  "RequestCatalog sender sq m i =
     (case dm_Device m i of
        None \<Rightarrow> (sq, None, Some ErrDeviceOffline)
      | Some dev \<Rightarrow>
          if dv_Status dev \<noteq> DeviceOnline then (sq, None, Some ErrDeviceOffline)
          else send_via sender (sq + 1) i (catalog_body (sq + 1) i))"

subsection \<open>The invariant\<close>

definition channel_ok :: "string \<Rightarrow> string \<times> channel \<Rightarrow> bool" where
  "channel_ok i = (\<lambda>(c, ch). ch_ID ch = c \<and> ch_DeviceID ch = i \<and> ch_TypeCode ch = ChannelTypeCode c
     \<and> ch_AudioOnly ch = IsAudioInputChannel c)"

definition device_ok :: "string \<times> device \<Rightarrow> bool" where
  "device_ok = (\<lambda>(i, d). dv_ID d = i \<and> distinct (map fst (dv_channels d)) \<and> list_all (channel_ok i) (dv_channels d))"

definition registry_ok :: "device_manager \<Rightarrow> bool" where
  "registry_ok m \<longleftrightarrow> distinct (map fst (dm_devices m)) \<and> list_all device_ok (dm_devices m)"

lemma list_all_update: "list_all P al \<Longrightarrow> P (k, v) \<Longrightarrow> list_all P (AList.update k v al)"
  by (induction al) auto

lemma list_all_delete: "list_all P al \<Longrightarrow> list_all P (AList.delete k al)"
  by (auto simp: list_all_iff AList.delete_eq)

lemma list_all_map_entry:
  "list_all P al \<Longrightarrow> (\<And>v. P (k, v) \<Longrightarrow> P (k, f v)) \<Longrightarrow> list_all P (AList.map_entry k f al)"
  by (induction al) auto

lemma distinct_update_keys: "distinct (map fst al) \<Longrightarrow> distinct (map fst (AList.update k v al))"
  by (rule AList.distinct_update)

lemmas registry_keys = distinct_update_keys AList.distinct_delete AList.distinct_map_entry
lemmas registry_all = list_all_update list_all_delete list_all_map_entry

lemma device_of_ok: "registry_ok m \<Longrightarrow> map_of (dm_devices m) i = Some d \<Longrightarrow> device_ok (i, d)"
  by (auto simp: registry_ok_def list_all_iff dest: map_of_SomeD)

lemma Register_ok:
  assumes "registry_ok m" and "dv_channels d = []"
  shows "registry_ok (Register m d now)"
proof (cases "map_of (dm_devices m) (dv_ID d)")
  case None
  then show ?thesis using assms registry_keys(1) [of "dm_devices m"]
    by (auto simp: Register_def registry_ok_def device_ok_def intro!: list_all_update)
next
  case (Some e)
  then show ?thesis using assms device_of_ok [OF assms(1) Some] registry_keys(1) [of "dm_devices m"]
    by (auto simp: Register_def registry_ok_def device_ok_def intro!: list_all_update)
qed

lemma map_entry_ok:
  assumes "registry_ok m" and "\<And>d. device_ok (i, d) \<Longrightarrow> device_ok (i, f d)"
  shows "registry_ok (m\<lparr>dm_devices := AList.map_entry i f (dm_devices m)\<rparr>)"
  using assms by (auto simp: registry_ok_def intro: list_all_map_entry AList.distinct_map_entry)

lemma RegisterChannel_ok:
  assumes "registry_ok m"
  shows "registry_ok (RegisterChannel m devID ch)"
  unfolding RegisterChannel_def
proof (rule map_entry_ok [OF assms])
  fix d assume "device_ok (devID, d)"
  then show "device_ok (devID, d\<lparr>dv_channels := AList.update (ch_ID ch) (attach devID ch) (dv_channels d)\<rparr>)"
    using registry_keys(1) [of "dv_channels d"]
    by (auto simp: device_ok_def channel_ok_def attach_def IsAudioInputChannel_def intro!: list_all_update)
qed

lemma checkHeartbeats_ok: "registry_ok m \<Longrightarrow> registry_ok (fst (checkHeartbeats m now))"
  by (auto simp: registry_ok_def checkHeartbeats_def list_all_iff device_ok_def o_def case_prod_beta)

subsection \<open>Runs\<close>

datatype reg_op =
    RRegister device int
  | RUnregister string
  | RTouch string int
  | RMarkOffline string
  | RChannel string channel
  | RUnchannel string string
  | RCheck int

fun reg_step :: "device_manager \<Rightarrow> reg_op \<Rightarrow> device_manager" where
  "reg_step m (RRegister d now) = Register m (d\<lparr>dv_channels := []\<rparr>) now"
| "reg_step m (RUnregister i) = Unregister m i"
| "reg_step m (RTouch i now) = Touch m i now"
| "reg_step m (RMarkOffline i) = MarkOffline m i"
| "reg_step m (RChannel i ch) = RegisterChannel m i ch"
| "reg_step m (RUnchannel i c) = UnregisterChannel m i c"
| "reg_step m (RCheck now) = fst (checkHeartbeats m now)"

lemma reg_step_ok: "registry_ok m \<Longrightarrow> registry_ok (reg_step m op)"
proof (cases op)
  case (RUnregister i)
  then show "registry_ok m \<Longrightarrow> ?thesis"
    by (auto simp: Unregister_def registry_ok_def intro: list_all_delete AList.distinct_delete)
qed (auto simp: Register_ok RegisterChannel_ok checkHeartbeats_ok Touch_def MarkOffline_def UnregisterChannel_def
      device_ok_def intro!: map_entry_ok list_all_delete AList.distinct_delete)

lemma reg_run_ok: "registry_ok m \<Longrightarrow> registry_ok (foldl reg_step m ops)"
  by (induction ops arbitrary: m) (simp_all add: reg_step_ok)

lemma NewDeviceManager_ok: "registry_ok (NewDeviceManager h)"
  by (simp add: registry_ok_def NewDeviceManager_def Let_def)

lemma sorted_ids:
  assumes "distinct (map fst al)" and "\<forall>(k, v) \<in> set al. g v = k"
  shows "sorted_wrt (<) (map g (sort_key g (map snd al)))"
proof -
  have "map g (map snd al) = map fst al" using assms(2) by auto
  then have "distinct (map g (map snd al))" using assms(1) by metis
  then have "distinct (map g (sort_key g (map snd al)))"
    by (metis distinct_map distinct_sort set_sort)
  then show ?thesis by (simp add: strict_sorted_iff)
qed

lemma reregister_channels:
  assumes "map_of (dm_devices m) (dv_ID d) = Some e"
  shows "map_of (dm_devices (Register m d now)) (dv_ID d)
    = Some (d\<lparr>dv_Status := DeviceOnline, dv_channels := dv_channels e, dv_lastKeepalive := now\<rparr>) \<or> dv_ID e \<noteq> dv_ID d"
  using assms by (cases d; cases e) (simp add: Register_def AList.update_conv')

lemma reg_other:
  "i \<noteq> j \<Longrightarrow> map_of (AList.map_entry i f al) j = map_of al j"
  by (simp add: AList.map_of_map_entry)

subsection \<open>Properties\<close>

text \<open>
  C40: The registry is well-typed in every reachable state. Whatever sequence of registrations,
  keepalives, catalog updates, removals and heartbeat checks was made, a channel found under a device
  and channel identifier carries exactly these identifiers, the type code of digits 11 to 13 of its
  identifier, and is audio-only exactly for type 136; it appears in the device's channel list; and the
  device and channel listings are strictly increasing in the identifier.
\<close>

theorem registry_typed:
  assumes "FindChannel (foldl reg_step (NewDeviceManager h) ops) i c = Some ch"
  shows "ch_ID ch = c \<and> ch_DeviceID ch = i \<and> ch_TypeCode ch = ChannelTypeCode c
    \<and> ch_AudioOnly ch = IsAudioInputChannel c
    \<and> ch \<in> set (Channels (foldl reg_step (NewDeviceManager h) ops) i)
    \<and> sorted_wrt (<) (map ch_ID (Channels (foldl reg_step (NewDeviceManager h) ops) i))
    \<and> sorted_wrt (<) (map dv_ID (AllDevices (foldl reg_step (NewDeviceManager h) ops)))
    \<and> i \<in> dv_ID ` set (AllDevices (foldl reg_step (NewDeviceManager h) ops))"
proof -
  let ?m = "foldl reg_step (NewDeviceManager h) ops"
  have ok: "registry_ok ?m" by (rule reg_run_ok [OF NewDeviceManager_ok])
  obtain d where d: "map_of (dm_devices ?m) i = Some d" "map_of (dv_channels d) c = Some ch"
    using assms by (auto simp: FindChannel_def split: option.splits)
  have dev: "device_ok (i, d)" by (rule device_of_ok [OF ok d(1)])
  have "channel_ok i (c, ch)" using dev map_of_SomeD [OF d(2)] by (auto simp: device_ok_def list_all_iff)
  moreover have "(i, d) \<in> set (dm_devices ?m)" "(c, ch) \<in> set (dv_channels d)"
    using map_of_SomeD d by fastforce+
  moreover have "sorted_wrt (<) (map ch_ID (Channels ?m i))"
    using dev d(1) by (auto simp: Channels_def device_ok_def list_all_iff channel_ok_def intro!: sorted_ids)
  moreover have "sorted_wrt (<) (map dv_ID (AllDevices ?m))"
    using ok by (auto simp: AllDevices_def registry_ok_def list_all_iff device_ok_def intro!: sorted_ids)
  ultimately show ?thesis using d dev
    by (force simp: channel_ok_def Channels_def AllDevices_def device_ok_def)
qed

text \<open>
  Liveness of devices, exactly. A heartbeat check takes offline exactly the devices whose last
  keepalive is more than three heartbeat intervals old, reports each device it takes offline and no
  other, and leaves everything else alone; a keepalive makes a registered device online and no check
  within the timeout after it changes that.
\<close>

theorem heartbeat_exact:
  assumes "registry_ok m" and "dm_Device m i = Some d"
  shows "dm_Device (fst (checkHeartbeats m now)) i =
      Some (if dv_lastKeepalive d + dm_heartbeatTimeout m < now then d\<lparr>dv_Status := DeviceOffline\<rparr> else d)
    \<and> (i \<in> set (snd (checkHeartbeats m now)) \<longleftrightarrow>
        dv_Status d = DeviceOnline \<and> dv_lastKeepalive d + dm_heartbeatTimeout m < now)
    \<and> (now \<le> t + dm_heartbeatTimeout m \<longrightarrow>
        map_option dv_Status (dm_Device (fst (checkHeartbeats (Touch m i t) now)) i) = Some DeviceOnline)"
proof -
  have upd: "map_of (map (\<lambda>(k, v). (k, f v)) al) i = map_option f (map_of al i)" for f and al :: "(string \<times> device) list"
    by (induction al) auto
  have one: "e = d" if "(i, e) \<in> set (dm_devices m)" for e
    using that assms by (auto simp: registry_ok_def dm_Device_def)
  have key: "dv_ID e = k" if "(k, e) \<in> set (dm_devices m)" for k e
    using that assms(1) by (auto simp: registry_ok_def list_all_iff device_ok_def)
  have mem: "(i, d) \<in> set (dm_devices m)" using assms(2) by (auto simp: dm_Device_def dest: map_of_SomeD)
  have "i \<in> set (snd (checkHeartbeats m now)) \<longleftrightarrow> expired m now d \<and> dv_Status d = DeviceOnline"
  proof
    assume "i \<in> set (snd (checkHeartbeats m now))"
    then obtain k e where "(k, e) \<in> set (dm_devices m)" "expired m now e" "dv_Status e = DeviceOnline" "dv_ID e = i"
      by (auto simp: checkHeartbeats_def)
    then show "expired m now d \<and> dv_Status d = DeviceOnline" using one key by blast
  next
    assume "expired m now d \<and> dv_Status d = DeviceOnline"
    then show "i \<in> set (snd (checkHeartbeats m now))"
      using mem key [OF mem] by (auto simp: checkHeartbeats_def image_iff)
  qed
  moreover have "dm_Device (fst (checkHeartbeats m now)) i = Some (if expired m now d then d\<lparr>dv_Status := DeviceOffline\<rparr> else d)"
    using assms(2) by (simp add: checkHeartbeats_def dm_Device_def upd)
  moreover have "map_option dv_Status (dm_Device (fst (checkHeartbeats (Touch m i t) now)) i) = Some DeviceOnline"
    if "now \<le> t + dm_heartbeatTimeout m"
    using assms(2) that by (simp add: checkHeartbeats_def dm_Device_def upd expired_def Touch_def AList.map_of_map_entry)
  ultimately show ?thesis by (auto simp: expired_def)
qed

text \<open>
  A periodic REGISTER refreshes a device in place: it becomes online with the new metadata and the
  time of the request as its keepalive, keeps its whole channel catalog, and no other device changes.
\<close>

theorem reregister_keeps_catalog:
  assumes "registry_ok m" and "dm_Device m (dv_ID d) = Some e"
  shows "dm_Device (Register m d now) (dv_ID d)
      = Some (d\<lparr>dv_Status := DeviceOnline, dv_channels := dv_channels e, dv_lastKeepalive := now\<rparr>)
    \<and> (\<forall>c. FindChannel (Register m d now) (dv_ID d) c = FindChannel m (dv_ID d) c)
    \<and> (\<forall>j. j \<noteq> dv_ID d \<longrightarrow> dm_Device (Register m d now) j = dm_Device m j)"
proof -
  have "dv_ID e = dv_ID d" using device_of_ok [OF assms(1)] assms(2) by (auto simp: dm_Device_def device_ok_def)
  then have new: "map_of (dm_devices (Register m d now)) (dv_ID d)
      = Some (d\<lparr>dv_Status := DeviceOnline, dv_channels := dv_channels e, dv_lastKeepalive := now\<rparr>)"
    using assms(2) reregister_channels [of m d e now] by (simp add: dm_Device_def)
  moreover have "map_of (dm_devices (Register m d now)) j = map_of (dm_devices m) j" if "j \<noteq> dv_ID d" for j
    using that by (simp add: Register_def AList.update_conv')
  ultimately show ?thesis using assms(2) by (simp add: dm_Device_def FindChannel_def)
qed

subsection \<open>Witnesses\<close>

definition sample_device :: device where
  "sample_device = \<lparr>dv_ID = ''34020000001110000001'', dv_Name = ''nvr'', dv_Manufacturer = '''', dv_Model = '''',
     dv_NetAddr = ''10.0.0.2:5060'', dv_Transport = ''udp'', dv_Status = DeviceOffline, dv_channels = [], dv_lastKeepalive = 0\<rparr>"

definition sample_channel :: channel where
  "sample_channel = \<lparr>ch_DeviceID = '''', ch_ID = ''34020000001360000001'', ch_Name = ''mic'', ch_Parental = 0,
     ch_Status = ChannelIdle, ch_PTZType = 0, ch_Photoelectric = 0, ch_SubProbe = False, ch_TypeCode = 0, ch_AudioOnly = False\<rparr>"

definition sample_manager :: device_manager where
  "sample_manager = foldl reg_step (NewDeviceManager 0)
     [RRegister sample_device 1000, RChannel ''34020000001110000001'' sample_channel]"

lemma sample_manager_ok: "registry_ok sample_manager"
  unfolding sample_manager_def by (rule reg_run_ok [OF NewDeviceManager_ok])

lemma sample_manager_facts:
  "dm_devices sample_manager = [(''34020000001110000001'',
     sample_device\<lparr>dv_Status := DeviceOnline, dv_channels := [(''34020000001360000001'', attach ''34020000001110000001'' sample_channel)], dv_lastKeepalive := 1000\<rparr>)]"
  "dm_heartbeatTimeout sample_manager = 180000000000"
  by (simp_all add: sample_manager_def Register_def RegisterChannel_def sample_device_def
      sample_channel_def attach_def NewDeviceManager_def DefaultHeartbeatInterval_def wrap64_def Let_def)

theorem registry_typed_witness:
  "ch_AudioOnly (the (FindChannel sample_manager ''34020000001110000001'' ''34020000001360000001''))
     = IsAudioInputChannel ''34020000001360000001''"
  unfolding sample_manager_def
  using registry_typed [of 0 "[RRegister sample_device 1000, RChannel ''34020000001110000001'' sample_channel]"
      "''34020000001110000001''" "''34020000001360000001''" "attach ''34020000001110000001'' sample_channel",
      folded sample_manager_def]
  by (fold sample_manager_def) (simp add: FindChannel_def sample_manager_facts(1))

theorem heartbeat_exact_witness:
  "''34020000001110000001'' \<in> set (snd (checkHeartbeats sample_manager 180000001001))
    \<and> ''34020000001110000001'' \<notin> set (snd (checkHeartbeats sample_manager 180000001000))"
  using heartbeat_exact [OF sample_manager_ok, of "''34020000001110000001''"]
  by (simp add: dm_Device_def sample_manager_facts)

theorem reregister_keeps_catalog_witness:
  "FindChannel (Register sample_manager (sample_device\<lparr>dv_NetAddr := ''10.0.0.3:5060''\<rparr>) 2000)
      ''34020000001110000001'' ''34020000001360000001'' = Some (attach ''34020000001110000001'' sample_channel)"
  using reregister_keeps_catalog [OF sample_manager_ok, of "sample_device\<lparr>dv_NetAddr := ''10.0.0.3:5060''\<rparr>"]
  by (simp add: dm_Device_def FindChannel_def sample_manager_facts(1) sample_device_def)

end
