(* ===== verification/Ptz.thy ===== *)
theory Ptz
  imports Registry
begin

text \<open>
  PTZ control: the command builders and the controller of \<open>src/platform/ptz.go\<close>, and the decoder a
  device runs on what it receives, \<open>src/device/ptz.go\<close>.
\<close>

subsection \<open>Builders (platform)\<close>

definition ptzCommandCodes :: "(string \<times> byte) list" where
  "ptzCommandCodes =
     [(''stop'', 0x00), (''up'', 0x08), (''down'', 0x04), (''left'', 0x02), (''right'', 0x01),
      (''up-left'', 0x08 OR 0x02), (''up-right'', 0x08 OR 0x01),
      (''down-left'', 0x04 OR 0x02), (''down-right'', 0x04 OR 0x01),
      (''zoom-in'', 0x10), (''zoom-out'', 0x20)]"

text \<open>The checksum: the sum of bytes 0 to 6 modulo 256.\<close>

definition byte_sum :: "bytes \<Rightarrow> byte" where
  "byte_sum bs = foldl (+) 0 bs"

definition finishPTZCommand :: "bytes \<Rightarrow> bytes" where
  "finishPTZCommand cmd = cmd[7 := byte_sum (take 7 cmd)]"

definition BuildPTZCommand :: "string \<Rightarrow> byte \<Rightarrow> ctl_error + bytes" where
  "BuildPTZCommand direction speed =
     (case map_of ptzCommandCodes direction of
        None \<Rightarrow> Inl (ErrBadCommand direction)
      | Some bits \<Rightarrow>
          let cmd = [0xA5, 0x0F, 0x01, bits, 0, 0, 0, 0];
              cmd = (if direction \<in> {''up'', ''down''} then cmd[5 := speed]
                     else if direction \<in> {''left'', ''right''} then cmd[4 := speed]
                     else if direction \<in> {''up-left'', ''up-right'', ''down-left'', ''down-right''}
                     then cmd[4 := speed, 5 := speed]
                     else if direction \<in> {''zoom-in'', ''zoom-out''} then cmd[6 := speed]
                     else cmd)
          in Inr (cmd[7 := byte_sum (take 7 cmd)]))"

definition preset_code :: "string \<Rightarrow> byte option" where
  "preset_code action =
     (if action = ''set'' then Some 0x81 else if action = ''call'' then Some 0x82
      else if action = ''delete'' then Some 0x83 else None)"

definition BuildPTZPresetCommand :: "string \<Rightarrow> byte \<Rightarrow> ctl_error + bytes" where
  "BuildPTZPresetCommand action preset =
     (if preset = 0 then Inl (ErrBadCommand ''preset number 0 is reserved'')
      else case preset_code action of
        None \<Rightarrow> Inl (ErrBadCommand action)
      | Some code \<Rightarrow> Inr (finishPTZCommand [0xA5, 0x0F, 0x01, code, 0, 0, preset, 0]))"

definition cruise_code :: "string \<Rightarrow> byte option" where
  "cruise_code action =
     (if action = ''add-point'' then Some 0x84 else if action = ''del-point'' then Some 0x85
      else if action = ''speed'' then Some 0x86 else if action = ''stay'' then Some 0x87
      else if action = ''start'' then Some 0x88 else None)"

definition BuildPTZCruiseCommand :: "string \<Rightarrow> byte \<Rightarrow> byte \<Rightarrow> ctl_error + bytes" where
  "BuildPTZCruiseCommand action cruise val =
     (if cruise = 0 then Inl (ErrBadCommand ''cruise group must be 1-255'')
      else case cruise_code action of
        None \<Rightarrow> Inl (ErrBadCommand action)
      | Some code \<Rightarrow> Inr (finishPTZCommand [0xA5, 0x0F, 0x01, code, cruise, 0, val, 0]))"

definition fiActionBits :: "(string \<times> byte) list" where
  "fiActionBits = [(''iris-close'', 0x08), (''iris-open'', 0x04), (''focus-near'', 0x02), (''focus-far'', 0x01), (''stop'', 0x00)]"

definition BuildFICommand :: "string \<Rightarrow> byte \<Rightarrow> ctl_error + bytes" where
  "BuildFICommand action speed =
     (case map_of fiActionBits action of
        None \<Rightarrow> Inl (ErrBadCommand action)
      | Some bits \<Rightarrow>
          let cmd = [0xA5, 0x0F, 0x01, 0x40 OR bits, 0, 0, 0, 0];
              cmd = (if action \<in> {''iris-close'', ''iris-open''} then cmd[5 := speed]
                     else if action \<in> {''focus-near'', ''focus-far''} then cmd[4 := speed]
                     else cmd)
          in Inr (finishPTZCommand cmd))"

definition BuildAuxSwitchCommand :: "byte \<Rightarrow> bool \<Rightarrow> ctl_error + bytes" where
  "BuildAuxSwitchCommand switchNo on =
     (if switchNo = 0 then Inl (ErrBadCommand ''auxiliary switch number must be 1-255'')
      else Inr (finishPTZCommand [0xA5, 0x0F, 0x01, if on then 0x8C else 0x8D, switchNo, 0, 0, 0]))"

definition ptzCmdString :: "bytes \<Rightarrow> string" where
  "ptzCmdString cmd = to_upper (hex_encode cmd)"

subsection \<open>The decoder (device)\<close>

datatype ptzKind = PtzMove | PtzPreset | PtzCruise | PtzLens | PtzAuxSwitch | PtzUnknown | PtzInvalid
datatype ptzPresetAction = PtzPresetSet | PtzPresetCall | PtzPresetDelete
datatype ptzCruiseAction = PtzCruiseAddPoint | PtzCruiseDelPoint | PtzCruiseSpeed | PtzCruiseStay | PtzCruiseStart

record ptzCommand =
  pc_Kind :: ptzKind
  pc_Bits :: byte
  pc_Raw :: bytes
  pc_RawHex :: string
  pc_PanSpeed :: byte
  pc_TiltSpeed :: byte
  pc_ZoomSpeed :: byte
  pc_PresetAction :: ptzPresetAction
  pc_Preset :: byte
  pc_CruiseAction :: ptzCruiseAction
  pc_CruiseGroup :: byte
  pc_CruiseValue :: byte
  pc_FocusSpeed :: byte
  pc_IrisSpeed :: byte
  pc_SwitchNumber :: byte
  pc_On :: bool
  pc_Code :: byte
  pc_Data :: bytes

definition invalid_ptz :: "string \<Rightarrow> ptzCommand" where
  "invalid_ptz s =
     \<lparr>pc_Kind = PtzInvalid, pc_Bits = 0, pc_Raw = replicate 8 0, pc_RawHex = s, pc_PanSpeed = 0, pc_TiltSpeed = 0,
      pc_ZoomSpeed = 0, pc_PresetAction = PtzPresetSet, pc_Preset = 0, pc_CruiseAction = PtzCruiseAddPoint,
      pc_CruiseGroup = 0, pc_CruiseValue = 0, pc_FocusSpeed = 0, pc_IrisSpeed = 0, pc_SwitchNumber = 0,
      pc_On = False, pc_Code = 0, pc_Data = replicate 3 0\<rparr>"

definition IsStop :: "ptzCommand \<Rightarrow> bool" where
  "IsStop c \<longleftrightarrow> pc_Kind c = PtzMove \<and> pc_Bits c = 0"

text \<open>The conversions \<open>PtzPresetAction(n)\<close> and \<open>PtzCruiseAction(n)\<close> on the values that occur.\<close>

definition preset_action :: "byte \<Rightarrow> ptzPresetAction" where
  "preset_action n = (if n = 0 then PtzPresetSet else if n = 1 then PtzPresetCall else PtzPresetDelete)"

definition cruise_action :: "byte \<Rightarrow> ptzCruiseAction" where
  "cruise_action n =
     (if n = 0 then PtzCruiseAddPoint else if n = 1 then PtzCruiseDelPoint else if n = 2 then PtzCruiseSpeed
      else if n = 3 then PtzCruiseStay else PtzCruiseStart)"

definition decode_code :: "ptzCommand \<Rightarrow> bytes \<Rightarrow> ptzCommand" where
  "decode_code cmd raw =
     (let code = raw ! 3 in
      if code \<le> 0x3F
      then cmd\<lparr>pc_Kind := PtzMove, pc_Bits := code, pc_PanSpeed := raw ! 4, pc_TiltSpeed := raw ! 5, pc_ZoomSpeed := raw ! 6\<rparr>
      else if code AND 0xF0 = 0x40
      then cmd\<lparr>pc_Kind := PtzLens, pc_Bits := code AND 0x0F, pc_FocusSpeed := raw ! 4, pc_IrisSpeed := raw ! 5\<rparr>
      else if code \<ge> 0x81 \<and> code \<le> 0x81 + 2
      then cmd\<lparr>pc_Kind := PtzPreset, pc_PresetAction := preset_action (code - 0x81), pc_Preset := raw ! 6\<rparr>
      else if code \<ge> 0x84 \<and> code \<le> 0x84 + 4
      then cmd\<lparr>pc_Kind := PtzCruise, pc_CruiseAction := cruise_action (code - 0x84), pc_CruiseGroup := raw ! 4, pc_CruiseValue := raw ! 6\<rparr>
      else if code = 0x8C \<or> code = 0x8D
      then cmd\<lparr>pc_Kind := PtzAuxSwitch, pc_SwitchNumber := raw ! 4, pc_On := (code = 0x8C)\<rparr>
      else cmd\<lparr>pc_Kind := PtzUnknown, pc_Code := code, pc_Data := [raw ! 4, raw ! 5, raw ! 6]\<rparr>)"

definition DecodePTZCommand :: "string \<Rightarrow> ptzCommand" where
  "DecodePTZCommand hex =
     (let trimmed = TrimSpace hex; cmd = invalid_ptz trimmed in
      case hex_decode trimmed of
        None \<Rightarrow> cmd
      | Some raw \<Rightarrow>
          if length raw \<noteq> 8 \<or> raw ! 0 \<noteq> 0xA5 \<or> byte_sum (take 7 raw) \<noteq> raw ! 7 then cmd
          else decode_code (cmd\<lparr>pc_Raw := raw\<rparr>) raw)"

subsection \<open>The controller (platform)\<close>

text \<open>The search of \<open>locateChannel\<close>: the devices in order of their identifiers.\<close>

fun locate_in :: "(string \<Rightarrow> string \<Rightarrow> channel option) \<Rightarrow> device list \<Rightarrow> string \<Rightarrow> (channel \<times> device) option" where
  "locate_in lookup [] c = None"
| "locate_in lookup (d # ds) c =
     (case lookup (dv_ID d) c of Some ch \<Rightarrow> Some (ch, d) | None \<Rightarrow> locate_in lookup ds c)"

definition locateChannel :: "device_manager \<Rightarrow> string \<Rightarrow> (channel \<times> device) option" where
  "locateChannel m c = locate_in (FindChannel m) (AllDevices m) c"

definition control_body :: "i64 \<Rightarrow> string \<Rightarrow> bytes \<Rightarrow> string" where
  "control_body sn chID cmd =
     ''<?xml version=\"1.0\" encoding=\"GB2312\"?>'' @ [CHR 0x0A] @ ''<Control>'' @ [CHR 0x0A] @
     ''<CmdType>DeviceControl</CmdType>'' @ [CHR 0x0A] @ ''<SN>'' @ go_itoa (sint sn) @ ''</SN>'' @ [CHR 0x0A] @
     ''<DeviceID>'' @ chID @ ''</DeviceID>'' @ [CHR 0x0A] @ ''<PTZCmd>'' @ ptzCmdString cmd @ ''</PTZCmd>'' @ [CHR 0x0A] @
     ''</Control>''"

definition sendCommand :: "(string \<Rightarrow> string \<Rightarrow> bool) \<Rightarrow> i64 \<Rightarrow> channel \<Rightarrow> bytes \<Rightarrow> ctl_result" where
  "sendCommand sender sq ch cmd = send_via sender (sq + 1) (ch_DeviceID ch) (control_body (sq + 1) (ch_ID ch) cmd)"

text \<open>The guards every operation starts with: the channel is found and its device online.\<close>

definition with_channel :: "device_manager \<Rightarrow> i64 \<Rightarrow> string \<Rightarrow> (channel \<Rightarrow> ctl_result) \<Rightarrow> ctl_result" where
  "with_channel m sq c k =
     (case locateChannel m c of
        None \<Rightarrow> (sq, None, Some ErrChannelNotFound)
      | Some (ch, dev) \<Rightarrow> if dv_Status dev \<noteq> DeviceOnline then (sq, None, Some ErrDeviceOffline) else k ch)"

definition or_fail :: "i64 \<Rightarrow> ctl_error + 'a \<Rightarrow> ('a \<Rightarrow> ctl_result) \<Rightarrow> ctl_result" where
  "or_fail sq r k = (case r of Inl e \<Rightarrow> (sq, None, Some e) | Inr x \<Rightarrow> k x)"

definition SendPTZ where
  "SendPTZ sender sq m c direction speed =
     with_channel m sq c (\<lambda>ch.
       if ch_PTZType ch = 0 then (sq, None, Some ErrPTZUnsupported)
       else if direction \<in> {''zoom-in'', ''zoom-out''} \<and> ch_PTZType ch = 1 then (sq, None, Some ErrZoomUnsupported)
       else or_fail sq (BuildPTZCommand direction speed) (sendCommand sender sq ch))"

definition SendPTZPreset where
  "SendPTZPreset sender sq m c action preset =
     with_channel m sq c (\<lambda>ch.
       if ch_PTZType ch = 0 then (sq, None, Some ErrPTZUnsupported)
       else or_fail sq (BuildPTZPresetCommand action preset) (sendCommand sender sq ch))"

definition SendPTZCruise where
  "SendPTZCruise sender sq m c action cruise val =
     with_channel m sq c (\<lambda>ch.
       if ch_PTZType ch = 0 then (sq, None, Some ErrPTZUnsupported)
       else if action = ''stop'' then SendPTZ sender sq m c ''stop'' 0
       else or_fail sq (BuildPTZCruiseCommand action cruise val) (sendCommand sender sq ch))"

definition SendFI where
  "SendFI sender sq m c action speed =
     with_channel m sq c (\<lambda>ch.
       if ch_PTZType ch = 0 then (sq, None, Some ErrPTZUnsupported)
       else or_fail sq (BuildFICommand action speed) (sendCommand sender sq ch))"

definition SendAuxSwitch where
  "SendAuxSwitch sender sq m c switchNo on =
     with_channel m sq c (\<lambda>ch. or_fail sq (BuildAuxSwitchCommand switchNo on) (sendCommand sender sq ch))"

subsection \<open>Where a channel is found\<close>

text \<open>
  What the controller needs of the registry: the listing is ordered, and a channel is only found under
  a listed device.
\<close>

locale directory =
  fixes wf :: "'m \<Rightarrow> bool" and listing :: "'m \<Rightarrow> device list" and lookup :: "'m \<Rightarrow> string \<Rightarrow> string \<Rightarrow> channel option"
  assumes listing_sorted: "wf m \<Longrightarrow> sorted_wrt (<) (map dv_ID (listing m))"
    and lookup_listed: "wf m \<Longrightarrow> lookup m i c = Some ch \<Longrightarrow> i \<in> dv_ID ` set (listing m)"
begin

lemma locate_None:
  assumes "wf m"
  shows "locate_in (lookup m) (listing m) c = None \<longleftrightarrow> (\<forall>i. lookup m i c = None)"
proof -
  have "locate_in (lookup m) ds c = None \<longleftrightarrow> (\<forall>d \<in> set ds. lookup m (dv_ID d) c = None)" for ds
    by (induction ds) (auto split: option.splits)
  then show ?thesis using lookup_listed [OF assms, of _ c] by (metis image_iff option.exhaust)
qed

lemma locate_sound:
  "locate_in look ds c = Some (ch, d) \<Longrightarrow> d \<in> set ds \<and> look (dv_ID d) c = Some ch"
  by (induction ds) (auto split: option.splits)

lemma locate_least:
  assumes "sorted_wrt (<) (map dv_ID ds)" and "locate_in look ds c = Some (ch, d)"
    and "e \<in> set ds" and "dv_ID e < dv_ID d"
  shows "look (dv_ID e) c = None"
  using assms
proof (induction ds)
  case (Cons x xs)
  show ?case
  proof (cases "look (dv_ID x) c")
    case None
    then show ?thesis using Cons by (cases "e = x") auto
  next
    case (Some y)
    then have "d = x" using Cons.prems(2) by simp
    then show ?thesis using Cons.prems(1,3,4) by (auto dest: order.asym)
  qed
qed simp

end

lemma AllDevices_sorted: "registry_ok m \<Longrightarrow> sorted_wrt (<) (map dv_ID (AllDevices m))"
  by (auto simp: AllDevices_def registry_ok_def list_all_iff device_ok_def intro!: sorted_ids)

interpretation registry_directory: directory registry_ok AllDevices FindChannel
proof
  fix m assume "registry_ok m"
  then show "sorted_wrt (<) (map dv_ID (AllDevices m))" by (rule AllDevices_sorted)
next
  fix m i c ch assume ok: "registry_ok m" and "FindChannel m i c = Some ch"
  then obtain d where d: "map_of (dm_devices m) i = Some d" by (auto simp: FindChannel_def split: option.splits)
  then have "dv_ID d = i" using device_of_ok [OF ok] by (simp add: device_ok_def)
  moreover have "d \<in> set (AllDevices m)" using map_of_SomeD [OF d] by (force simp: AllDevices_def)
  ultimately show "i \<in> dv_ID ` set (AllDevices m)" by blast
qed

subsection \<open>Frames on the wire\<close>

lemma byte_sum_Cons [simp]: "byte_sum [] = 0" "byte_sum (x # xs) = x + byte_sum xs"
proof -
  have "foldl (+) (a :: byte) ys = a + sum_list ys" for a ys
    by (induction ys arbitrary: a) (simp_all add: add.assoc)
  then show "byte_sum [] = 0" "byte_sum (x # xs) = x + byte_sum xs" by (simp_all add: byte_sum_def)
qed

definition ptz_framed :: "bytes \<Rightarrow> bool" where
  "ptz_framed cmd \<longleftrightarrow> length cmd = 8 \<and> cmd ! 0 = 0xA5 \<and> byte_sum (take 7 cmd) = cmd ! 7"

lemma decode_sent:
  "DecodePTZCommand (ptzCmdString cmd) =
     (if ptz_framed cmd then decode_code ((invalid_ptz (ptzCmdString cmd))\<lparr>pc_Raw := cmd\<rparr>) cmd
      else invalid_ptz (ptzCmdString cmd))"
proof -
  have "TrimSpace (ptzCmdString cmd) = ptzCmdString cmd"
    unfolding ptzCmdString_def by (rule TrimSpace_plain) (rule hex_upper_plain)
  then show ?thesis by (auto simp: DecodePTZCommand_def Let_def ptz_framed_def ptzCmdString_def hex_decode_upper)
qed

lemma byte_sum_update:
  "i < length xs \<Longrightarrow> byte_sum (xs[i := b]) = byte_sum xs - xs ! i + b"
  by (induction xs arbitrary: i) (auto split: nat.splits)


lemma framed_finish: "length cmd = 8 \<Longrightarrow> cmd ! 0 = 0xA5 \<Longrightarrow> ptz_framed (cmd[7 := byte_sum (take 7 cmd)])"
  by (simp add: ptz_framed_def)

text \<open>The frame all builders make.\<close>

definition frame :: "byte \<Rightarrow> byte \<Rightarrow> byte \<Rightarrow> byte \<Rightarrow> bytes" where
  "frame c x y z = (let cmd = [0xA5, 0x0F, 0x01, c, x, y, z, 0] in cmd[7 := byte_sum (take 7 cmd)])"

lemma frame_parts [simp]:
  "length (frame c x y z) = 8" "frame c x y z ! 3 = c" "frame c x y z ! 4 = x" "frame c x y z ! 5 = y" "frame c x y z ! 6 = z"
  by (simp_all add: frame_def Let_def)

lemma frame_framed [simp]: "ptz_framed (frame c x y z)"
  unfolding frame_def Let_def by (rule framed_finish) simp_all

lemma decode_frame:
  "DecodePTZCommand (ptzCmdString (frame c x y z)) =
     decode_code ((invalid_ptz (ptzCmdString (frame c x y z)))\<lparr>pc_Raw := frame c x y z\<rparr>) (frame c x y z)"
  by (simp add: decode_sent)

lemma finish_frame: "finishPTZCommand [0xA5, 0x0F, 0x01, c, x, y, z, 0] = frame c x y z"
  by (simp add: finishPTZCommand_def frame_def)

text \<open>What the direction of a movement command sets.\<close>

definition pans :: "string \<Rightarrow> bool" where
  "pans d \<longleftrightarrow> d \<in> {''left'', ''right'', ''up-left'', ''up-right'', ''down-left'', ''down-right''}"

definition tilts :: "string \<Rightarrow> bool" where
  "tilts d \<longleftrightarrow> d \<in> {''up'', ''down'', ''up-left'', ''up-right'', ''down-left'', ''down-right''}"

definition zooms :: "string \<Rightarrow> bool" where
  "zooms d \<longleftrightarrow> d \<in> {''zoom-in'', ''zoom-out''}"

lemma build_move:
  "BuildPTZCommand d s = (case map_of ptzCommandCodes d of None \<Rightarrow> Inl (ErrBadCommand d)
     | Some bits \<Rightarrow> Inr (frame bits (if pans d then s else 0) (if tilts d then s else 0) (if zooms d then s else 0)))"
proof (cases "map_of ptzCommandCodes d")
  case (Some bits)
  consider (tilt) "d \<in> {''up'', ''down''}" | (pan) "d \<in> {''left'', ''right''}"
    | (both) "d \<in> {''up-left'', ''up-right'', ''down-left'', ''down-right''}" | (zoom) "d \<in> {''zoom-in'', ''zoom-out''}"
    | (still) "d \<notin> {''up'', ''down'', ''left'', ''right'', ''up-left'', ''up-right'', ''down-left'', ''down-right'', ''zoom-in'', ''zoom-out''}"
    by auto
  then show ?thesis
    using Some by cases (auto simp: BuildPTZCommand_def frame_def Let_def pans_def tilts_def zooms_def)
qed (simp add: BuildPTZCommand_def)

lemma move_decodes:
  assumes "BuildPTZCommand d s = Inr cmd"
  shows "let r = DecodePTZCommand (ptzCmdString cmd) in
    pc_Kind r = PtzMove \<and> map_of ptzCommandCodes d = Some (pc_Bits r) \<and> pc_Raw r = cmd
    \<and> pc_PanSpeed r = (if pans d then s else 0) \<and> pc_TiltSpeed r = (if tilts d then s else 0)
    \<and> pc_ZoomSpeed r = (if zooms d then s else 0)"
proof -
  obtain bits where bits: "map_of ptzCommandCodes d = Some bits"
    and cmd: "cmd = frame bits (if pans d then s else 0) (if tilts d then s else 0) (if zooms d then s else 0)"
    using assms by (auto simp: build_move split: option.splits)
  have "bits \<in> snd ` set ptzCommandCodes" using map_of_SomeD [OF bits] by force
  then have "bits \<le> 0x3F" by (auto simp: ptzCommandCodes_def)
  then show ?thesis unfolding cmd decode_frame using bits by (simp add: decode_code_def Let_def)
qed

lemma preset_decodes:
  assumes "BuildPTZPresetCommand action preset = Inr cmd"
  shows "let r = DecodePTZCommand (ptzCmdString cmd) in pc_Kind r = PtzPreset \<and> pc_Preset r = preset \<and> pc_Raw r = cmd
    \<and> action = (case pc_PresetAction r of PtzPresetSet \<Rightarrow> ''set'' | PtzPresetCall \<Rightarrow> ''call'' | PtzPresetDelete \<Rightarrow> ''delete'')"
proof -
  obtain code where code: "preset_code action = Some code" and cmd: "cmd = frame code 0 0 preset"
    using assms by (auto simp: BuildPTZPresetCommand_def finish_frame split: if_splits option.splits)
  consider "action = ''set''" "code = 0x81" | "action = ''call''" "code = 0x82" | "action = ''delete''" "code = 0x83"
    using code by (auto simp: preset_code_def split: if_splits)
  then show ?thesis unfolding cmd decode_frame by cases (simp_all add: decode_code_def preset_action_def)
qed

lemma cruise_decodes:
  assumes "BuildPTZCruiseCommand action cruise val = Inr cmd"
  shows "let r = DecodePTZCommand (ptzCmdString cmd) in
    pc_Kind r = PtzCruise \<and> pc_CruiseGroup r = cruise \<and> pc_CruiseValue r = val \<and> pc_Raw r = cmd
    \<and> action = (case pc_CruiseAction r of PtzCruiseAddPoint \<Rightarrow> ''add-point'' | PtzCruiseDelPoint \<Rightarrow> ''del-point''
        | PtzCruiseSpeed \<Rightarrow> ''speed'' | PtzCruiseStay \<Rightarrow> ''stay'' | PtzCruiseStart \<Rightarrow> ''start'')"
proof -
  obtain code where code: "cruise_code action = Some code" and cmd: "cmd = frame code cruise 0 val"
    using assms by (auto simp: BuildPTZCruiseCommand_def finish_frame split: if_splits option.splits)
  consider "action = ''add-point''" "code = 0x84" | "action = ''del-point''" "code = 0x85" | "action = ''speed''" "code = 0x86"
    | "action = ''stay''" "code = 0x87" | "action = ''start''" "code = 0x88"
    using code by (auto simp: cruise_code_def split: if_splits)
  then show ?thesis unfolding cmd decode_frame by cases (simp_all add: decode_code_def cruise_action_def)
qed

lemma build_lens:
  "BuildFICommand a s = (case map_of fiActionBits a of None \<Rightarrow> Inl (ErrBadCommand a)
     | Some bits \<Rightarrow> Inr (frame (0x40 OR bits) (if a \<in> {''focus-near'', ''focus-far''} then s else 0)
         (if a \<in> {''iris-close'', ''iris-open''} then s else 0) 0))"
proof (cases "map_of fiActionBits a")
  case (Some bits)
  consider "a \<in> {''iris-close'', ''iris-open''}" | "a \<in> {''focus-near'', ''focus-far''}"
    | "a \<notin> {''iris-close'', ''iris-open'', ''focus-near'', ''focus-far''}" by auto
  then show ?thesis
    using Some by cases (auto simp: BuildFICommand_def finish_frame Let_def)
qed (simp add: BuildFICommand_def)

lemma lens_decodes:
  assumes "BuildFICommand action speed = Inr cmd"
  shows "let r = DecodePTZCommand (ptzCmdString cmd) in
    pc_Kind r = PtzLens \<and> map_of fiActionBits action = Some (pc_Bits r) \<and> pc_Raw r = cmd
    \<and> pc_IrisSpeed r = (if action \<in> {''iris-close'', ''iris-open''} then speed else 0)
    \<and> pc_FocusSpeed r = (if action \<in> {''focus-near'', ''focus-far''} then speed else 0)"
proof -
  obtain bits where bits: "map_of fiActionBits action = Some bits"
    and cmd: "cmd = frame (0x40 OR bits) (if action \<in> {''focus-near'', ''focus-far''} then speed else 0)
      (if action \<in> {''iris-close'', ''iris-open''} then speed else 0) 0"
    using assms unfolding build_lens by (cases "map_of fiActionBits action") auto
  have "bits \<in> snd ` set fiActionBits" using map_of_SomeD [OF bits] by force
  then have "\<not> 0x40 OR bits \<le> 0x3F" "(0x40 OR bits) AND 0xF0 = 0x40" "(0x40 OR bits) AND 0x0F = bits"
    by (auto simp: fiActionBits_def)
  then show ?thesis unfolding cmd decode_frame using bits by (simp add: decode_code_def Let_def)
qed

lemma switch_decodes:
  assumes "BuildAuxSwitchCommand n on = Inr cmd"
  shows "let r = DecodePTZCommand (ptzCmdString cmd) in
    pc_Kind r = PtzAuxSwitch \<and> pc_SwitchNumber r = n \<and> pc_On r = on \<and> pc_Raw r = cmd"
proof -
  have cmd: "cmd = frame (if on then 0x8C else 0x8D) n 0 0"
    using assms by (auto simp: BuildAuxSwitchCommand_def finish_frame split: if_splits)
  then show ?thesis unfolding cmd decode_frame by (cases on) (simp_all add: decode_code_def)
qed

subsection \<open>Properties\<close>

text \<open>
  C10: A device reads every command as the platform meant it. For each builder, whatever it produces is
  decoded from its hexadecimal form into the same kind of command with the same action, numbers and
  speeds, a speed being set exactly for the axes that move.
\<close>

theorem ptz_roundtrip:
  "(\<forall>d s cmd. BuildPTZCommand d s = Inr cmd \<longrightarrow> (let r = DecodePTZCommand (ptzCmdString cmd) in
      pc_Kind r = PtzMove \<and> map_of ptzCommandCodes d = Some (pc_Bits r) \<and> pc_Raw r = cmd
      \<and> pc_PanSpeed r = (if pans d then s else 0) \<and> pc_TiltSpeed r = (if tilts d then s else 0)
      \<and> pc_ZoomSpeed r = (if zooms d then s else 0)))
   \<and> (\<forall>a p cmd. BuildPTZPresetCommand a p = Inr cmd \<longrightarrow> (let r = DecodePTZCommand (ptzCmdString cmd) in
      pc_Kind r = PtzPreset \<and> pc_Preset r = p \<and> pc_Raw r = cmd
      \<and> a = (case pc_PresetAction r of PtzPresetSet \<Rightarrow> ''set'' | PtzPresetCall \<Rightarrow> ''call'' | PtzPresetDelete \<Rightarrow> ''delete'')))
   \<and> (\<forall>a g v cmd. BuildPTZCruiseCommand a g v = Inr cmd \<longrightarrow> (let r = DecodePTZCommand (ptzCmdString cmd) in
      pc_Kind r = PtzCruise \<and> pc_CruiseGroup r = g \<and> pc_CruiseValue r = v \<and> pc_Raw r = cmd
      \<and> a = (case pc_CruiseAction r of PtzCruiseAddPoint \<Rightarrow> ''add-point'' | PtzCruiseDelPoint \<Rightarrow> ''del-point''
          | PtzCruiseSpeed \<Rightarrow> ''speed'' | PtzCruiseStay \<Rightarrow> ''stay'' | PtzCruiseStart \<Rightarrow> ''start'')))
   \<and> (\<forall>a s cmd. BuildFICommand a s = Inr cmd \<longrightarrow> (let r = DecodePTZCommand (ptzCmdString cmd) in
      pc_Kind r = PtzLens \<and> map_of fiActionBits a = Some (pc_Bits r) \<and> pc_Raw r = cmd
      \<and> pc_IrisSpeed r = (if a \<in> {''iris-close'', ''iris-open''} then s else 0)
      \<and> pc_FocusSpeed r = (if a \<in> {''focus-near'', ''focus-far''} then s else 0)))
   \<and> (\<forall>n on cmd. BuildAuxSwitchCommand n on = Inr cmd \<longrightarrow> (let r = DecodePTZCommand (ptzCmdString cmd) in
      pc_Kind r = PtzAuxSwitch \<and> pc_SwitchNumber r = n \<and> pc_On r = on \<and> pc_Raw r = cmd))"
  using move_decodes preset_decodes cruise_decodes lens_decodes switch_decodes by (intro conjI allI impI)

theorem ptz_roundtrip_witness:
  "BuildPTZCommand ''up-left'' 0x20 = Inr [0xA5, 0x0F, 0x01, 0x0A, 0x20, 0x20, 0x00, 0xFF]
    \<and> pc_TiltSpeed (DecodePTZCommand (ptzCmdString [0xA5, 0x0F, 0x01, 0x0A, 0x20, 0x20, 0x00, 0xFF])) = 0x20"
proof -
  have b: "BuildPTZCommand ''up-left'' 0x20 = Inr [0xA5, 0x0F, 0x01, 0x0A, 0x20, 0x20, 0x00, 0xFF]"
    by (simp add: build_move ptzCommandCodes_def frame_def pans_def tilts_def zooms_def)
  then show ?thesis
    using ptz_roundtrip [THEN conjunct1, rule_format, OF b] by (simp add: Let_def tilts_def)
qed

text \<open>
  Corruption is noticed. When any one byte of a well-formed command is replaced by another value,
  the decoder reports an invalid command, and it preserves the text it received.
\<close>

theorem ptz_corruption_detected:
  assumes "ptz_framed cmd" and "i < 8" and "b \<noteq> cmd ! i"
  shows "DecodePTZCommand (ptzCmdString (cmd[i := b])) = invalid_ptz (ptzCmdString (cmd[i := b]))"
proof -
  have "\<not> ptz_framed (cmd[i := b])"
  proof (cases "i = 7")
    case True
    then show ?thesis using assms by (auto simp: ptz_framed_def)
  next
    case False
    then have i: "i < length (take 7 cmd)" using assms by (simp add: ptz_framed_def)
    have "byte_sum (take 7 (cmd[i := b])) = byte_sum (take 7 cmd) - cmd ! i + b"
      using byte_sum_update [OF i, of b] i by (simp add: take_update_swap)
    then show ?thesis using assms False by (auto simp: ptz_framed_def)
  qed
  then show ?thesis by (simp add: decode_sent)
qed

theorem ptz_corruption_detected_witness:
  "pc_Kind (DecodePTZCommand (ptzCmdString [0xA5, 0x0F, 0x01, 0x04, 0x00, 0x20, 0x00, 0xDD])) = PtzInvalid"
  using ptz_corruption_detected [of "[0xA5, 0x0F, 0x01, 0x08, 0x00, 0x20, 0x00, 0xDD]" 3 "0x04"]
  by (simp add: ptz_framed_def invalid_ptz_def)

lemma listed_device: "registry_ok m \<Longrightarrow> d \<in> set (AllDevices m) \<Longrightarrow> dm_Device m (dv_ID d) = Some d"
  by (auto simp: AllDevices_def dm_Device_def registry_ok_def list_all_iff device_ok_def intro!: map_of_is_SomeI)

lemma found_channel:
  assumes "registry_ok m" and "FindChannel m i c = Some ch"
  shows "ch_ID ch = c" and "ch_DeviceID ch = i"
proof -
  obtain d where d: "map_of (dm_devices m) i = Some d" "map_of (dv_channels d) c = Some ch"
    using assms(2) by (auto simp: FindChannel_def split: option.splits)
  have "channel_ok i (c, ch)"
    using device_of_ok [OF assms(1) d(1)] map_of_SomeD [OF d(2)] by (auto simp: device_ok_def list_all_iff)
  then show "ch_ID ch = c" "ch_DeviceID ch = i" by (auto simp: channel_ok_def)
qed

lemma located:
  assumes "registry_ok m" and "locateChannel m c = Some (ch, dev)"
  shows "FindChannel m (dv_ID dev) c = Some ch" "dm_Device m (dv_ID dev) = Some dev"
    "ch_ID ch = c" "ch_DeviceID ch = dv_ID dev"
proof -
  have f: "FindChannel m (dv_ID dev) c = Some ch" "dev \<in> set (AllDevices m)"
    using registry_directory.locate_sound assms(2) unfolding locateChannel_def by blast+
  then show "FindChannel m (dv_ID dev) c = Some ch" "dm_Device m (dv_ID dev) = Some dev"
    "ch_ID ch = c" "ch_DeviceID ch = dv_ID dev"
    using listed_device [OF assms(1)] found_channel [OF assms(1)] by auto
qed

text \<open>
  A movement command is only sent where it may be. \<open>SendPTZ\<close> hands a message to the sender exactly
  when the channel is known, the device that owns it is online, the channel has PTZ (and zoom, for a zoom
  command) and the direction exists; the message then goes to that device, carries the next sequence
  number, the channel and the command, and the call succeeds if the send does. In every other case
  nothing is sent, no sequence number is used and an error is returned, \<open>ErrChannelNotFound\<close> exactly
  for an unknown channel.
\<close>

theorem send_ptz_guarded:
  assumes "registry_ok m"
  shows "case SendPTZ sender sq m c dir speed of
      (sq', None, err) \<Rightarrow> sq' = sq \<and> err \<noteq> None \<and> (err = Some ErrChannelNotFound \<longleftrightarrow> (\<forall>i. FindChannel m i c = None))
    | (sq', Some (i, body), err) \<Rightarrow> sq' = sq + 1 \<and> (err = None \<longleftrightarrow> sender i body)
        \<and> (\<exists>ch dev cmd. FindChannel m i c = Some ch \<and> dm_Device m i = Some dev \<and> dv_Status dev = DeviceOnline
            \<and> ch_PTZType ch \<noteq> 0 \<and> (zooms dir \<longrightarrow> ch_PTZType ch \<noteq> 1)
            \<and> BuildPTZCommand dir speed = Inr cmd \<and> body = control_body sq' c cmd)"
proof (cases "locateChannel m c")
  case None
  then show ?thesis
    using registry_directory.locate_None [OF assms, of c] by (simp add: SendPTZ_def with_channel_def locateChannel_def)
next
  case (Some x)
  obtain ch dev where x: "x = (ch, dev)" by (cases x)
  note loc = located [OF assms, of c ch dev, OF Some [unfolded x]]
  have found: "\<not> (\<forall>i. FindChannel m i c = None)" using loc(1) by auto
  show ?thesis
  proof (cases "BuildPTZCommand dir speed")
    case (Inl e)
    then have "e \<noteq> ErrChannelNotFound" by (auto simp: build_move split: option.splits)
    then show ?thesis using Inl Some x found by (simp add: SendPTZ_def with_channel_def or_fail_def)
  next
    case (Inr cmd)
    then show ?thesis using Some x found loc
      by (simp add: SendPTZ_def with_channel_def or_fail_def sendCommand_def send_via_def zooms_def)
  qed
qed

definition ptz_manager :: device_manager where
  "ptz_manager = foldl reg_step (NewDeviceManager 0)
     [RRegister sample_device 1000, RChannel ''34020000001110000001''
        (sample_channel\<lparr>ch_ID := ''34020000001320000001'', ch_PTZType := 1\<rparr>)]"

lemma ptz_manager_ok: "registry_ok ptz_manager"
  unfolding ptz_manager_def by (rule reg_run_ok [OF NewDeviceManager_ok])

theorem send_ptz_guarded_witness:
  "fst (SendPTZ (\<lambda>i body. True) 6 ptz_manager ''34020000001320000001'' ''zoom-in'' 1) = 6
    \<and> fst (SendPTZ (\<lambda>i body. True) 6 ptz_manager ''34020000001320000001'' ''left'' 1) = 7"
proof -
  let ?ch = "sample_channel\<lparr>ch_ID := ''34020000001320000001'', ch_PTZType := 1\<rparr>"
  have e: "AllDevices ptz_manager = [sample_device\<lparr>dv_Status := DeviceOnline,
      dv_channels := [(''34020000001320000001'', attach ''34020000001110000001'' ?ch)], dv_lastKeepalive := 1000\<rparr>]"
    "FindChannel ptz_manager ''34020000001110000001'' ''34020000001320000001'' = Some (attach ''34020000001110000001'' ?ch)"
    by (simp_all add: ptz_manager_def AllDevices_def FindChannel_def Register_def RegisterChannel_def sample_device_def
        sample_channel_def NewDeviceManager_def Let_def)
  have l: "locateChannel ptz_manager ''34020000001320000001'' = Some (attach ''34020000001110000001'' ?ch, hd (AllDevices ptz_manager))"
    using e by (simp add: locateChannel_def sample_device_def)
  have "fst (snd (SendPTZ (\<lambda>i body. True) 6 ptz_manager ''34020000001320000001'' ''left'' 1)) \<noteq> None"
    "fst (snd (SendPTZ (\<lambda>i body. True) 6 ptz_manager ''34020000001320000001'' ''zoom-in'' 1)) = None"
    by (simp_all add: SendPTZ_def with_channel_def l e attach_def or_fail_def build_move ptzCommandCodes_def
        sendCommand_def send_via_def)
  then show ?thesis
    using send_ptz_guarded [OF ptz_manager_ok, where sender = "\<lambda>i body. True" and sq = 6 and c = "''34020000001320000001''" and dir = "''left''" and speed = 1]
      send_ptz_guarded [OF ptz_manager_ok, where sender = "\<lambda>i body. True" and sq = 6 and c = "''34020000001320000001''" and dir = "''zoom-in''" and speed = 1]
    by (auto split: prod.splits option.splits)
qed

end
