(* ===== verification/Device_Ctl.thy ===== *)
theory Device_Ctl
  imports Ptz
begin

text \<open>
  The non-PTZ controls of \<open>src/platform/control.go\<close>: record, guard, alarm reset, reboot, key frame,
  storage card format, home position, snapshot, upgrade and precise positioning. The XML encoder
  (\<open>manscdp.Encode\<close>, a call of \<open>encoding/xml\<close>) is a parameter \<open>encode\<close> on the message structure.
\<close>

subsection \<open>Messages\<close>

record home_position =
  hp_Enabled :: u32
  hp_ResetTime :: "u32 option"
  hp_PresetIndex :: "u32 option"

record device_upgrade =
  du_Firmware :: string
  du_FileURL :: string
  du_Manufacturer :: string
  du_SessionID :: string

text \<open>The angles are \<open>float64\<close> values, kept as their bit patterns: the controller only passes them on.\<close>

record ptz_precise =
  pp_Pan :: "u64 option"
  pp_Tilt :: "u64 option"
  pp_Zoom :: "u64 option"

record snapshot_cmd =
  ss_SnapNum :: int
  ss_Interval :: int
  ss_UploadURL :: string
  ss_SessionID :: string

record device_control =
  dc_SN :: int
  dc_DeviceID :: string
  dc_IFrameCmd :: string
  dc_HomePosition :: "home_position option"
  dc_TeleBoot :: string
  dc_RecordCmd :: string
  dc_GuardCmd :: string
  dc_AlarmCmd :: string
  dc_FormatSDCard :: "int option"
  dc_DeviceUpgrade :: "device_upgrade option"
  dc_PTZPreciseCtrl :: "ptz_precise option"

record device_config =
  cf_SN :: int
  cf_DeviceID :: string
  cf_SnapShotConfig :: "snapshot_cmd option"

datatype control_message = MControl device_control | MConfig device_config

definition empty_control :: "i64 \<Rightarrow> string \<Rightarrow> device_control" where
  "empty_control sn i =
     \<lparr>dc_SN = sint sn, dc_DeviceID = i, dc_IFrameCmd = '''', dc_HomePosition = None, dc_TeleBoot = '''', dc_RecordCmd = '''',
      dc_GuardCmd = '''', dc_AlarmCmd = '''', dc_FormatSDCard = None, dc_DeviceUpgrade = None, dc_PTZPreciseCtrl = None\<rparr>"

subsection \<open>Operations\<close>

text \<open>The switch of \<open>SendDeviceControl\<close>.\<close>

definition set_element :: "string \<Rightarrow> string \<Rightarrow> device_control \<Rightarrow> ctl_error + device_control" where
  "set_element element val dc =
     (if element = ''RecordCmd'' then Inr (dc\<lparr>dc_RecordCmd := val\<rparr>)
      else if element = ''GuardCmd'' then Inr (dc\<lparr>dc_GuardCmd := val\<rparr>)
      else if element = ''AlarmCmd'' then Inr (dc\<lparr>dc_AlarmCmd := val\<rparr>)
      else if element = ''TeleBoot'' then Inr (dc\<lparr>dc_TeleBoot := val\<rparr>)
      else if element = ''IFrameCmd''
      then (if val \<noteq> ''Send'' then Inl (ErrBadCommand val) else Inr (dc\<lparr>dc_IFrameCmd := val\<rparr>))
      else if element = ''FormatSDCard''
      then (case go_atoi val of
              None \<Rightarrow> Inl (ErrBadCommand val)
            | Some cardNo \<Rightarrow> if cardNo < 0 then Inl (ErrBadCommand val) else Inr (dc\<lparr>dc_FormatSDCard := Some cardNo\<rparr>))
      else Inl (ErrBadCommand element))"

definition encode_send where
  "encode_send encode sender sn ch msg =
     (case encode msg of
        None \<Rightarrow> (sn, None, Some ErrEncode)
      | Some body \<Rightarrow> send_via sender sn (ch_DeviceID ch) body)"

text \<open>The sequence number is taken before the element is checked.\<close>

definition SendDeviceControl where
  "SendDeviceControl encode sender sq m c element val =
     with_channel m sq c (\<lambda>ch.
       or_fail (sq + 1) (set_element element val (empty_control (sq + 1) (ch_ID ch)))
         (\<lambda>dc. encode_send encode sender (sq + 1) ch (MControl dc)))"

definition SetHomePosition where
  "SetHomePosition encode sender sq m c enabled resetSecs presetIdx =
     with_channel m sq c (\<lambda>ch.
       let hp = \<lparr>hp_Enabled = (if enabled then 1 else 0), hp_ResetTime = resetSecs, hp_PresetIndex = presetIdx\<rparr>
       in encode_send encode sender (sq + 1) ch
            (MControl ((empty_control (sq + 1) (ch_ID ch))\<lparr>dc_HomePosition := Some hp\<rparr>)))"

definition SendSnapShotCmd where
  "SendSnapShotCmd encode sender sq m c cmd =
     with_channel m sq c (\<lambda>ch. encode_send encode sender (sq + 1) ch
       (MConfig \<lparr>cf_SN = sint (sq + 1), cf_DeviceID = ch_ID ch, cf_SnapShotConfig = Some cmd\<rparr>))"

definition SendDeviceUpgradeCmd where
  "SendDeviceUpgradeCmd encode sender sq m c cmd =
     with_channel m sq c (\<lambda>ch. encode_send encode sender (sq + 1) ch
       (MControl ((empty_control (sq + 1) (ch_ID ch))\<lparr>dc_DeviceUpgrade := Some cmd\<rparr>)))"

definition SendFormatSDCardCmd where
  "SendFormatSDCardCmd encode sender sq m c cardNo =
     SendDeviceControl encode sender sq m c ''FormatSDCard'' (go_itoa cardNo)"

definition SendPTZPreciseCmd where
  "SendPTZPreciseCmd encode sender sq m c p =
     with_channel m sq c (\<lambda>ch. encode_send encode sender (sq + 1) ch
       (MControl ((empty_control (sq + 1) (ch_ID ch))\<lparr>dc_PTZPreciseCtrl := Some p\<rparr>)))"

definition StartManualRecord where
  "StartManualRecord encode sender sq m c = SendDeviceControl encode sender sq m c ''RecordCmd'' ''Record''"

definition StopManualRecord where
  "StopManualRecord encode sender sq m c = SendDeviceControl encode sender sq m c ''RecordCmd'' ''StopRecord''"

definition SendIFrameCmd where
  "SendIFrameCmd encode sender sq m c = SendDeviceControl encode sender sq m c ''IFrameCmd'' ''Send''"

subsection \<open>Properties\<close>

text \<open>
  Formatting a storage card reaches the device as the number asked for. For a known channel of an
  online device, a card number that is not negative is sent, unchanged by its way through text, to the
  owning device with the next sequence number and no other command in the message; a negative number is
  refused and nothing is sent. A channel that is unknown or whose device is offline gets its error
  without using a sequence number.
\<close>

theorem format_card_exact:
  assumes "registry_ok m" and "- (2 ^ 63) \<le> cardNo" and "cardNo < 2 ^ 63"
  shows "SendFormatSDCardCmd encode sender sq m c cardNo =
    (case locateChannel m c of
       None \<Rightarrow> (sq, None, Some ErrChannelNotFound)
     | Some (ch, dev) \<Rightarrow>
         if dv_Status dev \<noteq> DeviceOnline then (sq, None, Some ErrDeviceOffline)
         else if cardNo < 0 then (sq + 1, None, Some (ErrBadCommand (go_itoa cardNo)))
         else case encode (MControl ((empty_control (sq + 1) c)\<lparr>dc_FormatSDCard := Some cardNo\<rparr>)) of
           None \<Rightarrow> (sq + 1, None, Some ErrEncode)
         | Some body \<Rightarrow> (sq + 1, Some (dv_ID dev, body), if sender (dv_ID dev) body then None else Some ErrSendFailed))"
proof (cases "locateChannel m c")
  case (Some x)
  obtain ch dev where x: "x = (ch, dev)" by (cases x)
  note loc = located [OF assms(1), of c ch dev, OF Some [unfolded x]]
  show ?thesis using Some x loc go_atoi_itoa [OF assms(2,3)]
    by (simp add: SendFormatSDCardCmd_def SendDeviceControl_def with_channel_def set_element_def or_fail_def
        encode_send_def send_via_def split: option.split)
qed (simp add: SendFormatSDCardCmd_def SendDeviceControl_def with_channel_def)

theorem format_card_exact_witness:
  "SendFormatSDCardCmd (\<lambda>_. None) (\<lambda>_ _. True) 3 ptz_manager ''nosuch'' 1 = (3, None, Some ErrChannelNotFound)"
proof -
  have "locateChannel ptz_manager ''nosuch'' = None"
    by (simp add: ptz_manager_def locateChannel_def AllDevices_def FindChannel_def Register_def RegisterChannel_def
        sample_device_def sample_channel_def NewDeviceManager_def Let_def)
  then show ?thesis
    using format_card_exact [OF ptz_manager_ok, of 1 "\<lambda>_. None" "\<lambda>_ _. True" 3 "''nosuch''"] by simp
qed

end
