(* ===== verification/Device_Ps.thy ===== *)
theory Device_Ps
  imports Ps_Roundtrip
begin

text \<open>
  The device-side multiplexer of \<open>src/device/ps.go\<close>, which writes another PES layout than
  \<open>src/psmux\<close>: the header length in byte 7 and one gap byte in front of the payload. A
  \<open>time.Time\<close> is \<^const>\<open>None\<close> for the zero time, otherwise the \<open>int64\<close> of \<open>UnixNano\<close>.
\<close>

subsection \<open>Packets\<close>

type_synonym go_time = "i64 option"

definition timeTo90kHz :: "go_time \<Rightarrow> u64" where
  "timeTo90kHz t = (case t of None \<Rightarrow> 0 | Some nanos \<Rightarrow> (nanos * 9) div 100000)"

definition BuildPsPackHeader :: "u64 \<Rightarrow> u32 \<Rightarrow> bytes" where
  "BuildPsPackHeader scr muxRate =
     (let base = scr div 300; ext = scr mod 300; rate = muxRate AND 0x3FFFFF in
      [0, 0, 1, 0xBA,
       0x44 OR ucast (push_bit 3 (drop_bit 30 base AND 0x07)) OR ucast (drop_bit 28 base AND 0x03),
       ucast (drop_bit 20 base AND 0xFF),
       0x04 OR ucast (push_bit 3 (drop_bit 15 base AND 0x1F)) OR ucast (drop_bit 13 base AND 0x03),
       ucast (drop_bit 5 base AND 0xFF),
       0x04 OR ucast (push_bit 3 (base AND 0x1F)) OR ucast (drop_bit 7 ext AND 0x03),
       0x01 OR ucast (push_bit 1 (ext AND 0x7F)),
       ucast (drop_bit 14 rate), ucast (drop_bit 6 rate),
       0x03 OR ucast (push_bit 2 (rate AND 0x3F)),
       0xF8])"

definition BuildProgramStreamMap :: bytes where
  "BuildProgramStreamMap = [0, 0, 1, 0xBB, 0, 0x0B, 1, 0, 0, 0, 4, 0x1B, 0xE0, 0, 0, 0, 0]"

definition encodePtsDts :: "u64 \<Rightarrow> byte \<Rightarrow> bytes" where
  "encodePtsDts v prefix =
     [push_bit 4 prefix OR ucast (push_bit 1 (drop_bit 30 v AND 0x07)) OR 1,
      ucast (drop_bit 22 v AND 0xFF),
      ucast (push_bit 1 (drop_bit 15 v AND 0x7F)) OR 1,
      ucast (drop_bit 7 v AND 0xFF),
      ucast (push_bit 1 (v AND 0x7F)) OR 1]"

definition pts_flags :: "bool \<Rightarrow> bool \<Rightarrow> byte" where
  "pts_flags hasPts hasDts =
     (if hasPts \<and> hasDts then 3 else if hasPts then 2 else if hasDts then 1 else 0)"

definition BuildPesPacket :: "byte \<Rightarrow> bytes \<Rightarrow> go_time \<Rightarrow> go_time \<Rightarrow> bytes" where
  "BuildPesPacket streamID payload pts dts =
     (let hasPts = (pts \<noteq> None); hasDts = (dts \<noteq> None);
          optionalHeaderLen = (if hasPts then 5 else 0) + (if hasDts then 5 else 0);
          declared = (3 + optionalHeaderLen + length payload) mod 2 ^ 32;
          packetLen = (if (optionalHeaderLen > 0 \<or> length payload > 0) \<and> declared \<le> 65535 then declared else 0)
      in [0, 0, 1, streamID] @ put16 packetLen
         @ [push_bit 6 (pts_flags hasPts hasDts), of_nat optionalHeaderLen]
         @ (if hasPts then encodePtsDts (timeTo90kHz pts) (if hasDts then 3 else 2) else [])
         @ (if hasDts then encodePtsDts (timeTo90kHz dts) 1 else [])
         @ [0] @ payload)"

definition maxPESChunkBytes :: nat where "maxPESChunkBytes = 65000"

text \<open>The concatenation of the NAL units: a four-byte start code first, three-byte codes after it.\<close>

definition annexB_payload :: "bytes list \<Rightarrow> bytes" where
  "annexB_payload nalus =
     (case nalus of [] \<Rightarrow> [] | n # ns \<Rightarrow> [0, 0, 0, 1] @ n @ concat (map (\<lambda>n. [0, 0, 1] @ n) ns))"

text \<open>The loop over the chunks.\<close>

function chunk_loop :: "bytes \<Rightarrow> go_time \<Rightarrow> go_time \<Rightarrow> nat \<Rightarrow> bytes \<Rightarrow> bytes" where
  "chunk_loop payload pts dts start ps =
     (let end' = (if start + maxPESChunkBytes > length payload then length payload else start + maxPESChunkBytes);
          ps = (if start = 0 then ps @ BuildPesPacket 0xE0 (take end' payload) pts dts
                else ps @ BuildPesPacket 0xE0 (drop start (take end' payload)) None None)
      in if end' = length payload then ps else chunk_loop payload pts dts (start + maxPESChunkBytes) ps)"
  by pat_completeness auto
termination
  by (relation "measure (\<lambda>(payload, pts, dts, start, ps). length payload - start)")
    (auto simp: maxPESChunkBytes_def split: if_splits)

declare chunk_loop.simps [simp del]

definition MuxH264ToPS :: "bytes list \<Rightarrow> bool \<Rightarrow> go_time \<Rightarrow> go_time \<Rightarrow> bytes" where
  "MuxH264ToPS nalus isKeyFrame pts dts =
     (let pts90k = timeTo90kHz pts;
          ps = BuildPsPackHeader (pts90k * 300) 10000;
          ps = (if isKeyFrame then ps @ BuildProgramStreamMap else ps)
      in chunk_loop (annexB_payload nalus) pts dts 0 ps)"

subsection \<open>The packets as a list\<close>

lemma length_encodePtsDts [simp]: "length (encodePtsDts v p) = 5"
  by (simp add: encodePtsDts_def)

lemma odd_or_1: "(x :: byte) OR 1 \<noteq> 0"
proof
  assume "x OR 1 = 0"
  then have "bit (x OR 1) 0 = bit (0 :: byte) 0" by simp
  then show False by (simp add: bit_or_iff bit_1_iff)
qed

text \<open>A stream cut behind its first chunk: the first packet has the timestamps, the others have none.\<close>

lemma chunk_loop_tail:
  assumes "0 < start" and "start < length payload"
  shows "chunk_loop payload pts dts start ps =
    ps @ concat (map (\<lambda>c. BuildPesPacket 0xE0 c None None) (chunks maxPESChunkBytes (drop start payload)))"
  using assms
proof (induction "length payload - start" arbitrary: start ps rule: less_induct)
  case less
  have mx: "0 < maxPESChunkBytes" by (simp add: maxPESChunkBytes_def)
  have ch: "chunks maxPESChunkBytes (drop start payload) = take maxPESChunkBytes (drop start payload)
      # chunks maxPESChunkBytes (drop (start + maxPESChunkBytes) payload)"
    using less.prems mx by (simp add: chunks_step add.commute)
  show ?case
  proof (cases "start + maxPESChunkBytes < length payload")
    case True
    then show ?thesis
      using less.hyps [of "start + maxPESChunkBytes"] less.prems mx ch
      by (subst chunk_loop.simps) (simp add: Let_def take_drop add.commute)
  next
    case False
    then have "chunks maxPESChunkBytes (drop (start + maxPESChunkBytes) payload) = []"
      using chunks_eq_Nil [OF mx] by simp
    then show ?thesis using False less.prems ch
      by (subst chunk_loop.simps) (auto simp: Let_def take_drop add.commute not_less)
  qed
qed

lemma chunk_loop_all:
  "chunk_loop payload pts dts 0 ps = ps @ BuildPesPacket 0xE0 (take maxPESChunkBytes payload) pts dts
     @ concat (map (\<lambda>c. BuildPesPacket 0xE0 c None None) (chunks maxPESChunkBytes (drop maxPESChunkBytes payload)))"
proof (cases "maxPESChunkBytes < length payload")
  case True
  then show ?thesis using chunk_loop_tail [of maxPESChunkBytes payload pts dts]
    by (subst chunk_loop.simps) (simp add: Let_def maxPESChunkBytes_def)
next
  case False
  then have "chunks maxPESChunkBytes (drop maxPESChunkBytes payload) = []"
    using chunks_eq_Nil [of maxPESChunkBytes] by (simp add: maxPESChunkBytes_def)
  then show ?thesis using False
    by (subst chunk_loop.simps) (auto simp: Let_def not_less)
qed

subsection \<open>One packet through the parser\<close>

text \<open>The optional header fields of a packet, and its bytes for a payload within the chunk size.\<close>

definition stamps :: "go_time \<Rightarrow> go_time \<Rightarrow> bytes" where
  "stamps pts dts =
     (if pts \<noteq> None then encodePtsDts (timeTo90kHz pts) (if dts \<noteq> None then 3 else 2) else [])
     @ (if dts \<noteq> None then encodePtsDts (timeTo90kHz dts) 1 else [])"

lemma length_stamps: "length (stamps pts dts) = (if pts \<noteq> None then 5 else 0) + (if dts \<noteq> None then 5 else 0)"
  by (simp add: stamps_def)

lemma device_pes_shape:
  assumes "length p \<le> maxPESChunkBytes" and "p \<noteq> []"
  shows "BuildPesPacket 0xE0 p pts dts = [0, 0, 1, 0xE0] @ put16 (3 + length (stamps pts dts) + length p)
    @ [push_bit 6 (pts_flags (pts \<noteq> None) (dts \<noteq> None)), of_nat (length (stamps pts dts))] @ stamps pts dts @ [0] @ p"
  using assms unfolding BuildPesPacket_def Let_def length_stamps
  by (auto simp: stamps_def maxPESChunkBytes_def)

lemma length_device_pes:
  assumes "length p \<le> maxPESChunkBytes" and "p \<noteq> []"
  shows "length (BuildPesPacket 0xE0 p pts dts) = 9 + length (stamps pts dts) + length p"
  unfolding device_pes_shape [OF assms] by simp

text \<open>The marker bits keep zero bytes apart, and the first field byte is too large for a header length.\<close>

lemma stamps_nonzero:
  "i < length (stamps pts dts) \<Longrightarrow> i mod 5 \<in> {0, 2, 4} \<Longrightarrow> stamps pts dts ! i \<noteq> 0"
proof -
  assume i: "i < length (stamps pts dts)" "i mod 5 \<in> {0, 2, 4}"
  have enc: "encodePtsDts v q ! j \<noteq> 0" if "j \<in> {0, 2, 4}" for v q j
    using that odd_or_1 odd_or_1 [of "push_bit 4 q OR ucast (push_bit 1 (drop_bit 30 v AND 0x07))"]
    unfolding encodePtsDts_def or.assoc by auto
  have "i < 10" using i(1) by (auto simp: length_stamps split: if_splits)
  then consider "i < 5" | "5 \<le> i" "i < 10" by linarith
  then show ?thesis
  proof cases
    case 1
    then show ?thesis using i enc [of i] by (auto simp: stamps_def nth_append split: if_splits)
  next
    case 2
    then have "i - 5 = i mod 5" by (auto simp: mod_if)
    then show ?thesis using i 2 enc [of "i - 5"] by (auto simp: stamps_def nth_append split: if_splits)
  qed
qed

lemma prefix_byte:
  "unat (push_bit 4 q OR x OR 1 :: byte) \<ge> unat (push_bit 4 q)"
proof -
  have "push_bit 4 q AND (push_bit 4 q OR x OR 1) = push_bit 4 q" by (simp add: bit_eq_iff bit_simps)
  then show ?thesis by (metis word_and_le1 word_le_nat_alt)
qed

lemma stamps_first:
  assumes "stamps pts dts \<noteq> []"
  shows "length (stamps pts dts) + 4 < unat (stamps pts dts ! 0)"
  using assms prefix_byte [of 3 "ucast (push_bit 1 (drop_bit 30 (timeTo90kHz pts) AND 0x07))"]
    prefix_byte [of 2 "ucast (push_bit 1 (drop_bit 30 (timeTo90kHz pts) AND 0x07))"]
    prefix_byte [of 1 "ucast (push_bit 1 (drop_bit 30 (timeTo90kHz dts) AND 0x07))"]
  by (auto simp: stamps_def encodePtsDts_def nth_append split: if_splits)

definition four_code :: "bytes \<Rightarrow> bool" where
  "four_code p \<longleftrightarrow> (\<exists>q. p = [0, 0, 0, 1] @ q)"

text \<open>The first start code in the packet is the payload's own.\<close>

lemma device_pes_scan:
  assumes "four_code p" and "ts = stamps pts dts" and "ts \<noteq> []"
    and d: "d = [0, 0, 1, 0xE0, hi, lo, fl, of_nat (length ts)] @ ts @ [0] @ p @ post"
  shows "prefix001 d (10 + length ts)" and "8 \<le> j \<Longrightarrow> j < 10 + length ts \<Longrightarrow> \<not> prefix001 d j"
proof -
  let ?k = "length ts"
  obtain q where q: "p = [0, 0, 0, 1] @ q" using assms(1) by (auto simp: four_code_def)
  have at: "d ! (8 + i) = (ts @ [0] @ p @ post) ! i" for i by (simp add: d)
  have tail: "d ! (8 + ?k) = 0" "d ! (9 + ?k) = 0" "d ! (10 + ?k) = 0" "d ! (11 + ?k) = 0" "d ! (12 + ?k) = 1"
    using at [of ?k] at [of "?k + 1"] at [of "?k + 2"] at [of "?k + 3"] at [of "?k + 4"]
    by (simp_all add: q nth_append add.commute)
  have len: "12 + ?k < length d" by (simp add: d q)
  show "prefix001 d (10 + ?k)" using tail len by (simp add: prefix001_def add.commute)
  show "\<not> prefix001 d j" if j: "8 \<le> j" "j < 10 + ?k"
  proof -
    obtain i where i: "j = 8 + i" using j(1) le_Suc_ex by blast
    consider "i = ?k" | "i = ?k + 1" | "i + 1 = ?k" | "i + 1 < ?k" using j(2) i by linarith
    then show ?thesis
    proof cases
      case 3
      have "length ts = 5 \<or> length ts = 10" using assms(2,3) by (auto simp: length_stamps stamps_def split: if_splits)
      then have "i = 4 \<or> i = 9" using 3 by linarith
      then have "i mod 5 = 4" by auto
      then show ?thesis using stamps_nonzero [of i pts dts] 3 assms(2) at [of i] i by (auto simp: prefix001_def nth_append)
    next
      case 4
      have "i mod 5 \<in> {0, 2, 4} \<or> (i + 1) mod 5 \<in> {0, 2, 4}" by (simp add: mod_Suc) presburger
      then have "ts ! i \<noteq> 0 \<or> ts ! (i + 1) \<noteq> 0"
        using stamps_nonzero [of i pts dts] stamps_nonzero [of "i + 1" pts dts] 4 assms(2) by auto
      then show ?thesis using at [of i] at [of "i + 1"] 4 i by (auto simp: prefix001_def nth_append)
    qed (use tail i in \<open>auto simp: prefix001_def add.commute\<close>)
  qed
qed

text \<open>What the parser takes for the payload: with timestamps the gap byte comes along.\<close>

definition seen_payload :: "go_time \<Rightarrow> go_time \<Rightarrow> bytes \<Rightarrow> bytes" where
  "seen_payload pts dts p = (if stamps pts dts = [] then p else 0 # p)"

lemma parse_device_pes:
  assumes "length p \<le> maxPESChunkBytes" and "p \<noteq> []" and "stamps pts dts \<noteq> [] \<longrightarrow> four_code p"
  shows "parseVideoPES (BuildPesPacket 0xE0 p pts dts @ post)
    = Some (Inr (seen_payload pts dts p, length (BuildPesPacket 0xE0 p pts dts)))"
proof -
  let ?ts = "stamps pts dts" and ?u = "BuildPesPacket 0xE0 p pts dts"
  let ?k = "length ?ts"
  define L where "L = 3 + ?k + length p"
  define d where "d = ?u @ post"
  note shape = device_pes_shape [OF assms(1,2), of pts dts]
  have k: "?k \<le> 10" "unat (of_nat ?k :: byte) = ?k" by (auto simp: length_stamps)
  have L: "L < 65536" "0 < L" using assms(1) k by (auto simp: L_def maxPESChunkBytes_def)
  have n: "length ?u = 6 + L" using length_device_pes [OF assms(1,2)] by (simp add: L_def)
  define fl where "fl = push_bit 6 (pts_flags (pts \<noteq> None) (dts \<noteq> None))"
  have d: "d = [0, 0, 1, 0xE0, of_nat (drop_bit 8 L), of_nat L, fl, of_nat ?k] @ ?ts @ [0] @ p @ post"
    unfolding d_def shape fl_def by (simp add: put16_def L_def)
  have len: "6 + L \<le> length d" "9 \<le> length d" using n by (simp_all add: d_def L_def)
  have lim: "pes_limit d (6 + L) = 6 + L" using len by (simp add: pes_limit_def)
  have "pesPayloadStart d (6 + L) = Some (if ?ts = [] then 9 else 8 + ?k)"
  proof (cases "?ts = []")
    case True
    obtain sc where sc: "sc_scan d (pes_bound d (6 + L)) 8 = Some sc" using sc_scan_total pes_bound_le by blast
    have "d ! 7 = 0" "d ! 8 = 0" "9 \<le> 6 + L" using True by (simp_all add: d L_def)
    then have "pes_std d (6 + L) = 9" "pes_legacy d (6 + L) = 9"
      unfolding pes_std_def pes_legacy_def lim clampPES_def by simp_all
    then show ?thesis using pesPayloadStart_eq [OF len(2) sc] True by (cases sc) simp_all
  next
    case False
    obtain q where q: "p = [0, 0, 0, 1] @ q" using assms(3) False by (auto simp: four_code_def)
    have b8: "d ! 8 = ?ts ! 0" using False by (simp add: d nth_append)
    have big: "?k + 4 < unat (?ts ! 0)" by (rule stamps_first [OF False])
    have p4: "4 \<le> length p" by (simp add: q)
    have leg: "pes_legacy d (6 + L) = 8 + ?k"
    proof -
      have "d ! 7 = of_nat ?k" "0 < ?k" using False by (simp_all add: d)
      then show ?thesis using k(2) unfolding pes_legacy_def lim clampPES_def by (simp add: L_def)
    qed
    have std: "pes_std d (6 + L) = min (6 + L) (9 + unat (?ts ! 0))"
      using b8 by (auto simp: pes_std_def clampPES_def lim)
    note scan = device_pes_scan [of p ?ts pts dts d, OF _ refl False d]
    have fc: "four_code p" using assms(3) False by simp
    have kL: "13 + ?k \<le> 6 + L" using p4 by (simp add: L_def)
    then have "12 + ?k < pes_bound d (6 + L)" using big unfolding pes_bound_def lim leg std by auto
    then have sc: "sc_scan d (pes_bound d (6 + L)) 8 = Some (Some (10 + ?k))"
      using scan [OF fc] pes_bound_le [of d "6 + L"] by (intro sc_scan_Some) auto
    have "near (10 + ?k) (pes_legacy d (6 + L)) < near (10 + ?k) (pes_std d (6 + L))"
      unfolding leg std using kL big by (auto simp: near_def)
    then show ?thesis using pesPayloadStart_eq [OF len(2) sc] leg False by simp
  qed
  then have "parseVideoPES d = Some (Inr (drop (if ?ts = [] then 9 else 8 + ?k) (take (6 + L) d), 6 + L))"
  proof (rule parseVideoPES_bounded [rotated 6])
    have "d ! 4 = of_nat (drop_bit 8 L)" "d ! 5 = of_nat L" by (simp_all add: d)
    then show "be16 (d ! 4) (d ! 5) = L" using put16_be16_hi_lo [OF L(1)] by simp
    show "(if ?ts = [] then 9 else 8 + ?k) \<le> 6 + L" by (simp add: L_def)
  qed (use L(2) len in \<open>simp_all add: d prefix001_def is_video_id_def ps_consts\<close>)
  moreover have "take (6 + L) d = ?u" unfolding d_def using n by simp
  moreover have d8: "drop 8 ?u = ?ts @ 0 # p" unfolding shape by (simp add: put16_def)
  have "drop (?k + 8) ?u = 0 # p" using d8 by (simp flip: drop_drop)
  moreover have "?ts = [] \<Longrightarrow> drop (1 + 8) ?u = p" using d8 by (simp only: drop_drop [symmetric]) simp
  ultimately show ?thesis
    unfolding d_def [symmetric] n by (auto simp: seen_payload_def add.commute)
qed

subsection \<open>The packets through the feed loop\<close>

lemma feed_loop_device_pes:
  assumes "drop off data = BuildPesPacket 0xE0 p pts dts @ post" and "stamps pts dts \<noteq> [] \<longrightarrow> four_code p"
    and "p \<noteq> []" and "length p \<le> maxPESChunkBytes" and "length (d_esBuf d) + length p + 1 \<le> maxESBufBytes"
  shows "\<exists>d'. feed_loop d data off t = feed_loop d' data (off + length (BuildPesPacket 0xE0 p pts dts)) t
    \<and> bufs d' = bufs (d\<lparr>d_esBuf := d_esBuf d @ seen_payload pts dts p\<rparr>)"
proof -
  let ?u = "BuildPesPacket 0xE0 p pts dts" and ?q = "seen_payload pts dts p"
  have u4: "?u = [0, 0, 1, 0xE0] @ drop 4 ?u" by (subst (1 2) device_pes_shape [OF assms(4,3)]) simp
  have u0: "?u \<noteq> []" using u4 by (metis append_is_Nil_conv list.discI)
  have len: "off + length ?u \<le> length data" by (rule drop_length_le [OF assms(1) u0])
  have off: "off < length data" using len u0 by (metis add_less_le_mono le_add1 length_greater_0_conv less_add_same_cancel1 order_less_le_trans)
  obtain d1 where d1: "establishClockOffset (d\<lparr>d_currentPTS := t\<rparr>) (drop off data) t = Some d1"
    "bufs d1 = bufs (d\<lparr>d_currentPTS := t\<rparr>)" using establishClockOffset_total by blast
  have "parseVideoPES (drop off data) = Some (Inr (?q, length ?u))"
    using parse_device_pes [OF assms(4,3,2)] assms(1) by simp
  moreover have "?q \<noteq> []" using assms(3) by (simp add: seen_payload_def)
  ultimately have "feed_video d data off t = Some (Advance (es_append d1 ?q) (off + length ?u))"
    using feed_video_Inr [of off data ?q "length ?u" d t] d1 off len by simp
  moreover have "drop off data = [0, 0, 1, 0xE0] @ drop 4 ?u @ post" using assms(1) u4 by (metis append_assoc)
  then have "feed_step d data off t = feed_video d data off t"
    using feed_step_head [of off data "0xE0" "drop 4 ?u @ post" d t] off
    by (simp add: is_ps_code_def is_video_id_def is_audio_id_def ps_consts)
  moreover have "length ?q \<le> length p + 1" by (simp add: seen_payload_def)
  then have "length (d_esBuf d1) + length ?q \<le> maxESBufBytes" using assms(5) d1(2) by (simp add: bufs_def)
  then have "es_append d1 ?q = d1\<lparr>d_esBuf := d_esBuf d1 @ ?q\<rparr>" by (rule es_append_small)
  then have "bufs (es_append d1 ?q) = bufs (d\<lparr>d_esBuf := d_esBuf d @ ?q\<rparr>)"
    using d1(2) by (simp add: bufs_def)
  ultimately show ?thesis using feed_loop_advance [OF off] by metis
qed

lemma seen_plain [simp]: "seen_payload None None p = p" "stamps None None = []"
  by (simp_all add: seen_payload_def stamps_def)

lemma feed_loop_device_chunks:
  assumes "drop off data = concat (map (\<lambda>c. BuildPesPacket 0xE0 c None None) cs)"
    and "\<forall>c \<in> set cs. c \<noteq> [] \<and> length c \<le> maxPESChunkBytes"
    and "length (d_esBuf d) + length (concat cs) + 1 \<le> maxESBufBytes"
  shows "\<exists>d'. feed_loop d data off t = Some d' \<and> bufs d' = bufs (d\<lparr>d_esBuf := d_esBuf d @ concat cs\<rparr>)"
  using assms
proof (induction cs arbitrary: off d)
  case Nil
  then show ?case by (simp add: feed_loop_end)
next
  case (Cons c cs)
  let ?k = "length (BuildPesPacket 0xE0 c None None)"
  obtain d1 where d1: "feed_loop d data off t = feed_loop d1 data (off + ?k) t"
    "bufs d1 = bufs (d\<lparr>d_esBuf := d_esBuf d @ c\<rparr>)"
    using feed_loop_device_pes [of off data c None None _ d t] Cons.prems by auto
  have "drop (off + ?k) data = concat (map (\<lambda>c. BuildPesPacket 0xE0 c None None) cs)"
    using arg_cong [OF Cons.prems(1), of "drop ?k"] by (simp add: add.commute)
  moreover have es: "d_esBuf d1 = d_esBuf d @ c" using d1(2) by (simp add: bufs_def)
  ultimately obtain d2 where "feed_loop d1 data (off + ?k) t = Some d2"
    "bufs d2 = bufs (d1\<lparr>d_esBuf := d_esBuf d1 @ concat cs\<rparr>)"
    using Cons.IH [of "off + ?k" d1] Cons.prems by auto
  then show ?case using d1 es by (auto simp: bufs_def)
qed

lemma feed_step_device_pack:
  assumes "drop off data = BuildPsPackHeader scr rate @ post" and "post = [] \<or> hd post = 0"
  shows "feed_step d data off t = Some (Advance d (off + 14))"
proof -
  let ?h = "BuildPsPackHeader scr rate"
  have h: "length ?h = 14" "?h ! 13 = 0xF8" "take 4 ?h = [0, 0, 1, startCodePack]"
    by (simp_all add: BuildPsPackHeader_def Let_def startCodePack_def)
  have len: "off + 14 \<le> length data"
    using drop_length_le [OF assms(1)] h(1) by (metis list.size(3) zero_neq_numeral)
  have b13: "data ! (off + 13) = 0xF8" using drop_nth [OF assms(1), of 13] len h by simp
  have post: "drop (off + 14) data = post"
    using arg_cong [OF assms(1), of "drop 14"] h(1) by (simp add: add.commute)
  have "data ! (off + 14) AND 7 \<noteq> 7" if "off + 14 < length data"
    using that assms(2) hd_drop_conv_nth [of "off + 14" data] post by auto
  then have "feed_pack d data off = Some (Advance d (off + 14))"
    using len b13 by (simp add: feed_pack_def Let_def)
  moreover have "drop off data = [0, 0, 1, startCodePack] @ drop 4 ?h @ post"
    using assms(1) h(3) by (metis append_assoc append_take_drop_id)
  ultimately show ?thesis
    using feed_step_head [of off data startCodePack] len by (simp add: is_ps_code_def)
qed

lemma feed_step_device_psm:
  assumes "drop off data = BuildProgramStreamMap @ post"
  shows "feed_step d data off t = Some (Advance d (off + 17))"
proof -
  have "drop off data = [0, 0, 1, startCodeSystem] @ put16 (length [1, 0, 0, 0, 4, 0x1B, 0xE0, 0, 0, 0, 0 :: byte])
      @ [1, 0, 0, 0, 4, 0x1B, 0xE0, 0, 0, 0, 0] @ post"
    using assms by (simp add: BuildProgramStreamMap_def startCodeSystem_def put16_def drop_bit_eq_div)
  then have "feed_step d data off t = Some (Advance d (off + 6 + length [1, 0, 0, 0, 4, 0x1B, 0xE0, 0, 0, 0, 0 :: byte]))"
    by (rule feed_step_skip) simp_all
  then show ?thesis by simp
qed

lemma device_stream:
  assumes "nalus \<noteq> []"
  shows "annexB_payload nalus = annexB_stream ((True, hd nalus) # map (Pair False) (tl nalus))"
proof -
  have "annexB_stream (map (Pair False) ns) = concat (map ((@) [0, 0, 1]) ns)" for ns
    by (induction ns) (simp_all add: start_code_def)
  then show ?thesis using assms by (cases nalus) (simp_all add: annexB_payload_def start_code_def)
qed

lemma feed_loop_device_burst:
  assumes "drop off data = BuildPesPacket 0xE0 (take maxPESChunkBytes es) pts dts
      @ concat (map (\<lambda>c. BuildPesPacket 0xE0 c None None) (chunks maxPESChunkBytes (drop maxPESChunkBytes es)))"
    and "four_code es" and "d_esBuf d = []" and "length es + 2 \<le> maxESBufBytes"
  shows "\<exists>d'. feed_loop d data off t = Some d' \<and> bufs d' = bufs (d\<lparr>d_esBuf := seen_payload pts dts es\<rparr>)"
proof -
  let ?n = maxPESChunkBytes
  let ?c = "take ?n es" and ?cs = "chunks ?n (drop ?n es)"
  have all: "es = ?c @ concat ?cs" by (simp add: concat_chunks maxPESChunkBytes_def)
  obtain q where q: "es = [0, 0, 0, 1] @ q" using assms(2) by (auto simp: four_code_def)
  have c: "four_code ?c" "?c \<noteq> []" "length ?c \<le> ?n"
    by (simp_all add: q four_code_def maxPESChunkBytes_def)
  have len: "length es = length ?c + length (concat ?cs)" using all by (metis length_append)
  obtain d1 where d1: "feed_loop d data off t = feed_loop d1 data (off + length (BuildPesPacket 0xE0 ?c pts dts)) t"
    "bufs d1 = bufs (d\<lparr>d_esBuf := d_esBuf d @ seen_payload pts dts ?c\<rparr>)"
  proof -
    have "length (d_esBuf d) + length ?c + 1 \<le> maxESBufBytes" using len assms(3,4) by simp
    then show ?thesis using that feed_loop_device_pes [OF assms(1) _ c(2,3), of d t] c(1) by blast
  qed
  have es1: "d_esBuf d1 = seen_payload pts dts ?c" using d1(2) assms(3) by (simp add: bufs_def)
  have rest: "drop (off + length (BuildPesPacket 0xE0 ?c pts dts)) data = concat (map (\<lambda>c. BuildPesPacket 0xE0 c None None) ?cs)"
    using arg_cong [OF assms(1), of "drop (length (BuildPesPacket 0xE0 ?c pts dts))"] by (simp add: add.commute)
  have bnd: "\<forall>c \<in> set ?cs. c \<noteq> [] \<and> length c \<le> ?n" using chunks_bounds by blast
  have "length (d_esBuf d1) \<le> length ?c + 1" unfolding es1 by (simp add: seen_payload_def)
  then have cap: "length (d_esBuf d1) + length (concat ?cs) + 1 \<le> maxESBufBytes" using len assms(4) by linarith
  obtain d2 where d2: "feed_loop d1 data (off + length (BuildPesPacket 0xE0 ?c pts dts)) t = Some d2"
    "bufs d2 = bufs (d1\<lparr>d_esBuf := d_esBuf d1 @ concat ?cs\<rparr>)"
    using feed_loop_device_chunks [OF rest bnd cap] by blast
  have "d_esBuf d1 @ concat ?cs = seen_payload pts dts es"
    unfolding es1 seen_payload_def using all by simp
  then show ?thesis using d1 d2 assms(3) by (auto simp: bufs_def)
qed

text \<open>The headers in front, then the packets.\<close>

lemma feed_loop_device:
  assumes "data = MuxH264ToPS nalus key pts dts" and "nalus \<noteq> []" and "d_esBuf d = []"
    and "length (annexB_payload nalus) + 2 \<le> maxESBufBytes"
  shows "\<exists>d'. feed_loop d data 0 t = Some d' \<and> bufs d' = bufs (d\<lparr>d_esBuf := seen_payload pts dts (annexB_payload nalus)\<rparr>)"
proof -
  let ?es = "annexB_payload nalus" and ?h = "BuildPsPackHeader (timeTo90kHz pts * 300) 10000"
  define pes where "pes = BuildPesPacket 0xE0 (take maxPESChunkBytes ?es) pts dts
      @ concat (map (\<lambda>c. BuildPesPacket 0xE0 c None None) (chunks maxPESChunkBytes (drop maxPESChunkBytes ?es)))"
  define map17 where "map17 = (if key then BuildProgramStreamMap else [])"
  have fc: "four_code ?es" using assms(2) by (cases nalus) (auto simp: annexB_payload_def four_code_def)
  have data: "data = ?h @ map17 @ pes"
    unfolding assms(1) MuxH264ToPS_def Let_def chunk_loop_all pes_def map17_def by simp
  have h: "length ?h = 14" by (simp add: BuildPsPackHeader_def Let_def)
  have hd0: "pes \<noteq> []" "hd pes = 0" by (simp_all add: pes_def BuildPesPacket_def Let_def)
  have len: "14 < length data" using hd0(1) by (simp add: data h)
  have "hd (map17 @ pes) = 0" using hd0(2) by (simp add: map17_def BuildProgramStreamMap_def)
  then have "feed_step d data 0 t = Some (Advance d 14)"
    using feed_step_device_pack [of 0 data "timeTo90kHz pts * 300" 10000 "map17 @ pes" d t] data by simp
  then have 1: "feed_loop d data 0 t = feed_loop d data 14 t"
    using feed_loop_advance [of 0 data d t d 14] len by linarith
  have d14: "drop 14 data = map17 @ pes" using h by (simp add: data)
  have 2: "feed_loop d data 14 t = feed_loop d data (length map17 + 14) t"
  proof (cases key)
    case True
    then have "feed_step d data 14 t = Some (Advance d (14 + 17))"
      using feed_step_device_psm [of 14 data pes d t] d14 by (simp add: map17_def)
    then show ?thesis using feed_loop_advance [OF len] True by (simp add: map17_def BuildProgramStreamMap_def)
  qed (simp add: map17_def)
  have "drop (length map17 + 14) data = drop (length map17) (drop 14 data)" by simp
  then have "drop (length map17 + 14) data = pes" unfolding d14 by simp
  then show ?thesis
    using feed_loop_device_burst [of "length map17 + 14" data ?es pts dts d t] fc assms(3,4) 1 2 unfolding pes_def by simp
qed

lemma MuxH264ToPS_ne: "MuxH264ToPS nalus key pts dts \<noteq> []"
  unfolding MuxH264ToPS_def Let_def chunk_loop_all by (simp add: BuildPesPacket_def Let_def)

lemma device_FeedAU:
  assumes "au_ready d" and "d_naluType d \<noteq> ''svac''" and "nalus \<noteq> []" and "\<forall>n \<in> set nalus. nal_safe n"
    and "length (annexB_payload nalus) + 2 \<le> maxESBufBytes"
  shows "\<exists>d'. FeedAU d (MuxH264ToPS nalus key pts dts) t True = Some (d', nalus) \<and> au_ready d' \<and> d_naluType d' \<noteq> ''svac''"
proof -
  let ?ps = "MuxH264ToPS nalus key pts dts" and ?d = "clear_pending d"
  let ?es = "annexB_payload nalus"
  define us where "us = (True, hd nalus) # map (Pair False) (tl nalus)"
  have us: "?es = annexB_stream us" "map snd us = nalus" "\<forall>u \<in> set us. nal_safe (snd u)" "us \<noteq> []" "fst (hd us)"
    using assms(3,4) device_stream [OF assms(3)] by (auto simp: us_def o_def dest: list.set_sel(2))
  have es: "d_esBuf ?d = []" "d_naluType ?d = d_naluType d"
    using assms(1) by (auto simp: au_ready_def clear_pending_def)
  obtain d2 where d2: "feed_loop ?d ?ps 0 t = Some d2" "bufs d2 = bufs (?d\<lparr>d_esBuf := seen_payload pts dts ?es\<rparr>)"
    using feed_loop_device [OF refl assms(3) es(1) assms(5)] by blast
  then have b2: "bufs d2 = ([], [], [], seen_payload pts dts ?es, d_naluType d)"
    using es(2) by (simp add: bufs_def clear_pending_def)
  have ex: "extractNALUs (seen_payload pts dts ?es) (d_naluType d) = Some nalus"
    using extractNALUs_stream [OF us(3) assms(2)] extractNALUs_stream_gap [OF us(3) assms(2) us(4,5)] us(1,2)
    by (simp add: seen_payload_def)
  have "?es \<noteq> []" using assms(3) by (cases nalus) (simp_all add: annexB_payload_def)
  then have fin: "feed_finish d2 True = Some (maybeLatchCodecFromNALUs (d2\<lparr>d_esBuf := []\<rparr>) nalus, nalus)"
    using feed_finish_ready [OF b2 _ ex] by (simp add: seen_payload_def)
  have "feed_data d ?ps = ?ps" using assms(1) by (simp add: feed_data_def au_ready_def no_pending_def)
  then have "FeedAU d ?ps t True = Some (maybeLatchCodecFromNALUs (d2\<lparr>d_esBuf := []\<rparr>) nalus, nalus)"
    using d2 fin MuxH264ToPS_ne [of nalus key pts dts] by (simp add: FeedAU_def)
  then show ?thesis
    using b2 assms(2) maybeLatch_codec [of "d2\<lparr>d_esBuf := []\<rparr>" nalus]
    by (auto simp: au_ready_def no_pending_def maybeLatch_bufs bufs_def)
qed

record device_au =
  da_nalus :: "bytes list"
  da_key :: bool
  da_pts :: go_time
  da_dts :: go_time

definition device_au_ok :: "device_au \<Rightarrow> bool" where
  "device_au_ok au \<longleftrightarrow> da_nalus au \<noteq> [] \<and> (\<forall>n \<in> set (da_nalus au). nal_safe n)
     \<and> length (annexB_payload (da_nalus au)) + 2 \<le> maxESBufBytes"

definition device_mux :: "device_au \<Rightarrow> bytes" where
  "device_mux au = MuxH264ToPS (da_nalus au) (da_key au) (da_pts au) (da_dts au)"

lemma device_session:
  assumes "au_ready d" and "d_naluType d \<noteq> ''svac''" and "\<forall>au \<in> set aus. device_au_ok au" and "length ts = length aus"
  shows "feed_session d (zip (map device_mux aus) ts) = Some (map da_nalus aus)"
  using assms
proof (induction aus arbitrary: d ts)
  case (Cons au aus)
  obtain t ts' where ts: "ts = t # ts'" using Cons.prems(4) by (cases ts) auto
  have ok: "device_au_ok au" using Cons.prems(3) by simp
  obtain d' where "FeedAU d (device_mux au) t True = Some (d', da_nalus au)" "au_ready d'" "d_naluType d' \<noteq> ''svac''"
    using device_FeedAU [OF Cons.prems(1,2), of "da_nalus au" "da_key au" "da_pts au" "da_dts au" t] ok
    by (auto simp: device_au_ok_def device_mux_def)
  then show ?case using Cons.IH [of d' ts'] Cons.prems ts by simp
qed simp

subsection \<open>Properties\<close>

text \<open>
  C3: Media from the device library reaches the platform library. Access units that a device packs with
  \<open>MuxH264ToPS\<close> (keyframe or not, with or without timestamps, split over as many PES packets as
  needed, in its own header layout and without a program stream map the platform recognises) come out of
  successive \<open>FeedAU\<close> calls of one demuxer as exactly their NAL units, and nothing panics.
\<close>

theorem device_platform_roundtrip:
  assumes "\<forall>au \<in> set aus. device_au_ok au" and "length ts = length aus"
  shows "feed_session NewPSDemuxer (zip (map device_mux aus) ts) = Some (map da_nalus aus)"
  using device_session [OF _ _ assms, of NewPSDemuxer] au_ready_New by simp

theorem device_platform_roundtrip_witness:
  "feed_session NewPSDemuxer
     [(MuxH264ToPS [[0x67, 0x42], [0x65, 0x88]] True (Some 1700000000000000000) (Some 1700000000000000000), 9),
      (MuxH264ToPS [[0x41, 0x9A]] False (Some 1700000000040000000) None, 18)]
   = Some [[[0x67, 0x42], [0x65, 0x88]], [[0x41, 0x9A]]]"
  using device_platform_roundtrip [of
      "[\<lparr>da_nalus = [[0x67, 0x42], [0x65, 0x88]], da_key = True, da_pts = Some 1700000000000000000, da_dts = Some 1700000000000000000\<rparr>,
        \<lparr>da_nalus = [[0x41, 0x9A]], da_key = False, da_pts = Some 1700000000040000000, da_dts = None\<rparr>]" "[9, 18]"]
  by (simp add: device_au_ok_def device_mux_def annexB_payload_def nal_safe_def prefix001_def maxESBufBytes_def)

text \<open>
  The device clock. Up to 2049638230412172401 nanoseconds after the epoch (December 2034) the
  conversion to 90 kHz ticks is the exact rounded-down quotient and therefore monotonic; one nanosecond
  later the 64-bit product wraps and the clock jumps back to zero, although the comment calls the
  mapping monotonic by construction.
\<close>

theorem device_clock_exact:
  assumes "n \<le> m" and "m \<le> 2049638230412172401"
  shows "unat (timeTo90kHz (Some (of_nat m))) = 9 * m div 100000
    \<and> timeTo90kHz (Some (of_nat n)) \<le> timeTo90kHz (Some (of_nat m))
    \<and> timeTo90kHz (Some 2049638230412172402) = 0"
proof -
  have exact: "unat (timeTo90kHz (Some (of_nat k))) = 9 * k div 100000" if "k \<le> 2049638230412172401" for k
  proof -
    have "unat (of_nat k * 9 :: u64) = 9 * k"
      using that by (simp add: unat_mult_lem [THEN iffD1] unat_of_nat take_bit_nat_eq_self unat_word_ariths)
    then show ?thesis by (simp add: timeTo90kHz_def unat_div)
  qed
  then show ?thesis using assms exact [of n] exact [of m] div_le_mono [of "9 * n" "9 * m" 100000]
    by (simp add: word_le_nat_alt timeTo90kHz_def)
qed

theorem device_clock_exact_witness:
  "timeTo90kHz (Some (of_nat 1700000000000000000)) \<le> timeTo90kHz (Some (of_nat 1700000000040000000))"
  using device_clock_exact [of 1700000000000000000 1700000000040000000] by simp

end
