(* ===== verification/Device_Push.thy ===== *)
theory Device_Push
  imports Rtp_Send Rtp_Receiver Device_Ps
begin

text \<open>
  The device-side RTP pusher of \<open>src/device/rtp_pusher.go\<close>, and the two TCP framings (the \<open>$\<close> framing
  it writes and the RFC 4571 framing of \<open>src/psmux/rtp.go\<close>) against the reader of
  \<open>src/platform/rtp.go\<close>. As for the packetizer, \<open>wr\<close> says whether a write succeeds after those made so
  far, \<open>marshal\<close> is the \<open>pion/rtp\<close> marshaller and \<open>ext_ok\<close> the success of \<open>SetExtension\<close>.
\<close>

subsection \<open>The pusher\<close>

record rtp_pusher =
  rp_tcp :: bool
  rp_seqNum :: u16
  rp_encryptor :: "(bytes \<Rightarrow> u32 \<Rightarrow> u16 \<Rightarrow> bytes) option"
  rp_signer :: "(bytes \<Rightarrow> u32 \<Rightarrow> u32 \<Rightarrow> bytes option option) option"
  rp_out :: "bytes list"
  rp_bytesOut :: int

text \<open>The initial sequence number is the low half-word of the clock.\<close>

definition NewRtpPusher :: "i64 \<Rightarrow> rtp_pusher" where
  "NewRtpPusher nanos =
     \<lparr>rp_tcp = False, rp_seqNum = ucast (nanos AND 0xFFFF), rp_encryptor = None, rp_signer = None,
      rp_out = [], rp_bytesOut = 0\<rparr>"

definition SetPayloadEncryptor where
  "SetPayloadEncryptor rp fn = rp\<lparr>rp_encryptor := fn\<rparr>"

definition SetAUSigner where
  "SetAUSigner rp fn = rp\<lparr>rp_signer := fn\<rparr>"

definition ZeroSecurity :: "rtp_pusher \<Rightarrow> rtp_pusher" where
  "ZeroSecurity rp = rp\<lparr>rp_encryptor := None, rp_signer := None\<rparr>"

definition SetTCPConn :: "rtp_pusher \<Rightarrow> bool \<Rightarrow> rtp_pusher" where
  "SetTCPConn rp conn = rp\<lparr>rp_tcp := conn\<rparr>"

definition BuildRtpPacket where
  "BuildRtpPacket marshal payload marker ssrc seqNum timestamp =
     (case marshal \<lparr>ro_payloadType = 96, ro_marker = marker, ro_seq = seqNum, ro_timestamp = timestamp, ro_ssrc = ssrc,
                    ro_ext = None, ro_payload = payload\<rparr> of
        None \<Rightarrow> Inl ErrMarshal | Some buf \<Rightarrow> Inr buf)"

definition BuildRtpPacketWithExtension where
  "BuildRtpPacketWithExtension marshal ext_ok payload marker ssrc seqNum timestamp ext =
     (if \<not> ext_ok ext then Inl ErrExtension
      else case marshal \<lparr>ro_payloadType = 96, ro_marker = marker, ro_seq = seqNum, ro_timestamp = timestamp, ro_ssrc = ssrc,
                         ro_ext = Some ext, ro_payload = payload\<rparr> of
        None \<Rightarrow> Inl ErrMarshal | Some buf \<Rightarrow> Inr buf)"

text \<open>The frame \<open>writeRTPOverTCP\<close> writes.\<close>

definition dollar_frame :: "bytes \<Rightarrow> bytes" where
  "dollar_frame pkt = [0x24, 0] @ put16 (length pkt) @ pkt"

definition rtpMtu :: nat where "rtpMtu = 1400"

definition fragment_bytes :: "rtp_pusher \<Rightarrow> u32 \<Rightarrow> bytes \<Rightarrow> bytes" where
  "fragment_bytes rp ssrc frag =
     (case rp_encryptor rp of None \<Rightarrow> frag | Some c \<Rightarrow> c frag ssrc (rp_seqNum rp))"

function frame_loop where
  "frame_loop wr marshal ext_ok rp psData ssrc timestamp auSig fragmentIndex offset =
     (if offset < length psData
      then let end' = (if offset + rtpMtu > length psData then length psData else offset + rtpMtu);
               fragment = fragment_bytes rp ssrc (drop offset (take end' psData));
               marker = (fragmentIndex + 1 = (length psData + rtpMtu - 1) div rtpMtu);
               built = (case (marker, auSig) of
                  (True, Some sig) \<Rightarrow> BuildRtpPacketWithExtension marshal ext_ok fragment marker ssrc (rp_seqNum rp) timestamp sig
                | _ \<Rightarrow> BuildRtpPacket marshal fragment marker ssrc (rp_seqNum rp) timestamp)
           in case built of
                Inl e \<Rightarrow> (rp, Some e)
              | Inr rtpBuf \<Rightarrow>
                  let data = (if rp_tcp rp then dollar_frame rtpBuf else rtpBuf) in
                  if wr (rp_out rp) data
                  then frame_loop wr marshal ext_ok (rp\<lparr>rp_seqNum := rp_seqNum rp + 1, rp_out := rp_out rp @ [data]\<rparr>)
                         psData ssrc timestamp auSig (fragmentIndex + 1) end'
                  else (rp, Some ErrSend)
      else (rp\<lparr>rp_bytesOut := rp_bytesOut rp + int (length psData)\<rparr>, None))"
  by pat_completeness auto
termination
  by (relation "measure (\<lambda>(wr, m, e, rp, ps, ssrc, ts, sig, i, off). length ps - off)") (auto simp: rtpMtu_def)

declare frame_loop.simps [simp del]

definition SendFrame where
  "SendFrame wr marshal ext_ok rp psData pts ssrc =
     (let timestamp = ucast (timeTo90kHz pts) in
      case rp_signer rp of
        None \<Rightarrow> frame_loop wr marshal ext_ok rp psData ssrc timestamp None 0 0
      | Some signer \<Rightarrow>
          (case signer psData ssrc timestamp of
             None \<Rightarrow> (rp, Some ErrSign)
           | Some sig \<Rightarrow> frame_loop wr marshal ext_ok rp psData ssrc timestamp sig 0 0))"

subsection \<open>The burst of a frame\<close>

text \<open>The packets of a frame: numbered fragments, the marker and the signature on the last.\<close>

definition push_packet :: "rtp_pusher \<Rightarrow> u32 \<Rightarrow> u32 \<Rightarrow> bytes option \<Rightarrow> u16 \<times> bool \<times> bytes \<Rightarrow> rtp_out" where
  "push_packet rp ssrc ts sig = (\<lambda>(s, m, f).
     \<lparr>ro_payloadType = 96, ro_marker = m, ro_seq = s, ro_timestamp = ts, ro_ssrc = ssrc,
      ro_ext = (if m then sig else None),
      ro_payload = (case rp_encryptor rp of None \<Rightarrow> f | Some c \<Rightarrow> c f ssrc s)\<rparr>)"

definition push_wire :: "rtp_pusher \<Rightarrow> bytes \<Rightarrow> bytes" where
  "push_wire rp pkt = (if rp_tcp rp then dollar_frame pkt else pkt)"

lemma push_packet_upd:
  "push_packet (rp\<lparr>rp_seqNum := x, rp_out := y\<rparr>) = push_packet rp" "push_wire (rp\<lparr>rp_seqNum := x, rp_out := y\<rparr>) = push_wire rp"
  by (simp_all add: push_packet_def push_wire_def fun_eq_iff)

lemma frame_loop_frags:
  assumes "\<And>out pkt. wr out pkt" and "\<And>p. marshal p = Some (ser p)" and "\<And>s. ext_ok s"
  shows "off \<le> length ps \<Longrightarrow> i + length (chunks rtpMtu (drop off ps)) = (length ps + rtpMtu - 1) div rtpMtu \<Longrightarrow>
    frame_loop wr marshal ext_ok rp ps ssrc ts sig i off =
      (rp\<lparr>rp_seqNum := rp_seqNum rp + of_nat (length (chunks rtpMtu (drop off ps))),
          rp_out := rp_out rp @ map (push_wire rp \<circ> ser \<circ> push_packet rp ssrc ts sig)
            (number_frags (rp_seqNum rp) (chunks rtpMtu (drop off ps))),
          rp_bytesOut := rp_bytesOut rp + int (length ps)\<rparr>, None)"
proof (induction "length ps - off" arbitrary: rp off i rule: less_induct)
  case less
  have mtu: "0 < rtpMtu" by (simp add: rtpMtu_def)
  show ?case
  proof (cases "off < length ps")
    case False
    then show ?thesis by (subst frame_loop.simps) simp
  next
    case True
    define e where "e = (if off + rtpMtu > length ps then length ps else off + rtpMtu)"
    define f where "f = take rtpMtu (drop off ps)"
    have e: "e \<le> length ps" "off < e" "drop e ps = drop rtpMtu (drop off ps)"
      using True mtu by (auto simp: e_def add.commute)
    have ch: "chunks rtpMtu (drop off ps) = f # chunks rtpMtu (drop e ps)"
      using True mtu e(3) by (simp add: chunks_step f_def)
    have f: "drop off (take e ps) = f" by (auto simp: e_def f_def take_drop add.commute)
    have mk: "(i + 1 = (length ps + rtpMtu - 1) div rtpMtu) = (chunks rtpMtu (drop e ps) = [])"
    proof -
      have "i + 1 + length (chunks rtpMtu (drop e ps)) = (length ps + rtpMtu - 1) div rtpMtu"
        using less.prems(2) ch by simp
      then have "(i + 1 = (length ps + rtpMtu - 1) div rtpMtu) = (length (chunks rtpMtu (drop e ps)) = 0)" by linarith
      then show ?thesis by (simp only: length_0_conv)
    qed
    let ?m = "chunks rtpMtu (drop e ps) = []"
    define pkt where "pkt = push_wire rp (ser (push_packet rp ssrc ts sig (rp_seqNum rp, ?m, f)))"
    let ?rp = "rp\<lparr>rp_seqNum := rp_seqNum rp + 1, rp_out := rp_out rp @ [pkt]\<rparr>"
    have built: "(case (?m, sig) of
          (True, Some sg) \<Rightarrow> BuildRtpPacketWithExtension marshal ext_ok (fragment_bytes rp ssrc f) ?m ssrc (rp_seqNum rp) ts sg
        | _ \<Rightarrow> BuildRtpPacket marshal (fragment_bytes rp ssrc f) ?m ssrc (rp_seqNum rp) ts)
        = Inr (ser (push_packet rp ssrc ts sig (rp_seqNum rp, ?m, f)))"
      using assms(2,3) by (cases ?m; cases sig)
        (simp_all add: BuildRtpPacketWithExtension_def BuildRtpPacket_def push_packet_def fragment_bytes_def)
    have step: "frame_loop wr marshal ext_ok rp ps ssrc ts sig i off = frame_loop wr marshal ext_ok ?rp ps ssrc ts sig (i + 1) e"
      unfolding frame_loop.simps [of wr marshal ext_ok rp ps ssrc ts sig i off] Let_def e_def [symmetric] f mk built
      using True assms(1) by (simp add: pkt_def push_wire_def)
    have "length ps - e < length ps - off" using e True by linarith
    moreover have "i + 1 + length (chunks rtpMtu (drop e ps)) = (length ps + rtpMtu - 1) div rtpMtu"
      using less.prems(2) ch by simp
    ultimately show ?thesis
      unfolding step using less.hyps [of e "i + 1" ?rp] e(1) by (simp add: ch pkt_def push_packet_upd)
  qed
qed

lemma SendFrame_burst:
  assumes "\<And>out pkt. wr out pkt" and "\<And>p. marshal p = Some (ser p)" and "\<And>s. ext_ok s" and "rp_signer rp = None"
  shows "SendFrame wr marshal ext_ok rp ps pts ssrc =
      (rp\<lparr>rp_seqNum := rp_seqNum rp + of_nat (length (chunks rtpMtu ps)),
          rp_out := rp_out rp @ map (push_wire rp \<circ> ser \<circ> push_packet rp ssrc (ucast (timeTo90kHz pts)) None)
            (number_frags (rp_seqNum rp) (chunks rtpMtu ps)),
          rp_bytesOut := rp_bytesOut rp + int (length ps)\<rparr>, None)"
  using frame_loop_frags [of wr marshal ser ext_ok 0 ps 0 rp ssrc "ucast (timeTo90kHz pts)" None] assms
    length_chunks [of rtpMtu ps]
  by (simp add: SendFrame_def rtpMtu_def)

subsection \<open>Reading the stream back\<close>

text \<open>The reader called repeatedly, until it has \<open>n\<close> packets or fails.\<close>

fun read_packets :: "nat \<Rightarrow> tcpMode \<Rightarrow> bytes \<Rightarrow> tcpMode \<times> (tcp_error + bytes list \<times> bytes)" where
  "read_packets 0 mode stream = (mode, Inr ([], stream))"
| "read_packets (Suc n) mode stream =
     (case readTCP mode stream of
        (mode, Inl e) \<Rightarrow> (mode, Inl e)
      | (mode, Inr (pkt, rest)) \<Rightarrow>
          (case read_packets n mode rest of
             (mode, Inl e) \<Rightarrow> (mode, Inl e)
           | (mode, Inr (pkts, rest)) \<Rightarrow> (mode, Inr (pkt # pkts, rest))))"

lemma read_full_append: "length xs = n \<Longrightarrow> read_full n (xs @ ys) = Some (xs, ys)"
  by (simp add: read_full_def)

lemma readTCP_dollar:
  assumes "pkt \<noteq> []" and "length pkt < 65536" and "mode \<in> {TCPModeAuto, TCPMode0x24}"
  shows "readTCP mode (dollar_frame pkt @ rest) = (TCPMode0x24, Inr (pkt, rest))"
proof -
  have "read_header mode (dollar_frame pkt @ rest) = (TCPMode0x24, Some (put16 (length pkt), pkt @ rest))"
    using assms(3) by (auto simp: read_header_def dollar_frame_def read_full_def put16_def)
  then show ?thesis using assms(1,2) put16_be16 [OF assms(2)]
    by (simp add: readTCP_def Let_def rtpReadBufSize_def read_full_append)
qed

lemma readTCP_rfc4571:
  assumes "pkt \<noteq> []" and "length pkt < 65536" and "mode = TCPModeRFC4571 \<or> mode = TCPModeAuto \<and> length pkt div 256 \<noteq> 0x24"
  shows "readTCP mode (put16 (length pkt) @ pkt @ rest) = (TCPModeRFC4571, Inr (pkt, rest))"
proof -
  have hi: "(of_nat (drop_bit 8 (length pkt)) :: byte) = 0x24 \<Longrightarrow> length pkt div 256 = 0x24"
  proof -
    assume "(of_nat (drop_bit 8 (length pkt)) :: byte) = 0x24"
    then have "unat (of_nat (length pkt div 256) :: byte) = unat (0x24 :: byte)" by (simp add: drop_bit_eq_div)
    then show ?thesis using assms(2) by (simp add: unat_of_nat take_bit_nat_eq_self)
  qed
  have "read_header mode (put16 (length pkt) @ pkt @ rest) = (TCPModeRFC4571, Some (put16 (length pkt), pkt @ rest))"
    using assms(3) hi by (auto simp: read_header_def read_full_def put16_def)
  then show ?thesis using assms(1,2) put16_be16 [OF assms(2)]
    by (simp add: readTCP_def Let_def rtpReadBufSize_def read_full_append)
qed

lemma read_dollar_stream:
  "\<forall>p \<in> set pkts. p \<noteq> [] \<and> length p < 65536 \<Longrightarrow> mode \<in> {TCPModeAuto, TCPMode0x24} \<Longrightarrow>
     snd (read_packets (length pkts) mode (concat (map dollar_frame pkts) @ rest)) = Inr (pkts, rest)"
proof (induction pkts arbitrary: mode)
  case (Cons p pkts)
  have "readTCP mode (dollar_frame p @ concat (map dollar_frame pkts) @ rest)
      = (TCPMode0x24, Inr (p, concat (map dollar_frame pkts) @ rest))"
    using readTCP_dollar Cons.prems by simp
  moreover have "snd (read_packets (length pkts) TCPMode0x24 (concat (map dollar_frame pkts) @ rest)) = Inr (pkts, rest)"
    using Cons by simp
  ultimately show ?case by (auto split: prod.splits sum.splits)
qed simp

lemma read_rfc4571_stream:
  "\<forall>p \<in> set pkts. p \<noteq> [] \<and> length p < 65536 \<Longrightarrow>
     mode = TCPModeRFC4571 \<or> mode = TCPModeAuto \<and> (pkts \<noteq> [] \<longrightarrow> length (hd pkts) div 256 \<noteq> 0x24) \<Longrightarrow>
     snd (read_packets (length pkts) mode (concat (map (\<lambda>p. put16 (length p) @ p) pkts) @ rest)) = Inr (pkts, rest)"
proof (induction pkts arbitrary: mode)
  case (Cons p pkts)
  let ?r = "concat (map (\<lambda>p. put16 (length p) @ p) pkts) @ rest"
  have "readTCP mode (put16 (length p) @ p @ ?r) = (TCPModeRFC4571, Inr (p, ?r))"
    using readTCP_rfc4571 [of p mode ?r] Cons.prems by auto
  moreover have "snd (read_packets (length pkts) TCPModeRFC4571 ?r) = Inr (pkts, rest)" using Cons by simp
  ultimately show ?case by (auto split: prod.splits sum.splits)
qed simp

lemma plain_packets_bounds:
  assumes "q \<in> set (plain_packets p ps ts)"
  shows "12 < length q" and "length q \<le> 1412"
proof -
  obtain i where "i < length (frags ps)" and q: "length q = 12 + length (frags ps ! i)"
    using assms by (auto simp: plain_packets_def number_frags_nth plain_header_def)
  then have "frags ps ! i \<in> set (frags ps)" by simp
  then have "frags ps ! i \<noteq> [] \<and> length (frags ps ! i) \<le> 1400"
    using chunks_bounds [of _ RTPMTU ps] by (auto simp: frags_def RTPMTU_def)
  then show "12 < length q" "length q \<le> 1412" using q by auto
qed

subsection \<open>Properties\<close>

text \<open>
  RTP over TCP survives its framing. The bytes a device's pusher writes for a frame with the \<open>$\<close>
  framing, and the bytes the packetizer writes with the RFC 4571 framing, are read back by the
  platform's reader, which detects the framing by itself, as exactly the packets that were written, in
  order and with nothing left over.
\<close>

theorem tcp_framing_roundtrip:
  assumes "\<And>out pkt. wr out pkt" and "\<And>p. marshal p = Some (ser p)" and "\<And>s. ext_ok s"
    and "\<And>p. ser p \<noteq> [] \<and> length (ser p) < 65536"
    and "rp_tcp rp" and "rp_signer rp = None" and "rp_out rp = []"
  shows "snd (read_packets (length (chunks 1400 ps)) TCPModeAuto
      (concat (rp_out (fst (SendFrame wr marshal ext_ok rp ps pts ssrc)))))
      = Inr (map (ser \<circ> push_packet rp ssrc (ucast (timeTo90kHz pts)) None) (number_frags (rp_seqNum rp) (chunks 1400 ps)), [])
    \<and> snd (read_packets (length (chunks 1400 ps)) TCPModeAuto
      (concat (pz_out (fst (Send wr marshal ext_ok (NewRTPPacketizerTCP ssrc sn) ps ticks)))))
      = Inr (plain_packets (NewRTPPacketizerTCP ssrc sn) ps ticks, [])"
proof
  let ?ts = "ucast (timeTo90kHz pts) :: u32"
  let ?pkts = "map (ser \<circ> push_packet rp ssrc ?ts None) (number_frags (rp_seqNum rp) (chunks 1400 ps))"
  have "rp_out (fst (SendFrame wr marshal ext_ok rp ps pts ssrc)) = map dollar_frame ?pkts"
    using SendFrame_burst [of wr marshal ser ext_ok rp ps pts ssrc] assms
    by (simp add: push_wire_def rtpMtu_def)
  then show "snd (read_packets (length (chunks 1400 ps)) TCPModeAuto
      (concat (rp_out (fst (SendFrame wr marshal ext_ok rp ps pts ssrc))))) = Inr (?pkts, [])"
    using read_dollar_stream [of ?pkts TCPModeAuto "[]"] assms(4) by simp
next
  let ?p = "NewRTPPacketizerTCP ssrc sn"
  let ?pkts = "plain_packets ?p ps ticks"
  have "pz_out (fst (Send wr marshal ext_ok ?p ps ticks)) = map (\<lambda>p. put16 (length p) @ p) ?pkts"
    using plain_loop_frags [of wr ?p ps ticks 0] assms(1)
    by (simp add: Send_def sendPlain_def NewRTPPacketizerTCP_def plain_packets_def frags_def framed_out_def)
  moreover have "length (hd ?pkts) div 256 \<noteq> 0x24" if "?pkts \<noteq> []"
  proof -
    have "length (hd ?pkts) \<le> 1412" using that by (intro plain_packets_bounds(2)) (rule hd_in_set)
    then show ?thesis by simp
  qed
  moreover have "\<forall>p \<in> set ?pkts. p \<noteq> [] \<and> length p < 65536" using plain_packets_bounds by fastforce
  moreover have "length (chunks 1400 ps) = length ?pkts" by (simp add: plain_packets_def frags_def RTPMTU_def)
  ultimately show "snd (read_packets (length (chunks 1400 ps)) TCPModeAuto
      (concat (pz_out (fst (Send wr marshal ext_ok ?p ps ticks))))) = Inr (?pkts, [])"
    using read_rfc4571_stream [of ?pkts TCPModeAuto "[]"] by simp
qed

theorem tcp_framing_roundtrip_witness:
  "snd (read_packets 1 TCPModeAuto (concat (rp_out (fst (SendFrame (\<lambda>_ _. True) (\<lambda>p. Some [96, ro_payload p ! 0]) (\<lambda>_. True)
      (SetTCPConn (NewRtpPusher 7) True) [0xBA] (Some 0) 5))))) = Inr ([[96, 0xBA]], [])"
  using tcp_framing_roundtrip [of "\<lambda>_ _. True" "\<lambda>p. Some [96, ro_payload p ! 0]" "\<lambda>p. [96, ro_payload p ! 0]" "\<lambda>_. True"
      "SetTCPConn (NewRtpPusher 7) True" "[0xBA]" "Some 0" 5]
  by (simp add: SetTCPConn_def NewRtpPusher_def chunks_short push_packet_def)

end
