(* ===== verification/Go_Strings.thy ===== *)
theory Go_Strings
  imports Go_Text
begin

text \<open>
  The functions of Go's \<open>strings\<close>, \<open>strconv\<close>, \<open>fmt\<close> and \<open>net\<close> packages that the program's text
  protocols (SIP, SDP, identifiers) are built from and parsed with.
\<close>

subsection \<open>Prefixes, search and splitting\<close>

definition HasPrefix :: "string \<Rightarrow> string \<Rightarrow> bool" where
  "HasPrefix s p = (take (length p) s = p)"

definition TrimPrefix :: "string \<Rightarrow> string \<Rightarrow> string" where
  "TrimPrefix s p = (if HasPrefix s p then drop (length p) s else s)"

definition CutPrefix :: "string \<Rightarrow> string \<Rightarrow> string option" where
  "CutPrefix s p = (if HasPrefix s p then Some (drop (length p) s) else None)"

text \<open>\<open>strings.Index\<close>: the first place where \<open>sep\<close> occurs.\<close>

fun str_index :: "string \<Rightarrow> string \<Rightarrow> nat option" where
  "str_index sep s =
     (if HasPrefix s sep then Some 0
      else case s of [] \<Rightarrow> None | _ # cs \<Rightarrow> map_option Suc (str_index sep cs))"

declare str_index.simps [simp del]

definition Contains :: "string \<Rightarrow> string \<Rightarrow> bool" where
  "Contains s sub = (str_index sub s \<noteq> None)"

text \<open>\<open>strings.Split\<close> with a separator that is not empty.\<close>

function Split :: "string \<Rightarrow> string \<Rightarrow> string list" where
  "Split s sep =
     (case str_index sep s of
        None \<Rightarrow> [s]
      | Some i \<Rightarrow> if sep = [] \<or> s = [] then [s] else take i s # Split (drop (i + length sep) s) sep)"
  by pat_completeness auto
termination by (relation "measure (length \<circ> fst)") auto

declare Split.simps [simp del]

text \<open>\<open>strings.SplitN\<close>: at most \<open>n\<close> pieces, the last one the rest.\<close>

fun SplitN :: "nat \<Rightarrow> string \<Rightarrow> string \<Rightarrow> string list" where
  "SplitN 0 s sep = []"
| "SplitN (Suc 0) s sep = [s]"
| "SplitN (Suc n) s sep =
     (case str_index sep s of None \<Rightarrow> [s] | Some i \<Rightarrow> take i s # SplitN n (drop (i + length sep) s) sep)"

definition Join :: "string list \<Rightarrow> string \<Rightarrow> string" where
  "Join ss sep = (case ss of [] \<Rightarrow> [] | s # ss \<Rightarrow> s @ concat (map (\<lambda>t. sep @ t) ss))"

text \<open>\<open>strings.Fields\<close>: the pieces between runs of white space.\<close>

function fields_loop :: "string \<Rightarrow> string \<Rightarrow> string list" where
  "fields_loop cur s =
     (if s = [] then (if cur = [] then [] else [cur])
      else case strip1 go_spaces s of
        Some s' \<Rightarrow> (if cur = [] then [] else [cur]) @ fields_loop [] s'
      | None \<Rightarrow> fields_loop (cur @ [hd s]) (tl s))"
  by pat_completeness auto
termination
proof (relation "measure (length \<circ> snd)")
  fix cur s s' :: string
  assume "s \<noteq> []" and "strip1 go_spaces s = Some s'"
  moreover have "\<forall>p \<in> set go_spaces. p \<noteq> []" by (auto simp: go_spaces_def)
  ultimately show "(([], s'), (cur, s)) \<in> measure (length \<circ> snd)" using strip1_shorter by simp
qed auto

declare fields_loop.simps [simp del]

definition Fields :: "string \<Rightarrow> string list" where
  "Fields s = fields_loop [] s"

text \<open>\<open>strings.TrimRight\<close> and \<open>strings.TrimLeft\<close> with a set of ASCII characters.\<close>

definition TrimLeft :: "string \<Rightarrow> string \<Rightarrow> string" where
  "TrimLeft s cutset = dropWhile (\<lambda>c. c \<in> set cutset) s"

definition TrimRight :: "string \<Rightarrow> string \<Rightarrow> string" where
  "TrimRight s cutset = rev (dropWhile (\<lambda>c. c \<in> set cutset) (rev s))"

subsection \<open>Letter case\<close>

text \<open>
  \<open>strings.ToLower\<close> as far as a comparison with ASCII text can see it: beyond ASCII only the dotted
  capital I (U+0130) and the Kelvin sign (U+212A) have a lower case in ASCII.
\<close>

definition lower_char :: "char \<Rightarrow> char" where
  "lower_char c = (if 65 \<le> (of_char c :: nat) \<and> (of_char c :: nat) \<le> 90 then char_of ((of_char c :: nat) + 32) else c)"

fun ToLower :: "string \<Rightarrow> string" where
  "ToLower [] = []"
| "ToLower (c # cs) =
     (if c = CHR 0xC4 \<and> take 1 cs = [CHR 0xB0] then CHR ''i'' # ToLower (drop 1 cs)
      else if c = CHR 0xE2 \<and> take 2 cs = [CHR 0x84, CHR 0xAA] then CHR ''k'' # ToLower (drop 2 cs)
      else lower_char c # ToLower cs)"

text \<open>\<open>strings.ToUpper\<close> likewise: U+0131 and U+017F have an upper case in ASCII.\<close>

fun ToUpper :: "string \<Rightarrow> string" where
  "ToUpper [] = []"
| "ToUpper (c # cs) =
     (if c = CHR 0xC4 \<and> take 1 cs = [CHR 0xB1] then CHR ''I'' # ToUpper (drop 1 cs)
      else if c = CHR 0xC5 \<and> take 1 cs = [CHR 0xBF] then CHR ''S'' # ToUpper (drop 1 cs)
      else upper_char c # ToUpper cs)"

subsection \<open>Numbers\<close>

text \<open>\<open>strconv.ParseUint(s, 10, 32)\<close>.\<close>

definition ParseUint32 :: "string \<Rightarrow> u32 option" where
  "ParseUint32 s =
     (if s \<noteq> [] \<and> list_all is_digit s \<and> dec_val 0 s < 2 ^ 32 then Some (of_nat (dec_val 0 s)) else None)"

text \<open>The \<open>%0<w>d\<close> verb of \<open>fmt\<close>: the sign counts towards the width.\<close>

definition zero_pad :: "nat \<Rightarrow> string \<Rightarrow> string" where
  "zero_pad w s = replicate (w - length s) (CHR ''0'') @ s"

definition fmt_0d :: "nat \<Rightarrow> int \<Rightarrow> string" where
  "fmt_0d w n =
     (if n < 0 then CHR ''-'' # zero_pad (w - 1) (nat_text (nat (- n))) else zero_pad w (nat_text (nat n)))"

definition JoinHostPort :: "string \<Rightarrow> string \<Rightarrow> string" where
  "JoinHostPort host port =
     (if CHR '':'' \<in> set host then ''['' @ host @ '']:'' @ port else host @ '':'' @ port)"

definition crlf :: string where "crlf = [CHR 0x0D, CHR 0x0A]"

definition lf :: string where "lf = [CHR 0x0A]"

subsection \<open>Searching and splitting text that was put together\<close>

lemma HasPrefix_append [simp]: "HasPrefix (p @ s) p"
  by (simp add: HasPrefix_def)

lemma HasPrefix_Nil [simp]: "HasPrefix s []"
  by (simp add: HasPrefix_def)

lemma HasPrefix_Cons [simp]: "HasPrefix (c # s) (d # p) \<longleftrightarrow> c = d \<and> HasPrefix s p"
  by (auto simp: HasPrefix_def)

lemma HasPrefix_empty [simp]: "HasPrefix [] (d # p) = False"
  by (simp add: HasPrefix_def)

lemma HasPrefix_hd: "HasPrefix s sep \<Longrightarrow> sep \<noteq> [] \<Longrightarrow> hd sep \<in> set s"
  by (cases s; cases sep) (auto simp: HasPrefix_def)

lemma str_index_none:
  assumes "sep \<noteq> []" and "hd sep \<notin> set s"
  shows "str_index sep s = None"
  using assms
proof (induction s)
  case Nil
  then show ?case by (subst str_index.simps) (simp add: HasPrefix_def)
next
  case (Cons c s)
  then have "\<not> HasPrefix (c # s) sep" using HasPrefix_hd [of "c # s" sep] by auto
  then show ?case using Cons by (subst str_index.simps) simp
qed

lemma str_index_first:
  assumes "sep \<noteq> []" and "hd sep \<notin> set l"
  shows "str_index sep (l @ sep @ rest) = Some (length l)"
  using assms
proof (induction l)
  case Nil
  then show ?case by (subst str_index.simps) simp
next
  case (Cons c l)
  then have "\<not> HasPrefix ((c # l) @ sep @ rest) sep" by (cases sep) (auto simp: HasPrefix_def)
  then show ?case using Cons by (subst str_index.simps) simp
qed

lemma Split_none: "sep \<noteq> [] \<Longrightarrow> hd sep \<notin> set s \<Longrightarrow> Split s sep = [s]"
  by (subst Split.simps) (simp add: str_index_none)

lemma Split_step: "sep \<noteq> [] \<Longrightarrow> hd sep \<notin> set l \<Longrightarrow> Split (l @ sep @ rest) sep = l # Split rest sep"
  by (subst Split.simps) (simp add: str_index_first)

lemma Split_lines:
  assumes "sep \<noteq> []" and "\<forall>l \<in> set ls. hd sep \<notin> set l"
  shows "Split (concat (map (\<lambda>l. l @ sep) ls) @ rest) sep = ls @ Split rest sep"
  using assms(2) by (induction ls) (simp_all add: Split_step [OF assms(1)])

lemma SplitN_step:
  "sep \<noteq> [] \<Longrightarrow> hd sep \<notin> set l \<Longrightarrow> SplitN (Suc (Suc n)) (l @ sep @ rest) sep = l # SplitN (Suc n) rest sep"
  by (simp add: str_index_first)

lemma Join_Cons: "ss \<noteq> [] \<Longrightarrow> Join (s # ss) sep = s @ sep @ Join ss sep"
  by (cases ss) (simp_all add: Join_def)

lemma Join_single [simp]: "Join [s] sep = s"
  by (simp add: Join_def)

lemma Split_ne: "Split s sep \<noteq> []"
  by (subst Split.simps) (auto split: option.split)

lemma str_index_split: "str_index sep s = Some i \<Longrightarrow> s = take i s @ sep @ drop (i + length sep) s"
proof (induction sep s arbitrary: i rule: str_index.induct)
  case (1 sep s)
  show ?case
  proof (cases "HasPrefix s sep")
    case True
    then have "i = 0" using "1.prems" by (subst (asm) str_index.simps) simp
    then show ?thesis using True by (metis HasPrefix_def add_0 append_Nil append_take_drop_id take0)
  next
    case False
    then obtain c cs j where "s = c # cs" "str_index sep cs = Some j" "i = Suc j"
      using "1.prems" by (subst (asm) str_index.simps) (auto split: list.splits)
    then show ?thesis using "1.IH" [OF False] by simp
  qed
qed

lemma Join_Split: "sep \<noteq> [] \<Longrightarrow> Join (Split s sep) sep = s"
proof (induction s sep rule: Split.induct)
  case (1 s sep)
  show ?case
  proof (cases "str_index sep s")
    case None
    then show ?thesis by (subst Split.simps) simp
  next
    case (Some i)
    show ?thesis
    proof (cases "s = []")
      case True
      then show ?thesis using Some by (subst Split.simps) simp
    next
      case False
      then have "Split s sep = take i s # Split (drop (i + length sep) s) sep"
        using Some "1.prems" by (subst Split.simps) simp
      then show ?thesis
        using "1.IH" [OF Some] False "1.prems" str_index_split [OF Some] by (simp add: Join_Cons Split_ne)
    qed
  qed
qed

subsection \<open>Trimming and fields\<close>

text \<open>Text that starts and ends with a printing character survives trimming.\<close>

definition trim_stable :: "string \<Rightarrow> bool" where
  "trim_stable s \<longleftrightarrow> s = [] \<or> plain_char (hd s) \<and> plain_char (last s)"

lemma trim_right_id:
  assumes "s = [] \<or> plain_char (last s)"
  shows "trim_left (map rev go_spaces) (rev s) = rev s"
proof (rule trim_left_id)
  fix p assume "p \<in> set (map rev go_spaces)" and ne: "rev s \<noteq> []"
  then obtain q where q: "q \<in> set go_spaces" "p = rev q" by auto
  have "plain_char (hd (rev s))" using assms ne by (simp add: hd_rev)
  then show "hd p \<noteq> hd (rev s)" using go_spaces_ends [OF q(1)] q(2) by (auto simp: hd_rev)
qed

lemma trim_left_stable: "s = [] \<or> plain_char (hd s) \<Longrightarrow> trim_left go_spaces s = s"
  using go_spaces_ends by (intro trim_left_id) metis

lemma TrimSpace_stable: "trim_stable s \<Longrightarrow> TrimSpace s = s"
  using trim_left_stable [of s] trim_right_id [of s] by (auto simp: TrimSpace_def trim_stable_def)

lemma plain_trim_stable: "(\<And>c. c \<in> set s \<Longrightarrow> plain_char c) \<Longrightarrow> trim_stable s"
  by (cases "s = []") (simp_all add: trim_stable_def)

lemma strip1_space [simp]:
  "strip1 go_spaces (CHR 0x0D # s) = Some s" "strip1 go_spaces (CHR 0x0A # s) = Some s"
  "strip1 go_spaces (CHR '' '' # s) = Some s"
  "strip1 (map rev go_spaces) (CHR 0x0D # s) = Some s" "strip1 (map rev go_spaces) (CHR '' '' # s) = Some s"
  by (simp_all add: strip1_def go_spaces_def char_of_def bit_Suc_0_iff)

lemma spaces_ne: "\<forall>p \<in> set go_spaces. p \<noteq> []" "\<forall>p \<in> set (map rev go_spaces). p \<noteq> []"
  by (auto simp: go_spaces_def)

lemma TrimSpace_cr:
  assumes "trim_stable s" and "s \<noteq> []"
  shows "TrimSpace (s @ [CHR 0x0D]) = s"
proof -
  have "trim_left go_spaces (s @ [CHR 0x0D]) = s @ [CHR 0x0D]"
    using assms by (intro trim_left_stable) (simp add: trim_stable_def)
  moreover have "trim_left (map rev go_spaces) (CHR 0x0D # rev s) = rev s"
    using trim_right_id [of s] assms spaces_ne(2) by (subst trim_left.simps) (auto simp: trim_stable_def)
  ultimately show ?thesis by (simp add: TrimSpace_def)
qed

lemma TrimSpace_cr_only [simp]: "TrimSpace [CHR 0x0D] = []"
proof -
  have "trim_left go_spaces [CHR 0x0D] = []"
    using spaces_ne(1) trim_left_stable [of "[]"] by (subst trim_left.simps) simp
  moreover have "trim_left (map rev go_spaces) [] = []" using trim_right_id [of "[]"] by simp
  ultimately show ?thesis by (simp add: TrimSpace_def)
qed

lemma TrimSpace_Nil [simp]: "TrimSpace [] = []"
  by (rule TrimSpace_stable) (simp add: trim_stable_def)

lemma TrimSpace_space:
  assumes "trim_stable s"
  shows "TrimSpace (CHR '' '' # s) = s"
proof -
  have "trim_left go_spaces (CHR '' '' # s) = s"
    using trim_left_stable [of s] assms spaces_ne(1) by (subst trim_left.simps) (auto simp: trim_stable_def)
  then show ?thesis using trim_right_id [of s] assms by (auto simp: TrimSpace_def trim_stable_def)
qed

lemma strip1_plain:
  assumes "plain_char c"
  shows "strip1 go_spaces (c # s) = None"
proof -
  have "take (length p) (c # s) \<noteq> p" if "p \<in> set go_spaces" for p
  proof
    assume "take (length p) (c # s) = p"
    then have "hd p = c" using spaces_ne(1) that by (cases p) auto
    then show False using go_spaces_ends [OF that] assms by simp
  qed
  then show ?thesis by (auto simp: strip1_def find_None_iff)
qed

lemma fields_word: "(\<And>c. c \<in> set w \<Longrightarrow> plain_char c) \<Longrightarrow> fields_loop cur (w @ s) = fields_loop (cur @ w) s"
proof (induction w arbitrary: cur)
  case (Cons c w)
  have "fields_loop cur ((c # w) @ s) = fields_loop (cur @ [c]) (w @ s)"
    using Cons.prems by (subst fields_loop.simps) (simp add: strip1_plain)
  then show ?case using Cons by simp
qed simp

definition token :: "string \<Rightarrow> bool" where
  "token w \<longleftrightarrow> w \<noteq> [] \<and> list_all plain_char w"

lemma fields_token: "token w \<Longrightarrow> fields_loop [] (w @ s) = fields_loop w s"
  using fields_word [of w "[]" s] by (auto simp: token_def list_all_iff)

lemma Fields_token: "token w \<Longrightarrow> Fields w = [w]"
  using fields_token [of w "[]"] fields_loop.simps [of w "[]"] by (simp add: Fields_def token_def)

lemma Fields_tokens: "token w \<Longrightarrow> Fields (w @ '' '' @ s) = w # Fields s"
  using fields_token [of w "'' '' @ s"] fields_loop.simps [of w "'' '' @ s"] by (simp add: Fields_def token_def)

lemma token_stable: "token w \<Longrightarrow> trim_stable w"
  by (rule plain_trim_stable) (simp add: token_def list_all_iff)

subsection \<open>Decimal text\<close>

lemma digit_plain: "is_digit c \<Longrightarrow> plain_char c"
  by (simp add: is_digit_def plain_char_def)

lemma digits_token: "s \<noteq> [] \<Longrightarrow> list_all is_digit s \<Longrightarrow> token s"
  by (auto simp: token_def list_all_iff digit_plain)

lemma nat_text_token: "token (nat_text n)"
  by (rule digits_token) (simp_all add: nat_text_ne nat_text_digits)

lemma dec_val_zeros: "dec_val 0 (replicate k (CHR ''0'') @ s) = dec_val 0 s"
  by (induction k) (simp_all add: digit_val_def)

lemma dec_val_bound: "list_all is_digit s \<Longrightarrow> dec_val a s < (a + 1) * 10 ^ length s"
proof (induction a s rule: dec_val.induct)
  case (2 a c cs)
  then have "is_digit c" by simp
  then have "digit_val c \<le> 9" unfolding is_digit_def digit_val_def by linarith
  then have "(10 * a + digit_val c + 1) * 10 ^ length cs \<le> (10 * (a + 1)) * 10 ^ length cs"
    by (intro mult_le_mono1) simp
  also have "\<dots> = (a + 1) * 10 ^ length (c # cs)" by (simp add: algebra_simps)
  finally have le: "(10 * a + digit_val c + 1) * 10 ^ length cs \<le> (a + 1) * 10 ^ length (c # cs)" .
  have "dec_val (10 * a + digit_val c) cs < (10 * a + digit_val c + 1) * 10 ^ length cs" using 2 by simp
  from less_le_trans [OF this le] show ?case by simp
qed simp

lemma zero_pad_facts:
  "list_all is_digit s \<Longrightarrow> list_all is_digit (zero_pad w s)"
  "dec_val 0 (zero_pad w s) = dec_val 0 s" "length (zero_pad w s) = max w (length s)"
  by (auto simp: zero_pad_def dec_val_zeros list_all_iff is_digit_def)

lemma nat_text_length: "n < 10 ^ k \<Longrightarrow> 0 < k \<Longrightarrow> length (nat_text n) \<le> k"
proof (induction n arbitrary: k rule: nat_text.induct)
  case (1 n)
  show ?case
  proof (cases "n < 10")
    case False
    then obtain j where j: "k = Suc j" "0 < j" using "1.prems" by (cases k; cases "k = 1") auto
    then have "n div 10 < 10 ^ j" using "1.prems" by (simp add: less_mult_imp_div_less mult.commute)
    then show ?thesis using "1.IH" [OF False, of j] j False by (subst nat_text.simps) simp
  qed (use "1.prems" in \<open>subst nat_text.simps, simp\<close>)
qed

lemma fmt_0d_nat:
  assumes "n < 10 ^ w" and "0 < w"
  shows "length (fmt_0d w (int n)) = w" "list_all is_digit (fmt_0d w (int n))" "dec_val 0 (fmt_0d w (int n)) = n"
  using nat_text_length [OF assms] zero_pad_facts [where s = "nat_text n" and w = w] nat_text_digits [of n] dec_val_nat_text [of n]
  by (simp_all add: fmt_0d_def max_def)

lemma TrimRight_id: "s = [] \<or> last s \<notin> set cs \<Longrightarrow> TrimRight s cs = s"
proof -
  assume "s = [] \<or> last s \<notin> set cs"
  then have "dropWhile (\<lambda>c. c \<in> set cs) (rev s) = rev s" by (cases "rev s") (auto simp: rev_eq_Cons_iff)
  then show ?thesis by (simp add: TrimRight_def)
qed

lemma TrimRight_snoc: "c \<in> set cs \<Longrightarrow> TrimRight (s @ [c]) cs = TrimRight s cs"
  by (simp add: TrimRight_def)

end
