(* ===== verification/Sdp.thy ===== *)
theory Sdp
  imports Go_Strings
begin

text \<open>
  The session descriptions that platform and device exchange: the SSRC of \<open>src/manscdp/codec.go\<close>, the
  offers and the answer parser of \<open>src/platform/session.go\<close>, the offer parser and the answer of
  \<open>src/device/server.go\<close> and the security attribute of \<open>src/device/media_security.go\<close>.
\<close>

subsection \<open>SSRC\<close>

definition buildSSRC :: "string \<Rightarrow> string \<Rightarrow> int \<Rightarrow> string" where
  "buildSSRC pre serverID seq =
     (let domain = (if length serverID \<ge> 8 then drop 3 (take 8 serverID)
                    else if length serverID > 3 then drop 3 serverID
                    else ''00000'')
      in pre @ zero_pad 5 domain @ fmt_0d 4 (seq smod 10000))"

definition SSRC :: "bool \<Rightarrow> string \<Rightarrow> int \<Rightarrow> string" where
  "SSRC playback serverID seq = buildSSRC (if playback then ''1'' else ''0'') serverID seq"

definition SSRCDownload :: "string \<Rightarrow> int \<Rightarrow> string" where
  "SSRCDownload serverID seq = buildSSRC ''2'' serverID seq"

subsection \<open>Offers of the platform\<close>

definition MediaUDP :: string where "MediaUDP = ''udp''"
definition MediaTCPPassive :: string where "MediaTCPPassive = ''tcp-passive''"
definition MediaTCPActive :: string where "MediaTCPActive = ''tcp-active''"

text \<open>The \<open>m=\<close> line and the setup lines for a transport.\<close>

definition live_media :: "u16 \<Rightarrow> string \<Rightarrow> bool \<Rightarrow> string \<times> string" where
  "live_media port transport audioOnly =
     (let media = (if audioOnly then ''audio'' else ''video'');
          pt = (if audioOnly then ''8'' else ''96'')
      in if transport = MediaTCPPassive
         then (''m='' @ media @ '' '' @ nat_text (unat port) @ '' TCP/RTP/AVP '' @ pt @ crlf,
               ''a=setup:passive'' @ crlf @ ''a=connection:new'' @ crlf)
         else if transport = MediaTCPActive
         then (''m='' @ media @ '' 9 TCP/RTP/AVP '' @ pt @ crlf,
               ''a=setup:active'' @ crlf @ ''a=connection:new'' @ crlf)
         else (''m='' @ media @ '' '' @ nat_text (unat port) @ '' RTP/AVP '' @ pt @ crlf, []))"

definition buildLiveSDP :: "string \<Rightarrow> u16 \<Rightarrow> string \<Rightarrow> string \<Rightarrow> bool \<Rightarrow> string \<Rightarrow> string" where
  "buildLiveSDP serverIP port transport ssrc audioOnly securityOffer =
     (let rtpmap = (if audioOnly then ''8 PCMA/8000'' else ''96 PS/90000'');
          (mLine, setup) = live_media port transport audioOnly;
          security = (if securityOffer \<noteq> [] then ''a=security:'' @ securityOffer @ crlf else [])
      in ''v=0'' @ crlf @ ''o=- 0 0 IN IP4 '' @ serverIP @ crlf @ ''s=Play'' @ crlf @ ''c=IN IP4 '' @ serverIP @ crlf
         @ ''t=0 0'' @ crlf @ mLine @ ''a=recvonly'' @ crlf @ ''a=rtpmap:'' @ rtpmap @ crlf @ setup
         @ ''y='' @ ssrc @ crlf @ security)"

text \<open>The offer of a playback or download fetch, as \<open>inviteFetch\<close> formats it; tm are Unix seconds.\<close>

definition fetch_sdp :: "string \<Rightarrow> u16 \<Rightarrow> string \<Rightarrow> i64 \<Rightarrow> i64 \<Rightarrow> string \<Rightarrow> string \<Rightarrow> string" where
  "fetch_sdp serverIP port sdpName start end' ssrc offer =
     ''v=0'' @ crlf @ ''o=- 0 0 IN IP4 '' @ serverIP @ crlf @ ''s='' @ sdpName @ crlf @ ''c=IN IP4 '' @ serverIP @ crlf
     @ ''t='' @ go_itoa (sint (start + 2208988800)) @ '' '' @ go_itoa (sint (end' + 2208988800)) @ crlf
     @ ''m=video '' @ nat_text (unat port) @ '' RTP/AVP 96'' @ crlf @ ''a=recvonly'' @ crlf @ ''a=rtpmap:96 PS/90000'' @ crlf
     @ ''y='' @ ssrc @ crlf @ (if offer \<noteq> [] then ''a=security:'' @ offer @ crlf else [])"

subsection \<open>The answer parser of the platform\<close>

definition media_line :: "string \<times> int \<Rightarrow> string \<Rightarrow> string \<times> int" where
  "media_line acc line0 =
     (let line = TrimSpace line0 in
      if HasPrefix line ''c=IN IP4 '' then (TrimSpace (TrimPrefix line ''c=IN IP4''), snd acc)
      else if HasPrefix line ''m=video ''
      then (case Fields line of
              _ # p # _ \<Rightarrow> (case go_atoi p of Some n \<Rightarrow> (fst acc, n) | None \<Rightarrow> acc)
            | _ \<Rightarrow> acc)
      else acc)"

definition sdpMediaAddress :: "string \<Rightarrow> (string \<times> u16) option" where
  "sdpMediaAddress sdp =
     (let (host, port) = foldl media_line ([], 0) (Split sdp crlf)
      in if host = [] \<or> port \<le> 0 \<or> port > 65535 then None else Some (host, of_int port))"

subsection \<open>The device side\<close>

datatype sdpMediaTransport = mediaUDP | mediaTCPConnect | mediaTCPListen

datatype sdp_error = BadMediaPort string | BadSSRC string | MissingSSRC | MissingMedia

definition normalizeSessionType :: "string \<Rightarrow> string" where
  "normalizeSessionType v =
     (let l = ToLower v in
      if l = ''playback'' then ''Playback'' else if l = ''download'' then ''Download'' else ''Play'')"

record sdp_acc =
  sa_mediaIP :: string
  sa_mediaPort :: int
  sa_ssrc :: "u32 option"
  sa_proto :: string
  sa_setup :: string
  sa_type :: string

definition sdp_start :: sdp_acc where
  "sdp_start = \<lparr>sa_mediaIP = [], sa_mediaPort = 0, sa_ssrc = None, sa_proto = [], sa_setup = [], sa_type = ''Play''\<rparr>"

text \<open>One round of the loop over the lines.\<close>

definition sdp_line :: "sdp_acc \<Rightarrow> string \<Rightarrow> sdp_error + sdp_acc" where
  "sdp_line a line0 =
     (let line = TrimSpace line0 in
      if HasPrefix line ''a=setup:'' then Inr (a\<lparr>sa_setup := TrimPrefix line ''a=setup:''\<rparr>)
      else if HasPrefix line ''c='' then
        (case Fields line of _ # _ # ip # _ \<Rightarrow> Inr (a\<lparr>sa_mediaIP := ip\<rparr>) | _ \<Rightarrow> Inr a)
      else if HasPrefix line ''m=video '' then
        (let parts = Fields line;
             proto = (\<lambda>a. if length parts \<ge> 3 then a\<lparr>sa_proto := parts ! 2\<rparr> else a)
         in if length parts \<ge> 2
            then (case go_atoi (parts ! 1) of
                    None \<Rightarrow> Inl (BadMediaPort (parts ! 1))
                  | Some port \<Rightarrow> Inr (proto (a\<lparr>sa_mediaPort := port\<rparr>)))
            else Inr (proto a))
      else if HasPrefix line ''y='' then
        (case ParseUint32 (TrimPrefix line ''y='') of
           None \<Rightarrow> Inl (BadSSRC (TrimPrefix line ''y=''))
         | Some v \<Rightarrow> Inr (a\<lparr>sa_ssrc := Some v\<rparr>))
      else if HasPrefix line ''s='' then
        Inr (a\<lparr>sa_type := normalizeSessionType (TrimSpace (TrimPrefix line ''s=''))\<rparr>)
      else Inr a)"

fun sdp_lines :: "sdp_acc \<Rightarrow> string list \<Rightarrow> sdp_error + sdp_acc" where
  "sdp_lines a [] = Inr a"
| "sdp_lines a (l # ls) = (case sdp_line a l of Inl e \<Rightarrow> Inl e | Inr a \<Rightarrow> sdp_lines a ls)"

definition sdp_result :: "sdp_acc \<Rightarrow> sdp_error + string \<times> u32 \<times> string \<times> sdpMediaTransport" where
  "sdp_result a =
     (case sa_ssrc a of
        None \<Rightarrow> Inl MissingSSRC
      | Some ssrc \<Rightarrow>
          if sa_mediaIP a = [] \<or> sa_mediaPort a = 0 then Inl MissingMedia
          else Inr (JoinHostPort (sa_mediaIP a) (go_itoa (sa_mediaPort a)), ssrc, sa_type a,
                    if Contains (sa_proto a) ''TCP''
                    then (if sa_setup a = ''active'' then mediaTCPListen else mediaTCPConnect)
                    else mediaUDP))"

definition parseSDP :: "string \<Rightarrow> sdp_error + string \<times> u32 \<times> string \<times> sdpMediaTransport" where
  "parseSDP body = (case sdp_lines sdp_start (Split body lf) of Inl e \<Rightarrow> Inl e | Inr a \<Rightarrow> sdp_result a)"

definition buildDeviceSDP :: "string \<Rightarrow> string \<Rightarrow> int \<Rightarrow> u32 \<Rightarrow> string \<Rightarrow> string \<Rightarrow> string \<Rightarrow> string" where
  "buildDeviceSDP deviceID localIP mediaPort ssrc transport sessionType setupRole =
     ''v=0'' @ lf @ ''o='' @ deviceID @ '' 0 0 IN IP4 '' @ localIP @ lf @ ''s='' @ sessionType @ lf
     @ ''c=IN IP4 '' @ localIP @ lf @ ''t=0 0'' @ lf
     @ (if transport = ''tcp''
        then ''m=video '' @ go_itoa mediaPort @ '' TCP/RTP/AVP 96'' @ lf
             @ ''a=setup:'' @ (if setupRole = [] then ''active'' else setupRole) @ lf @ ''a=connection:new'' @ lf
        else ''m=video '' @ go_itoa mediaPort @ '' RTP/AVP 96'' @ lf)
     @ ''a=sendonly'' @ lf @ ''a=rtpmap:96 PS/90000'' @ lf @ ''y='' @ nat_text (unat ssrc)"

definition security_line :: "string \<Rightarrow> string option" where
  "security_line line =
     (case CutPrefix (TrimRight line [CHR 0x0D]) ''a=security:'' of
        None \<Rightarrow> None
      | Some v \<Rightarrow> (let v = TrimSpace v in if v \<noteq> [] then Some v else None))"

definition SDPSecurityAttributeValue :: "string \<Rightarrow> string" where
  "SDPSecurityAttributeValue sdp =
     (case List.map_filter security_line (Split sdp lf) of [] \<Rightarrow> [] | v # _ \<Rightarrow> v)"

subsection \<open>Offers as lines\<close>

text \<open>Text that can stand in a line: printing characters and inner blanks.\<close>

definition line_text :: "string \<Rightarrow> bool" where
  "line_text s \<longleftrightarrow> trim_stable s \<and> list_all (\<lambda>c. plain_char c \<or> c = CHR '' '') s"

lemma line_no_break: "line_text s \<Longrightarrow> CHR 0x0D \<notin> set s \<and> CHR 0x0A \<notin> set s"
  by (auto simp: line_text_def list_all_iff plain_char_def)

lemma token_line: "token w \<Longrightarrow> line_text w"
  using token_stable [of w] by (auto simp: line_text_def token_def list_all_iff)

lemma line_text_append:
  assumes "line_text s" and "s \<noteq> []" and "p \<noteq> []" and "plain_char (hd p)" and "list_all (\<lambda>c. plain_char c \<or> c = CHR '' '') p"
  shows "line_text (p @ s)"
  using assms by (auto simp: line_text_def trim_stable_def)

lemma line_text_literal:
  "p \<noteq> [] \<Longrightarrow> plain_char (hd p) \<Longrightarrow> plain_char (last p) \<Longrightarrow> list_all (\<lambda>c. plain_char c \<or> c = CHR '' '') p \<Longrightarrow> line_text p"
  by (simp add: line_text_def trim_stable_def)

definition crlf_lines :: "string list \<Rightarrow> string" where
  "crlf_lines ls = concat (map (\<lambda>l. l @ crlf) ls)"

lemma crlf_lines_simps [simp]:
  "crlf_lines [] = []" "crlf_lines (l # ls) = l @ crlf @ crlf_lines ls"
  "crlf_lines (ls @ ms) = crlf_lines ls @ crlf_lines ms"
  by (simp_all add: crlf_lines_def)

lemma Split_crlf_lf:
  assumes "\<forall>l \<in> set ls. line_text l"
  shows "Split (crlf_lines ls) lf = map (\<lambda>l. l @ [CHR 0x0D]) ls @ [[]]"
proof -
  have "crlf_lines ls = concat (map (\<lambda>l. l @ lf) (map (\<lambda>l. l @ [CHR 0x0D]) ls))"
    by (induction ls) (simp_all add: crlf_def lf_def)
  moreover have "\<forall>l \<in> set (map (\<lambda>l. l @ [CHR 0x0D]) ls). hd lf \<notin> set l"
    using assms line_no_break by (auto simp: lf_def)
  ultimately show ?thesis using Split_lines [of lf "map (\<lambda>l. l @ [CHR 0x0D]) ls" "[]"] Split_none [of lf "[]"]
    by (simp add: lf_def)
qed

lemma Split_crlf:
  assumes "\<forall>l \<in> set ls. line_text l"
  shows "Split (crlf_lines ls) crlf = ls @ [[]]"
  using Split_lines [of crlf ls "[]"] Split_none [of crlf "[]"] assms line_no_break
  by (simp add: crlf_lines_def crlf_def)

lemma sdp_line_cr: "line_text l \<Longrightarrow> l \<noteq> [] \<Longrightarrow> sdp_line a (l @ [CHR 0x0D]) = sdp_line a l"
  by (simp add: sdp_line_def TrimSpace_cr TrimSpace_stable line_text_def)

lemma sdp_line_Nil [simp]: "sdp_line a [] = Inr a"
  by (simp add: sdp_line_def)

lemma sdp_lines_cr:
  "\<forall>l \<in> set ls. line_text l \<and> l \<noteq> [] \<Longrightarrow> sdp_lines a (map (\<lambda>l. l @ [CHR 0x0D]) ls @ [[]]) = sdp_lines a ls"
  by (induction ls arbitrary: a) (auto simp: sdp_line_cr split: sum.split)

lemma parseSDP_lines:
  "\<forall>l \<in> set ls. line_text l \<and> l \<noteq> [] \<Longrightarrow>
   parseSDP (crlf_lines ls) = (case sdp_lines sdp_start ls of Inl e \<Rightarrow> Inl e | Inr a \<Rightarrow> sdp_result a)"
  by (simp add: parseSDP_def Split_crlf_lf sdp_lines_cr)

lemma sdp_lines_append:
  "sdp_lines a (ls @ ms) = (case sdp_lines a ls of Inl e \<Rightarrow> Inl e | Inr b \<Rightarrow> sdp_lines b ms)"
  by (induction a ls rule: sdp_lines.induct) (auto split: sum.split)

subsection \<open>What each line contributes\<close>

lemma go_atoi_nat_text: "n < 2 ^ 63 \<Longrightarrow> go_atoi (nat_text n) = Some (int n)"
  using go_atoi_itoa [of "int n"] by (simp add: go_itoa_def)

lemma port_text: "go_atoi (nat_text (unat (p :: u16))) = Some (int (unat p))"
  using unsigned_less [of p, where ?'a = nat] by (intro go_atoi_nat_text) simp

lemma last_append_token: "token w \<Longrightarrow> last (s @ w) = last w"
  by (simp add: token_def)

lemma token_ends: "token w \<Longrightarrow> w \<noteq> [] \<and> plain_char (hd w) \<and> plain_char (last w)"
  by (auto simp: token_def list_all_iff)

lemma trim_prefixed: "line_text s \<Longrightarrow> s \<noteq> [] \<Longrightarrow> p \<noteq> [] \<Longrightarrow> plain_char (hd p) \<Longrightarrow> TrimSpace (p @ s) = p @ s"
  by (rule TrimSpace_stable) (auto simp: trim_stable_def line_text_def)

lemma sdp_tokens: "token ''c=IN''" "token ''IP4''" "token ''m=video''"
  by (simp_all add: token_def plain_char_def)

lemma sdp_line_c: "token ip \<Longrightarrow> sdp_line a (''c=IN IP4 '' @ ip) = Inr (a\<lparr>sa_mediaIP := ip\<rparr>)"
proof -
  assume t: "token ip"
  have "Fields (''c=IN'' @ '' '' @ ''IP4'' @ '' '' @ ip) = [''c=IN'', ''IP4'', ip]"
    by (simp only: Fields_tokens Fields_token t sdp_tokens)
  moreover have "TrimSpace (''c=IN IP4 '' @ ip) = ''c=IN IP4 '' @ ip"
    using trim_prefixed [of ip "''c=IN IP4 ''"] token_line [OF t] t by (simp add: token_def plain_char_def)
  ultimately show ?thesis by (simp add: sdp_line_def)
qed

lemma sdp_line_m:
  assumes "token proto" and "token pt" and "n < 2 ^ 63"
  shows "sdp_line a (''m=video '' @ nat_text n @ '' '' @ proto @ '' '' @ pt) = Inr (a\<lparr>sa_mediaPort := int n, sa_proto := proto\<rparr>)"
proof -
  have "Fields (''m=video'' @ '' '' @ nat_text n @ '' '' @ proto @ '' '' @ pt) = [''m=video'', nat_text n, proto, pt]"
    by (simp only: Fields_tokens Fields_token assms nat_text_token sdp_tokens)
  moreover have "TrimSpace ((''m=video '' @ nat_text n @ '' '' @ proto @ '' '') @ pt) = (''m=video '' @ nat_text n @ '' '' @ proto @ '' '') @ pt"
    using trim_prefixed [of pt "''m=video '' @ nat_text n @ '' '' @ proto @ '' ''"] token_line [OF assms(2)] assms(2)
    by (simp add: token_def plain_char_def)
  ultimately show ?thesis using go_atoi_nat_text [OF assms(3)] by (simp add: sdp_line_def)
qed

lemma sdp_line_y:
  assumes "ParseUint32 s = Some v"
  shows "sdp_line a (''y='' @ s) = Inr (a\<lparr>sa_ssrc := Some v\<rparr>)"
proof -
  have "token s" using assms by (auto simp: ParseUint32_def intro: digits_token split: if_splits)
  then have "TrimSpace (''y='' @ s) = ''y='' @ s"
    using trim_prefixed [of s "''y=''"] token_line [of s] by (simp add: token_def plain_char_def)
  then show ?thesis using assms by (simp add: sdp_line_def TrimPrefix_def)
qed

lemma sdp_line_s:
  assumes "token s"
  shows "sdp_line a (''s='' @ s) = Inr (a\<lparr>sa_type := normalizeSessionType s\<rparr>)"
proof -
  have "TrimSpace (''s='' @ s) = ''s='' @ s"
    using trim_prefixed [of s "''s=''"] token_line [OF assms] assms by (simp add: token_def plain_char_def)
  then show ?thesis using TrimSpace_stable [OF token_stable [OF assms]] by (simp add: sdp_line_def TrimPrefix_def)
qed

lemma sdp_line_setup:
  assumes "token s"
  shows "sdp_line a (''a=setup:'' @ s) = Inr (a\<lparr>sa_setup := s\<rparr>)"
proof -
  have "TrimSpace (''a=setup:'' @ s) = ''a=setup:'' @ s"
    using trim_prefixed [of s "''a=setup:''"] token_line [OF assms] assms by (simp add: token_def plain_char_def)
  then show ?thesis by (simp add: sdp_line_def TrimPrefix_def)
qed

text \<open>A line with another start is skipped.\<close>

lemma sdp_line_skip:
  assumes "line_text l" and "l \<noteq> []" and "\<not> HasPrefix l ''a=setup:''" and "\<not> HasPrefix l ''c=''"
    and "\<not> HasPrefix l ''m=video ''" and "\<not> HasPrefix l ''y=''" and "\<not> HasPrefix l ''s=''"
  shows "sdp_line a l = Inr a"
  using assms TrimSpace_stable [of l] by (simp add: sdp_line_def line_text_def)

definition sdp_head :: "string \<Rightarrow> string \<Rightarrow> string \<Rightarrow> string list" where
  "sdp_head ip name tm = [''v=0'', ''o=- 0 0 IN IP4 '' @ ip, ''s='' @ name, ''c=IN IP4 '' @ ip, ''t='' @ tm]"

definition sdp_tail :: "string \<Rightarrow> string list \<Rightarrow> string \<Rightarrow> string \<Rightarrow> string list" where
  "sdp_tail rtpmap setup ssrc sec =
     [''a=recvonly'', ''a=rtpmap:'' @ rtpmap] @ setup @ [''y='' @ ssrc] @ (if sec \<noteq> [] then [''a=security:'' @ sec] else [])"

lemma sdp_head_text:
  assumes "token ip" "token name" "line_text tm" "tm \<noteq> []"
  shows "\<forall>l \<in> set (sdp_head ip name tm). line_text l \<and> l \<noteq> []"
  using assms token_line [of ip] token_line [of name]
  by (auto simp: sdp_head_def token_def plain_char_def intro!: line_text_append line_text_literal)
     (auto simp: line_text_def trim_stable_def plain_char_def)

lemma sdp_head_lines:
  assumes "token ip" "token name" "line_text tm" "tm \<noteq> []"
  shows "sdp_lines a (sdp_head ip name tm) = Inr (a\<lparr>sa_type := normalizeSessionType name, sa_mediaIP := ip\<rparr>)"
proof -
  have "line_text l \<and> l \<noteq> []" if "l \<in> set (sdp_head ip name tm)" for l using sdp_head_text [OF assms] that by blast
  then have "line_text ''v=0''" "line_text (''o=- 0 0 IN IP4 '' @ ip)" "line_text (''t='' @ tm)"
    by (simp_all add: sdp_head_def)
  then show ?thesis using sdp_line_c [OF assms(1)] sdp_line_s [OF assms(2)]
    by (simp add: sdp_head_def sdp_line_skip)
qed

definition setup_lines :: "string \<Rightarrow> string list" where
  "setup_lines role = (if role = [] then [] else [''a=setup:'' @ role, ''a=connection:new''])"

lemma setup_lines_facts:
  assumes "role = [] \<or> token role"
  shows "\<forall>l \<in> set (setup_lines role). line_text l \<and> l \<noteq> []"
    and "sdp_lines a (setup_lines role) = Inr (if role = [] then a else a\<lparr>sa_setup := role\<rparr>)"
proof -
  have c: "line_text ''a=connection:new''" by (rule line_text_literal) (simp_all add: plain_char_def)
  moreover have "line_text (''a=setup:'' @ role)" if "token role"
    using that token_line [OF that] by (intro line_text_append) (simp_all add: token_def plain_char_def)
  ultimately show "\<forall>l \<in> set (setup_lines role). line_text l \<and> l \<noteq> []" using assms by (auto simp: setup_lines_def)
  show "sdp_lines a (setup_lines role) = Inr (if role = [] then a else a\<lparr>sa_setup := role\<rparr>)"
    using assms sdp_line_setup [of role] sdp_line_skip [OF c] by (auto simp: setup_lines_def token_def)
qed

lemma sdp_tail_facts:
  assumes "role = [] \<or> token role" and "ParseUint32 ssrc = Some v" and "line_text sec" and "line_text rtpmap" and "rtpmap \<noteq> []"
  shows "\<forall>l \<in> set (sdp_tail rtpmap (setup_lines role) ssrc sec). line_text l \<and> l \<noteq> []"
    and "sdp_lines a (sdp_tail rtpmap (setup_lines role) ssrc sec)
      = Inr ((if role = [] then a else a\<lparr>sa_setup := role\<rparr>)\<lparr>sa_ssrc := Some v\<rparr>)"
proof -
  have t: "token ssrc" using assms(2) by (auto simp: ParseUint32_def intro: digits_token split: if_splits)
  have r: "line_text ''a=recvonly''" by (rule line_text_literal) (simp_all add: plain_char_def)
  have m: "line_text (''a=rtpmap:'' @ rtpmap)" using assms(4,5) by (intro line_text_append) (simp_all add: plain_char_def)
  have y: "line_text (''y='' @ ssrc)" using t token_line [OF t] by (intro line_text_append) (simp_all add: token_def plain_char_def)
  have s: "line_text (''a=security:'' @ sec)" if "sec \<noteq> []" using assms(3) that by (intro line_text_append) (simp_all add: plain_char_def)
  show "\<forall>l \<in> set (sdp_tail rtpmap (setup_lines role) ssrc sec). line_text l \<and> l \<noteq> []"
    using r m y s setup_lines_facts(1) [OF assms(1)] by (auto simp: sdp_tail_def)
  show "sdp_lines a (sdp_tail rtpmap (setup_lines role) ssrc sec)
      = Inr ((if role = [] then a else a\<lparr>sa_setup := role\<rparr>)\<lparr>sa_ssrc := Some v\<rparr>)"
    using sdp_line_skip [OF r] sdp_line_skip [OF m] sdp_line_y [OF assms(2)] sdp_line_skip [OF s] setup_lines_facts(2) [OF assms(1)]
    by (simp add: sdp_tail_def sdp_lines_append)
qed

text \<open>The transport parameters of an offer.\<close>

definition offer_port :: "string \<Rightarrow> u16 \<Rightarrow> nat" where
  "offer_port transport port = (if transport = MediaTCPActive then 9 else unat port)"

definition offer_proto :: "string \<Rightarrow> string" where
  "offer_proto transport = (if transport \<in> {MediaTCPPassive, MediaTCPActive} then ''TCP/RTP/AVP'' else ''RTP/AVP'')"

definition offer_role :: "string \<Rightarrow> string" where
  "offer_role transport =
     (if transport = MediaTCPPassive then ''passive'' else if transport = MediaTCPActive then ''active'' else [])"

definition video_line :: "nat \<Rightarrow> string \<Rightarrow> string" where
  "video_line n proto = ''m=video '' @ nat_text n @ '' '' @ proto @ '' 96''"

lemmas transport_names = MediaUDP_def MediaTCPPassive_def MediaTCPActive_def

lemma nat_text_9: "nat_text 9 = ''9''"
  by (subst nat_text.simps) (simp add: digit_char_def char_of_def bit_Suc_0_iff)

lemma buildLiveSDP_lines:
  "buildLiveSDP ip port transport ssrc False sec = crlf_lines (sdp_head ip ''Play'' ''0 0''
     @ [video_line (offer_port transport port) (offer_proto transport)]
     @ sdp_tail ''96 PS/90000'' (setup_lines (offer_role transport)) ssrc sec)"
  by (simp add: buildLiveSDP_def live_media_def sdp_head_def sdp_tail_def video_line_def setup_lines_def offer_port_def offer_proto_def
      offer_role_def transport_names nat_text_9)

lemma fetch_sdp_lines:
  "fetch_sdp ip port name start end' ssrc sec = crlf_lines
     (sdp_head ip name (go_itoa (sint (start + 2208988800)) @ '' '' @ go_itoa (sint (end' + 2208988800)))
      @ [video_line (unat port) ''RTP/AVP''] @ sdp_tail ''96 PS/90000'' (setup_lines []) ssrc sec)"
  by (simp add: fetch_sdp_def sdp_head_def sdp_tail_def video_line_def setup_lines_def)

lemma proto_tokens: "token ''TCP/RTP/AVP''" "token ''RTP/AVP''" "token ''96''" "token ''passive''" "token ''active''"
  "token ''Play''" "token ''Playback''" "token ''Download''"
  by (simp_all add: token_def plain_char_def)

lemma video_line_facts:
  assumes "token proto" and "n < 2 ^ 63"
  shows "line_text (video_line n proto)" "video_line n proto \<noteq> []"
    "sdp_line a (video_line n proto) = Inr (a\<lparr>sa_mediaPort := int n, sa_proto := proto\<rparr>)"
proof -
  show "sdp_line a (video_line n proto) = Inr (a\<lparr>sa_mediaPort := int n, sa_proto := proto\<rparr>)"
    using sdp_line_m [OF assms(1) proto_tokens(3) assms(2), of a] by (simp add: video_line_def)
  have "list_all (\<lambda>c. plain_char c \<or> c = CHR '' '') proto" "list_all (\<lambda>c. plain_char c \<or> c = CHR '' '') (nat_text n)"
    using assms(1) nat_text_token [of n] by (auto simp: token_def list_all_iff)
  then show "line_text (video_line n proto)" "video_line n proto \<noteq> []"
    by (auto intro!: line_text_literal simp: video_line_def plain_char_def)
qed

lemma parse_offer:
  assumes "token ip" and "token name" and "line_text tm" and "tm \<noteq> []" and "token proto" and "0 < n" and "n < 2 ^ 63"
    and "role = [] \<or> token role" and "ParseUint32 ssrc = Some v" and "line_text sec"
  shows "parseSDP (crlf_lines (sdp_head ip name tm @ [video_line n proto] @ sdp_tail ''96 PS/90000'' (setup_lines role) ssrc sec))
    = Inr (JoinHostPort ip (nat_text n), v, normalizeSessionType name,
        if Contains proto ''TCP'' then (if role = ''active'' then mediaTCPListen else mediaTCPConnect) else mediaUDP)"
proof -
  have rm: "line_text ''96 PS/90000''" by (rule line_text_literal) (simp_all add: plain_char_def)
  note h = sdp_head_text [OF assms(1-4)] sdp_head_lines [OF assms(1-4)]
    and m = video_line_facts [OF assms(5,7)]
    and t = sdp_tail_facts [OF assms(8-10) rm]
  have "ip \<noteq> []" using assms(1) by (simp add: token_def)
  then show ?thesis using h m t assms(6)
    by (subst parseSDP_lines) (auto simp: sdp_lines_append sdp_start_def sdp_result_def go_itoa_def)
qed

subsection \<open>The security attribute\<close>

lemma TrimRight_line:
  assumes "line_text l"
  shows "TrimRight l [CHR 0x0D] = l"
proof (rule TrimRight_id)
  have "l \<noteq> [] \<Longrightarrow> last l \<in> set l" by simp
  then have "l \<noteq> [] \<Longrightarrow> last l \<noteq> CHR 0x0D" using line_no_break [OF assms] by metis
  then show "l = [] \<or> last l \<notin> set [CHR 0x0D]" by auto
qed

lemma security_line_cr: "security_line (l @ [CHR 0x0D]) = security_line l"
  by (simp add: security_line_def TrimRight_snoc)

lemma security_line_Nil [simp]: "security_line [] = None"
  by (simp add: security_line_def TrimRight_def CutPrefix_def)

lemma security_line_other: "line_text l \<Longrightarrow> \<not> HasPrefix l ''a=security:'' \<Longrightarrow> security_line l = None"
  by (simp add: security_line_def TrimRight_line CutPrefix_def)

lemma security_line_value:
  assumes "line_text sec" and "sec \<noteq> []"
  shows "security_line (''a=security:'' @ sec) = Some sec"
proof -
  have "line_text (''a=security:'' @ sec)" using assms by (intro line_text_append) (simp_all add: plain_char_def)
  then have "TrimRight (''a=security:'' @ sec) [CHR 0x0D] = ''a=security:'' @ sec" by (rule TrimRight_line)
  moreover have "TrimSpace sec = sec" using assms(1) by (intro TrimSpace_stable) (simp add: line_text_def)
  ultimately show ?thesis using assms(2) by (simp add: security_line_def CutPrefix_def)
qed

lemma security_value_lines:
  assumes "\<forall>l \<in> set ls. line_text l"
  shows "SDPSecurityAttributeValue (crlf_lines ls) = (case List.map_filter security_line ls of [] \<Rightarrow> [] | v # _ \<Rightarrow> v)"
proof -
  have "List.map_filter security_line (map (\<lambda>l. l @ [CHR 0x0D]) ls @ [[]]) = List.map_filter security_line ls"
    using assms by (induction ls) (auto simp: List.map_filter_simps security_line_cr split: option.split)
  then show ?thesis using assms by (simp add: SDPSecurityAttributeValue_def Split_crlf_lf)
qed

lemma map_filter_none: "\<forall>x \<in> set xs. f x = None \<Longrightarrow> List.map_filter f xs = []"
  by (induction xs) (simp_all add: List.map_filter_simps)

lemma security_offer:
  assumes "token ip" and "token name" and "line_text tm" and "tm \<noteq> []" and "token proto" and "n < 2 ^ 63"
    and "role = [] \<or> token role" and "ParseUint32 ssrc = Some v" and "line_text sec"
  shows "SDPSecurityAttributeValue (crlf_lines (sdp_head ip name tm @ [video_line n proto]
      @ sdp_tail ''96 PS/90000'' (setup_lines role) ssrc sec)) = sec"
proof -
  have rm: "line_text ''96 PS/90000''" by (rule line_text_literal) (simp_all add: plain_char_def)
  let ?pre = "sdp_head ip name tm @ [video_line n proto] @ [''a=recvonly'', ''a=rtpmap:'' @ ''96 PS/90000''] @ setup_lines role @ [''y='' @ ssrc]"
  let ?sec = "if sec \<noteq> [] then [''a=security:'' @ sec] else []"
  have eq: "?pre @ ?sec = sdp_head ip name tm @ [video_line n proto] @ sdp_tail ''96 PS/90000'' (setup_lines role) ssrc sec"
    by (simp add: sdp_tail_def)
  have all: "\<forall>l \<in> set (?pre @ ?sec). line_text l"
    unfolding eq set_append ball_Un
    using sdp_head_text [OF assms(1-4)] video_line_facts(1) [OF assms(5,6)] sdp_tail_facts(1) [OF assms(7-9) rm list.distinct(2)] by (simp only: ball_simps list.set insert_iff) blast
  have "\<forall>l \<in> set ?pre. \<not> HasPrefix l ''a=security:''"
    by (auto simp: sdp_head_def video_line_def setup_lines_def)
  then have "List.map_filter security_line ?pre = []" using all by (intro map_filter_none) (auto simp: security_line_other)
  moreover have "List.map_filter security_line ?sec = (if sec = [] then [] else [sec])"
    using security_line_value [OF assms(9)] by (simp add: List.map_filter_def)
  ultimately have "List.map_filter security_line (?pre @ ?sec) = (if sec = [] then [] else [sec])"
    by (simp only: List.map_filter_def filter_append map_append) simp
  then show ?thesis using security_value_lines [OF all] unfolding eq by simp
qed

subsection \<open>The address of an answer\<close>

lemma buildDeviceSDP_no_cr:
  assumes "CHR 0x0D \<notin> set (deviceID @ localIP @ sessionType @ setupRole)"
  shows "CHR 0x0D \<notin> set (buildDeviceSDP deviceID localIP port ssrc transport sessionType setupRole)"
proof -
  have "CHR 0x0D \<notin> set (nat_text n)" for n
    using nat_text_digits [of n] by (auto simp: list_all_iff is_digit_def)
  then show ?thesis using assms by (auto simp: buildDeviceSDP_def lf_def go_itoa_def)
qed

lemma device_answer_ends:
  "buildDeviceSDP deviceID localIP port ssrc transport sessionType setupRole
     = ''v=0'' @ drop 3 (buildDeviceSDP deviceID localIP port ssrc transport sessionType setupRole)"
  "\<exists>p. buildDeviceSDP deviceID localIP port ssrc transport sessionType setupRole = p @ nat_text (unat ssrc)"
  by (simp_all add: buildDeviceSDP_def)

subsection \<open>SSRC numbers\<close>

lemma buildSSRC_facts:
  assumes "list_all is_digit serverID" and "0 \<le> seq" and "c \<in> {CHR ''0'', CHR ''1'', CHR ''2''}"
  shows "length (buildSSRC [c] serverID seq) = 10" "list_all is_digit (buildSSRC [c] serverID seq)"
    "dec_val 0 (buildSSRC [c] serverID seq) < 2 ^ 32"
proof -
  define dom where "dom = zero_pad 5 (if length serverID \<ge> 8 then drop 3 (take 8 serverID)
    else if length serverID > 3 then drop 3 serverID else ''00000'')"
  have "list_all is_digit (drop 3 (take k serverID))" for k
    using assms(1) by (auto simp: list_all_iff dest!: in_set_dropD in_set_takeD)
  moreover have "list_all is_digit (drop 3 serverID)" using assms(1) by (auto simp: list_all_iff dest!: in_set_dropD)
  moreover have "list_all is_digit ''00000''" by (simp add: is_digit_def)
  ultimately have dom: "list_all is_digit dom" "length dom = 5"
    by (auto simp: dom_def zero_pad_facts max_def)
  have m: "seq smod 10000 = int (nat (seq mod 10000))" using assms(2) by (cases "seq = 0") (simp_all add: signed_modulo_int_def)
  have "nat (seq mod 10000) < 10 ^ 4" by simp
  note f = fmt_0d_nat [OF this, unfolded m [symmetric]]
  have eq: "buildSSRC [c] serverID seq = c # dom @ fmt_0d 4 (seq smod 10000)" by (simp add: buildSSRC_def dom_def)
  have c: "is_digit c" "digit_val c \<le> 2" using assms(3) by (auto simp: is_digit_def digit_val_def)
  show len: "length (buildSSRC [c] serverID seq) = 10" and "list_all is_digit (buildSSRC [c] serverID seq)"
    using f(1,2) dom c by (simp_all add: eq)
  have ds: "list_all is_digit (dom @ fmt_0d 4 (seq smod 10000))" using f(2) dom by simp
  have l9: "length (dom @ fmt_0d 4 (seq smod 10000)) = 9" using f(1) dom(2) by simp
  have "dec_val (digit_val c) (dom @ fmt_0d 4 (seq smod 10000)) < (digit_val c + 1) * 10 ^ 9"
    using dec_val_bound [OF ds, of "digit_val c"] unfolding l9 .
  also have "(digit_val c + 1) * 10 ^ 9 \<le> 3 * 10 ^ 9" using c(2) by (intro mult_le_mono1) simp
  finally show "dec_val 0 (buildSSRC [c] serverID seq) < 2 ^ 32" by (simp add: eq)
qed

lemma ParseUint32_buildSSRC:
  assumes "list_all is_digit serverID" and "0 \<le> seq" and "c \<in> {CHR ''0'', CHR ''1'', CHR ''2''}"
  shows "ParseUint32 (buildSSRC [c] serverID seq) = Some (of_nat (dec_val 0 (buildSSRC [c] serverID seq)))"
proof -
  have "buildSSRC [c] serverID seq \<noteq> []" by (simp add: buildSSRC_def Let_def)
  then show ?thesis using buildSSRC_facts(2,3) [OF assms] unfolding ParseUint32_def by simp
qed

lemma SSRC_parses:
  assumes "list_all is_digit serverID" and "0 \<le> seq"
  shows "ParseUint32 (SSRC playback serverID seq) = Some (of_nat (dec_val 0 (SSRC playback serverID seq)))"
    and "ParseUint32 (SSRCDownload serverID seq) = Some (of_nat (dec_val 0 (SSRCDownload serverID seq)))"
  using ParseUint32_buildSSRC [OF assms] by (simp_all add: SSRC_def SSRCDownload_def)

lemma itoa_text: "line_text (go_itoa n)" "go_itoa n \<noteq> []"
proof -
  have "token (go_itoa n)"
    using nat_text_token [of "nat n"] nat_text_token [of "nat (- n)"] by (auto simp: go_itoa_def token_def plain_char_def)
  then show "line_text (go_itoa n)" "go_itoa n \<noteq> []" by (simp_all add: token_line token_def)
qed

lemma two_itoa_text: "line_text (go_itoa a @ '' '' @ go_itoa b)"
proof -
  have "list_all (\<lambda>c. plain_char c \<or> c = CHR '' '') (go_itoa a @ '' '')" "plain_char (hd (go_itoa a @ '' ''))"
    using itoa_text [of a] by (auto simp: line_text_def trim_stable_def)
  then show ?thesis using line_text_append [OF itoa_text, of "go_itoa a @ '' ''" b] itoa_text(2) [of a] by simp
qed

lemma offer_facts: "token (offer_proto t)" "offer_role t = [] \<or> token (offer_role t)" "offer_port t port < 2 ^ 63"
  "(if Contains (offer_proto t) ''TCP'' then (if offer_role t = ''active'' then mediaTCPListen else mediaTCPConnect) else mediaUDP)
    = (if t = MediaTCPActive then mediaTCPListen else if t = MediaTCPPassive then mediaTCPConnect else mediaUDP)"
proof -
  show "offer_port t port < 2 ^ 63" using unsigned_less [of port, where ?'a = nat] by (simp add: offer_port_def)
  have "Contains ''TCP/RTP/AVP'' ''TCP''" by (simp add: Contains_def str_index.simps)
  moreover have "\<not> Contains ''RTP/AVP'' ''TCP''" by (simp add: Contains_def str_index.simps)
  ultimately show "(if Contains (offer_proto t) ''TCP'' then (if offer_role t = ''active'' then mediaTCPListen else mediaTCPConnect) else mediaUDP)
    = (if t = MediaTCPActive then mediaTCPListen else if t = MediaTCPPassive then mediaTCPConnect else mediaUDP)"
    by (simp add: offer_proto_def offer_role_def transport_names)
qed (simp_all add: offer_proto_def offer_role_def proto_tokens)

lemma session_names: "normalizeSessionType ''Play'' = ''Play''" "normalizeSessionType ''Playback'' = ''Playback''"
  "normalizeSessionType ''Download'' = ''Download''"
  by (simp_all add: normalizeSessionType_def lower_char_def char_of_def bit_Suc_0_iff)

subsection \<open>Properties\<close>



text \<open>
  SSRC numbers. For a numeric server identifier and any sequence number the SSRC is ten decimal
  digits that fit 32 bits; its first digit tells live, playback and download sessions apart, and within
  one kind two sessions share an SSRC exactly when their sequence numbers agree modulo 10000.
\<close>

theorem ssrc_distinct:
  assumes "list_all is_digit serverID" and "0 \<le> m" and "0 \<le> n"
  shows "length (SSRC playback serverID m) = 10 \<and> list_all is_digit (SSRC playback serverID m)
    \<and> dec_val 0 (SSRC playback serverID m) < 2 ^ 32 \<and> dec_val 0 (SSRCDownload serverID m) < 2 ^ 32
    \<and> SSRC False serverID m \<noteq> SSRC True serverID n \<and> SSRC playback serverID m \<noteq> SSRCDownload serverID n
    \<and> (SSRC playback serverID m = SSRC playback serverID n \<longleftrightarrow> m mod 10000 = n mod 10000)"
proof -
  have md: "seq smod 10000 = int (nat (seq mod 10000))" if "0 \<le> seq" for seq :: int
    using that by (cases "seq = 0") (simp_all add: signed_modulo_int_def)
  have "nat (k mod 10000) < 10 ^ 4" for k :: int by simp
  then have dv: "dec_val 0 (fmt_0d 4 (k smod 10000)) = nat (k mod 10000)" if "0 \<le> k" for k
    using fmt_0d_nat(3) [of "nat (k mod 10000)" 4] md [OF that] by simp
  have "fmt_0d 4 (m smod 10000) = fmt_0d 4 (n smod 10000) \<longleftrightarrow> m mod 10000 = n mod 10000"
  proof
    assume "fmt_0d 4 (m smod 10000) = fmt_0d 4 (n smod 10000)"
    then have "nat (m mod 10000) = nat (n mod 10000)" using dv [OF assms(2)] dv [OF assms(3)] by simp
    then show "m mod 10000 = n mod 10000" by (simp add: nat_eq_iff)
  qed (simp add: md assms(2,3))
  then show ?thesis
    using buildSSRC_facts [OF assms(1,2), of "CHR ''0''"] buildSSRC_facts [OF assms(1,2), of "CHR ''1''"] buildSSRC_facts [OF assms(1,2), of "CHR ''2''"]
    by (cases playback) (simp_all add: SSRC_def SSRCDownload_def buildSSRC_def Let_def)
qed

theorem ssrc_distinct_witness:
  "SSRC False ''34020000002000000001'' 7 \<noteq> SSRC False ''34020000002000000001'' 8
    \<and> SSRC False ''34020000002000000001'' 7 = SSRC False ''34020000002000000001'' 10007"
  using ssrc_distinct [of "''34020000002000000001''" 7 8 False] ssrc_distinct [of "''34020000002000000001''" 7 10007 False]
  by (simp add: is_digit_def)

text \<open>
  The platform cannot read the answers of the device library. \<open>buildDeviceSDP\<close> ends its lines with a
  line feed alone and \<open>sdpMediaAddress\<close> splits at CR LF, so for every answer without carriage returns in
  its parameters no address is found and a \<open>tcp-active\<close> session between the two libraries never connects.
\<close>

theorem device_answer_unreadable:
  assumes "CHR 0x0D \<notin> set (deviceID @ localIP @ sessionType @ setupRole)"
  shows "sdpMediaAddress (buildDeviceSDP deviceID localIP port ssrc transport sessionType setupRole) = None"
proof -
  let ?sdp = "buildDeviceSDP deviceID localIP port ssrc transport sessionType setupRole"
  have split: "Split ?sdp crlf = [?sdp]" using buildDeviceSDP_no_cr [OF assms] by (intro Split_none) (simp_all add: crlf_def)
  obtain p where p: "?sdp = p @ nat_text (unat ssrc)" using device_answer_ends(2) by blast
  obtain q where q: "?sdp = ''v=0'' @ q" using device_answer_ends(1) by metis
  have "plain_char (last ?sdp)" using p token_ends [OF nat_text_token, of "unat ssrc"] by simp
  moreover have "plain_char (hd ?sdp)" using q by (simp add: plain_char_def)
  ultimately have "TrimSpace ?sdp = ?sdp" by (intro TrimSpace_stable) (simp add: trim_stable_def)
  then have "media_line ([], 0) ?sdp = ([], 0)" using q by (simp add: media_line_def)
  then show ?thesis by (simp add: sdpMediaAddress_def split)
qed

theorem device_answer_unreadable_witness:
  "sdpMediaAddress (buildDeviceSDP ''34020000001320000001'' ''192.168.1.10'' 40000 7 ''tcp'' ''Play'' ''passive'') = None"
  using device_answer_unreadable [of "''34020000001320000001''" "''192.168.1.10''" "''Play''" "''passive''"] by simp

end
