(* ===== verification/Session_Mgr.thy ===== *)
theory Session_Mgr
  imports Sdp Port_Pool Rtp_Safety Registry
begin

text \<open>
  The media sessions of \<open>src/platform/session.go\<close>: INVITE, playback and download fetches, TCP media in
  both directions, BYE, the stall watchdog and shutdown, on top of the port pool, the RTP receiver and
  the session descriptions.

  A \<open>*session\<close> is an address of \<open>sm_heap\<close> and a \<open>*Channel\<close> an address of \<open>sm_chans\<close>, so that the
  maps and the accept goroutine share them as the program does. The network is the record \<open>net_env\<close>:
  which addresses parse, are multicast groups, can be bound, listened on and dialled. What the manager does to the
  outside is appended to \<open>sm_log\<close>. A callback resolver is the value it returns during the call. Each method is one
  atomic step; the accept goroutine of a TCP-passive session is the step \<open>acceptTCP\<close>.
\<close>

subsection \<open>State\<close>

record session =
  ss_channelID :: string
  ss_deviceID :: string
  ss_channel :: nat
  ss_receiver :: receiver
  ss_hub :: bool
  ss_port :: u16
  ss_tcpMode :: tcpMode
  ss_conn :: bool
  ss_cancel :: bool
  ss_closed :: bool
  ss_tcpLn :: bool
  ss_sink :: "bool option"
  ss_firstRTP :: bool

datatype sm_event =
    SipBye string | PlaybackBye string | PortBack u16 | ConnClosed nat | ListenerClosed nat
  | SinkStopped nat | StallRecycled string

datatype sm_error =
    NilChannel | NilSink | NoFreePort | ListenFailed | JoinFailed | BadAddr | BindFailed | StartFailed
  | NoSession | NoMediaAddress | DialFailed | TornDown

record session_manager =
  sm_pool :: port_manager
  sm_sessions :: "(string \<times> nat) list"
  sm_playback :: "(string \<times> nat) list"
  sm_heap :: "session list"
  sm_chans :: "nat \<Rightarrow> channel"
  sm_serverID :: string
  sm_ssrcSeq :: i64
  sm_mediaTransport :: "string option"
  sm_framing :: "string option"
  sm_security :: "string option"
  sm_byeSender :: bool
  sm_playbackByeSender :: bool
  sm_firstRTPHook :: bool
  sm_stallInterval :: i64
  sm_stallThreshold :: i64
  sm_onStallRecycle :: bool
  sm_stallArmed :: bool
  sm_stallRecycles :: i64
  sm_log :: "sm_event list"

record net_env =
  ne_multicast :: "string \<Rightarrow> bool"
  ne_parses :: "string \<Rightarrow> bool"
  ne_join :: "string \<Rightarrow> u16 \<Rightarrow> bool"
  ne_bind :: "string \<Rightarrow> u16 \<Rightarrow> bool"
  ne_listen :: "string \<Rightarrow> u16 \<Rightarrow> bool"
  ne_dial :: "string \<Rightarrow> bool"

type_synonym 'a sm_result = "(session_manager \<times> (sm_error + 'a)) go"

definition NewSessionManager :: "port_manager \<Rightarrow> (nat \<Rightarrow> channel) \<Rightarrow> string \<Rightarrow> session_manager" where
  "NewSessionManager pm chans serverID =
     \<lparr>sm_pool = pm, sm_sessions = [], sm_playback = [], sm_heap = [], sm_chans = chans, sm_serverID = serverID,
      sm_ssrcSeq = 0, sm_mediaTransport = None, sm_framing = None, sm_security = None, sm_byeSender = False,
      sm_playbackByeSender = False, sm_firstRTPHook = False, sm_stallInterval = 0, sm_stallThreshold = 0, sm_onStallRecycle = False,
      sm_stallArmed = False, sm_stallRecycles = 0, sm_log = []\<rparr>"

subsection \<open>Configuration\<close>

definition SetMediaTransport :: "session_manager \<Rightarrow> string option \<Rightarrow> session_manager" where
  "SetMediaTransport m fn = m\<lparr>sm_mediaTransport := fn\<rparr>"

definition SetTCPFraming :: "session_manager \<Rightarrow> string option \<Rightarrow> session_manager" where
  "SetTCPFraming m fn = m\<lparr>sm_framing := fn\<rparr>"

definition SetMediaSecurityOffer :: "session_manager \<Rightarrow> string option \<Rightarrow> session_manager" where
  "SetMediaSecurityOffer m fn = m\<lparr>sm_security := fn\<rparr>"

definition SetByeSender :: "session_manager \<Rightarrow> bool \<Rightarrow> session_manager" where
  "SetByeSender m sender = m\<lparr>sm_byeSender := sender\<rparr>"

definition SetPlaybackByeSender :: "session_manager \<Rightarrow> bool \<Rightarrow> session_manager" where
  "SetPlaybackByeSender m sender = m\<lparr>sm_playbackByeSender := sender\<rparr>"

definition SetFirstRTPHook :: "session_manager \<Rightarrow> bool \<Rightarrow> session_manager" where
  "SetFirstRTPHook m hook = m\<lparr>sm_firstRTPHook := hook\<rparr>"

definition mediaSecurityOffer :: "session_manager \<Rightarrow> string" where
  "mediaSecurityOffer m = (case sm_security m of None \<Rightarrow> [] | Some v \<Rightarrow> v)"

definition MediaTransport :: "session_manager \<Rightarrow> string" where
  "MediaTransport m =
     (case sm_mediaTransport m of
        None \<Rightarrow> MediaUDP
      | Some t \<Rightarrow> if t = MediaTCPPassive \<or> t = MediaTCPActive then t else MediaUDP)"

definition tcpFraming :: "session_manager \<Rightarrow> tcpMode" where
  "tcpFraming m =
     (case sm_framing m of
        None \<Rightarrow> TCPModeAuto
      | Some f \<Rightarrow> if f = ''rfc4571'' then TCPModeRFC4571 else if f = ''0x24'' then TCPMode0x24 else TCPModeAuto)"

text \<open>The watchdog goroutine is started by the first call only.\<close>

definition SetStallWatchdog :: "session_manager \<Rightarrow> i64 \<Rightarrow> i64 \<Rightarrow> bool \<Rightarrow> session_manager" where
  "SetStallWatchdog m checkEvery stallFor onRecycle =
     (if checkEvery \<le>s 0 \<or> stallFor \<le>s 0 then m
      else m\<lparr>sm_stallInterval := checkEvery, sm_stallThreshold := stallFor, sm_onStallRecycle := onRecycle,
             sm_stallArmed := True\<rparr>)"

subsection \<open>Teardown\<close>

definition sm_emit :: "session_manager \<Rightarrow> sm_event list \<Rightarrow> session_manager" where
  "sm_emit m evs = m\<lparr>sm_log := sm_log m @ evs\<rparr>"

definition set_status :: "session_manager \<Rightarrow> nat \<Rightarrow> channel_status \<Rightarrow> session_manager" where
  "set_status m c st = m\<lparr>sm_chans := (sm_chans m)(c := (sm_chans m c)\<lparr>ch_Status := st\<rparr>)\<rparr>"

definition cas_status :: "session_manager \<Rightarrow> nat \<Rightarrow> channel_status \<Rightarrow> channel_status \<Rightarrow> session_manager" where
  "cas_status m c old new = (if ch_Status (sm_chans m c) = old then set_status m c new else m)"

definition put_session :: "session_manager \<Rightarrow> nat \<Rightarrow> session \<Rightarrow> session_manager" where
  "put_session m a s = m\<lparr>sm_heap := (sm_heap m)[a := s]\<rparr>"

definition recycle_port :: "session_manager \<Rightarrow> u16 \<Rightarrow> session_manager" where
  "recycle_port m p = sm_emit (m\<lparr>sm_pool := pm_Recycle (sm_pool m) p\<rparr>) [PortBack p]"

definition teardown :: "session_manager \<Rightarrow> nat \<Rightarrow> bool \<Rightarrow> session_manager go" where
  "teardown m a resetStatus = do {
     s \<leftarrow> go_idx (sm_heap m) a;
     r \<leftarrow> Stop (ss_receiver s);
     let m = put_session m a (s\<lparr>ss_closed := True, ss_receiver := r\<rparr>);
     let m = sm_emit m ((if ss_conn s then [ConnClosed a] else []) @ (if ss_tcpLn s then [ListenerClosed a] else []));
     let m = recycle_port m (ss_port s);
     let m = (if ss_sink s = Some True then sm_emit m [SinkStopped a] else m);
     Some (if resetStatus then set_status m (ss_channel s) ChannelIdle else m) }"

subsection \<open>Live sessions\<close>

text \<open>The receiver of a live session, before it starts.\<close>

definition live_receiver :: "session_manager \<Rightarrow> channel \<Rightarrow> bool \<Rightarrow> bool \<Rightarrow> receiver" where
  "live_receiver m ch onAU onAudio =
     (let r = SetAudioOnly (NewReceiver (\<not> onAU) True False onAudio False) (ch_AudioOnly ch)
      in if HasPrefix (mediaSecurityOffer m) ''GB35114-C'' then SetExpectPayloadDecryptor r True else r)"

definition new_session :: "nat \<Rightarrow> channel \<Rightarrow> receiver \<Rightarrow> bool \<Rightarrow> u16 \<Rightarrow> session" where
  "new_session c ch r hub port =
     \<lparr>ss_channelID = ch_ID ch, ss_deviceID = ch_DeviceID ch, ss_channel = c, ss_receiver = r, ss_hub = hub,
      ss_port = port, ss_tcpMode = TCPModeAuto, ss_conn = False, ss_cancel = False, ss_closed = False,
      ss_tcpLn = False, ss_sink = None, ss_firstRTP = False\<rparr>"

text \<open>Give the port back and report.\<close>

definition invite_failed :: "session_manager \<Rightarrow> u16 \<Rightarrow> sm_error \<Rightarrow> session_manager \<times> (sm_error + 'a)" where
  "invite_failed m port e = (recycle_port m port, Inl e)"

definition store_live :: "session_manager \<Rightarrow> session \<Rightarrow> session_manager" where
  "store_live m s =
     m\<lparr>sm_heap := sm_heap m @ [s], sm_sessions := AList.update (ss_channelID s) (length (sm_heap m)) (sm_sessions m)\<rparr>"

definition store_fetch :: "session_manager \<Rightarrow> session \<Rightarrow> session_manager" where
  "store_fetch m s =
     m\<lparr>sm_heap := sm_heap m @ [s], sm_playback := AList.update (ss_channelID s) (length (sm_heap m)) (sm_playback m)\<rparr>"

text \<open>The end of a multicast and of a unicast UDP session: the receiver starts on the bound socket.\<close>

definition attach_udp :: "session \<Rightarrow> session option" where
  "attach_udp s =
     (case rx_Start (ss_receiver s) False of
        Inl _ \<Rightarrow> None
      | Inr r \<Rightarrow> Some (s\<lparr>ss_conn := True, ss_receiver := r, ss_cancel := True\<rparr>))"

definition live_transport :: "net_env \<Rightarrow> session_manager \<Rightarrow> string \<Rightarrow> string \<Rightarrow> session \<Rightarrow> session_manager \<times> (sm_error + unit)" where
  "live_transport env m transport serverIP s =
     (let port = ss_port s;
          stored = (\<lambda>s. (cas_status (store_live m s) (ss_channel s) ChannelIdle ChannelInviting, Inr ())) in
      if transport = MediaTCPPassive
      then (if ne_listen env serverIP port then stored (s\<lparr>ss_tcpLn := True\<rparr>) else invite_failed m port ListenFailed)
      else if transport = MediaTCPActive then stored s
      else if ne_multicast env serverIP
      then (if \<not> ne_join env serverIP port then invite_failed m port JoinFailed
            else case attach_udp s of
                None \<Rightarrow> invite_failed (sm_emit m [ConnClosed (length (sm_heap m))]) port StartFailed
              | Some s \<Rightarrow> (store_live m s, Inr ()))
      else if \<not> ne_parses env serverIP then invite_failed m port BadAddr
      else if \<not> ne_bind env serverIP port then invite_failed m port BindFailed
      else case attach_udp s of
          None \<Rightarrow> invite_failed (sm_emit m [ConnClosed (length (sm_heap m))]) port StartFailed
        | Some s \<Rightarrow> stored s)"

definition bye_event :: "session_manager \<Rightarrow> string \<Rightarrow> sm_event list" where
  "bye_event m i = (if sm_byeSender m then [SipBye i] else [])"

text \<open>Recycle the previous session of the channel: out of the map, BYE, then teardown.\<close>

definition replace_live :: "session_manager \<Rightarrow> string \<Rightarrow> session_manager go" where
  "replace_live m i =
     (case map_of (sm_sessions m) i of
        None \<Rightarrow> Some m
      | Some a \<Rightarrow> teardown (sm_emit (m\<lparr>sm_sessions := AList.delete i (sm_sessions m)\<rparr>) (bye_event m i)) a False)"

definition Invite :: "net_env \<Rightarrow> session_manager \<Rightarrow> nat option \<Rightarrow> string \<Rightarrow> bool \<Rightarrow> bool \<Rightarrow> string sm_result" where
  "Invite env m chan serverIP onAU onAudio =
     (case chan of
        None \<Rightarrow> Some (m, Inl NilChannel)
      | Some c \<Rightarrow> do {
          let ch = sm_chans m c;
          m \<leftarrow> replace_live m (ch_ID ch);
          case pm_Get (sm_pool m) of
            (pool, Inl _) \<Rightarrow> Some (m\<lparr>sm_pool := pool\<rparr>, Inl NoFreePort)
          | (pool, Inr port) \<Rightarrow>
              let m = m\<lparr>sm_pool := pool, sm_ssrcSeq := sm_ssrcSeq m + 1\<rparr>;
                  ssrc = SSRC False (sm_serverID m) (sint (sm_ssrcSeq m));
                  transport = MediaTransport m;
                  sdp = buildLiveSDP serverIP port transport ssrc (ch_AudioOnly ch) (mediaSecurityOffer m)
              in (case live_transport env m transport serverIP
                        ((new_session c ch (live_receiver m ch onAU onAudio) (\<not> onAU) port)\<lparr>ss_firstRTP := sm_firstRTPHook m\<rparr>) of
                    (m, Inl e) \<Rightarrow> Some (m, Inl e)
                  | (m, Inr _) \<Rightarrow> Some (m, Inr sdp)) })"

subsection \<open>TCP media\<close>

text \<open>Attach a connection and start the receiver on it; the flag says whether the start succeeded.\<close>

definition attach_tcp :: "session_manager \<Rightarrow> nat \<Rightarrow> session \<Rightarrow> session_manager \<times> bool" where
  "attach_tcp m a s =
     (let s = s\<lparr>ss_conn := True, ss_tcpMode := tcpFraming m\<rparr> in
      case rx_Start (ss_receiver s) False of
        Inl _ \<Rightarrow> (sm_emit (put_session m a s) [ConnClosed a], False)
      | Inr r \<Rightarrow> (put_session m a (s\<lparr>ss_receiver := r, ss_cancel := True\<rparr>), True))"

text \<open>\<open>ok\<close> is the result of \<open>Accept\<close>: a connection, or an error on timeout or a closed listener.\<close>

definition acceptTCP :: "session_manager \<Rightarrow> nat \<Rightarrow> bool \<Rightarrow> session_manager go" where
  "acceptTCP m a ok = do {
     s \<leftarrow> go_idx (sm_heap m) a;
     if \<not> ss_tcpLn s then Some m
     else do {
       let m = sm_emit m [ListenerClosed a];
       if ok then Some (if ss_closed s then sm_emit m [ConnClosed a] else fst (attach_tcp m a s))
       else do {
         let stillOurs = (map_of (sm_sessions m) (ss_channelID s) = Some a);
         let m = (if stillOurs then m\<lparr>sm_sessions := AList.delete (ss_channelID s) (sm_sessions m)\<rparr> else m);
         let m = put_session m a (s\<lparr>ss_closed := True, ss_tcpLn := False\<rparr>);
         Some (if stillOurs
               then set_status (recycle_port (sm_emit m (bye_event m (ss_channelID s))) (ss_port s)) (ss_channel s) ChannelIdle
               else m) } } }"

definition ConnectActiveTCP :: "net_env \<Rightarrow> session_manager \<Rightarrow> string \<Rightarrow> string \<Rightarrow> unit sm_result" where
  "ConnectActiveTCP env m channelID answerSDP =
     (case map_of (sm_sessions m) channelID of
        None \<Rightarrow> Some (m, Inl NoSession)
      | Some a \<Rightarrow>
          (case sdpMediaAddress answerSDP of
             None \<Rightarrow> Some (m, Inl NoMediaAddress)
           | Some (host, port) \<Rightarrow>
               if \<not> ne_dial env (JoinHostPort host (nat_text (unat port))) then Some (m, Inl DialFailed)
               else do {
                 s \<leftarrow> go_idx (sm_heap m) a;
                 if ss_closed s then Some (sm_emit m [ConnClosed a], Inl TornDown)
                 else (case attach_tcp m a s of
                         (m, True) \<Rightarrow> Some (m, Inr ()) | (m, False) \<Rightarrow> Some (m, Inl StartFailed)) }))"

subsection \<open>Playback and download\<close>

definition ssrc_of_fetch :: "session_manager \<Rightarrow> bool \<Rightarrow> session_manager \<times> string \<times> string" where
  "ssrc_of_fetch m download =
     (let m = m\<lparr>sm_ssrcSeq := sm_ssrcSeq m + 1\<rparr>;
          ssrc = SSRC True (sm_serverID m) (sint (sm_ssrcSeq m))
      in if download
         then (let m = m\<lparr>sm_ssrcSeq := sm_ssrcSeq m + 1\<rparr>
               in (m, ''Download'', SSRCDownload (sm_serverID m) (sint (sm_ssrcSeq m))))
         else (m, ''Playback'', ssrc))"

definition fetch_receiver :: "session_manager \<Rightarrow> bool \<Rightarrow> receiver" where
  "fetch_receiver m onAudio =
     (let r = NewReceiver True True False onAudio False
      in if HasPrefix (mediaSecurityOffer m) ''GB35114-C'' then SetExpectPayloadDecryptor r True else r)"

text \<open>The sink is nil, or a sink that is or is not a \<open>Stopper\<close>.\<close>

definition inviteFetch :: "net_env \<Rightarrow> session_manager \<Rightarrow> nat option \<Rightarrow> string \<Rightarrow> i64 \<Rightarrow> i64 \<Rightarrow> bool option \<Rightarrow> bool \<Rightarrow> bool \<Rightarrow> string sm_result" where
  "inviteFetch env m chan serverIP start end' sink onAudio download =
     (case (chan, sink) of
        (None, _) \<Rightarrow> Some (m, Inl NilChannel)
      | (Some _, None) \<Rightarrow> Some (m, Inl NilSink)
      | (Some c, Some _) \<Rightarrow> do {
          let ch = sm_chans m c;
          m \<leftarrow> (case map_of (sm_playback m) (ch_ID ch) of None \<Rightarrow> Some m | Some a \<Rightarrow> teardown m a False);
          case pm_Get (sm_pool m) of
            (pool, Inl _) \<Rightarrow> Some (m\<lparr>sm_pool := pool\<rparr>, Inl NoFreePort)
          | (pool, Inr port) \<Rightarrow>
              (let (m, sdpName, ssrc) = ssrc_of_fetch (m\<lparr>sm_pool := pool\<rparr>) download;
                   sdp = fetch_sdp serverIP port sdpName start end' ssrc (mediaSecurityOffer m);
                   s = (new_session c ch (fetch_receiver m onAudio) True port)\<lparr>ss_sink := sink\<rparr>
               in if \<not> ne_parses env serverIP then Some (invite_failed m port BadAddr)
                  else if \<not> ne_bind env serverIP port then Some (invite_failed m port BindFailed)
                  else case attach_udp s of
                      None \<Rightarrow> Some (invite_failed (sm_emit m [ConnClosed (length (sm_heap m))]) port StartFailed)
                    | Some s \<Rightarrow> Some (store_fetch m s, Inr sdp)) })"

definition InvitePlayback where
  "InvitePlayback env m chan serverIP start end' sink onAudio = inviteFetch env m chan serverIP start end' sink onAudio False"

definition InviteDownload where
  "InviteDownload env m chan serverIP start end' sink onAudio = inviteFetch env m chan serverIP start end' sink onAudio True"

definition ByePlayback :: "session_manager \<Rightarrow> string \<Rightarrow> session_manager go" where
  "ByePlayback m i =
     (case map_of (sm_playback m) i of
        None \<Rightarrow> Some m
      | Some a \<Rightarrow> teardown (sm_emit (m\<lparr>sm_playback := AList.delete i (sm_playback m)\<rparr>)
                              (if sm_playbackByeSender m then [PlaybackBye i] else [])) a False)"

definition PlaybackActive :: "session_manager \<Rightarrow> string \<Rightarrow> bool" where
  "PlaybackActive m i = (map_of (sm_playback m) i \<noteq> None)"

subsection \<open>Ending sessions\<close>

definition Bye :: "session_manager \<Rightarrow> string \<Rightarrow> session_manager go" where
  "Bye m i =
     (case map_of (sm_sessions m) i of
        None \<Rightarrow> Some m
      | Some a \<Rightarrow> teardown (sm_emit (m\<lparr>sm_sessions := AList.delete i (sm_sessions m)\<rparr>) (bye_event m i)) a True)"

fun teardown_all :: "session_manager \<Rightarrow> nat list \<Rightarrow> session_manager go" where
  "teardown_all m [] = Some m"
| "teardown_all m (a # as) = do { m \<leftarrow> teardown m a True; teardown_all m as }"

definition ByeDevice :: "session_manager \<Rightarrow> string \<Rightarrow> session_manager go" where
  "ByeDevice m dev =
     (let doomed = filter (\<lambda>(i, a). ss_deviceID (sm_heap m ! a) = dev) (sm_sessions m);
          kept = filter (\<lambda>(i, a). ss_deviceID (sm_heap m ! a) \<noteq> dev) (sm_sessions m)
      in teardown_all (m\<lparr>sm_sessions := kept\<rparr>) (map snd doomed))"

text \<open>All sessions in one map, the fetches under a prefixed key.\<close>

definition all_sessions :: "session_manager \<Rightarrow> (string \<times> nat) list" where
  "all_sessions m = foldl (\<lambda>acc (k, a). AList.update (''pb:'' @ k) a acc) (sm_sessions m) (sm_playback m)"

definition StopAll :: "session_manager \<Rightarrow> session_manager go" where
  "StopAll m =
     teardown_all (m\<lparr>sm_sessions := [], sm_playback := [], sm_stallArmed := False\<rparr>) (map snd (all_sessions m))"

definition MarkPlaying :: "session_manager \<Rightarrow> string \<Rightarrow> session_manager \<times> (sm_error + unit)" where
  "MarkPlaying m i =
     (case map_of (sm_sessions m) i of
        None \<Rightarrow> (m, Inl NoSession)
      | Some a \<Rightarrow> (cas_status m (ss_channel (sm_heap m ! a)) ChannelInviting ChannelPlaying, Inr ()))"

subsection \<open>The stall watchdog\<close>

definition stalled_at :: "session_manager \<Rightarrow> i64 \<Rightarrow> nat \<Rightarrow> bool" where
  "stalled_at m now a = Stalled ((ss_receiver (sm_heap m ! a))\<lparr>r_now := now\<rparr>) (sm_stallThreshold m)"

fun recycle_each :: "session_manager \<Rightarrow> (string \<times> nat) list \<Rightarrow> session_manager go" where
  "recycle_each m [] = Some m"
| "recycle_each m ((i, a) # rest) = do {
     m \<leftarrow> teardown (sm_emit (m\<lparr>sm_stallRecycles := sm_stallRecycles m + 1\<rparr>) (bye_event m i)) a True;
     recycle_each (if sm_onStallRecycle m then sm_emit m [StallRecycled i] else m) rest }"

text \<open>How long the watchdog goroutine sleeps before its next pass.\<close>

definition stall_wait :: "session_manager \<Rightarrow> i64" where
  "stall_wait m = (if sm_stallInterval m \<le>s 0 then 60000000000 else sm_stallInterval m)"

definition recycleStalled :: "session_manager \<Rightarrow> i64 \<Rightarrow> session_manager go" where
  "recycleStalled m now =
     recycle_each (m\<lparr>sm_sessions := filter (\<lambda>(i, a). \<not> stalled_at m now a) (sm_sessions m)\<rparr>)
       (filter (\<lambda>(i, a). stalled_at m now a) (sm_sessions m))"

subsection \<open>Observation\<close>

record session_status =
  st_ChannelID :: string
  st_Classification :: string
  st_PacketsReceived :: i64
  st_AUEmitted :: i64
  st_AudioFrames :: i64
  st_Stalled :: bool

definition Statuses :: "session_manager \<Rightarrow> i64 \<Rightarrow> session_status list" where
  "Statuses m now =
     map (\<lambda>(i, a). let r = ss_receiver (sm_heap m ! a) in
            \<lparr>st_ChannelID = i, st_Classification = r_classification r, st_PacketsReceived = r_received r,
             st_AUEmitted = r_auEmitted r, st_AudioFrames = r_audioEmitted r,
             st_Stalled = (0 <s sm_stallThreshold m \<and> stalled_at m now a)\<rparr>) (sm_sessions m)"

definition GetReceiver :: "session_manager \<Rightarrow> string \<Rightarrow> receiver option" where
  "GetReceiver m i = map_option (\<lambda>a. ss_receiver (sm_heap m ! a)) (map_of (sm_sessions m) i)"

definition GetPlaybackReceiver :: "session_manager \<Rightarrow> string \<Rightarrow> receiver option" where
  "GetPlaybackReceiver m i = map_option (\<lambda>a. ss_receiver (sm_heap m ! a)) (map_of (sm_playback m) i)"

definition GetHub :: "session_manager \<Rightarrow> string \<Rightarrow> bool" where
  "GetHub m i = (case map_of (sm_sessions m) i of None \<Rightarrow> False | Some a \<Rightarrow> ss_hub (sm_heap m ! a))"

definition ChannelIDs :: "session_manager \<Rightarrow> string list" where "ChannelIDs m = map fst (sm_sessions m)"

definition SessionCount :: "session_manager \<Rightarrow> nat" where "SessionCount m = length (sm_sessions m)"

subsection \<open>Receivers of sessions\<close>

lemma feedJitterBuffer_done:
  assumes "rx_inv r" and "feedJitterBuffer r pkt = Some r'"
  shows "r_doneClosed r' = r_doneClosed r"
proof -
  let ?l = "r\<lparr>r_expectedSSRC := pk_ssrc pkt, r_ssrcLatched := True\<rparr>"
  have "rx_inv ?l" using assms(1) by (simp add: rx_inv_def rx_core_def)
  then have "r_doneClosed r'' = r_doneClosed r" if "feed_locked ?l pkt = Some r''" for r''
    using feed_locked_inv [of ?l pkt] that rx_fixedD(9) [of ?l r''] by auto
  moreover have "r_doneClosed r'' = r_doneClosed r" if "feed_locked r pkt = Some r''" for r''
    using feed_locked_inv [OF assms(1), of pkt] that rx_fixedD(9) [of r r''] by auto
  ultimately show ?thesis using assms(2)
    by (auto simp: feedJitterBuffer_def drop_foreign_def split: if_splits)
qed

text \<open>Only \<open>Stop\<close> closes the \<open>done\<close> channel.\<close>

lemma rx_exec_done:
  assumes "rx_inv r" and "rx_exec um r op = Some r'" and "op \<noteq> OpStop"
  shows "r_doneClosed r' = r_doneClosed r"
proof (cases op)
  case (OpDatagram buf)
  have "r_doneClosed (counted r) = r_doneClosed r" by (simp add: counted_def Let_def emit_def)
  then show ?thesis
    using OpDatagram assms(2) feedJitterBuffer_done [OF counted_inv [OF assms(1)]]
    by (cases "um buf") (auto simp: readLoop_step_counted Option.bind_eq_Some_conv split: if_splits)
next
  case (OpDecryptor c)
  let ?j = "r\<lparr>r_decryptor := Some (Some c), r_expectDecryptor := False,
      r_jitter := retro_decrypt c (r_jitter r), r_classified := False, r_esLatch := False,
      r_bareAudio := False, r_es := None, r_demuxer := NewPSDemuxer\<rparr>"
  have "rx_core ?j" using assms(1) by (simp add: rx_inv_def rx_core_def)
  then obtain r'' where e: "emitAccessUnitsLocked ?j = Some r''" "rx_ok ?j r''" using emit_ok [of ?j] by auto
  then have "r_doneClosed r'' = r_doneClosed r" using rx_fixedD(9) [OF e(2)] by simp
  then show ?thesis using OpDecryptor assms(2) e(1)
    by (auto simp: SetPayloadDecryptor_def Let_def split: if_splits)
next
  case OpFlush
  then show ?thesis using assms(2) flush_inv [OF assms(1)] rx_fixedD(9) [of r r'] by auto
qed (use assms in \<open>auto simp: SetAUVerifier_def SetExpectPayloadDecryptor_def SetAudioOnly_def
       rx_SetAudioCodecHint_def rx_Start_def read_exit_def split: if_splits\<close>)

lemma NewReceiver_inv: "rx_inv (NewReceiver a b c d e)"
  using rx_reach_inv [OF rx_reach.new] .

definition session_ok :: "session \<Rightarrow> bool" where
  "session_ok s \<longleftrightarrow> rx_inv (ss_receiver s) \<and> (r_doneClosed (ss_receiver s) \<longrightarrow> ss_closed s)"

lemma Stop_ok: "rx_inv r \<Longrightarrow> \<exists>r'. Stop r = Some r' \<and> rx_inv r'"
  using rx_exec_inv [of r OpStop] by (simp add: rx_allowed_def)

lemma start_ok:
  assumes "session_ok s" and "\<not> ss_closed s" and "rx_Start (ss_receiver s) False = Inr r"
  shows "rx_inv r \<and> \<not> r_doneClosed r"
  using assms by (auto simp: session_ok_def rx_Start_def rx_inv_def rx_core_def split: if_splits)

subsection \<open>The invariant\<close>

definition port_at :: "session_manager \<Rightarrow> nat \<Rightarrow> u16" where
  "port_at m a = ss_port (sm_heap m ! a)"

text \<open>Resources: the sessions at the addresses \<open>A\<close> own the ports that are out.\<close>

definition sm_core :: "session_manager \<Rightarrow> nat set \<Rightarrow> bool" where
  "sm_core m A \<longleftrightarrow> A \<subseteq> {..<length (sm_heap m)} \<and> rtp_ports.leased (sm_pool m) (port_at m) A
     \<and> (\<forall>s \<in> set (sm_heap m). session_ok s)"

definition owned :: "session_manager \<Rightarrow> nat set" where
  "owned m = snd ` set (sm_sessions m) \<union> snd ` set (sm_playback m)"

text \<open>The two maps: no key twice, no session twice, and every session is stored under its channel and open.\<close>

definition maps_ok :: "session_manager \<Rightarrow> bool" where
  "maps_ok m \<longleftrightarrow> distinct (map fst (sm_sessions m)) \<and> distinct (map fst (sm_playback m))
     \<and> distinct (map snd (sm_sessions m) @ map snd (sm_playback m))
     \<and> (\<forall>i a. (i, a) \<in> set (sm_sessions m) \<union> set (sm_playback m) \<longrightarrow>
            ss_channelID (sm_heap m ! a) = i \<and> \<not> ss_closed (sm_heap m ! a))
     \<and> (\<forall>i a. (i, a) \<in> set (sm_playback m) \<longrightarrow> \<not> ss_tcpLn (sm_heap m ! a))"

definition sm_inv :: "session_manager \<Rightarrow> bool" where
  "sm_inv m \<longleftrightarrow> maps_ok m \<and> sm_core m (owned m)"

text \<open>What a teardown leaves alone.\<close>

definition td_frame :: "nat set \<Rightarrow> session_manager \<Rightarrow> session_manager \<Rightarrow> bool" where
  "td_frame A m m' \<longleftrightarrow> sm_sessions m' = sm_sessions m \<and> sm_playback m' = sm_playback m
     \<and> length (sm_heap m') = length (sm_heap m) \<and> (\<forall>b. b \<notin> A \<longrightarrow> sm_heap m' ! b = sm_heap m ! b)
     \<and> pm_all (sm_pool m') = pm_all (sm_pool m)"

lemma td_frame_trans: "td_frame A m m' \<Longrightarrow> td_frame B m' m'' \<Longrightarrow> td_frame (A \<union> B) m m''"
  by (simp add: td_frame_def)

text \<open>Replacing a session by one with the same port keeps the resources.\<close>

lemma core_put:
  assumes "sm_core m A" and "ss_port s = port_at m a" and "session_ok s"
  shows "sm_core (put_session m a s) A"
proof -
  have "port_at (put_session m a s) b = port_at m b" if "b < length (sm_heap m)" for b
    using assms(2) that by (cases "b = a") (simp_all add: port_at_def put_session_def)
  then have "rtp_ports.leased (sm_pool m) (port_at (put_session m a s)) A = rtp_ports.leased (sm_pool m) (port_at m) A"
    using assms(1) by (intro rtp_ports.leased_cong) (auto simp: sm_core_def)
  moreover have "\<forall>t \<in> set ((sm_heap m)[a := s]). session_ok t"
    using assms by (auto simp: sm_core_def dest: set_update_subset_insert [THEN subsetD])
  ultimately show ?thesis using assms(1) by (simp add: sm_core_def put_session_def)
qed

lemma core_frame [simp]:
  "sm_core (sm_emit m evs) A = sm_core m A" "sm_core (set_status m c st) A = sm_core m A"
  "sm_core (m\<lparr>sm_sessions := xs\<rparr>) A = sm_core m A" "sm_core (m\<lparr>sm_playback := xs\<rparr>) A = sm_core m A"
  "sm_core (m\<lparr>sm_stallRecycles := n\<rparr>) A = sm_core m A" "sm_core (m\<lparr>sm_ssrcSeq := n\<rparr>) A = sm_core m A"
  by (simp_all add: sm_core_def sm_emit_def set_status_def port_at_def [abs_def])

lemma core_recycle:
  assumes "sm_core m A" and "a \<in> A"
  shows "sm_core (recycle_port m (port_at m a)) (A - {a})" "pm_all (sm_pool (recycle_port m (port_at m a))) = pm_all (sm_pool m)"
  using rtp_ports.leased_put [of "sm_pool m" "port_at m" A a] assms
  by (auto simp: sm_core_def recycle_port_def sm_emit_def port_at_def [abs_def])

lemma teardown_ok:
  assumes "sm_core m A" and "a \<in> A"
  shows "\<exists>m'. teardown m a reset = Some m' \<and> sm_core m' (A - {a}) \<and> td_frame {a} m m'"
proof -
  let ?s = "sm_heap m ! a"
  have a: "a < length (sm_heap m)" and s: "session_ok ?s" using assms by (auto simp: sm_core_def)
  obtain r where r: "Stop (ss_receiver ?s) = Some r" "rx_inv r" using Stop_ok s by (auto simp: session_ok_def)
  define s' where "s' = ?s\<lparr>ss_closed := True, ss_receiver := r\<rparr>"
  define m1 where "m1 = sm_emit (put_session m a s')
    ((if ss_conn ?s then [ConnClosed a] else []) @ (if ss_tcpLn ?s then [ListenerClosed a] else []))"
  define m2 where "m2 = recycle_port m1 (ss_port ?s)"
  define m3 where "m3 = (if ss_sink ?s = Some True then sm_emit m2 [SinkStopped a] else m2)"
  have s': "session_ok s'" "ss_port s' = port_at m a" using r(2) by (simp_all add: s'_def session_ok_def port_at_def)
  have c1: "sm_core m1 A" unfolding m1_def using core_put [OF assms(1) s'(2,1)] by simp
  have p1: "port_at m1 a = ss_port ?s" using a by (simp add: m1_def port_at_def sm_emit_def put_session_def s'_def)
  have c2: "sm_core m2 (A - {a})" "pm_all (sm_pool m2) = pm_all (sm_pool m)"
    using core_recycle [OF c1 assms(2)] unfolding p1 m2_def by (simp_all add: m1_def sm_emit_def put_session_def)
  have "teardown m a reset = Some (if reset then set_status m3 (ss_channel ?s) ChannelIdle else m3)"
    using a r(1) by (simp add: teardown_def m3_def m2_def m1_def s'_def)
  moreover have "sm_core m3 (A - {a})" using c2(1) by (simp add: m3_def)
  moreover have f: "td_frame {a} m m3" using c2(2)
    by (auto simp: m3_def m2_def m1_def td_frame_def sm_emit_def recycle_port_def put_session_def)
  moreover have "td_frame {a} m (set_status m3 c st)" for c st using f by (simp add: td_frame_def set_status_def)
  ultimately show ?thesis by (cases reset) simp_all
qed

lemma teardown_all_ok:
  assumes "sm_core m A" and "distinct as" and "set as \<subseteq> A"
  shows "\<exists>m'. teardown_all m as = Some m' \<and> sm_core m' (A - set as) \<and> td_frame (set as) m m'"
  using assms
proof (induction as arbitrary: m A)
  case Nil
  then show ?case by (simp add: td_frame_def)
next
  case (Cons a as)
  obtain m1 where m1: "teardown m a True = Some m1" "sm_core m1 (A - {a})" "td_frame {a} m m1"
    using teardown_ok [OF Cons.prems(1), of a] Cons.prems(3) by auto
  obtain m2 where m2: "teardown_all m1 as = Some m2" "sm_core m2 (A - {a} - set as)" "td_frame (set as) m1 m2"
    using Cons.IH [OF m1(2)] Cons.prems(2,3) by auto
  have "A - {a} - set as = A - set (a # as)" by auto
  then show ?case using m1(1) m2 td_frame_trans [OF m1(3) m2(3)] by simp
qed

lemma recycle_each_ok:
  assumes "sm_core m A" and "distinct (map snd ias)" and "snd ` set ias \<subseteq> A"
  shows "\<exists>m'. recycle_each m ias = Some m' \<and> sm_core m' (A - snd ` set ias) \<and> td_frame (snd ` set ias) m m'"
  using assms
proof (induction ias arbitrary: m A)
  case Nil
  then show ?case by (simp add: td_frame_def)
next
  case (Cons ia ias)
  obtain i a where ia: "ia = (i, a)" by (cases ia)
  let ?m = "sm_emit (m\<lparr>sm_stallRecycles := sm_stallRecycles m + 1\<rparr>) (bye_event m i)"
  obtain m1 where m1: "teardown ?m a True = Some m1" "sm_core m1 (A - {a})" "td_frame {a} ?m m1"
    using teardown_ok [of ?m A a True] Cons.prems(1,3) ia by (simp del: core_frame(2)) blast
  let ?m1 = "if sm_onStallRecycle m1 then sm_emit m1 [StallRecycled i] else m1"
  have c: "sm_core ?m1 (A - {a})" using m1(2) by simp
  have f: "td_frame {a} m ?m1" using m1(3) by (simp add: td_frame_def sm_emit_def)
  obtain m2 where m2: "recycle_each ?m1 ias = Some m2" "sm_core m2 (A - {a} - snd ` set ias)" "td_frame (snd ` set ias) ?m1 m2"
    using Cons.IH [OF c] Cons.prems(2,3) ia by auto
  have "A - {a} - snd ` set ias = A - snd ` set (ia # ias)" using ia by auto
  moreover have "recycle_each m (ia # ias) = Some m2" using ia m1(1) m2(1) by simp
  ultimately show ?case using m2(2) td_frame_trans [OF f m2(3)] ia by auto
qed

text \<open>The maps after sessions were taken out and torn down.\<close>

lemma maps_after:
  assumes "maps_ok m" and "td_frame A m1 m'" and "sm_heap m1 = sm_heap m"
    and "sm_sessions m1 = filter p (sm_sessions m)" and "sm_playback m1 = filter q (sm_playback m)"
    and "snd ` set (sm_sessions m1) \<inter> A = {}" and "snd ` set (sm_playback m1) \<inter> A = {}"
  shows "maps_ok m'"
proof -
  have heap: "sm_heap m' ! b = sm_heap m ! b" if "b \<notin> A" for b using assms(2,3) that by (simp add: td_frame_def)
  have sess: "sm_sessions m' = filter p (sm_sessions m)" "sm_playback m' = filter q (sm_playback m)"
    using assms(2,4,5) by (simp_all add: td_frame_def)
  have d: "distinct (map snd (filter p (sm_sessions m)) @ map snd (filter q (sm_playback m)))"
    using assms(1) by (auto simp: maps_ok_def distinct_map inj_on_def)
  have out: "a \<notin> A" if "(i, a) \<in> set (sm_sessions m') \<union> set (sm_playback m')" for i a
    using that assms(4-7) sess by force
  have "ss_channelID (sm_heap m' ! a) = i \<and> \<not> ss_closed (sm_heap m' ! a)"
    if "(i, a) \<in> set (sm_sessions m') \<union> set (sm_playback m')" for i a
    using heap [OF out [OF that]] that sess assms(1) by (auto simp: maps_ok_def)
  moreover have "\<not> ss_tcpLn (sm_heap m' ! a)" if "(i, a) \<in> set (sm_playback m')" for i a
    using heap [OF out, of i a] that sess assms(1) by (auto simp: maps_ok_def)
  ultimately show ?thesis using d sess assms(1) by (auto simp: maps_ok_def distinct_map_filter)
qed

subsection \<open>Association lists of sessions\<close>

lemma set_delete: "set (AList.delete k xs) = {(k', v) \<in> set xs. k' \<noteq> k}"
  by (auto simp: AList.delete_eq)

lemma set_update: "distinct (map fst xs) \<Longrightarrow> set (AList.update k v xs) = insert (k, v) (set (AList.delete k xs))"
  by (induction xs) (auto simp: AList.delete_eq image_iff)

lemma distinct_snd_update:
  "distinct (map snd xs) \<Longrightarrow> n \<notin> snd ` set xs \<Longrightarrow> distinct (map snd (AList.update k n xs))"
proof (induction xs)
  case (Cons x xs)
  have "snd ` set (AList.update k n xs) \<subseteq> insert n (snd ` set xs)"
    by (induction xs) auto
  then show ?case using Cons by (cases x) (auto simp: image_iff)
qed simp

lemma update_fresh: "k \<notin> fst ` set xs \<Longrightarrow> AList.update k v xs = xs @ [(k, v)]"
  by (induction xs) auto

lemma snd_filter:
  "distinct (map snd xs) \<Longrightarrow> snd ` set (filter p xs) = snd ` set xs - snd ` set (filter (\<lambda>x. \<not> p x) xs)"
  by (auto simp: distinct_map inj_on_def image_iff)

lemma key_filter:
  assumes "distinct (map fst xs)" and "map_of xs i = Some a"
  shows "snd ` set (filter (\<lambda>x. \<not> (case x of (k, _) \<Rightarrow> i \<noteq> k)) xs) = {a}"
proof (intro equalityI subsetI)
  fix b assume "b \<in> snd ` set (filter (\<lambda>x. \<not> (case x of (k, _) \<Rightarrow> i \<noteq> k)) xs)"
  then have "(i, b) \<in> set xs" by auto
  then show "b \<in> {a}" using map_of_is_SomeI [OF assms(1)] assms(2) by simp
next
  fix b assume "b \<in> {a}"
  then have "(i, b) \<in> set (filter (\<lambda>x. \<not> (case x of (k, _) \<Rightarrow> i \<noteq> k)) xs)" using map_of_SomeD [OF assms(2)] by simp
  then show "b \<in> snd ` set (filter (\<lambda>x. \<not> (case x of (k, _) \<Rightarrow> i \<noteq> k)) xs)" by (rule rev_image_eqI) simp
qed

lemma snd_delete:
  assumes "distinct (map fst xs)" and "distinct (map snd xs)" and "map_of xs k = Some a"
  shows "snd ` set (AList.delete k xs) = snd ` set xs - {a}"
  using snd_filter [OF assms(2), of "\<lambda>(k', _). k \<noteq> k'"] key_filter [OF assms(1,3)] by (simp add: AList.delete_eq)

lemma filter_not: "filter (\<lambda>x. \<not> (case x of (i, a) \<Rightarrow> \<not> P i a)) xs = filter (\<lambda>(i, a). P i a) xs"
  by (rule filter_cong) auto

subsection \<open>Sessions leave the maps\<close>

text \<open>
  Sessions are taken out of the maps, given their BYE and torn down: \<open>m1\<close> is the manager after the map
  update, \<open>R\<close> the addresses taken out.
\<close>

lemma sm_inv_removed:
  assumes "sm_inv m" and "sm_heap m1 = sm_heap m" and "sm_pool m1 = sm_pool m"
    and "sm_sessions m1 = filter p (sm_sessions m)" and "sm_playback m1 = filter q (sm_playback m)"
    and "R = snd ` set (filter (\<lambda>x. \<not> p x) (sm_sessions m)) \<union> snd ` set (filter (\<lambda>x. \<not> q x) (sm_playback m))"
  shows "sm_core m1 (owned m)" "owned m1 = owned m - R" "R \<subseteq> owned m"
    and "sm_core m' (owned m - R) \<Longrightarrow> td_frame R m1 m' \<Longrightarrow> sm_inv m' \<and> owned m' = owned m - R"
proof -
  have mo: "maps_ok m" and core: "sm_core m (owned m)" using assms(1) by (simp_all add: sm_inv_def)
  show c1: "sm_core m1 (owned m)" using core assms(2,3) by (simp add: sm_core_def port_at_def [abs_def])
  have d: "distinct (map snd (sm_sessions m))" "distinct (map snd (sm_playback m))"
    "snd ` set (sm_sessions m) \<inter> snd ` set (sm_playback m) = {}" using mo by (simp_all add: maps_ok_def)
  have o1: "snd ` set (sm_sessions m1) = snd ` set (sm_sessions m) - snd ` set (filter (\<lambda>x. \<not> p x) (sm_sessions m))"
    "snd ` set (sm_playback m1) = snd ` set (sm_playback m) - snd ` set (filter (\<lambda>x. \<not> q x) (sm_playback m))"
    unfolding assms(4,5) by (rule snd_filter [OF d(1)]) (rule snd_filter [OF d(2)])
  have sub: "snd ` set (filter (\<lambda>x. \<not> p x) (sm_sessions m)) \<subseteq> snd ` set (sm_sessions m)"
    "snd ` set (filter (\<lambda>x. \<not> q x) (sm_playback m)) \<subseteq> snd ` set (sm_playback m)" by auto
  show o: "owned m1 = owned m - R" unfolding owned_def o1 assms(6) using sub d(3) by blast
  show "R \<subseteq> owned m" unfolding owned_def assms(6) using sub by blast
  assume c: "sm_core m' (owned m - R)" and f: "td_frame R m1 m'"
  have "snd ` set (sm_sessions m1) \<inter> R = {}" "snd ` set (sm_playback m1) \<inter> R = {}"
    unfolding o1 assms(6) using sub d(3) by blast+
  then have "maps_ok m'" by (rule maps_after [OF mo f assms(2,4,5)])
  moreover have "owned m' = owned m - R" using f o by (simp add: owned_def td_frame_def)
  ultimately show "sm_inv m' \<and> owned m' = owned m - R" using c by (simp add: sm_inv_def)
qed

lemma remove_live_ok:
  assumes "sm_inv m" and "map_of (sm_sessions m) i = Some a"
  shows "\<exists>m'. teardown (sm_emit (m\<lparr>sm_sessions := AList.delete i (sm_sessions m)\<rparr>) evs) a b = Some m'
    \<and> sm_inv m' \<and> owned m' = owned m - {a} \<and> sm_sessions m' = AList.delete i (sm_sessions m) \<and> sm_playback m' = sm_playback m"
proof -
  let ?m1 = "sm_emit (m\<lparr>sm_sessions := AList.delete i (sm_sessions m)\<rparr>) evs"
  have R: "{a} = snd ` set (filter (\<lambda>x. \<not> (case x of (k, _) \<Rightarrow> i \<noteq> k)) (sm_sessions m)) \<union> snd ` set (filter (\<lambda>x. \<not> True) (sm_playback m))"
    using key_filter [OF _ assms(2)] assms(1) by (simp add: sm_inv_def maps_ok_def)
  note rm = sm_inv_removed [OF assms(1), of ?m1, OF _ _ _ _ R]
  have e: "sm_heap ?m1 = sm_heap m" "sm_pool ?m1 = sm_pool m" "sm_sessions ?m1 = filter (\<lambda>(k, _). i \<noteq> k) (sm_sessions m)"
    "sm_playback ?m1 = filter (\<lambda>x. True) (sm_playback m)" by (simp_all add: sm_emit_def AList.delete_eq)
  obtain m' where m': "teardown ?m1 a b = Some m'" "sm_core m' (owned m - {a})" "td_frame {a} ?m1 m'"
    using teardown_ok [OF rm(1) [OF e], of a b] rm(3) [OF e] by auto
  have "sm_sessions m' = AList.delete i (sm_sessions m)" "sm_playback m' = sm_playback m"
    using m'(3) by (simp_all add: td_frame_def sm_emit_def)
  then show ?thesis using m'(1) rm(4) [OF e m'(2,3)] by blast
qed

lemma remove_fetch_ok:
  assumes "sm_inv m" and "map_of (sm_playback m) i = Some a"
  shows "\<exists>m'. teardown (sm_emit (m\<lparr>sm_playback := AList.delete i (sm_playback m)\<rparr>) evs) a b = Some m'
    \<and> sm_inv m' \<and> owned m' = owned m - {a}"
proof -
  let ?m1 = "sm_emit (m\<lparr>sm_playback := AList.delete i (sm_playback m)\<rparr>) evs"
  have R: "{a} = snd ` set (filter (\<lambda>x. \<not> True) (sm_sessions m)) \<union> snd ` set (filter (\<lambda>x. \<not> (case x of (k, _) \<Rightarrow> i \<noteq> k)) (sm_playback m))"
    using key_filter [OF _ assms(2)] assms(1) by (simp add: sm_inv_def maps_ok_def)
  note rm = sm_inv_removed [OF assms(1), of ?m1, OF _ _ _ _ R]
  have e: "sm_heap ?m1 = sm_heap m" "sm_pool ?m1 = sm_pool m" "sm_sessions ?m1 = filter (\<lambda>x. True) (sm_sessions m)"
    "sm_playback ?m1 = filter (\<lambda>(k, _). i \<noteq> k) (sm_playback m)" by (simp_all add: sm_emit_def AList.delete_eq)
  obtain m' where m': "teardown ?m1 a b = Some m'" "sm_core m' (owned m - {a})" "td_frame {a} ?m1 m'"
    using teardown_ok [OF rm(1) [OF e], of a b] rm(3) [OF e] by auto
  then show ?thesis using rm(4) [OF e m'(2,3)] by blast
qed

lemma Bye_inv: "sm_inv m \<Longrightarrow> \<exists>m'. Bye m i = Some m' \<and> sm_inv m'"
  using remove_live_ok [of m i _ "bye_event m i" True] by (auto simp: Bye_def split: option.split)

lemma ByePlayback_inv: "sm_inv m \<Longrightarrow> \<exists>m'. ByePlayback m i = Some m' \<and> sm_inv m'"
  using remove_fetch_ok [of m i _ "if sm_playbackByeSender m then [PlaybackBye i] else []" False]
  by (auto simp: ByePlayback_def split: option.split)

lemma ByeDevice_inv:
  assumes "sm_inv m"
  shows "\<exists>m'. ByeDevice m dev = Some m' \<and> sm_inv m'"
proof -
  let ?kept = "\<lambda>(i, a). ss_deviceID (sm_heap m ! a) \<noteq> dev"
  let ?doomed = "filter (\<lambda>x. \<not> ?kept x) (sm_sessions m)"
  let ?m1 = "m\<lparr>sm_sessions := filter ?kept (sm_sessions m)\<rparr>"
  have R: "snd ` set ?doomed = snd ` set ?doomed \<union> snd ` set (filter (\<lambda>x. \<not> True) (sm_playback m))" by simp
  note rm = sm_inv_removed [OF assms, of ?m1, OF _ _ _ _ R]
  have e: "sm_heap ?m1 = sm_heap m" "sm_pool ?m1 = sm_pool m" "sm_sessions ?m1 = filter ?kept (sm_sessions m)"
    "sm_playback ?m1 = filter (\<lambda>x. True) (sm_playback m)" by simp_all
  have "distinct (map snd ?doomed)" using assms by (simp add: sm_inv_def maps_ok_def distinct_map_filter)
  then obtain m' where m': "teardown_all ?m1 (map snd ?doomed) = Some m'" "sm_core m' (owned m - snd ` set ?doomed)"
      "td_frame (snd ` set ?doomed) ?m1 m'"
    using teardown_all_ok [OF rm(1) [OF e], of "map snd ?doomed"] rm(3) [OF e] by auto
  have "ByeDevice m dev = teardown_all ?m1 (map snd ?doomed)"
    by (simp add: ByeDevice_def filter_not [of "\<lambda>i a. ss_deviceID (sm_heap m ! a) = dev"])
  then show ?thesis using m'(1) rm(4) [OF e m'(2,3)] by simp
qed

lemma recycleStalled_inv:
  assumes "sm_inv m"
  shows "\<exists>m'. recycleStalled m now = Some m' \<and> sm_inv m'
    \<and> sm_sessions m' = filter (\<lambda>(i, a). \<not> stalled_at m now a) (sm_sessions m)
    \<and> owned m' = owned m - snd ` set (filter (\<lambda>(i, a). stalled_at m now a) (sm_sessions m))
    \<and> td_frame (snd ` set (filter (\<lambda>(i, a). stalled_at m now a) (sm_sessions m)))
         (m\<lparr>sm_sessions := filter (\<lambda>(i, a). \<not> stalled_at m now a) (sm_sessions m)\<rparr>) m'"
proof -
  let ?kept = "\<lambda>(i, a). \<not> stalled_at m now a"
  let ?doomed = "filter (\<lambda>x. \<not> ?kept x) (sm_sessions m)"
  let ?m1 = "m\<lparr>sm_sessions := filter ?kept (sm_sessions m)\<rparr>"
  have R: "snd ` set ?doomed = snd ` set ?doomed \<union> snd ` set (filter (\<lambda>x. \<not> True) (sm_playback m))" by simp
  note rm = sm_inv_removed [OF assms, of ?m1, OF _ _ _ _ R]
  have e: "sm_heap ?m1 = sm_heap m" "sm_pool ?m1 = sm_pool m" "sm_sessions ?m1 = filter ?kept (sm_sessions m)"
    "sm_playback ?m1 = filter (\<lambda>x. True) (sm_playback m)" by simp_all
  have "distinct (map snd ?doomed)" using assms by (simp add: sm_inv_def maps_ok_def distinct_map_filter)
  then obtain m' where m': "recycle_each ?m1 ?doomed = Some m'" "sm_core m' (owned m - snd ` set ?doomed)"
      "td_frame (snd ` set ?doomed) ?m1 m'"
    using recycle_each_ok [OF rm(1) [OF e], of ?doomed] rm(3) [OF e] by auto
  have "recycleStalled m now = recycle_each ?m1 ?doomed"
    by (simp add: recycleStalled_def filter_not [of "\<lambda>i a. stalled_at m now a"])
  moreover have "sm_sessions m' = filter ?kept (sm_sessions m)" using m'(3) by (simp add: td_frame_def)
  ultimately show ?thesis using m'(1,3) rm(4) [OF e m'(2,3)]
    unfolding filter_not [of "\<lambda>i a. stalled_at m now a"] by simp
qed

subsection \<open>Sessions enter the maps\<close>

lemma port_append: "b < length (sm_heap m) \<Longrightarrow> (sm_heap m @ [s]) ! b = sm_heap m ! b"
  by (simp add: nth_append)

lemma core_append:
  assumes "sm_core m A" and "pm_Get (sm_pool m) = (pool, Inr (ss_port s))" and "session_ok s"
    and "sm_heap m' = sm_heap m @ [s]" and "sm_pool m' = pool"
  shows "sm_core m' (insert (length (sm_heap m)) A)"
proof -
  have sub: "A \<subseteq> {..<length (sm_heap m)}" using assms(1) by (simp add: sm_core_def)
  have p: "port_at m' b = port_at m b" if "b \<in> A" for b
    using that sub by (auto simp: port_at_def assms(4) nth_append)
  have "rtp_ports.leased (sm_pool m) (port_at m') A"
    using assms(1) rtp_ports.leased_cong [of A "port_at m'" "port_at m"] p by (simp add: sm_core_def)
  moreover have "port_at m' (length (sm_heap m)) = ss_port s" by (simp add: port_at_def assms(4))
  moreover have "length (sm_heap m) \<notin> A" using sub by auto
  ultimately have "rtp_ports.leased pool (port_at m') (insert (length (sm_heap m)) A)"
    using rtp_ports.leased_get [of "sm_pool m" "port_at m'" A pool "ss_port s" "length (sm_heap m)"] assms(2) by simp
  then show ?thesis using assms sub by (auto simp: sm_core_def)
qed

lemma core_get_put:
  assumes "sm_core m A" and "pm_Get (sm_pool m) = (pool, Inr p)" and "sm_heap m' = sm_heap m" and "sm_pool m' = pm_Recycle pool p"
  shows "sm_core m' A"
  using assms rtp_ports.leased_get_put [of "sm_pool m" "port_at m" A pool p]
  by (simp add: sm_core_def port_at_def [abs_def])

text \<open>A fresh session for channel \<open>i\<close>.\<close>

definition fresh_session :: "session_manager \<Rightarrow> port_manager \<Rightarrow> string \<Rightarrow> session \<Rightarrow> bool" where
  "fresh_session m pool i s \<longleftrightarrow> pm_Get (sm_pool m) = (pool, Inr (ss_port s)) \<and> session_ok s
     \<and> \<not> ss_closed s \<and> ss_channelID s = i"

lemma owned_below: "sm_inv m \<Longrightarrow> owned m \<subseteq> {..<length (sm_heap m)}"
  by (simp add: sm_inv_def sm_core_def)

lemma entry_below: "sm_inv m \<Longrightarrow> (i, a) \<in> set (sm_sessions m) \<union> set (sm_playback m) \<Longrightarrow> a < length (sm_heap m)"
  using owned_below [of m] by (auto simp: owned_def)

lemma maps_entry:
  "maps_ok m \<Longrightarrow> (i, a) \<in> set (sm_sessions m) \<union> set (sm_playback m) \<Longrightarrow> ss_channelID (sm_heap m ! a) = i \<and> \<not> ss_closed (sm_heap m ! a)"
  "maps_ok m \<Longrightarrow> (i, a) \<in> set (sm_playback m) \<Longrightarrow> \<not> ss_tcpLn (sm_heap m ! a)"
  unfolding maps_ok_def by blast+

lemma store_live_inv:
  assumes "sm_inv m" and "i \<notin> fst ` set (sm_sessions m)" and "fresh_session m pool i s"
    and "sm_heap m1 = sm_heap m" and "sm_pool m1 = pool" and "sm_sessions m1 = sm_sessions m" and "sm_playback m1 = sm_playback m"
  shows "sm_inv (store_live m1 s)"
proof -
  let ?n = "length (sm_heap m)" and ?m' = "store_live m1 s"
  have f: "ss_channelID s = i" "\<not> ss_closed s" using assms(3) by (simp_all add: fresh_session_def)
  have h: "sm_heap ?m' = sm_heap m @ [s]" "sm_sessions ?m' = sm_sessions m @ [(i, ?n)]" "sm_playback ?m' = sm_playback m"
    using assms(4-7) f(1) update_fresh [OF assms(2)] by (simp_all add: store_live_def)
  have old: "sm_heap ?m' ! a = sm_heap m ! a" "a \<noteq> ?n" if "(k, a) \<in> set (sm_sessions m) \<union> set (sm_playback m)" for k a
    using entry_below [OF assms(1) that] h by (simp_all add: nth_append)
  have mo: "maps_ok m" using assms(1) by (simp add: sm_inv_def)
  have new: "?n \<notin> owned m" using owned_below [OF assms(1)] by auto
  have d: "distinct (map fst (sm_sessions ?m'))" "distinct (map fst (sm_playback ?m'))"
    "distinct (map snd (sm_sessions ?m') @ map snd (sm_playback ?m'))"
    using mo assms(2) new by (simp_all add: maps_ok_def h owned_def)
  have e: "ss_channelID (sm_heap ?m' ! a) = k \<and> \<not> ss_closed (sm_heap ?m' ! a)"
    if "(k, a) \<in> set (sm_sessions ?m') \<union> set (sm_playback ?m')" for k a
  proof (cases "(k, a) \<in> set (sm_sessions m) \<union> set (sm_playback m)")
    case True
    then show ?thesis using old(1) [of k a] maps_entry(1) [OF mo, of k a] by simp
  next
    case False
    then have "k = i" "a = ?n" using that h by auto
    then show ?thesis using f h by simp
  qed
  have "\<not> ss_tcpLn (sm_heap ?m' ! a)" if "(k, a) \<in> set (sm_playback ?m')" for k a
    using that old(1) [of k a] maps_entry(2) [OF mo, of k a] h(3) by simp
  with d e have "maps_ok ?m'" by (simp add: maps_ok_def)
  moreover have "owned ?m' = insert ?n (owned m)" using h by (auto simp: owned_def)
  moreover have "sm_core ?m' (insert ?n (owned m))"
    using core_append [of m "owned m" pool s ?m'] assms(1,3,5) h(1) by (simp add: sm_inv_def fresh_session_def store_live_def)
  ultimately show ?thesis by (simp add: sm_inv_def)
qed

text \<open>A fetch may overwrite the entry of a predecessor that was torn down but left in the map.\<close>

lemma store_fetch_inv:
  assumes "sm_inv (m\<lparr>sm_playback := AList.delete i (sm_playback m)\<rparr>)" and "distinct (map fst (sm_playback m))"
    and "distinct (map snd (sm_playback m))" and "snd ` set (sm_playback m) \<subseteq> {..<length (sm_heap m)}"
    and "fresh_session m pool i s" and "\<not> ss_tcpLn s"
    and "sm_heap m1 = sm_heap m" and "sm_pool m1 = pool" and "sm_sessions m1 = sm_sessions m" and "sm_playback m1 = sm_playback m"
  shows "sm_inv (store_fetch m1 s)"
proof -
  let ?d = "m\<lparr>sm_playback := AList.delete i (sm_playback m)\<rparr>"
  let ?n = "length (sm_heap m)" and ?m' = "store_fetch m1 s"
  have f: "ss_channelID s = i" "\<not> ss_closed s" using assms(5) by (simp_all add: fresh_session_def)
  have h: "sm_heap ?m' = sm_heap m @ [s]" "sm_playback ?m' = AList.update i ?n (sm_playback m)" "sm_sessions ?m' = sm_sessions m"
    using assms(7-10) f(1) by (simp_all add: store_fetch_def)
  have pb: "set (sm_playback ?m') = insert (i, ?n) (set (sm_playback ?d))"
    using set_update [OF assms(2), of i ?n] h(2) by simp
  have old: "sm_heap ?m' ! a = sm_heap m ! a" "a \<noteq> ?n" if "(k, a) \<in> set (sm_sessions m) \<union> set (sm_playback ?d)" for k a
    using entry_below [OF assms(1), of k a] that h by (auto simp: nth_append)
  have mo: "maps_ok ?d" using assms(1) by (simp add: sm_inv_def)
  have "distinct (map snd (sm_playback ?m'))"
    unfolding h(2) using assms(3,4) by (intro distinct_snd_update) auto
  moreover have "snd ` set (sm_sessions m) \<inter> snd ` set (sm_playback ?m') = {}"
    using mo owned_below [OF assms(1)] unfolding pb by (auto simp: maps_ok_def owned_def)
  ultimately have d: "distinct (map fst (sm_playback ?m'))" "distinct (map snd (sm_sessions ?m') @ map snd (sm_playback ?m'))"
    "distinct (map fst (sm_sessions ?m'))"
    using mo assms(2) AList.distinct_update [of "sm_playback m" i ?n] by (simp_all add: maps_ok_def h)
  have e: "ss_channelID (sm_heap ?m' ! a) = k \<and> \<not> ss_closed (sm_heap ?m' ! a)"
    if "(k, a) \<in> set (sm_sessions ?m') \<union> set (sm_playback ?m')" for k a
  proof (cases "(k, a) \<in> set (sm_sessions m) \<union> set (sm_playback ?d)")
    case True
    then show ?thesis using old(1) [of k a] maps_entry(1) [OF mo, of k a] by simp
  next
    case False
    then have "k = i" "a = ?n" using that pb h(3) by auto
    then show ?thesis using f h by simp
  qed
  have "\<not> ss_tcpLn (sm_heap ?m' ! a)" if "(k, a) \<in> set (sm_playback ?m')" for k a
    using that old(1) [of k a] maps_entry(2) [OF mo, of k a] assms(6) h(1) unfolding pb by auto
  with d e have "maps_ok ?m'" by (simp add: maps_ok_def)
  moreover have "owned ?m' = insert ?n (owned ?d)" using h(3) pb by (auto simp: owned_def)
  moreover have "sm_core ?m' (insert ?n (owned ?d))"
    using core_append [of m "owned ?d" pool s ?m'] assms(1,5,8) h(1) by (simp add: sm_inv_def fresh_session_def store_fetch_def)
  ultimately show ?thesis by (simp add: sm_inv_def)
qed

subsection \<open>Every operation keeps the invariant\<close>

lemma sm_inv_cong:
  assumes "sm_heap m' = sm_heap m" and "sm_pool m' = sm_pool m" and "sm_sessions m' = sm_sessions m" and "sm_playback m' = sm_playback m"
  shows "sm_inv m' = sm_inv m"
  using assms by (simp add: sm_inv_def maps_ok_def sm_core_def owned_def port_at_def [abs_def])

lemma sm_inv_frame [simp]:
  "sm_inv (sm_emit m evs) = sm_inv m" "sm_inv (set_status m c st) = sm_inv m" "sm_inv (cas_status m c old new) = sm_inv m"
  by (rule sm_inv_cong; simp add: sm_emit_def set_status_def cas_status_def)+

lemma replace_live_ok:
  assumes "sm_inv m"
  shows "\<exists>m'. replace_live m i = Some m' \<and> sm_inv m' \<and> i \<notin> fst ` set (sm_sessions m')"
proof (cases "map_of (sm_sessions m) i")
  case None
  then have "i \<notin> fst ` set (sm_sessions m)" by (simp add: map_of_eq_None_iff)
  then show ?thesis using assms None by (simp add: replace_live_def)
next
  case (Some a)
  then show ?thesis using remove_live_ok [OF assms Some, of "bye_event m i" False]
    by (auto simp: replace_live_def set_delete)
qed

lemma get_error_inv:
  assumes "sm_inv m" and "pm_Get (sm_pool m) = (pool, Inl e)"
  shows "sm_inv (m\<lparr>sm_pool := pool\<rparr>)"
proof -
  have "pool = sm_pool m" using rtp_ports.leased_err [OF _ assms(2)] assms(1) by (auto simp: sm_inv_def sm_core_def)
  then show ?thesis using assms(1) by simp
qed

lemma failed_inv:
  assumes "sm_inv m" and "pm_Get (sm_pool m) = (pool, Inr port)" and "sm_heap m1 = sm_heap m" and "sm_pool m1 = pool"
    and "sm_sessions m1 = sm_sessions m" and "sm_playback m1 = sm_playback m"
  shows "sm_inv (fst (invite_failed m1 port e))"
proof -
  let ?m' = "recycle_port m1 port"
  have e: "sm_heap ?m' = sm_heap m" "sm_pool ?m' = pm_Recycle pool port" "sm_sessions ?m' = sm_sessions m" "sm_playback ?m' = sm_playback m"
    using assms(3-6) by (simp_all add: recycle_port_def sm_emit_def)
  have "sm_core m (owned m)" using assms(1) by (simp add: sm_inv_def)
  then have "sm_core ?m' (owned m)" by (rule core_get_put [OF _ assms(2) e(1,2)])
  then show ?thesis using assms(1) e by (simp add: invite_failed_def sm_inv_def maps_ok_def owned_def)
qed

lemma attach_udp_session:
  assumes "attach_udp s = Some s'" and "session_ok s" and "\<not> ss_closed s"
  shows "session_ok s' \<and> \<not> ss_closed s' \<and> ss_channelID s' = ss_channelID s \<and> ss_port s' = ss_port s \<and> ss_tcpLn s' = ss_tcpLn s"
  using assms start_ok [OF assms(2,3)] by (auto simp: attach_udp_def session_ok_def split: sum.splits)

lemma live_transport_inv:
  assumes "sm_inv m" and "ss_channelID s \<notin> fst ` set (sm_sessions m)" and "fresh_session m pool (ss_channelID s) s"
    and "sm_heap m1 = sm_heap m" and "sm_pool m1 = pool" and "sm_sessions m1 = sm_sessions m" and "sm_playback m1 = sm_playback m"
  shows "sm_inv (fst (live_transport env m1 transport serverIP s))"
proof -
  have g: "pm_Get (sm_pool m) = (pool, Inr (ss_port s))" "session_ok s" "\<not> ss_closed s" using assms(3) by (simp_all add: fresh_session_def)
  have st: "sm_inv (store_live m1 t)" if "fresh_session m pool (ss_channelID s) t" for t
    using store_live_inv [OF assms(1,2) that assms(4-7)] .
  have f: "sm_inv (fst (invite_failed m1 (ss_port s) e))"
    "sm_inv (fst (invite_failed (sm_emit m1 evs) (ss_port s) e))" for e evs
    using failed_inv [OF assms(1) g(1), of m1] failed_inv [OF assms(1) g(1), of "sm_emit m1 evs"] assms(4-7)
    by (simp_all add: sm_emit_def)
  have t: "fresh_session m pool (ss_channelID s) (s\<lparr>ss_tcpLn := True\<rparr>)" using assms(3) by (auto simp: fresh_session_def session_ok_def)
  have u: "sm_inv (store_live m1 s')" if "attach_udp s = Some s'" for s'
    using attach_udp_session [OF that g(2,3)] g(1) by (intro st) (simp add: fresh_session_def)
  show ?thesis using st [OF assms(3)] st [OF t] f u
    by (auto simp: live_transport_def Let_def split: option.split)
qed

lemma live_receiver_inv: "rx_inv (live_receiver m ch onAU onAudio) \<and> \<not> r_doneClosed (live_receiver m ch onAU onAudio)"
  using NewReceiver_inv [of "\<not> onAU" True False onAudio False]
  by (auto simp: live_receiver_def Let_def SetAudioOnly_def SetExpectPayloadDecryptor_def rx_inv_def rx_core_def NewReceiver_def)

lemma Invite_inv:
  assumes "sm_inv m"
  shows "\<exists>m' r. Invite env m chan serverIP onAU onAudio = Some (m', r) \<and> sm_inv m'"
proof (cases chan)
  case None
  then show ?thesis using assms by (simp add: Invite_def)
next
  case (Some c)
  let ?ch = "sm_chans m c"
  obtain m0 where m0: "replace_live m (ch_ID ?ch) = Some m0" "sm_inv m0" "ch_ID ?ch \<notin> fst ` set (sm_sessions m0)"
    using replace_live_ok [OF assms] by blast
  obtain pool res where g: "pm_Get (sm_pool m0) = (pool, res)" by (cases "pm_Get (sm_pool m0)")
  show ?thesis
  proof (cases res)
    case (Inl e)
    then have "sm_inv (m0\<lparr>sm_pool := pool\<rparr>)" using get_error_inv [OF m0(2)] g by simp
    then show ?thesis using Some m0(1) g Inl by (simp add: Invite_def)
  next
    case (Inr port)
    let ?m1 = "m0\<lparr>sm_pool := pool, sm_ssrcSeq := sm_ssrcSeq m0 + 1\<rparr>"
    let ?s = "(new_session c ?ch (live_receiver ?m1 ?ch onAU onAudio) (\<not> onAU) port)\<lparr>ss_firstRTP := sm_firstRTPHook ?m1\<rparr>"
    have "fresh_session m0 pool (ss_channelID ?s) ?s"
      using g Inr live_receiver_inv by (simp add: fresh_session_def new_session_def session_ok_def)
    then have "sm_inv (fst (live_transport env ?m1 (MediaTransport ?m1) serverIP ?s))"
      using m0(2,3) by (intro live_transport_inv [of m0]) (simp_all add: new_session_def)
    then show ?thesis using Some m0(1) g Inr
      by (cases "live_transport env ?m1 (MediaTransport ?m1) serverIP ?s") (auto simp: Invite_def Let_def split: sum.split)
  qed
qed

lemma teardown_commutes:
  "teardown (m\<lparr>sm_playback := x\<rparr>) a b = map_option (\<lambda>m'. m'\<lparr>sm_playback := x\<rparr>) (teardown m a b)"
  by (cases "go_idx (sm_heap m) a"; cases "Stop (ss_receiver (the (go_idx (sm_heap m) a)))")
     (simp_all add: teardown_def put_session_def sm_emit_def recycle_port_def set_status_def Let_def)

text \<open>
  What \<open>inviteFetch\<close> has when it asks for a port: no fetch on the channel, or one that was torn down
  and is still in the map.
\<close>

lemma fetch_prepare:
  assumes "sm_inv m"
  shows "\<exists>m0. (case map_of (sm_playback m) i of None \<Rightarrow> Some m | Some a \<Rightarrow> teardown m a False) = Some m0
    \<and> sm_inv (m0\<lparr>sm_playback := AList.delete i (sm_playback m0)\<rparr>) \<and> sm_playback m0 = sm_playback m
    \<and> length (sm_heap m0) = length (sm_heap m) \<and> (map_of (sm_playback m) i = None \<longrightarrow> m0 = m)
    \<and> (map_of (sm_playback m) i \<noteq> None \<longrightarrow> pm_free (sm_pool m0) \<noteq> {})"
proof (cases "map_of (sm_playback m) i")
  case None
  then have "AList.delete i (sm_playback m) = sm_playback m" by (simp add: map_of_eq_None_iff AList.delete_id)
  then show ?thesis using assms None by simp
next
  case (Some a)
  let ?d = "AList.delete i (sm_playback m)"
  have core: "sm_core m (owned m)" "a \<in> owned m" using assms map_of_SomeD [OF Some] by (auto simp: sm_inv_def owned_def intro: rev_image_eqI)
  obtain m0 where m0: "teardown m a False = Some m0" "sm_core m0 (owned m - {a})" "td_frame {a} m m0"
    using teardown_ok [OF core] by blast
  have pb: "sm_playback m0 = sm_playback m" "length (sm_heap m0) = length (sm_heap m)" using m0(3) by (simp_all add: td_frame_def)
  have "teardown (sm_emit (m\<lparr>sm_playback := ?d\<rparr>) []) a False = Some (m0\<lparr>sm_playback := ?d\<rparr>)"
    using m0(1) teardown_commutes [where m = m and x = ?d and a = a and b = False] by (simp add: sm_emit_def)
  then have "sm_inv (m0\<lparr>sm_playback := ?d\<rparr>)" using remove_fetch_ok [OF assms Some, of "[]" False] by auto
  moreover have "pm_free (sm_pool m0) \<noteq> {}"
  proof -
    have c: "port_at m a \<in> pm_all (sm_pool m)" using core by (auto simp: sm_core_def rtp_ports.leased_def)
    have h: "port_at m0 b = port_at m b" if "b \<in> owned m - {a}" for b using m0(3) that by (auto simp: port_at_def td_frame_def)
    then have "port_at m a \<notin> port_at m0 ` (owned m - {a})"
      using core by (auto simp: sm_core_def rtp_ports.leased_def inj_on_def)
    moreover have "port_at m a \<in> pm_all (sm_pool m0)" using c m0(3) by (simp add: td_frame_def)
    ultimately show ?thesis using m0(2) by (auto simp: sm_core_def rtp_ports.leased_def)
  qed
  ultimately show ?thesis using Some m0(1) pb by simp
qed

text \<open>The network accepts the address and every port.\<close>

definition net_ready :: "net_env \<Rightarrow> string \<Rightarrow> bool" where
  "net_ready env ip \<longleftrightarrow> ne_parses env ip \<and> (\<forall>p. ne_bind env ip p)"

lemma fetch_receiver_inv: "rx_inv (fetch_receiver m onAudio) \<and> \<not> r_doneClosed (fetch_receiver m onAudio)
  \<and> \<not> r_running (fetch_receiver m onAudio)"
  using NewReceiver_inv [of True True False onAudio False]
  by (auto simp: fetch_receiver_def Let_def SetExpectPayloadDecryptor_def rx_inv_def rx_core_def NewReceiver_def)

lemma ssrc_of_fetch_frame:
  "ssrc_of_fetch m download = (m', n, t) \<Longrightarrow> sm_heap m' = sm_heap m \<and> sm_pool m' = sm_pool m
     \<and> sm_sessions m' = sm_sessions m \<and> sm_playback m' = sm_playback m"
  by (auto simp: ssrc_of_fetch_def Let_def split: if_splits)

lemma inviteFetch_inv:
  assumes "sm_inv m" and "\<And>c. chan = Some c \<Longrightarrow> map_of (sm_playback m) (ch_ID (sm_chans m c)) \<noteq> None \<Longrightarrow> net_ready env serverIP"
  shows "\<exists>m' r. inviteFetch env m chan serverIP start end' sink onAudio download = Some (m', r) \<and> sm_inv m'"
proof (cases "chan = None \<or> sink = None")
  case True
  then show ?thesis using assms(1) by (cases chan; cases sink) (simp_all add: inviteFetch_def)
next
  case False
  then obtain c sk where cs: "chan = Some c" "sink = Some sk" by auto
  let ?i = "ch_ID (sm_chans m c)"
  obtain m0 where m0: "(case map_of (sm_playback m) ?i of None \<Rightarrow> Some m | Some a \<Rightarrow> teardown m a False) = Some m0"
    "sm_inv (m0\<lparr>sm_playback := AList.delete ?i (sm_playback m0)\<rparr>)" "sm_playback m0 = sm_playback m"
    "length (sm_heap m0) = length (sm_heap m)" "map_of (sm_playback m) ?i = None \<longrightarrow> m0 = m"
    "map_of (sm_playback m) ?i \<noteq> None \<longrightarrow> pm_free (sm_pool m0) \<noteq> {}"
    using fetch_prepare [OF assms(1)] by blast
  obtain pool res where g: "pm_Get (sm_pool m0) = (pool, res)" by (cases "pm_Get (sm_pool m0)")
  have wf: "pm_wf (sm_pool m0)" using m0(2) by (simp add: sm_inv_def sm_core_def rtp_ports.leased_def)
  show ?thesis
  proof (cases res)
    case (Inl e)
    then have "pm_free (sm_pool m0) = {}" using rtp_ports.get_err [OF wf] g by blast
    then have "m0 = m" using m0(5,6) by blast
    then have "sm_inv (m0\<lparr>sm_pool := pool\<rparr>)" using get_error_inv [OF assms(1)] g Inl by simp
    then show ?thesis using cs m0(1) g Inl by (simp add: inviteFetch_def)
  next
    case (Inr port)
    obtain m1 n t where m1: "ssrc_of_fetch (m0\<lparr>sm_pool := pool\<rparr>) download = (m1, n, t)"
      by (cases "ssrc_of_fetch (m0\<lparr>sm_pool := pool\<rparr>) download")
    have fr: "sm_heap m1 = sm_heap m0" "sm_pool m1 = pool" "sm_sessions m1 = sm_sessions m0" "sm_playback m1 = sm_playback m0"
      using ssrc_of_fetch_frame [OF m1] by simp_all
    let ?s = "(new_session c (sm_chans m c) (fetch_receiver m1 onAudio) True port)\<lparr>ss_sink := sink\<rparr>"
    have s: "session_ok ?s" "\<not> ss_closed ?s" using fetch_receiver_inv by (simp_all add: session_ok_def new_session_def)
    obtain s' where s': "attach_udp ?s = Some s'"
      using fetch_receiver_inv by (auto simp: attach_udp_def rx_Start_def new_session_def)
    have fs: "fresh_session m0 pool ?i s'" "\<not> ss_tcpLn s'"
      using attach_udp_session [OF s' s] g Inr by (simp_all add: fresh_session_def new_session_def)
    have d: "distinct (map fst (sm_playback m0))" "distinct (map snd (sm_playback m0))" "snd ` set (sm_playback m0) \<subseteq> {..<length (sm_heap m0)}"
      using assms(1) owned_below [OF assms(1)] m0(3,4) by (simp_all add: sm_inv_def maps_ok_def owned_def)
    have st: "sm_inv (store_fetch m1 s')" by (rule store_fetch_inv [OF m0(2) d fs fr])
    have bad: "sm_inv (fst (invite_failed m1 port e))" if "\<not> net_ready env serverIP" for e
    proof -
      have "m0 = m" using that assms(2) [OF cs(1)] m0(5) by blast
      then show ?thesis using failed_inv [OF assms(1), of pool port m1] g Inr fr by simp
    qed
    have ev: "inviteFetch env m chan serverIP start end' sink onAudio download = Some (
        if \<not> ne_parses env serverIP then invite_failed m1 port BadAddr
        else if \<not> ne_bind env serverIP port then invite_failed m1 port BindFailed
        else (store_fetch m1 s', Inr (fetch_sdp serverIP port n start end' t (mediaSecurityOffer m1))))"
      using cs m0(1) g Inr m1 s' by (simp add: inviteFetch_def Let_def)
    show ?thesis unfolding ev using bad st by (cases "net_ready env serverIP") (auto simp: net_ready_def invite_failed_def)
  qed
qed

text \<open>Replacing a session by one that agrees on what the maps and the pool see.\<close>

lemma put_session_inv:
  assumes "sm_inv m" and "a < length (sm_heap m)" and "session_ok s" and "ss_port s = ss_port (sm_heap m ! a)"
    and own: "a \<in> owned m \<Longrightarrow> ss_channelID s = ss_channelID (sm_heap m ! a) \<and> ss_tcpLn s = ss_tcpLn (sm_heap m ! a)
      \<and> ss_closed s = ss_closed (sm_heap m ! a)"
  shows "sm_inv (put_session m a s)"
proof -
  let ?m' = "put_session m a s"
  have h: "sm_heap ?m' ! b = (if b = a then s else sm_heap m ! b)" for b using assms(2) by (simp add: put_session_def)
  have maps: "sm_sessions ?m' = sm_sessions m" "sm_playback ?m' = sm_playback m" by (simp_all add: put_session_def)
  have mo: "maps_ok m" using assms(1) by (simp add: sm_inv_def)
  have o: "b \<in> owned m" if "(k, b) \<in> set (sm_sessions m) \<union> set (sm_playback m)" for k b
    using that by (auto simp: owned_def intro: rev_image_eqI)
  have e: "ss_channelID (sm_heap ?m' ! b) = k \<and> \<not> ss_closed (sm_heap ?m' ! b)"
    if "(k, b) \<in> set (sm_sessions m) \<union> set (sm_playback m)" for k b
    using maps_entry(1) [OF mo that] own o [OF that] h by (cases "b = a") simp_all
  have l: "\<not> ss_tcpLn (sm_heap ?m' ! b)" if "(k, b) \<in> set (sm_playback m)" for k b
    using maps_entry(2) [OF mo that] own o [of k b] that h by (cases "b = a") simp_all
  have "maps_ok ?m'" using mo e l unfolding maps_ok_def maps by blast
  moreover have "sm_core ?m' (owned m)" using assms(1,3,4) by (intro core_put) (simp_all add: sm_inv_def port_at_def)
  ultimately show ?thesis by (simp add: sm_inv_def owned_def maps)
qed

lemma attach_tcp_inv:
  assumes "sm_inv m" and "a < length (sm_heap m)" and "\<not> ss_closed (sm_heap m ! a)"
  shows "sm_inv (fst (attach_tcp m a (sm_heap m ! a)))"
proof -
  let ?s = "sm_heap m ! a"
  have s: "session_ok ?s" using assms(1,2) by (simp add: sm_inv_def sm_core_def)
  have "sm_inv (put_session m a (?s\<lparr>ss_conn := True, ss_tcpMode := t\<rparr>))" for t
    using s by (intro put_session_inv [OF assms(1,2)]) (simp_all add: session_ok_def)
  moreover have "sm_inv (put_session m a (?s\<lparr>ss_conn := True, ss_tcpMode := t, ss_receiver := r, ss_cancel := True\<rparr>))"
    if "rx_Start (ss_receiver ?s) False = Inr r" for t r
    using start_ok [OF s assms(3) that] by (intro put_session_inv [OF assms(1,2)]) (simp_all add: session_ok_def)
  ultimately show ?thesis by (simp add: attach_tcp_def Let_def split: sum.split)
qed

text \<open>The accept window of a session that is still installed expires.\<close>

lemma accept_expired:
  assumes "sm_inv m" and "map_of (sm_sessions m) k = Some a" and "s = sm_heap m ! a"
    and "m2 = m\<lparr>sm_sessions := AList.delete k (sm_sessions m)\<rparr>"
    and "m3 = sm_emit (put_session m2 a (s\<lparr>ss_closed := True, ss_tcpLn := False\<rparr>)) evs"
  shows "sm_inv (recycle_port m3 (ss_port s))"
proof -
  have mo: "maps_ok m" using assms(1) by (simp add: sm_inv_def)
  have a: "a < length (sm_heap m)" using entry_below [OF assms(1), of k a] map_of_SomeD [OF assms(2)] by simp
  have ok: "session_ok s" using assms(1,3) a by (simp add: sm_inv_def sm_core_def)
  have R: "{a} = snd ` set (filter (\<lambda>x. \<not> (case x of (j, _) \<Rightarrow> k \<noteq> j)) (sm_sessions m)) \<union> snd ` set (filter (\<lambda>x. \<not> True) (sm_playback m))"
    using key_filter [OF _ assms(2)] mo by (simp add: maps_ok_def)
  have e: "sm_heap m2 = sm_heap m" "sm_pool m2 = sm_pool m" "sm_sessions m2 = filter (\<lambda>(j, _). k \<noteq> j) (sm_sessions m)"
    "sm_playback m2 = filter (\<lambda>x. True) (sm_playback m)" by (simp_all add: assms(4) AList.delete_eq)
  note rm = sm_inv_removed [OF assms(1) e R]
  have p: "port_at m2 a = ss_port s" "port_at m3 a = ss_port s"
    using a e(1) assms(3) by (simp_all add: assms(5) port_at_def sm_emit_def put_session_def)
  have c3: "sm_core m3 (owned m)" unfolding assms(5) core_frame
    using ok p by (intro core_put [OF rm(1)]) (simp_all add: session_ok_def)
  have c4: "sm_core (recycle_port m3 (ss_port s)) (owned m - {a})" "pm_all (sm_pool (recycle_port m3 (ss_port s))) = pm_all (sm_pool m3)"
    using core_recycle [OF c3, of a] rm(3) unfolding p by simp_all
  have "td_frame {a} m2 (recycle_port m3 (ss_port s))" using c4(2)
    by (simp add: td_frame_def assms(5) recycle_port_def sm_emit_def put_session_def)
  then show ?thesis using rm(4) [OF c4(1)] by blast
qed

lemma acceptTCP_inv:
  assumes "sm_inv m" and "a < length (sm_heap m)"
  shows "\<exists>m'. acceptTCP m a ok = Some m' \<and> sm_inv m'"
proof -
  let ?s = "sm_heap m ! a"
  let ?c = "?s\<lparr>ss_closed := True, ss_tcpLn := False\<rparr>"
  let ?k = "ss_channelID ?s"
  define m1 where "m1 = sm_emit m [ListenerClosed a]"
  have i1: "sm_inv m1" using assms(1) by (simp add: m1_def)
  have f1: "sm_heap m1 = sm_heap m" "sm_sessions m1 = sm_sessions m" "sm_playback m1 = sm_playback m"
    by (simp_all add: m1_def sm_emit_def)
  have mo: "maps_ok m" and s: "session_ok ?s" using assms by (simp_all add: sm_inv_def sm_core_def)
  consider "\<not> ss_tcpLn ?s \<or> ok" | "ss_tcpLn ?s" "\<not> ok" "map_of (sm_sessions m) ?k = Some a"
    | "ss_tcpLn ?s" "\<not> ok" "map_of (sm_sessions m) ?k \<noteq> Some a" by blast
  then show ?thesis
  proof cases
    case 1
    have "sm_inv (fst (attach_tcp m1 a ?s))" if "\<not> ss_closed ?s"
      using attach_tcp_inv [OF i1, of a] assms(2) that f1(1) by simp
    then show ?thesis using 1 assms i1 by (auto simp: acceptTCP_def Let_def m1_def [symmetric])
  next
    case 2
    define m2 where "m2 = m1\<lparr>sm_sessions := AList.delete ?k (sm_sessions m1)\<rparr>"
    have "acceptTCP m a ok = Some (set_status (recycle_port (sm_emit (put_session m2 a ?c) (bye_event (put_session m2 a ?c) ?k)) (ss_port ?s))
        (ss_channel ?s) ChannelIdle)"
      using 2 assms(2) f1(2) by (simp add: acceptTCP_def Let_def m1_def [symmetric] m2_def)
    moreover have "sm_inv (recycle_port (sm_emit (put_session m2 a ?c) evs) (ss_port ?s))" for evs
      by (rule accept_expired [OF i1 _ _ m2_def refl]) (simp_all only: 2(3) f1)
    ultimately show ?thesis by simp
  next
    case 3
    have "a \<notin> owned m"
    proof
      assume "a \<in> owned m"
      then obtain k where "(k, a) \<in> set (sm_sessions m)" using maps_entry(2) [OF mo] 3(1) by (auto simp: owned_def)
      then have "map_of (sm_sessions m) ?k = Some a"
        using maps_entry(1) [OF mo, of k a] mo map_of_is_SomeI [of "sm_sessions m" k a] by (simp add: maps_ok_def)
      then show False using 3(3) by simp
    qed
    then have "sm_inv (put_session m1 a ?c)"
      using s assms(2) f1 by (intro put_session_inv [OF i1]) (simp_all add: session_ok_def owned_def)
    moreover have "acceptTCP m a ok = Some (put_session m1 a ?c)"
      using 3 assms(2) f1(2) by (simp add: acceptTCP_def Let_def m1_def [symmetric])
    ultimately show ?thesis by simp
  qed
qed

lemma ConnectActiveTCP_inv:
  assumes "sm_inv m"
  shows "\<exists>m' r. ConnectActiveTCP env m i sdp = Some (m', r) \<and> sm_inv m'"
proof (cases "map_of (sm_sessions m) i")
  case (Some a)
  have e: "(i, a) \<in> set (sm_sessions m)" using Some by (rule map_of_SomeD)
  have a: "a < length (sm_heap m)" using entry_below [OF assms, of i a] e by simp
  have "\<not> ss_closed (sm_heap m ! a)" using assms maps_entry(1) [of m i a] e by (simp add: sm_inv_def)
  then have "sm_inv (fst (attach_tcp m a (sm_heap m ! a)))" by (rule attach_tcp_inv [OF assms a])
  then show ?thesis using Some a assms \<open>\<not> ss_closed _\<close>
    by (cases "attach_tcp m a (sm_heap m ! a)"; cases "snd (attach_tcp m a (sm_heap m ! a))")
       (auto simp: ConnectActiveTCP_def split: option.split)
qed (use assms in \<open>simp add: ConnectActiveTCP_def\<close>)

lemma all_sessions_fold:
  assumes "distinct (map fst xs)" and "\<forall>k \<in> fst ` set xs. ''pb:'' @ k \<notin> fst ` set acc"
  shows "foldl (\<lambda>acc (k, a). AList.update (''pb:'' @ k) a acc) acc xs = acc @ map (\<lambda>(k, a). (''pb:'' @ k, a)) xs"
  using assms
proof (induction xs arbitrary: acc)
  case (Cons x xs)
  obtain k a where x: "x = (k, a)" by (cases x)
  have u: "AList.update (''pb:'' @ k) a acc = acc @ [(''pb:'' @ k, a)]" using Cons.prems(2) x by (intro update_fresh) simp
  have "foldl (\<lambda>acc (k, a). AList.update (''pb:'' @ k) a acc) (acc @ [(''pb:'' @ k, a)]) xs
      = (acc @ [(''pb:'' @ k, a)]) @ map (\<lambda>(k, a). (''pb:'' @ k, a)) xs"
    using Cons.prems x by (intro Cons.IH) auto
  then show ?case using u x by simp
qed simp

text \<open>No live channel has an identifier that looks like the key of a fetch.\<close>

definition plain_keys :: "session_manager \<Rightarrow> bool" where
  "plain_keys m \<longleftrightarrow> (\<forall>k \<in> fst ` set (sm_sessions m). \<not> HasPrefix k ''pb:'')"

lemma StopAll_inv:
  assumes "sm_inv m" and "plain_keys m"
  shows "\<exists>m'. StopAll m = Some m' \<and> sm_inv m' \<and> owned m' = {}"
proof -
  let ?m1 = "m\<lparr>sm_sessions := [], sm_playback := [], sm_stallArmed := False\<rparr>"
  have mo: "maps_ok m" using assms(1) by (simp add: sm_inv_def)
  have "all_sessions m = sm_sessions m @ map (\<lambda>(k, a). (''pb:'' @ k, a)) (sm_playback m)"
    unfolding all_sessions_def using mo assms(2) by (intro all_sessions_fold) (force simp: maps_ok_def plain_keys_def)+
  then have all: "map snd (all_sessions m) = map snd (sm_sessions m) @ map snd (sm_playback m)" by auto
  have R: "owned m = snd ` set (filter (\<lambda>x. \<not> False) (sm_sessions m)) \<union> snd ` set (filter (\<lambda>x. \<not> False) (sm_playback m))"
    by (simp add: owned_def)
  have e: "sm_heap ?m1 = sm_heap m" "sm_pool ?m1 = sm_pool m" "sm_sessions ?m1 = filter (\<lambda>x. False) (sm_sessions m)"
    "sm_playback ?m1 = filter (\<lambda>x. False) (sm_playback m)" by simp_all
  note rm = sm_inv_removed [OF assms(1) e R]
  have d: "distinct (map snd (all_sessions m))" "set (map snd (all_sessions m)) = owned m"
    using mo unfolding all by (simp_all add: maps_ok_def owned_def)
  obtain m' where m': "teardown_all ?m1 (map snd (all_sessions m)) = Some m'" "sm_core m' (owned m - owned m)" "td_frame (owned m) ?m1 m'"
    using teardown_all_ok [OF rm(1) d(1)] unfolding d(2) by blast
  then show ?thesis using rm(4) [OF m'(2,3)] by (simp add: StopAll_def)
qed

lemma receiver_op_inv:
  assumes "sm_inv m" and "a < length (sm_heap m)" and "op \<noteq> OpStop" and "\<And>c. op \<noteq> OpStart c"
  shows "\<exists>r. rx_exec um (ss_receiver (sm_heap m ! a)) op = Some r \<and> sm_inv (put_session m a ((sm_heap m ! a)\<lparr>ss_receiver := r\<rparr>))"
proof -
  let ?s = "sm_heap m ! a"
  have s: "rx_inv (ss_receiver ?s)" "r_doneClosed (ss_receiver ?s) \<longrightarrow> ss_closed ?s"
    using assms(1,2) by (simp_all add: sm_inv_def sm_core_def session_ok_def)
  have "rx_allowed (ss_receiver ?s) op" using assms(4) by (auto simp: rx_allowed_def split: rx_op.split)
  then obtain r where r: "rx_exec um (ss_receiver ?s) op = Some r" "rx_inv r" using rx_exec_inv [OF s(1)] by blast
  have "r_doneClosed r = r_doneClosed (ss_receiver ?s)" by (rule rx_exec_done [OF s(1) r(1) assms(3)])
  then have "sm_inv (put_session m a (?s\<lparr>ss_receiver := r\<rparr>))"
    using r(2) s(2) by (intro put_session_inv [OF assms(1,2)]) (simp_all add: session_ok_def)
  then show ?thesis using r(1) by blast
qed

subsection \<open>Histories\<close>

datatype sm_op =
    OInvite net_env "nat option" string bool bool
  | OFetch net_env "nat option" string i64 i64 "bool option" bool bool
  | OAccept nat bool
  | OConnect net_env string string
  | OBye string | OByePlayback string | OByeDevice string | OStopAll
  | OMarkPlaying string
  | OWatchdog i64
  | OConfigure "string option" "string option" "string option" bool bool
  | OStall i64 i64 bool
  | OMedia nat rx_op

fun sm_exec :: "(bytes \<Rightarrow> rtp_packet option) \<Rightarrow> session_manager \<Rightarrow> sm_op \<Rightarrow> session_manager go" where
  "sm_exec um m (OInvite env c ip au ad) = map_option fst (Invite env m c ip au ad)"
| "sm_exec um m (OFetch env c ip s e sink ad dl) = map_option fst (inviteFetch env m c ip s e sink ad dl)"
| "sm_exec um m (OAccept a ok) = acceptTCP m a ok"
| "sm_exec um m (OConnect env i sdp) = map_option fst (ConnectActiveTCP env m i sdp)"
| "sm_exec um m (OBye i) = Bye m i"
| "sm_exec um m (OByePlayback i) = ByePlayback m i"
| "sm_exec um m (OByeDevice d) = ByeDevice m d"
| "sm_exec um m OStopAll = StopAll m"
| "sm_exec um m (OMarkPlaying i) = Some (fst (MarkPlaying m i))"
| "sm_exec um m (OWatchdog now) = recycleStalled m now"
| "sm_exec um m (OConfigure tr fr sec bye pb) =
     Some (SetPlaybackByeSender (SetByeSender (SetMediaSecurityOffer (SetTCPFraming (SetMediaTransport m tr) fr) sec) bye) pb)"
| "sm_exec um m (OStall every for' hook) = Some (SetStallWatchdog m every for' hook)"
| "sm_exec um m (OMedia a op) = do {
     s \<leftarrow> go_idx (sm_heap m) a;
     r \<leftarrow> rx_exec um (ss_receiver s) op;
     Some (put_session m a (s\<lparr>ss_receiver := r\<rparr>)) }"

text \<open>
  The calls of a history: goroutines and receivers refer to sessions that exist, the manager alone
  starts and stops receivers, and a fetch that replaces a running one finds the network ready.
\<close>

definition sm_allowed :: "session_manager \<Rightarrow> sm_op \<Rightarrow> bool" where
  "sm_allowed m op = (case op of
      OFetch env c ip _ _ _ _ _ \<Rightarrow>
        (case c of None \<Rightarrow> True | Some c \<Rightarrow> map_of (sm_playback m) (ch_ID (sm_chans m c)) = None \<or> net_ready env ip)
    | OAccept a _ \<Rightarrow> a < length (sm_heap m)
    | OStopAll \<Rightarrow> plain_keys m
    | OMedia a op \<Rightarrow> a < length (sm_heap m) \<and> op \<noteq> OpStop \<and> (case op of OpStart _ \<Rightarrow> False | _ \<Rightarrow> True)
    | _ \<Rightarrow> True)"

inductive sm_reach :: "(bytes \<Rightarrow> rtp_packet option) \<Rightarrow> u16 \<Rightarrow> u16 \<Rightarrow> session_manager \<Rightarrow> bool" for um start end' where
  init: "NewPortManager start end' = Some pm \<Longrightarrow> sm_reach um start end' (NewSessionManager pm chans serverID)"
| step: "sm_reach um start end' m \<Longrightarrow> sm_allowed m op \<Longrightarrow> sm_exec um m op = Some m' \<Longrightarrow> sm_reach um start end' m'"

lemma sm_exec_inv:
  assumes "sm_inv m" and "sm_allowed m op"
  shows "\<exists>m'. sm_exec um m op = Some m' \<and> sm_inv m'"
proof (cases op)
  case (OInvite env c ip au ad)
  then show ?thesis using Invite_inv [OF assms(1), of env c ip au ad] by force
next
  case (OFetch env c ip s e sink ad dl)
  have "\<exists>m' r. inviteFetch env m c ip s e sink ad dl = Some (m', r) \<and> sm_inv m'"
    using assms(2) OFetch by (intro inviteFetch_inv [OF assms(1)]) (simp add: sm_allowed_def)
  then show ?thesis using OFetch by force
next
  case (OAccept a ok)
  then show ?thesis using acceptTCP_inv [OF assms(1)] assms(2) by (simp add: sm_allowed_def)
next
  case (OConnect env i sdp)
  then show ?thesis using ConnectActiveTCP_inv [OF assms(1), of env i sdp] by force
next
  case (OMedia a op')
  have "\<exists>r. rx_exec um (ss_receiver (sm_heap m ! a)) op' = Some r \<and> sm_inv (put_session m a ((sm_heap m ! a)\<lparr>ss_receiver := r\<rparr>))"
    using assms(2) OMedia by (intro receiver_op_inv [OF assms(1)]) (auto simp: sm_allowed_def)
  then show ?thesis using OMedia assms(2) by (auto simp: sm_allowed_def)
next
  case OStopAll
  then show ?thesis using StopAll_inv [OF assms(1)] assms(2) by (auto simp: sm_allowed_def)
next
  case (OWatchdog now)
  then show ?thesis using recycleStalled_inv [OF assms(1), of now] by (simp only: sm_exec.simps) blast
next
  case (OConfigure tr fr sec bye pb)
  have "sm_inv (SetPlaybackByeSender (SetByeSender (SetMediaSecurityOffer (SetTCPFraming (SetMediaTransport m tr) fr) sec) bye) pb) = sm_inv m"
    by (rule sm_inv_cong) (simp_all add: SetPlaybackByeSender_def SetByeSender_def SetMediaSecurityOffer_def SetTCPFraming_def SetMediaTransport_def)
  then show ?thesis using OConfigure assms(1) by simp
next
  case (OStall e f h)
  have "sm_inv (SetStallWatchdog m e f h) = sm_inv m" by (rule sm_inv_cong) (simp_all add: SetStallWatchdog_def)
  then show ?thesis using OStall assms(1) by simp
next
  case (OMarkPlaying i)
  then show ?thesis using assms(1) by (simp add: MarkPlaying_def split: option.split)
qed (use Bye_inv [OF assms(1)] ByePlayback_inv [OF assms(1)] ByeDevice_inv [OF assms(1)] in simp_all)

lemma New_inv:
  assumes "NewPortManager start end' = Some pm"
  shows "sm_inv (NewSessionManager pm chans serverID)" "pm_all pm = {start..end'}"
proof -
  have "pm_recycle pm = []" using assms by (auto simp: NewPortManager_def split: if_splits)
  then have "rtp_ports.leased pm (port_at (NewSessionManager pm chans serverID)) {} \<and> pm_all pm = {start..end'}"
    using pool_reach_inv [OF pool_reach.init [OF assms]] assms
    by (auto simp: pool_inv_def rtp_ports.leased_def pm_free_def pm_all_def ports_held_def NewPortManager_def split: if_splits)
  then show "sm_inv (NewSessionManager pm chans serverID)" "pm_all pm = {start..end'}"
    by (simp_all add: sm_inv_def maps_ok_def owned_def sm_core_def NewSessionManager_def)
qed

subsection \<open>The range of the pool\<close>

definition pool_range :: "session_manager \<Rightarrow> u16 \<times> u16" where
  "pool_range m = (pm_start (sm_pool m), pm_end (sm_pool m))"

lemma Recycle_range [simp]: "pm_start (pm_Recycle pm p) = pm_start pm" "pm_end (pm_Recycle pm p) = pm_end pm"
  by (simp_all add: pm_Recycle_def)

lemma Get_range: "pm_Get pm = (pm', r) \<Longrightarrow> pm_start pm' = pm_start pm \<and> pm_end pm' = pm_end pm"
  by (auto simp: pm_Get_def Let_def split: list.splits if_splits)

lemma range_frame [simp]:
  "pool_range (sm_emit m evs) = pool_range m" "pool_range (set_status m c st) = pool_range m"
  "pool_range (cas_status m c old new) = pool_range m" "pool_range (put_session m a s) = pool_range m"
  "pool_range (recycle_port m p) = pool_range m" "pool_range (store_live m s) = pool_range m"
  "pool_range (store_fetch m s) = pool_range m" "pool_range (fst (invite_failed m p e)) = pool_range m"
  "pool_range (m\<lparr>sm_sessions := xs\<rparr>) = pool_range m" "pool_range (m\<lparr>sm_playback := xs\<rparr>) = pool_range m"
  "pool_range (m\<lparr>sm_stallRecycles := n\<rparr>) = pool_range m" "pool_range (m\<lparr>sm_ssrcSeq := q\<rparr>) = pool_range m"
  by (simp_all add: pool_range_def sm_emit_def set_status_def cas_status_def put_session_def recycle_port_def store_live_def
      store_fetch_def invite_failed_def)

lemma teardown_range: "teardown m a b = Some m' \<Longrightarrow> pool_range m' = pool_range m"
  by (auto simp: teardown_def Option.bind_eq_Some_conv Let_def)

lemma teardown_all_range: "teardown_all m as = Some m' \<Longrightarrow> pool_range m' = pool_range m"
  by (induction as arbitrary: m) (auto simp: Option.bind_eq_Some_conv dest!: teardown_range)

lemma recycle_each_range: "recycle_each m ias = Some m' \<Longrightarrow> pool_range m' = pool_range m"
proof (induction ias arbitrary: m)
  case (Cons ia ias)
  obtain i a where ia: "ia = (i, a)" by (cases ia)
  obtain m1 where m1: "teardown (sm_emit (m\<lparr>sm_stallRecycles := sm_stallRecycles m + 1\<rparr>) (bye_event m i)) a True = Some m1"
    "recycle_each (if sm_onStallRecycle m1 then sm_emit m1 [StallRecycled i] else m1) ias = Some m'"
    using Cons.prems ia by (auto simp: Option.bind_eq_Some_conv)
  then show ?case using Cons.IH [OF m1(2)] teardown_range [OF m1(1)] by simp
qed simp

lemma live_transport_range: "pool_range (fst (live_transport env m t ip s)) = pool_range m"
  by (simp add: live_transport_def Let_def split: option.split)

lemma replace_live_range: "replace_live m i = Some m' \<Longrightarrow> pool_range m' = pool_range m"
  by (auto simp: replace_live_def dest!: teardown_range split: option.splits)

lemma Invite_range:
  assumes "Invite env m chan ip au ad = Some (m', r)"
  shows "pool_range m' = pool_range m"
proof (cases chan)
  case (Some c)
  obtain m0 where m0: "replace_live m (ch_ID (sm_chans m c)) = Some m0"
    using assms Some by (cases "replace_live m (ch_ID (sm_chans m c))") (simp_all add: Invite_def)
  obtain pool res where g: "pm_Get (sm_pool m0) = (pool, res)" by (cases "pm_Get (sm_pool m0)")
  have p: "pool_range (m0\<lparr>sm_pool := pool, sm_ssrcSeq := q\<rparr>) = pool_range m" "pool_range (m0\<lparr>sm_pool := pool\<rparr>) = pool_range m" for q
    using Get_range [OF g] replace_live_range [OF m0] by (simp_all add: pool_range_def)
  show ?thesis
  proof (cases res)
    case (Inr port)
    let ?m1 = "m0\<lparr>sm_pool := pool, sm_ssrcSeq := sm_ssrcSeq m0 + 1\<rparr>"
    obtain t ipx s where "m' = fst (live_transport env ?m1 t ipx s)"
      using assms Some m0 g Inr by (simp add: Invite_def Let_def split: prod.splits sum.splits) (metis fst_conv)+
    then show ?thesis using live_transport_range p(1) by simp
  qed (use assms Some m0 g p(2) in \<open>simp add: Invite_def\<close>)
qed (use assms in \<open>simp add: Invite_def\<close>)

lemma inviteFetch_range:
  assumes "inviteFetch env m chan ip s e sink ad dl = Some (m', r)"
  shows "pool_range m' = pool_range m"
proof (cases "chan = None \<or> sink = None")
  case False
  then obtain c sk where cs: "chan = Some c" "sink = Some sk" by auto
  obtain m0 where m0: "(case map_of (sm_playback m) (ch_ID (sm_chans m c)) of None \<Rightarrow> Some m | Some a \<Rightarrow> teardown m a False) = Some m0"
    using assms cs unfolding inviteFetch_def Let_def by (simp add: Option.bind_eq_Some_conv) blast
  obtain pool res where g: "pm_Get (sm_pool m0) = (pool, res)" by (cases "pm_Get (sm_pool m0)")
  obtain m1 n t where m1: "ssrc_of_fetch (m0\<lparr>sm_pool := pool\<rparr>) dl = (m1, n, t)" by (cases "ssrc_of_fetch (m0\<lparr>sm_pool := pool\<rparr>) dl")
  have "pool_range m0 = pool_range m" using m0 teardown_range by (auto split: option.splits)
  then have p: "pool_range (m0\<lparr>sm_pool := pool\<rparr>) = pool_range m" "pool_range m1 = pool_range m"
    using Get_range [OF g] ssrc_of_fetch_frame [OF m1] by (simp_all add: pool_range_def)
  show ?thesis
  proof (cases res)
    case (Inr port)
    let ?s = "(new_session c (sm_chans m c) (fetch_receiver m1 ad) True port)\<lparr>ss_sink := Some sk\<rparr>"
    have "m' \<in> {fst (invite_failed m1 port BadAddr), fst (invite_failed m1 port BindFailed),
        fst (invite_failed (sm_emit m1 [ConnClosed (length (sm_heap m1))]) port StartFailed)} \<union> range (store_fetch m1)"
      using assms cs m0 g Inr m1 by (auto simp: inviteFetch_def Let_def invite_failed_def split: if_splits option.splits)
    then show ?thesis using p(2) by auto
  qed (use assms cs m0 g p(1) in \<open>simp add: inviteFetch_def\<close>)
qed (use assms in \<open>cases chan; cases sink; simp add: inviteFetch_def\<close>)

lemma attach_tcp_range: "pool_range (fst (attach_tcp m a s)) = pool_range m"
  by (simp add: attach_tcp_def Let_def split: sum.split)

lemma acceptTCP_range: "acceptTCP m a ok = Some m' \<Longrightarrow> pool_range m' = pool_range m"
  by (auto simp: acceptTCP_def Option.bind_eq_Some_conv Let_def attach_tcp_range split: if_splits)

lemma ConnectActiveTCP_range: "ConnectActiveTCP env m i sdp = Some (m', r) \<Longrightarrow> pool_range m' = pool_range m"
  using attach_tcp_range [of m]
  by (auto simp: ConnectActiveTCP_def Option.bind_eq_Some_conv split: option.splits if_splits prod.splits bool.splits) (metis fst_conv)+

lemma sm_exec_range:
  assumes "sm_exec um m op = Some m'"
  shows "pool_range m' = pool_range m"
proof (cases op)
  case (OInvite env c ip au ad)
  then show ?thesis using assms Invite_range by (auto simp: map_option_case split: option.splits)
next
  case (OFetch env c ip s e sink ad dl)
  then show ?thesis using assms inviteFetch_range by (auto simp: map_option_case split: option.splits)
next
  case (OConnect env i sdp)
  then show ?thesis using assms ConnectActiveTCP_range by (auto simp: map_option_case split: option.splits)
next
  case OStopAll
  then show ?thesis using assms teardown_all_range by (auto simp: StopAll_def pool_range_def)
next
  case (OWatchdog now)
  then show ?thesis using assms recycle_each_range by (auto simp: recycleStalled_def)
next
  case (OConfigure tr fr sec bye pb)
  then show ?thesis using assms
    by (auto simp: pool_range_def SetPlaybackByeSender_def SetByeSender_def SetMediaSecurityOffer_def SetTCPFraming_def SetMediaTransport_def)
next
  case (OByeDevice d)
  then show ?thesis using assms teardown_all_range by (auto simp: ByeDevice_def Let_def)
next
  case (OStall e f h)
  then show ?thesis using assms by (auto simp: pool_range_def SetStallWatchdog_def)
next
  case (OMarkPlaying i)
  then show ?thesis using assms by (auto simp: MarkPlaying_def split: option.splits)
next
  case (OMedia a op')
  then show ?thesis using assms by (auto simp: Option.bind_eq_Some_conv)
qed (use assms acceptTCP_range in \<open>auto simp: Bye_def ByePlayback_def dest!: teardown_range split: option.splits\<close>)

lemma sm_reach_inv: "sm_reach um start end' m \<Longrightarrow> sm_inv m \<and> pm_all (sm_pool m) = {start..end'}"
proof (induction rule: sm_reach.induct)
  case (init pm chans serverID)
  then show ?case using New_inv [OF init] by (simp add: NewSessionManager_def)
next
  case (step m op m')
  then show ?case using sm_exec_inv [of m op um] sm_exec_range [OF step(3)] by (auto simp: pm_all_def pool_range_def)
qed

subsection \<open>What a teardown does\<close>

definition idle_at :: "session_manager \<Rightarrow> nat \<Rightarrow> bool" where
  "idle_at m c \<longleftrightarrow> ch_Status (sm_chans m c) = ChannelIdle"

lemma teardown_effect:
  assumes "teardown m a b = Some m'"
  shows "sm_pool m' = pm_Recycle (sm_pool m) (port_at m a)" "sm_stallRecycles m' = sm_stallRecycles m"
    "b \<Longrightarrow> idle_at m' (ss_channel (sm_heap m ! a))" "idle_at m c \<Longrightarrow> idle_at m' c"
    "ss_channel (sm_heap m' ! x) = ss_channel (sm_heap m ! x)"
    "\<exists>evs. sm_log m' = sm_log m @ evs \<and> PortBack (port_at m a) \<in> set evs" "ss_closed (sm_heap m' ! a)"
    "sm_sessions m' = sm_sessions m" "sm_playback m' = sm_playback m"
    "ss_port (sm_heap m' ! x) = ss_port (sm_heap m ! x)"
proof -
  let ?s = "sm_heap m ! a"
  obtain r where a: "a < length (sm_heap m)" and r: "Stop (ss_receiver ?s) = Some r"
    using assms by (auto simp: teardown_def Option.bind_eq_Some_conv go_idx_Some)
  define s' where "s' = ?s\<lparr>ss_closed := True, ss_receiver := r\<rparr>"
  define evs where "evs = (if ss_conn ?s then [ConnClosed a] else []) @ (if ss_tcpLn ?s then [ListenerClosed a] else [])
     @ [PortBack (ss_port ?s)] @ (if ss_sink ?s = Some True then [SinkStopped a] else [])"
  define m1 where "m1 = m\<lparr>sm_heap := (sm_heap m)[a := s'], sm_pool := pm_Recycle (sm_pool m) (ss_port ?s), sm_log := sm_log m @ evs\<rparr>"
  have m': "m' = (if b then set_status m1 (ss_channel ?s) ChannelIdle else m1)"
    using assms a r by (auto simp: teardown_def m1_def evs_def s'_def put_session_def sm_emit_def recycle_port_def)
  have h: "sm_heap m' ! x = (if x = a then s' else sm_heap m ! x)" for x
    using a by (simp add: m' m1_def set_status_def)
  show "sm_pool m' = pm_Recycle (sm_pool m) (port_at m a)" "sm_stallRecycles m' = sm_stallRecycles m"
    "b \<Longrightarrow> idle_at m' (ss_channel ?s)" "idle_at m c \<Longrightarrow> idle_at m' c"
    "\<exists>evs. sm_log m' = sm_log m @ evs \<and> PortBack (port_at m a) \<in> set evs"
    "sm_sessions m' = sm_sessions m" "sm_playback m' = sm_playback m"
    by (simp_all add: m' m1_def set_status_def idle_at_def port_at_def evs_def)
  show "ss_channel (sm_heap m' ! x) = ss_channel (sm_heap m ! x)" "ss_closed (sm_heap m' ! a)"
    "ss_port (sm_heap m' ! x) = ss_port (sm_heap m ! x)" by (simp_all add: h s'_def)
qed

lemma recycle_each_effect:
  assumes "recycle_each m ias = Some m'"
  shows "sm_stallRecycles m' = sm_stallRecycles m + of_nat (length ias)"
    "idle_at m c \<Longrightarrow> idle_at m' c" "\<forall>(i, a) \<in> set ias. idle_at m' (ss_channel (sm_heap m ! a))"
proof -
  have "sm_stallRecycles m' = sm_stallRecycles m + of_nat (length ias) \<and> (\<forall>c. idle_at m c \<longrightarrow> idle_at m' c)
      \<and> (\<forall>(i, a) \<in> set ias. idle_at m' (ss_channel (sm_heap m ! a)))"
    using assms
  proof (induction ias arbitrary: m)
    case (Cons ia ias)
    obtain i a where ia: "ia = (i, a)" by (cases ia)
    let ?m = "sm_emit (m\<lparr>sm_stallRecycles := sm_stallRecycles m + 1\<rparr>) (bye_event m i)"
    obtain m1 where m1: "teardown ?m a True = Some m1"
      "recycle_each (if sm_onStallRecycle m1 then sm_emit m1 [StallRecycled i] else m1) ias = Some m'"
      using Cons.prems ia by (auto simp: Option.bind_eq_Some_conv)
    let ?m1 = "if sm_onStallRecycle m1 then sm_emit m1 [StallRecycled i] else m1"
    note td = teardown_effect [OF m1(1)]
    have e: "sm_stallRecycles ?m1 = sm_stallRecycles m + 1" "idle_at ?m1 (ss_channel (sm_heap m ! a))"
      "\<And>c. idle_at m c \<Longrightarrow> idle_at ?m1 c" "\<And>x. ss_channel (sm_heap ?m1 ! x) = ss_channel (sm_heap m ! x)"
      using td(2,3,4,5) by (simp_all add: sm_emit_def idle_at_def)
    show ?case using Cons.IH [OF m1(2)] e ia by (auto simp: algebra_simps)
  qed simp
  then show "sm_stallRecycles m' = sm_stallRecycles m + of_nat (length ias)"
    "idle_at m c \<Longrightarrow> idle_at m' c" "\<forall>(i, a) \<in> set ias. idle_at m' (ss_channel (sm_heap m ! a))" by blast+
qed

lemma live_transport_log: "\<exists>evs. sm_log (fst (live_transport env m t ip s)) = sm_log m @ evs"
  by (simp add: live_transport_def Let_def invite_failed_def store_live_def recycle_port_def sm_emit_def cas_status_def
      set_status_def split: option.split)

lemma Invite_log:
  assumes "replace_live m (ch_ID (sm_chans m c)) = Some m0" and "Invite env m (Some c) ip onAU onAudio = Some (m', r)"
  shows "\<exists>ev. sm_log m' = sm_log m0 @ ev"
proof (cases "pm_Get (sm_pool m0)")
  case (Pair pool res)
  have lt: "\<exists>ev. sm_log (fst (live_transport env (m0\<lparr>sm_pool := pool, sm_ssrcSeq := q\<rparr>) t ip s)) = sm_log m0 @ ev" for q t s
    using live_transport_log [of env "m0\<lparr>sm_pool := pool, sm_ssrcSeq := q\<rparr>" t ip s] by simp
  show ?thesis
  proof (cases res)
    case (Inr port)
    obtain q t s where "m' = fst (live_transport env (m0\<lparr>sm_pool := pool, sm_ssrcSeq := q\<rparr>) t ip s)"
      using assms Pair Inr by (simp add: Invite_def Let_def split: prod.splits sum.splits) (metis fst_conv)+
    then show ?thesis using lt by blast
  qed (use assms Pair in \<open>auto simp: Invite_def\<close>)
qed

subsection \<open>Properties\<close>


text \<open>A network where everything works, and a manager with one live session, for the witnesses.\<close>

definition open_net :: net_env where
  "open_net = \<lparr>ne_multicast = (\<lambda>_. False), ne_parses = (\<lambda>ip. ip \<noteq> []), ne_join = (\<lambda>_ _. True), ne_bind = (\<lambda>_ _. True),
     ne_listen = (\<lambda>_ _. True), ne_dial = (\<lambda>_. True)\<rparr>"

definition start_manager :: session_manager where
  "start_manager = NewSessionManager (the (NewPortManager 30000 30002)) (\<lambda>_. sample_channel) ''34020000002000000001''"

definition one_session :: session_manager where
  "one_session = the (sm_exec (\<lambda>_. None) start_manager (OInvite open_net (Some 0) ''10.0.0.5'' True False))"

lemma start_reach: "sm_reach (\<lambda>_. None) 30000 30002 start_manager"
  unfolding start_manager_def by (rule sm_reach.init) (simp add: NewPortManager_def)

lemma one_session_reach: "sm_reach (\<lambda>_. None) 30000 30002 one_session"
proof -
  have "sm_allowed start_manager (OInvite open_net (Some 0) ''10.0.0.5'' True False)" by (simp add: sm_allowed_def)
  moreover have "\<exists>m'. sm_exec (\<lambda>_. None) start_manager (OInvite open_net (Some 0) ''10.0.0.5'' True False) = Some m'"
    using sm_exec_inv [OF _ calculation] sm_reach_inv [OF start_reach] by blast
  ultimately show ?thesis unfolding one_session_def by (auto intro: sm_reach.step [OF start_reach])
qed

lemma one_session_facts:
  "sm_sessions one_session = [(ch_ID sample_channel, 0)]" "port_at one_session 0 = 30000"
  "sm_playback one_session = []"
  by (simp_all add: one_session_def start_manager_def NewSessionManager_def NewPortManager_def Invite_def replace_live_def pm_Get_def
      live_transport_def MediaTransport_def MediaUDP_def MediaTCPPassive_def MediaTCPActive_def open_net_def attach_udp_def rx_Start_def new_session_def live_receiver_def
      mediaSecurityOffer_def NewReceiver_def SetAudioOnly_def HasPrefix_def store_live_def cas_status_def set_status_def
      port_at_def Let_def word_less_nat_alt)


text \<open>
  C14: The stall watchdog. A pass takes out exactly the live sessions whose receiver is stalled: the other
  sessions keep their place in the map, every stalled one is counted, its port is free for the next
  INVITE and its channel is idle again.
\<close>

theorem watchdog_recycles_stalled:
  assumes "sm_reach um start end' m"
  shows "\<exists>m'. recycleStalled m now = Some m'
    \<and> sm_sessions m' = filter (\<lambda>(i, a). \<not> stalled_at m now a) (sm_sessions m)
    \<and> sm_stallRecycles m' = sm_stallRecycles m + of_nat (length (filter (\<lambda>(i, a). stalled_at m now a) (sm_sessions m)))
    \<and> (\<forall>(i, a) \<in> set (sm_sessions m). stalled_at m now a \<longrightarrow>
         port_at m a \<in> pm_free (sm_pool m') \<and> idle_at m' (ss_channel (sm_heap m ! a)))"
proof -
  let ?st = "filter (\<lambda>(i, a). stalled_at m now a) (sm_sessions m)"
  have inv: "sm_inv m" using sm_reach_inv [OF assms] by simp
  obtain m' where m': "recycleStalled m now = Some m'" "sm_inv m'" "sm_sessions m' = filter (\<lambda>(i, a). \<not> stalled_at m now a) (sm_sessions m)"
    "owned m' = owned m - snd ` set ?st" "td_frame (snd ` set ?st) (m\<lparr>sm_sessions := filter (\<lambda>(i, a). \<not> stalled_at m now a) (sm_sessions m)\<rparr>) m'"
    using recycleStalled_inv [OF inv, of now] by (elim exE conjE)
  have eff: "recycle_each (m\<lparr>sm_sessions := filter (\<lambda>(i, a). \<not> stalled_at m now a) (sm_sessions m)\<rparr>) ?st = Some m'"
    using m'(1) by (simp add: recycleStalled_def)
  have le: "rtp_ports.leased (sm_pool m) (port_at m) (owned m)" "rtp_ports.leased (sm_pool m') (port_at m') (owned m')"
    using inv m'(2) by (simp_all add: sm_inv_def sm_core_def)
  have all: "pm_all (sm_pool m') = pm_all (sm_pool m)" and ports: "\<And>b. b \<in> owned m' \<Longrightarrow> port_at m' b = port_at m b"
    using m'(4,5) by (auto simp: td_frame_def port_at_def)
  have free: "port_at m a \<in> pm_free (sm_pool m')" if "(i, a) \<in> set ?st" for i a
  proof -
    have a: "a \<in> owned m" "a \<notin> owned m'" using that m'(4) by (auto simp: owned_def intro: rev_image_eqI)
    have "port_at m a \<noteq> port_at m' x" if "x \<in> owned m'" for x
    proof
      assume "port_at m a = port_at m' x"
      then have "port_at m a = port_at m x" using ports [OF that] by simp
      moreover have "x \<in> owned m" using that m'(4) by blast
      ultimately have "a = x" using le(1) a(1) by (auto simp: rtp_ports.leased_def dest: inj_onD)
      then show False using that a(2) by simp
    qed
    then have "port_at m a \<notin> port_at m' ` owned m'" by auto
    moreover have "port_at m a \<in> pm_all (sm_pool m')" using a(1) le(1) all by (auto simp: rtp_ports.leased_def)
    ultimately show ?thesis using le(2) by (auto simp: rtp_ports.leased_def)
  qed
  have idle: "idle_at m' (ss_channel (sm_heap m ! a))" if "(i, a) \<in> set ?st" for i a
    using recycle_each_effect(3) [OF eff] that by auto
  have cnt: "sm_stallRecycles m' = sm_stallRecycles m + of_nat (length ?st)" using recycle_each_effect(1) [OF eff] by simp
  show ?thesis
  proof (intro exI conjI)
    show "\<forall>(i, a) \<in> set (sm_sessions m). stalled_at m now a \<longrightarrow>
         port_at m a \<in> pm_free (sm_pool m') \<and> idle_at m' (ss_channel (sm_heap m ! a))"
      using free idle by auto
  qed (use m'(1,3) cnt in simp_all)
qed

theorem watchdog_recycles_stalled_witness:
  "\<exists>m'. recycleStalled one_session 0 = Some m' \<and> sm_stallRecycles m' = sm_stallRecycles one_session
     + of_nat (length (filter (\<lambda>(i, a). stalled_at one_session 0 a) [(ch_ID sample_channel, 0)]))"
  using watchdog_recycles_stalled [OF one_session_reach, of 0] unfolding one_session_facts by blast

text \<open>
  C15: BYE before the port. When the SIP side is wired, ending a live session and replacing it by a new
  INVITE both send the device a BYE first and give the port of the session back only afterwards, so a
  recycled port never still receives the old stream of a device that was not told; after \<open>Bye\<close> the
  channel has no session and is idle.
\<close>

theorem bye_before_port:
  assumes "sm_reach um start end' m" and "sm_byeSender m" and "map_of (sm_sessions m) i = Some a" and "ch_ID (sm_chans m c) = i"
  shows "(\<exists>m' evs. Bye m i = Some m' \<and> sm_log m' = sm_log m @ SipBye i # evs \<and> PortBack (port_at m a) \<in> set evs
      \<and> map_of (sm_sessions m') i = None \<and> idle_at m' (ss_channel (sm_heap m ! a)))
    \<and> (\<exists>m' r evs. Invite env m (Some c) ip onAU onAudio = Some (m', r) \<and> sm_log m' = sm_log m @ SipBye i # evs
      \<and> PortBack (port_at m a) \<in> set evs)"
proof
  have inv: "sm_inv m" using sm_reach_inv [OF assms(1)] by simp
  let ?m = "sm_emit (m\<lparr>sm_sessions := AList.delete i (sm_sessions m)\<rparr>) (bye_event m i)"
  have log: "sm_log ?m = sm_log m @ [SipBye i]" using assms(2) by (simp add: sm_emit_def bye_event_def)
  have port: "port_at ?m a = port_at m a" "ss_channel (sm_heap ?m ! a) = ss_channel (sm_heap m ! a)" by (simp_all add: port_at_def sm_emit_def)
  obtain m1 where m1: "teardown ?m a True = Some m1" "sm_sessions m1 = AList.delete i (sm_sessions m)"
    using remove_live_ok [OF inv assms(3), of "bye_event m i" True] by (elim exE conjE)
  obtain evs where "sm_log m1 = sm_log ?m @ evs" "PortBack (port_at ?m a) \<in> set evs" using teardown_effect(6) [OF m1(1)] by (elim exE conjE)
  then show "\<exists>m' evs. Bye m i = Some m' \<and> sm_log m' = sm_log m @ SipBye i # evs \<and> PortBack (port_at m a) \<in> set evs
      \<and> map_of (sm_sessions m') i = None \<and> idle_at m' (ss_channel (sm_heap m ! a))"
    using m1 assms(3) teardown_effect(3) [OF m1(1)] log port by (simp add: Bye_def AList.delete_conv')
  obtain m0 where m0: "teardown ?m a False = Some m0" using remove_live_ok [OF inv assms(3), of "bye_event m i" False] by (elim exE conjE)
  obtain ev0 where e0: "sm_log m0 = sm_log m @ SipBye i # ev0" "PortBack (port_at m a) \<in> set ev0"
    using teardown_effect(6) [OF m0] log port by auto
  have rl: "replace_live m i = Some m0" using assms(3) m0 by (simp add: replace_live_def)
  obtain m' r where m': "Invite env m (Some c) ip onAU onAudio = Some (m', r)" using Invite_inv [OF inv] by blast
  have "\<exists>ev1. sm_log m' = sm_log m0 @ ev1" using Invite_log [OF _ m'] rl assms(4) by blast
  then show "\<exists>m' r evs. Invite env m (Some c) ip onAU onAudio = Some (m', r) \<and> sm_log m' = sm_log m @ SipBye i # evs
      \<and> PortBack (port_at m a) \<in> set evs"
    using m' e0 by auto
qed

definition wired_session :: session_manager where
  "wired_session = the (sm_exec (\<lambda>_. None) one_session (OConfigure None None None True True))"

lemma wired_session_reach: "sm_reach (\<lambda>_. None) 30000 30002 wired_session"
  unfolding wired_session_def 
  by (rule sm_reach.step [OF one_session_reach, where op = "OConfigure None None None True True"]) (simp_all add: sm_allowed_def)

lemma wired_session_facts:
  "sm_byeSender wired_session" "sm_sessions wired_session = sm_sessions one_session" "sm_chans wired_session = sm_chans one_session"
  by (simp_all add: wired_session_def SetPlaybackByeSender_def SetByeSender_def SetMediaSecurityOffer_def SetTCPFraming_def SetMediaTransport_def)

lemma one_session_chan: "ch_ID (sm_chans one_session 0) = ch_ID sample_channel"
  by (simp add: one_session_def start_manager_def NewSessionManager_def NewPortManager_def Invite_def replace_live_def pm_Get_def
      live_transport_def MediaTransport_def MediaUDP_def MediaTCPPassive_def MediaTCPActive_def open_net_def attach_udp_def rx_Start_def new_session_def live_receiver_def
      mediaSecurityOffer_def NewReceiver_def SetAudioOnly_def HasPrefix_def store_live_def cas_status_def set_status_def
      Let_def word_less_nat_alt)

theorem bye_before_port_witness:
  "\<exists>m' evs. Bye wired_session (ch_ID sample_channel) = Some m'
     \<and> sm_log m' = sm_log wired_session @ SipBye (ch_ID sample_channel) # evs \<and> PortBack (port_at wired_session 0) \<in> set evs"
  using bye_before_port [OF wired_session_reach wired_session_facts(1), of "ch_ID sample_channel" 0 0 open_net "''10.0.0.5''" True True]
    one_session_chan by (simp add: wired_session_facts one_session_facts) blast

text \<open>Giving a port back, taking one and giving that back, and then the first port again.\<close>

lemma recycle_twice:
  assumes "Suc (length (pm_recycle pm)) < pm_cap pm"
  obtains pool h where "pm_Get (pm_Recycle pm p) = (pool, Inr h)" "p \<in> set (pm_recycle (pm_Recycle pool h))"
    "\<not> distinct (pm_recycle (pm_Recycle (pm_Recycle pool h) p))"
proof -
  obtain h t where ht: "pm_recycle pm @ [p] = h # t" by (cases "pm_recycle pm @ [p]") auto
  have lt: "length t = length (pm_recycle pm)" using arg_cong [OF ht, of length] by simp
  have "set (h # t) = set (pm_recycle pm @ [p])" by (simp only: ht)
  then have p: "p \<in> set (h # t)" by auto
  let ?pool = "pm\<lparr>pm_recycle := t\<rparr>"
  have "pm_Get (pm_Recycle pm p) = (?pool, Inr h)" using assms ht by (simp add: pm_Get_def pm_Recycle_def)
  moreover have r: "pm_recycle (pm_Recycle ?pool h) = t @ [h]" using assms lt by (simp add: pm_Recycle_def pm_cap_def)
  moreover have "pm_recycle (pm_Recycle (pm_Recycle ?pool h) p) = (t @ [h]) @ [p]"
    using assms lt by (simp add: pm_Recycle_def pm_cap_def)
  ultimately show thesis using that [of ?pool h] p by auto
qed

lemma teardown_defined:
  assumes "a < length (sm_heap m)" and "session_ok (sm_heap m ! a)"
  shows "\<exists>m'. teardown m a b = Some m'"
proof -
  obtain r where "Stop (ss_receiver (sm_heap m ! a)) = Some r" using Stop_ok assms(2) by (auto simp: session_ok_def)
  then show ?thesis using assms(1) unfolding teardown_def Let_def by simp
qed

text \<open>
  A failed re-fetch corrupts the port pool. \<open>inviteFetch\<close> tears a running fetch down without taking it
  out of the map; when the new fetch then fails (here: the address does not parse), the closed session
  stays in the map although its port is free again, and the \<open>ByePlayback\<close> that follows gives the port back
  a second time, so that it is on offer twice.
\<close>

theorem failed_refetch_double_recycle:
  assumes "sm_reach um start end' m" and "map_of (sm_playback m) (ch_ID (sm_chans m c)) = Some a" and "\<not> ne_parses env ip"
    and "Suc (length (pm_recycle (sm_pool m))) < pm_cap (sm_pool m)"
  shows "\<exists>m1 m2. inviteFetch env m (Some c) ip s e (Some sk) ad dl = Some (m1, Inl BadAddr)
    \<and> map_of (sm_playback m1) (ch_ID (sm_chans m c)) = Some a \<and> ss_closed (sm_heap m1 ! a)
    \<and> port_at m1 a \<in> set (pm_recycle (sm_pool m1))
    \<and> ByePlayback m1 (ch_ID (sm_chans m c)) = Some m2 \<and> \<not> distinct (pm_recycle (sm_pool m2))"
proof -
  let ?i = "ch_ID (sm_chans m c)" and ?p = "port_at m a"
  have inv: "sm_inv m" using sm_reach_inv [OF assms(1)] by simp
  have a: "a \<in> owned m" using map_of_SomeD [OF assms(2)] by (auto simp: owned_def intro: rev_image_eqI)
  obtain m0 where m0: "teardown m a False = Some m0" "sm_core m0 (owned m - {a})" "td_frame {a} m m0"
    using teardown_ok [of m "owned m" a False] inv a by (auto simp: sm_inv_def)
  note td = teardown_effect [OF m0(1)]
  obtain pool h where g: "pm_Get (pm_Recycle (sm_pool m) ?p) = (pool, Inr h)" "?p \<in> set (pm_recycle (pm_Recycle pool h))"
    "\<not> distinct (pm_recycle (pm_Recycle (pm_Recycle pool h) ?p))" using recycle_twice [OF assms(4)] .
  obtain m1 n u where m1: "ssrc_of_fetch (m0\<lparr>sm_pool := pool\<rparr>) dl = (m1, n, u)" by (cases "ssrc_of_fetch (m0\<lparr>sm_pool := pool\<rparr>) dl")
  define m1' where "m1' = recycle_port m1 h"
  have hp: "sm_heap m1' = sm_heap m0" "sm_playback m1' = sm_playback m" "sm_pool m1' = pm_Recycle pool h"
    using ssrc_of_fetch_frame [OF m1] td(9) by (simp_all add: m1'_def recycle_port_def sm_emit_def)
  have inv1: "inviteFetch env m (Some c) ip s e (Some sk) ad dl = Some (m1', Inl BadAddr)"
    using assms(2,3) m0(1) g(1) m1 td(1) by (simp add: inviteFetch_def Let_def invite_failed_def m1'_def)
  have port: "port_at m1' a = ?p" using td(10) by (simp add: port_at_def hp)
  let ?d = "sm_emit (m1'\<lparr>sm_playback := AList.delete ?i (sm_playback m1')\<rparr>) (if sm_playbackByeSender m1' then [PlaybackBye ?i] else [])"
  have d: "sm_heap ?d = sm_heap m0" "sm_pool ?d = pm_Recycle pool h" using hp by (simp_all add: sm_emit_def)
  have "a < length (sm_heap ?d)" "session_ok (sm_heap ?d ! a)"
    unfolding d using owned_below [OF inv] a m0(2,3) by (auto simp: td_frame_def sm_core_def)
  then obtain m2 where m2: "teardown ?d a False = Some m2" using teardown_defined by blast
  have "port_at ?d a = ?p" using port unfolding port_at_def d(1) hp(1) .
  then have "\<not> distinct (pm_recycle (sm_pool m2))" using teardown_effect(1) [OF m2] g(3) d(2) by simp
  moreover have "ByePlayback m1' ?i = Some m2" using m2 assms(2) hp by (simp add: ByePlayback_def)
  moreover have "port_at m1' a \<in> set (pm_recycle (sm_pool m1'))" using g(2) port hp(3) by simp
  ultimately show ?thesis using inv1 assms(2) hp td(7) by auto
qed

definition fetching :: session_manager where
  "fetching = the (sm_exec (\<lambda>_. None) start_manager (OFetch open_net (Some 0) ''10.0.0.5'' 0 60 (Some True) False False))"

lemma fetching_facts:
  "sm_exec (\<lambda>_. None) start_manager (OFetch open_net (Some 0) ''10.0.0.5'' 0 60 (Some True) False False) = Some fetching"
  "sm_playback fetching = [(ch_ID sample_channel, 0)]" "ch_ID (sm_chans fetching 0) = ch_ID sample_channel"
  "pm_recycle (sm_pool fetching) = []" "pm_cap (sm_pool fetching) = 3"
  by (simp_all add: fetching_def start_manager_def NewSessionManager_def NewPortManager_def inviteFetch_def pm_Get_def ssrc_of_fetch_def
      open_net_def attach_udp_def rx_Start_def new_session_def fetch_receiver_def mediaSecurityOffer_def NewReceiver_def
      HasPrefix_def store_fetch_def Let_def word_less_nat_alt pm_cap_def)

lemma fetching_reach: "sm_reach (\<lambda>_. None) 30000 30002 fetching"
  by (rule sm_reach.step [OF start_reach _ fetching_facts(1)])
     (simp add: sm_allowed_def start_manager_def NewSessionManager_def)

theorem failed_refetch_double_recycle_witness:
  "\<exists>m1 m2. inviteFetch open_net fetching (Some 0) [] 0 60 (Some True) False False = Some (m1, Inl BadAddr)
    \<and> ByePlayback m1 (ch_ID sample_channel) = Some m2 \<and> \<not> distinct (pm_recycle (sm_pool m2))"
  using failed_refetch_double_recycle [OF fetching_reach, of 0 0 open_net "[]" 0 60 True False False]
  by (simp add: fetching_facts open_net_def) blast

end
