(* ===== verification/Sip_Message.thy ===== *)
theory Sip_Message
  imports Sdp "HOL-Library.AList"
begin

text \<open>
  The hand-written SIP messages of the device, \<open>src/device/sip.go\<close>: the wire format, its parser and the
  messages the device builds; and the identifiers of \<open>src/device/device_id.go\<close>.

  The map of extension headers is an association list whose order is the order in which the program
  happens to iterate over it. The product token \<open>UserAgent\<close> is a variable of the package and
  the tag of the process is random: both are arguments.
\<close>

subsection \<open>Messages\<close>

record sip_message =
  sip_Method :: string
  sip_StatusCode :: int
  sip_RequestURI :: string
  sip_From :: string
  sip_To :: string
  sip_CallID :: string
  sip_CSeq :: string
  sip_Contact :: string
  sip_Via :: string
  sip_Expires :: string
  sip_MaxForwards :: string
  sip_ContentType :: string
  sip_ContentLength :: int
  sip_WWWAuthenticate :: string
  sip_Authorization :: string
  sip_UserAgent :: string
  sip_Headers :: "(string \<times> string) list"
  sip_Body :: string

text \<open>The zero value of the struct, with an empty map of headers.\<close>

definition empty_sip :: sip_message where
  "empty_sip = \<lparr>sip_Method = [], sip_StatusCode = 0, sip_RequestURI = [], sip_From = [], sip_To = [], sip_CallID = [],
     sip_CSeq = [], sip_Contact = [], sip_Via = [], sip_Expires = [], sip_MaxForwards = [], sip_ContentType = [],
     sip_ContentLength = 0, sip_WWWAuthenticate = [], sip_Authorization = [], sip_UserAgent = [], sip_Headers = [], sip_Body = []\<rparr>"

definition statusReason :: "int \<Rightarrow> string" where
  "statusReason code =
     (if code = 100 then ''Trying'' else if code = 200 then ''OK'' else if code = 401 then ''Unauthorized''
      else if code = 403 then ''Forbidden'' else if code = 404 then ''Not Found'' else if code = 488 then ''Not Acceptable Here''
      else if code = 500 then ''Server Internal Error'' else if code = 503 then ''Service Unavailable'' else ''Unknown'')"

subsection \<open>The wire format\<close>

definition start_line :: "sip_message \<Rightarrow> string" where
  "start_line m =
     (if sip_Method m \<noteq> [] then sip_Method m @ '' '' @ sip_RequestURI m @ '' SIP/2.0''
      else if sip_StatusCode m > 0 then ''SIP/2.0 '' @ go_itoa (sip_StatusCode m) @ '' '' @ statusReason (sip_StatusCode m)
      else ''SIP/2.0 500 Invalid Message'')"

text \<open>The value of the \<open>Via\<close> line: \<open>;rport\<close> is added where it is missing.\<close>

definition with_rport :: "string \<Rightarrow> string" where
  "with_rport via = TrimRight via crlf @ (if Contains (ToLower via) '';rport'' then [] else '';rport'')"

text \<open>A header line, when its value is not empty.\<close>

definition hdr :: "string \<Rightarrow> string \<Rightarrow> string list" where
  "hdr name v = (if v = [] then [] else [name @ '': '' @ v])"

definition std_lines :: "sip_message \<Rightarrow> string list" where
  "std_lines m =
     (if sip_Via m = [] then [] else [''Via: '' @ with_rport (sip_Via m)])
     @ hdr ''Max-Forwards'' (sip_MaxForwards m) @ hdr ''From'' (sip_From m) @ hdr ''To'' (sip_To m)
     @ hdr ''Call-ID'' (sip_CallID m) @ hdr ''CSeq'' (sip_CSeq m) @ hdr ''Contact'' (sip_Contact m)
     @ hdr ''Expires'' (sip_Expires m) @ hdr ''WWW-Authenticate'' (sip_WWWAuthenticate m)
     @ hdr ''Authorization'' (sip_Authorization m) @ hdr ''User-Agent'' (sip_UserAgent m)
     @ hdr ''Content-Type'' (sip_ContentType m)"

definition body_length :: "sip_message \<Rightarrow> int" where
  "body_length m = (if sip_ContentLength m > 0 then sip_ContentLength m else int (length (sip_Body m)))"

definition sip_lines :: "sip_message \<Rightarrow> string list" where
  "sip_lines m = start_line m # std_lines m @ map (\<lambda>(k, v). k @ '': '' @ v) (sip_Headers m)
     @ [''Content-Length: '' @ go_itoa (body_length m), []]"

definition Serialize :: "sip_message \<Rightarrow> string" where
  "Serialize m = crlf_lines (sip_lines m) @ sip_Body m"

text \<open>
  \<open>strings.EqualFold\<close> against an ASCII name: letters without their case, the Kelvin sign as k and the
  long s as s.
\<close>

fun fold_text :: "string \<Rightarrow> string" where
  "fold_text [] = []"
| "fold_text (c # cs) =
     (if c = CHR 0xE2 \<and> take 2 cs = [CHR 0x84, CHR 0xAA] then CHR ''k'' # fold_text (drop 2 cs)
      else if c = CHR 0xC5 \<and> take 1 cs = [CHR 0xBF] then CHR ''s'' # fold_text (drop 1 cs)
      else lower_char c # fold_text cs)"

definition EqualFold :: "string \<Rightarrow> string \<Rightarrow> bool" where
  "EqualFold s t \<longleftrightarrow> fold_text s = fold_text t"

definition ExtensionHeader :: "sip_message \<Rightarrow> string \<Rightarrow> string" where
  "ExtensionHeader m name =
     (case find (\<lambda>(k, v). EqualFold k name) (sip_Headers m) of None \<Rightarrow> [] | Some (k, v) \<Rightarrow> v)"

subsection \<open>The parser\<close>

datatype sip_error = BadStatusCode | BadRequestLine string

definition parse_start :: "sip_message \<Rightarrow> string \<Rightarrow> sip_error + sip_message" where
  "parse_start m l =
     (let l = TrimSpace l; parts = SplitN 3 l '' '' in
      if HasPrefix l ''SIP/2.0''
      then (if length parts \<ge> 2
            then (case go_atoi (parts ! 1) of None \<Rightarrow> Inl BadStatusCode | Some n \<Rightarrow> Inr (m\<lparr>sip_StatusCode := n\<rparr>))
            else Inr m)
      else if length parts \<ge> 3 \<and> parts ! 2 = ''SIP/2.0''
      then Inr (m\<lparr>sip_Method := parts ! 0, sip_RequestURI := parts ! 1\<rparr>)
      else Inl (BadRequestLine l))"

definition set_header :: "sip_message \<Rightarrow> string \<Rightarrow> string \<Rightarrow> sip_message" where
  "set_header m name v =
     (let n = ToLower name in
      if n = ''via'' then m\<lparr>sip_Via := v\<rparr>
      else if n = ''from'' then m\<lparr>sip_From := v\<rparr>
      else if n = ''to'' then m\<lparr>sip_To := v\<rparr>
      else if n = ''call-id'' \<or> n = ''callid'' then m\<lparr>sip_CallID := v\<rparr>
      else if n = ''cseq'' then m\<lparr>sip_CSeq := v\<rparr>
      else if n = ''contact'' then m\<lparr>sip_Contact := v\<rparr>
      else if n = ''expires'' then m\<lparr>sip_Expires := v\<rparr>
      else if n = ''max-forwards'' then m\<lparr>sip_MaxForwards := v\<rparr>
      else if n = ''content-type'' then m\<lparr>sip_ContentType := v\<rparr>
      else if n = ''content-length'' then (case go_atoi v of None \<Rightarrow> m | Some k \<Rightarrow> m\<lparr>sip_ContentLength := k\<rparr>)
      else if n = ''www-authenticate'' then m\<lparr>sip_WWWAuthenticate := v\<rparr>
      else if n = ''authorization'' then m\<lparr>sip_Authorization := v\<rparr>
      else if n = ''user-agent'' then m\<lparr>sip_UserAgent := v\<rparr>
      else m\<lparr>sip_Headers := AList.update name v (sip_Headers m)\<rparr>)"

definition parse_header :: "sip_message \<Rightarrow> string \<Rightarrow> sip_message" where
  "parse_header m line =
     (case SplitN 2 line '':'' of [name, v] \<Rightarrow> set_header m (TrimSpace name) (TrimSpace v) | _ \<Rightarrow> m)"

text \<open>The header lines up to an empty one; the lines after it are the body.\<close>

fun parse_headers :: "sip_message \<Rightarrow> string list \<Rightarrow> sip_message" where
  "parse_headers m [] = m"
| "parse_headers m (l # ls) =
     (let line = TrimSpace l in
      if line = [] then (if ls = [] then m else m\<lparr>sip_Body := Join ls crlf\<rparr>)
      else parse_headers (parse_header m line) ls)"

definition Parse :: "string \<Rightarrow> sip_error + sip_message" where
  "Parse data =
     (case Split data crlf of
        [] \<Rightarrow> Inl (BadRequestLine [])
      | l # ls \<Rightarrow>
          case parse_start (empty_sip\<lparr>sip_MaxForwards := ''70''\<rparr>) l of
            Inl e \<Rightarrow> Inl e
          | Inr m \<Rightarrow> Inr (parse_headers m ls))"

subsection \<open>The messages of the device\<close>

definition BuildRegister :: "string \<Rightarrow> string \<Rightarrow> string \<Rightarrow> string \<Rightarrow> string \<Rightarrow> string \<Rightarrow> string \<Rightarrow> string \<Rightarrow> sip_message" where
  "BuildRegister ua requestUri from to callId cseq contact authHeader =
     empty_sip\<lparr>sip_Method := ''REGISTER'', sip_RequestURI := requestUri, sip_From := from, sip_To := to, sip_CallID := callId,
       sip_CSeq := cseq, sip_Contact := contact, sip_MaxForwards := ''70'', sip_Expires := ''3600'', sip_UserAgent := ua,
       sip_Authorization := authHeader\<rparr>"

definition BuildBye :: "string \<Rightarrow> string \<Rightarrow> string \<Rightarrow> string \<Rightarrow> string \<Rightarrow> string \<Rightarrow> string \<Rightarrow> sip_message" where
  "BuildBye ua requestUri from to callId cseq contact =
     empty_sip\<lparr>sip_Method := ''BYE'', sip_RequestURI := requestUri, sip_From := from, sip_To := to, sip_CallID := callId,
       sip_CSeq := cseq, sip_Contact := contact, sip_MaxForwards := ''70'', sip_UserAgent := ua\<rparr>"

definition BuildMediaStatusInfo :: "string \<Rightarrow> string \<Rightarrow> string \<Rightarrow> string \<Rightarrow> string \<Rightarrow> string \<Rightarrow> string \<Rightarrow> bool \<Rightarrow> sip_message" where
  "BuildMediaStatusInfo ua requestUri from to callId cseq contact download =
     empty_sip\<lparr>sip_Method := ''INFO'', sip_RequestURI := requestUri, sip_From := from, sip_To := to, sip_CallID := callId,
       sip_CSeq := cseq, sip_Contact := contact, sip_MaxForwards := ''70'', sip_ContentType := ''Application/MANSRTSP'',
       sip_UserAgent := ua,
       sip_Body := ''MediaStatus: '' @ (if download then ''Download Finished'' else ''Play Finished'') @ crlf\<rparr>"

definition to_with_tag :: "string \<Rightarrow> string \<Rightarrow> string" where
  "to_with_tag tag to = (if Contains to ''tag='' then to else to @ '';tag='' @ tag)"

definition BuildStatusResponse :: "string \<Rightarrow> string \<Rightarrow> sip_message \<Rightarrow> int \<Rightarrow> sip_message" where
  "BuildStatusResponse ua tag req code =
     empty_sip\<lparr>sip_StatusCode := code, sip_Via := sip_Via req, sip_From := sip_From req, sip_To := to_with_tag tag (sip_To req),
       sip_CallID := sip_CallID req, sip_CSeq := sip_CSeq req, sip_UserAgent := ua\<rparr>"

definition Build200OK :: "string \<Rightarrow> string \<Rightarrow> sip_message \<Rightarrow> string \<Rightarrow> string \<Rightarrow> sip_message" where
  "Build200OK ua tag req contentType body =
     empty_sip\<lparr>sip_StatusCode := 200, sip_Via := sip_Via req, sip_From := sip_From req, sip_To := to_with_tag tag (sip_To req),
       sip_CallID := sip_CallID req, sip_CSeq := sip_CSeq req, sip_ContentType := contentType, sip_Body := body,
       sip_UserAgent := ua\<rparr>"

subsection \<open>Device identifiers\<close>

record device_id_parts =
  id_RegionCode :: string
  id_IndustryType :: byte
  id_DeviceType :: u16
  id_Serial :: u32

datatype id_error = BadLength nat | NotDigits string

definition FormatDeviceID :: "string \<Rightarrow> byte \<Rightarrow> u16 \<Rightarrow> u32 \<Rightarrow> id_error + string" where
  "FormatDeviceID centerCode industry devType serial =
     (if length centerCode \<noteq> 8 then Inl (BadLength (length centerCode))
      else if \<not> list_all is_digit centerCode then Inl (NotDigits centerCode)
      else Inr (centerCode @ fmt_0d 2 (uint industry) @ fmt_0d 3 (uint devType) @ fmt_0d 7 (uint serial)))"

text \<open>\<open>fmt.Sscanf\<close> with \<open>%d\<close> on text that is all digits, here of at most two, three and seven places.\<close>

definition ParseDeviceID :: "string \<Rightarrow> id_error + device_id_parts" where
  "ParseDeviceID i =
     (if length i \<noteq> 20 then Inl (BadLength (length i))
      else if \<not> list_all is_digit i then Inl (NotDigits i)
      else Inr \<lparr>id_RegionCode = take 8 i, id_IndustryType = of_nat (dec_val 0 (take 2 (drop 8 i))),
                id_DeviceType = of_nat (dec_val 0 (take 3 (drop 10 i))), id_Serial = of_nat (dec_val 0 (drop 13 i))\<rparr>)"

subsection \<open>Parsing what was written\<close>

text \<open>A value that fits a header line.\<close>

definition field_text :: "string \<Rightarrow> bool" where
  "field_text v \<longleftrightarrow> trim_stable v \<and> CHR 0x0D \<notin> set v"

definition header_name :: "string \<Rightarrow> bool" where
  "header_name k \<longleftrightarrow> k \<noteq> [] \<and> field_text k \<and> CHR '':'' \<notin> set k"

lemma plain_colon [simp]: "plain_char (CHR '':'')"
  by (simp add: plain_char_def)

lemma TrimSpace_trailing:
  assumes "trim_stable s" and "s \<noteq> []"
  shows "TrimSpace (s @ '' '') = s"
proof -
  have "trim_left go_spaces (s @ '' '') = s @ '' ''"
    using assms by (intro trim_left_stable) (simp add: trim_stable_def)
  moreover have "trim_left (map rev go_spaces) (CHR '' '' # rev s) = rev s"
    using trim_right_id [of s] assms spaces_ne(2) by (subst trim_left.simps) (auto simp: trim_stable_def)
  ultimately show ?thesis by (simp add: TrimSpace_def)
qed

lemma split_header: "CHR '':'' \<notin> set k \<Longrightarrow> SplitN 2 (k @ CHR '':'' # r) '':'' = [k, r]"
  using SplitN_step [of "'':''" k 0 r] by (simp add: numeral_2_eq_2)

lemma parse_headers_line:
  assumes "header_name k" and "trim_stable v"
  shows "parse_headers m ((k @ '': '' @ v) # ls) = parse_headers (set_header m k v) ls"
proof -
  have k: "trim_stable k" "k \<noteq> []" "CHR '':'' \<notin> set k" using assms(1) by (simp_all add: header_name_def field_text_def)
  show ?thesis
  proof (cases "v = []")
    case True
    have "trim_stable (k @ '':'')" using k by (simp add: trim_stable_def)
    then have "TrimSpace (k @ '': '') = k @ '':''" using TrimSpace_trailing [of "k @ '':''"] by simp
    then show ?thesis using True k split_header [of k "[]"] by (simp add: parse_header_def TrimSpace_stable)
  next
    case False
    then have "trim_stable (k @ '': '' @ v)" using k assms(2) by (simp add: trim_stable_def)
    then show ?thesis using k split_header [of k "'' '' @ v"] TrimSpace_space [OF assms(2)]
      by (simp add: parse_header_def TrimSpace_stable)
  qed
qed

lemma parse_headers_hdr:
  assumes "header_name k" and "trim_stable v"
  shows "parse_headers m (hdr k v @ ls) = parse_headers (if v = [] then m else set_header m k v) ls"
  using parse_headers_line [OF assms] by (simp add: hdr_def)

lemma std_names:
  "header_name ''Via''" "header_name ''Max-Forwards''" "header_name ''From''" "header_name ''To''" "header_name ''Call-ID''"
  "header_name ''CSeq''" "header_name ''Contact''" "header_name ''Expires''" "header_name ''WWW-Authenticate''"
  "header_name ''Authorization''" "header_name ''User-Agent''" "header_name ''Content-Type''" "header_name ''Content-Length''"
  by (simp_all add: header_name_def field_text_def trim_stable_def plain_char_def)

lemma set_std:
  "set_header m ''Via'' v = m\<lparr>sip_Via := v\<rparr>" "set_header m ''Max-Forwards'' v = m\<lparr>sip_MaxForwards := v\<rparr>"
  "set_header m ''From'' v = m\<lparr>sip_From := v\<rparr>" "set_header m ''To'' v = m\<lparr>sip_To := v\<rparr>"
  "set_header m ''Call-ID'' v = m\<lparr>sip_CallID := v\<rparr>" "set_header m ''CSeq'' v = m\<lparr>sip_CSeq := v\<rparr>"
  "set_header m ''Contact'' v = m\<lparr>sip_Contact := v\<rparr>" "set_header m ''Expires'' v = m\<lparr>sip_Expires := v\<rparr>"
  "set_header m ''WWW-Authenticate'' v = m\<lparr>sip_WWWAuthenticate := v\<rparr>"
  "set_header m ''Authorization'' v = m\<lparr>sip_Authorization := v\<rparr>" "set_header m ''User-Agent'' v = m\<lparr>sip_UserAgent := v\<rparr>"
  "set_header m ''Content-Type'' v = m\<lparr>sip_ContentType := v\<rparr>"
  "go_atoi v = Some n \<Longrightarrow> set_header m ''Content-Length'' v = m\<lparr>sip_ContentLength := n\<rparr>"
  by (simp_all add: set_header_def lower_char_def char_of_def bit_Suc_0_iff)

definition std_keys :: "string list" where
  "std_keys = [''via'', ''from'', ''to'', ''call-id'', ''callid'', ''cseq'', ''contact'', ''expires'', ''max-forwards'', ''content-type'',
     ''content-length'', ''www-authenticate'', ''authorization'', ''user-agent'']"

definition ext_header :: "string \<times> string \<Rightarrow> bool" where
  "ext_header h \<longleftrightarrow> header_name (fst h) \<and> field_text (snd h) \<and> ToLower (fst h) \<notin> set std_keys"

lemma set_ext: "ToLower k \<notin> set std_keys \<Longrightarrow> set_header m k v = m\<lparr>sip_Headers := AList.update k v (sip_Headers m)\<rparr>"
  by (simp add: set_header_def std_keys_def)

lemma update_new: "k \<notin> fst ` set kvs \<Longrightarrow> AList.update k v kvs = kvs @ [(k, v)]"
  by (induction kvs) auto

lemma parse_ext:
  assumes "\<forall>h \<in> set hs. ext_header h" and "distinct (map fst (sip_Headers m @ hs))"
  shows "parse_headers m (map (\<lambda>(k, v). k @ '': '' @ v) hs @ ls) = parse_headers (m\<lparr>sip_Headers := sip_Headers m @ hs\<rparr>) ls"
  using assms
proof (induction hs arbitrary: m)
  case (Cons h hs)
  obtain k v where h: "h = (k, v)" by (cases h)
  have k: "header_name k" "trim_stable v" "ToLower k \<notin> set std_keys" using Cons.prems(1) h by (auto simp: ext_header_def field_text_def)
  have "k \<notin> fst ` set (sip_Headers m)" using Cons.prems(2) h by auto
  then have "set_header m k v = m\<lparr>sip_Headers := sip_Headers m @ [h]\<rparr>" using set_ext [OF k(3)] update_new [of k "sip_Headers m" v] h by simp
  then show ?case using Cons.prems Cons.IH [of "m\<lparr>sip_Headers := sip_Headers m @ [h]\<rparr>"] parse_headers_line [OF k(1,2)] h by simp
qed simp

text \<open>A message whose fields each fit their line.\<close>

definition sip_values :: "sip_message \<Rightarrow> string list" where
  "sip_values m = [sip_Via m, sip_MaxForwards m, sip_From m, sip_To m, sip_CallID m, sip_CSeq m, sip_Contact m, sip_Expires m,
     sip_WWWAuthenticate m, sip_Authorization m, sip_UserAgent m, sip_ContentType m]"

definition sip_wf :: "sip_message \<Rightarrow> bool" where
  "sip_wf m \<longleftrightarrow>
     (if sip_Method m \<noteq> []
      then token (sip_Method m) \<and> \<not> HasPrefix (sip_Method m) ''SIP/2.0'' \<and> token (sip_RequestURI m) \<and> sip_StatusCode m = 0
      else 0 < sip_StatusCode m \<and> sip_StatusCode m < 2 ^ 63 \<and> sip_RequestURI m = [])
     \<and> list_all field_text (sip_values m) \<and> list_all ext_header (sip_Headers m) \<and> distinct (map fst (sip_Headers m))
     \<and> 0 \<le> body_length m \<and> body_length m < 2 ^ 63"

text \<open>What the other side reads: the \<open>Via\<close> with \<open>;rport\<close>, the default hop limit and the length written.\<close>

definition sip_received :: "sip_message \<Rightarrow> sip_message" where
  "sip_received m =
     m\<lparr>sip_Via := (if sip_Via m = [] then [] else with_rport (sip_Via m)),
       sip_MaxForwards := (if sip_MaxForwards m = [] then ''70'' else sip_MaxForwards m),
       sip_ContentLength := body_length m\<rparr>"

lemma with_rport_text:
  assumes "field_text via" and "via \<noteq> []"
  shows "field_text (with_rport via)" "with_rport via \<noteq> []" "with_rport via = via \<or> with_rport via = via @ '';rport''"
proof -
  have "last via \<notin> set crlf" using assms by (auto simp: field_text_def trim_stable_def crlf_def plain_char_def)
  then have "TrimRight via crlf = via" by (intro TrimRight_id) simp
  then show "field_text (with_rport via)" "with_rport via \<noteq> []" "with_rport via = via \<or> with_rport via = via @ '';rport''"
    using assms by (simp_all add: with_rport_def field_text_def trim_stable_def plain_char_def)
qed

lemma prefix_in_token:
  "\<not> HasPrefix w p \<Longrightarrow> CHR '' '' \<notin> set p \<Longrightarrow> \<not> HasPrefix (w @ CHR '' '' # s) p"
proof (induction w arbitrary: p)
  case (Cons c w)
  then show ?case by (cases p) auto
next
  case Nil
  then show ?case by (cases p) auto
qed

lemma token_no_space: "token w \<Longrightarrow> CHR '' '' \<notin> set w \<and> CHR 0x0D \<notin> set w"
  by (auto simp: token_def list_all_iff plain_char_def)

lemma split_three:
  assumes "CHR '' '' \<notin> set a" and "CHR '' '' \<notin> set b"
  shows "SplitN 3 (a @ '' '' @ b @ '' '' @ c) '' '' = [a, b, c]"
  using SplitN_step [of "'' ''" a 1 "b @ '' '' @ c"] SplitN_step [of "'' ''" b 0 c] assms by (simp add: numeral_3_eq_3)

lemma parse_start_request:
  assumes "token a" and "\<not> HasPrefix a ''SIP/2.0''" and "token b"
  shows "parse_start m (a @ '' '' @ b @ '' SIP/2.0'') = Inr (m\<lparr>sip_Method := a, sip_RequestURI := b\<rparr>)"
proof -
  have "trim_stable (a @ '' '' @ b @ '' SIP/2.0'')" using assms(1) by (auto simp: trim_stable_def token_def list_all_iff plain_char_def)
  moreover have "\<not> HasPrefix (a @ '' '' @ b @ '' SIP/2.0'') ''SIP/2.0''" using prefix_in_token [OF assms(2)] by simp
  ultimately show ?thesis using split_three [of a b "''SIP/2.0''"] token_no_space assms by (simp add: parse_start_def TrimSpace_stable)
qed

lemma reason_stable: "statusReason n \<noteq> []" "plain_char (last (statusReason n))" "CHR 0x0D \<notin> set (statusReason n)"
  by (simp_all add: statusReason_def plain_char_def)

lemma parse_start_response:
  assumes "0 < n" and "n < 2 ^ 63"
  shows "parse_start m (''SIP/2.0 '' @ go_itoa n @ '' '' @ statusReason n) = Inr (m\<lparr>sip_StatusCode := n\<rparr>)"
proof -
  have i: "go_itoa n = nat_text (nat n)" using assms by (simp add: go_itoa_def)
  have "trim_stable (''SIP/2.0 '' @ go_itoa n @ '' '' @ statusReason n)" using reason_stable [of n] by (simp add: trim_stable_def plain_char_def)
  moreover have "SplitN 3 (''SIP/2.0 '' @ go_itoa n @ '' '' @ statusReason n) '' '' = [''SIP/2.0'', go_itoa n, statusReason n]"
    using split_three [of "''SIP/2.0''" "go_itoa n" "statusReason n"] token_no_space [OF nat_text_token, of "nat n"] i by simp
  ultimately show ?thesis using go_atoi_itoa [of n] assms by (simp add: parse_start_def TrimSpace_stable)
qed

text \<open>The standard lines set their fields, one after the other.\<close>

lemma parse_hdr_std:
  assumes "trim_stable v"
  shows "parse_headers m (hdr ''Max-Forwards'' v @ ls) = parse_headers (m\<lparr>sip_MaxForwards := if v = [] then sip_MaxForwards m else v\<rparr>) ls"
    "sip_From m = [] \<Longrightarrow> parse_headers m (hdr ''From'' v @ ls) = parse_headers (m\<lparr>sip_From := v\<rparr>) ls"
    "sip_To m = [] \<Longrightarrow> parse_headers m (hdr ''To'' v @ ls) = parse_headers (m\<lparr>sip_To := v\<rparr>) ls"
    "sip_CallID m = [] \<Longrightarrow> parse_headers m (hdr ''Call-ID'' v @ ls) = parse_headers (m\<lparr>sip_CallID := v\<rparr>) ls"
    "sip_CSeq m = [] \<Longrightarrow> parse_headers m (hdr ''CSeq'' v @ ls) = parse_headers (m\<lparr>sip_CSeq := v\<rparr>) ls"
    "sip_Contact m = [] \<Longrightarrow> parse_headers m (hdr ''Contact'' v @ ls) = parse_headers (m\<lparr>sip_Contact := v\<rparr>) ls"
    "sip_Expires m = [] \<Longrightarrow> parse_headers m (hdr ''Expires'' v @ ls) = parse_headers (m\<lparr>sip_Expires := v\<rparr>) ls"
    "sip_WWWAuthenticate m = [] \<Longrightarrow> parse_headers m (hdr ''WWW-Authenticate'' v @ ls) = parse_headers (m\<lparr>sip_WWWAuthenticate := v\<rparr>) ls"
    "sip_Authorization m = [] \<Longrightarrow> parse_headers m (hdr ''Authorization'' v @ ls) = parse_headers (m\<lparr>sip_Authorization := v\<rparr>) ls"
    "sip_UserAgent m = [] \<Longrightarrow> parse_headers m (hdr ''User-Agent'' v @ ls) = parse_headers (m\<lparr>sip_UserAgent := v\<rparr>) ls"
    "sip_ContentType m = [] \<Longrightarrow> parse_headers m (hdr ''Content-Type'' v @ ls) = parse_headers (m\<lparr>sip_ContentType := v\<rparr>) ls"
  by (cases m, simp add: parse_headers_hdr std_names assms set_std)+

lemma parse_std:
  assumes "list_all field_text (sip_values m)" and "sip_Method e = sip_Method m" and "sip_RequestURI e = sip_RequestURI m"
    and "sip_StatusCode e = sip_StatusCode m"
    and "e = empty_sip\<lparr>sip_MaxForwards := ''70'', sip_Method := sip_Method m, sip_RequestURI := sip_RequestURI m, sip_StatusCode := sip_StatusCode m\<rparr>"
  shows "parse_headers e (std_lines m @ ls)
    = parse_headers ((sip_received m)\<lparr>sip_ContentLength := 0, sip_Headers := [], sip_Body := []\<rparr>) ls"
proof -
  have ts: "\<And>v. v \<in> set (sip_values m) \<Longrightarrow> trim_stable v" using assms(1) by (auto simp: list_all_iff field_text_def)
  have via: "parse_headers e ((if sip_Via m = [] then [] else [''Via: '' @ with_rport (sip_Via m)]) @ ls)
      = parse_headers (e\<lparr>sip_Via := (if sip_Via m = [] then [] else with_rport (sip_Via m))\<rparr>) ls" for ls
  proof (cases "sip_Via m = []")
    case False
    then have "trim_stable (with_rport (sip_Via m))" using with_rport_text(1) [of "sip_Via m"] assms(1) by (simp add: sip_values_def field_text_def)
    then show ?thesis using False parse_headers_line [OF std_names(1), of "with_rport (sip_Via m)" e ls] by (simp add: set_std)
  qed (simp add: assms(5) empty_sip_def)
  show ?thesis
    unfolding std_lines_def append_assoc via
    by (cases m, insert ts) (simp add: parse_hdr_std sip_values_def assms(5) empty_sip_def sip_received_def cong: if_cong split del: if_split)
qed

lemma sip_line_breaks:
  assumes "sip_wf m" and "l \<in> set (sip_lines m)"
  shows "CHR 0x0D \<notin> set l"
proof -
  have f: "\<And>v. v \<in> set (sip_values m) \<Longrightarrow> CHR 0x0D \<notin> set v" using assms(1) by (auto simp: sip_wf_def list_all_iff field_text_def)
  have digits: "CHR 0x0D \<notin> set (go_itoa n)" for n
    using token_no_space [OF nat_text_token] by (simp add: go_itoa_def)
  have h: "CHR 0x0D \<notin> set l" if "l \<in> set (hdr k v)" "v \<in> set (sip_values m)" "CHR 0x0D \<notin> set k" for k v
    using that f by (auto simp: hdr_def split: if_splits)
  have via: "CHR 0x0D \<notin> set (with_rport (sip_Via m))" if "sip_Via m \<noteq> []"
    using with_rport_text(1) [of "sip_Via m"] that assms(1) by (simp add: sip_wf_def sip_values_def field_text_def)
  have st: "CHR 0x0D \<notin> set (start_line m)"
    using assms(1) reason_stable(3) digits token_no_space [of "sip_Method m"] token_no_space [of "sip_RequestURI m"]
    by (auto simp: start_line_def sip_wf_def split: if_splits)
  have ex: "CHR 0x0D \<notin> set (k @ '': '' @ v)" if "(k, v) \<in> set (sip_Headers m)" for k v
    using that assms(1) by (auto simp: sip_wf_def list_all_iff ext_header_def header_name_def field_text_def)
  show ?thesis using assms(2) st via digits ex unfolding sip_lines_def std_lines_def
    by (auto dest!: h simp: sip_values_def split: if_splits)
qed

lemma parse_start_wf:
  assumes "sip_wf m"
  shows "parse_start e (start_line m)
    = Inr (if sip_Method m \<noteq> [] then e\<lparr>sip_Method := sip_Method m, sip_RequestURI := sip_RequestURI m\<rparr> else e\<lparr>sip_StatusCode := sip_StatusCode m\<rparr>)"
  using assms parse_start_request [of "sip_Method m" "sip_RequestURI m" e] parse_start_response [of "sip_StatusCode m" e]
  by (auto simp: start_line_def sip_wf_def split: if_splits)

lemma parse_tail:
  assumes "0 \<le> n" and "n < 2 ^ 63"
  shows "parse_headers m ([''Content-Length: '' @ go_itoa n, []] @ Split body crlf) = m\<lparr>sip_ContentLength := n, sip_Body := body\<rparr>"
proof -
  have "trim_stable (go_itoa n)" using token_stable [OF nat_text_token] assms by (simp add: go_itoa_def)
  then have "parse_headers m ((''Content-Length: '' @ go_itoa n) # [] # Split body crlf)
      = parse_headers (set_header m ''Content-Length'' (go_itoa n)) ([] # Split body crlf)"
    using parse_headers_line [OF std_names(13)] by simp
  moreover have "set_header m ''Content-Length'' (go_itoa n) = m\<lparr>sip_ContentLength := n\<rparr>"
    using set_std(13) go_atoi_itoa [of n] assms by simp
  ultimately show ?thesis by (simp add: Split_ne Join_Split crlf_def)
qed

lemma sip_wire:
  assumes "sip_wf m"
  shows "Parse (Serialize m) = Inr (sip_received m)"
proof -
  let ?e = "empty_sip\<lparr>sip_MaxForwards := ''70''\<rparr>"
  let ?e1 = "empty_sip\<lparr>sip_MaxForwards := ''70'', sip_Method := sip_Method m, sip_RequestURI := sip_RequestURI m, sip_StatusCode := sip_StatusCode m\<rparr>"
  let ?r = "(sip_received m)\<lparr>sip_ContentLength := 0, sip_Headers := [], sip_Body := []\<rparr>"
  have vals: "list_all field_text (sip_values m)" "\<forall>h \<in> set (sip_Headers m). ext_header h" "distinct (map fst (sip_Headers m))"
    "0 \<le> body_length m" "body_length m < 2 ^ 63" using assms by (simp_all add: sip_wf_def list_all_iff)
  have "\<forall>l \<in> set (sip_lines m). hd crlf \<notin> set l" using sip_line_breaks [OF assms] by (simp add: crlf_def)
  then have "Split (Serialize m) crlf = sip_lines m @ Split (sip_Body m) crlf"
    unfolding Serialize_def crlf_lines_def by (intro Split_lines) (simp_all add: crlf_def)
  moreover have "parse_start ?e (start_line m) = Inr ?e1"
    using parse_start_wf [OF assms, of ?e] assms by (simp add: sip_wf_def empty_sip_def split: if_splits)
  moreover have "parse_headers ?e1 (std_lines m @ map (\<lambda>(k, v). k @ '': '' @ v) (sip_Headers m)
      @ [''Content-Length: '' @ go_itoa (body_length m), []] @ Split (sip_Body m) crlf) = sip_received m"
    using parse_std [OF vals(1), of ?e1] parse_ext [OF vals(2), of ?r] parse_tail [OF vals(4,5)] vals(3)
    by (simp add: empty_sip_def) (simp add: sip_received_def)
  ultimately show ?thesis by (simp add: Parse_def sip_lines_def)
qed

text \<open>
  C34: What the device writes is what a reader with the same parser gets: every message whose fields fit
  their lines, request or response, with any extension headers and any body (line breaks and empty lines
  included), is parsed to the message that was written, up to the \<open>;rport\<close> added to the \<open>Via\<close>, the default
  hop limit and the content length that was declared.
\<close>

theorem sip_roundtrip:
  assumes "sip_wf m"
  shows "Parse (Serialize m) = Inr (sip_received m)"
  by (rule sip_wire [OF assms])

definition sample_notify :: sip_message where
  "sample_notify = empty_sip\<lparr>sip_Method := ''NOTIFY'', sip_RequestURI := ''sip:3402@3402'', sip_From := ''<sip:1@3402>'',
     sip_Via := ''SIP/2.0/UDP 10.0.0.9:5060'', sip_CSeq := ''2 NOTIFY'', sip_Headers := [(''Event'', ''Catalog'')], sip_Body := ''a'' @ crlf @ crlf @ ''b''\<rparr>"

lemma sample_notify_wf: "sip_wf sample_notify"
  by (simp add: sip_wf_def sample_notify_def empty_sip_def token_def plain_char_def sip_values_def field_text_def trim_stable_def
      ext_header_def header_name_def std_keys_def lower_char_def char_of_def bit_Suc_0_iff body_length_def crlf_def)

theorem sip_roundtrip_witness: "Parse (Serialize sample_notify) = Inr (sip_received sample_notify)"
  using sip_roundtrip [OF sample_notify_wf] .

lemma Contains_mid: "Contains (a @ sub @ b) sub"
proof -
  have "str_index sub (a @ sub @ b) \<noteq> None"
  proof (induction a)
    case Nil
    show ?case by (subst str_index.simps) simp
  next
    case (Cons c a)
    then show ?case by (subst str_index.simps) auto
  qed
  then show ?thesis by (simp add: Contains_def)
qed

lemma to_with_tag_text:
  assumes "field_text to" and "token tag"
  shows "field_text (to_with_tag tag to)" "Contains (to_with_tag tag to) ''tag=''"
proof -
  have "last (to @ '';tag='' @ tag) = last tag" "plain_char (last tag)" using assms(2) by (simp_all add: token_def list_all_iff)
  then show "field_text (to_with_tag tag to)"
    using assms token_no_space [OF assms(2)] by (cases "to = []") (auto simp: to_with_tag_def field_text_def trim_stable_def plain_char_def)
  show "Contains (to_with_tag tag to) ''tag=''"
    using Contains_mid [of "to @ '';''" "''tag=''" tag] by (simp add: to_with_tag_def)
qed

lemma reply_wf:
  assumes "sip_wf req" and "field_text ua" and "token tag" and "field_text ct" and "int (length body) < 2 ^ 63" and "0 < code" and "code < 2 ^ 63"
  shows "sip_wf ((BuildStatusResponse ua tag req code)\<lparr>sip_ContentType := ct, sip_Body := body\<rparr>)"
proof -
  have "field_text []" by (simp add: field_text_def trim_stable_def)
  then show ?thesis using assms to_with_tag_text(1) [OF _ assms(3), of "sip_To req"]
    by (simp add: sip_wf_def BuildStatusResponse_def empty_sip_def sip_values_def body_length_def)
qed

lemma Build200OK_response: "Build200OK ua tag req ct body = (BuildStatusResponse ua tag req 200)\<lparr>sip_ContentType := ct, sip_Body := body\<rparr>"
  by (simp add: Build200OK_def BuildStatusResponse_def)

text \<open>
  A reply reaches its transaction. Whatever request the device answers, the 200 OK or refusal it sends is
  read back with the request's \<open>Via\<close> (and \<open>;rport\<close>), \<open>From\<close>, \<open>Call-ID\<close> and \<open>CSeq\<close>, the status that was
  chosen, a tag in \<open>To\<close> that is the request's own when it had one, and the body untouched.
\<close>

theorem reply_matches_request:
  assumes "sip_wf req" and "field_text ua" and "token tag" and "field_text ct" and "int (length body) < 2 ^ 63" and "0 < code" and "code < 2 ^ 63"
  shows "\<exists>r r'. Parse (Serialize (Build200OK ua tag req ct body)) = Inr r
    \<and> Parse (Serialize (BuildStatusResponse ua tag req code)) = Inr r'
    \<and> sip_StatusCode r = 200 \<and> sip_StatusCode r' = code \<and> sip_Body r = body \<and> sip_ContentLength r = int (length body) \<and> sip_Body r' = []
    \<and> (\<forall>x \<in> {r, r'}. sip_Method x = [] \<and> sip_From x = sip_From req \<and> sip_CallID x = sip_CallID req \<and> sip_CSeq x = sip_CSeq req
        \<and> sip_Via x = (if sip_Via req = [] then [] else with_rport (sip_Via req))
        \<and> Contains (sip_To x) ''tag='' \<and> (Contains (sip_To req) ''tag='' \<longrightarrow> sip_To x = sip_To req))"
proof -
  have ft: "field_text (sip_To req)" using assms(1) by (simp add: sip_wf_def sip_values_def)
  have z: "field_text []" by (simp add: field_text_def trim_stable_def)
  have 1: "Parse (Serialize (Build200OK ua tag req ct body)) = Inr (sip_received (Build200OK ua tag req ct body))"
    unfolding Build200OK_response by (rule sip_wire, rule reply_wf [OF assms(1-5)]) simp_all
  have "(BuildStatusResponse ua tag req code)\<lparr>sip_ContentType := [], sip_Body := []\<rparr> = BuildStatusResponse ua tag req code"
    by (simp add: BuildStatusResponse_def empty_sip_def)
  then have 2: "Parse (Serialize (BuildStatusResponse ua tag req code)) = Inr (sip_received (BuildStatusResponse ua tag req code))"
    using sip_wire [OF reply_wf [OF assms(1-3) z, of "[]" code]] assms(6,7) by simp
  show ?thesis
    using 1 2 to_with_tag_text(2) [OF ft assms(3)]
    by (simp add: sip_received_def Build200OK_def BuildStatusResponse_def empty_sip_def body_length_def to_with_tag_def)
qed

theorem reply_matches_request_witness:
  "\<exists>r. Parse (Serialize (Build200OK ''GB28181-Go/1.0'' ''deadbeef'' sample_notify [] [])) = Inr r \<and> sip_CSeq r = ''2 NOTIFY''
     \<and> sip_Via r = with_rport (sip_Via sample_notify)"
proof -
  have "field_text ''GB28181-Go/1.0''" "token ''deadbeef''" "field_text []"
    by (simp_all add: field_text_def trim_stable_def token_def plain_char_def)
  then obtain r where "Parse (Serialize (Build200OK ''GB28181-Go/1.0'' ''deadbeef'' sample_notify [] [])) = Inr r"
    "sip_CSeq r = sip_CSeq sample_notify" "sip_Via r = (if sip_Via sample_notify = [] then [] else with_rport (sip_Via sample_notify))"
    using reply_matches_request [OF sample_notify_wf, of "''GB28181-Go/1.0''" "''deadbeef''" "[]" "[]" 200] by auto
  then show ?thesis by (simp add: sample_notify_def empty_sip_def)
qed

subsection \<open>Identifiers\<close>

lemma dec_val_shift: "dec_val a s = a * 10 ^ length s + dec_val 0 s"
proof (induction a s rule: dec_val.induct)
  case (2 a c cs)
  have "dec_val (digit_val c) cs = digit_val c * 10 ^ length cs + dec_val 0 cs" for c cs
  proof (induction cs arbitrary: c)
    case (Cons d cs)
    have "dec_val k cs = k * 10 ^ length cs + dec_val 0 cs" for k
    proof (induction cs arbitrary: k)
      case (Cons e cs)
      show ?case using Cons [of "10 * k + digit_val e"] Cons [of "digit_val e"] by (simp add: algebra_simps)
    qed simp
    from this [of "10 * digit_val c + digit_val d"] this [of "digit_val d"] show ?case by (simp add: algebra_simps)
  qed simp
  then show ?case using 2 by (simp add: algebra_simps)
qed simp

lemma digit_val_inj:
  assumes "is_digit c" and "is_digit d" and "digit_val c = digit_val d"
  shows "c = d"
proof -
  have "(of_char c :: nat) = of_char d" using assms unfolding is_digit_def digit_val_def by linarith
  then show ?thesis by simp
qed

lemma dec_val_inj:
  assumes "list_all is_digit a" and "list_all is_digit b" and "length a = length b" and "dec_val 0 a = dec_val 0 b"
  shows "a = b"
  using assms
proof (induction a b rule: list_induct2')
  case (4 c a d b)
  let ?k = "10 ^ length a :: nat"
  have "dec_val 0 a < ?k" "dec_val 0 b < ?k" using 4 dec_val_bound [of a 0] dec_val_bound [of b 0] by simp_all
  moreover have eq: "digit_val c * ?k + dec_val 0 a = digit_val d * ?k + dec_val 0 b"
    using 4 dec_val_shift [of "digit_val c" a] dec_val_shift [of "digit_val d" b] by simp
  ultimately have "digit_val c = digit_val d"
    using div_mult_self3 [of ?k "digit_val c" "dec_val 0 a"] div_mult_self3 [of ?k "digit_val d" "dec_val 0 b"] by simp
  then have "dec_val 0 a = dec_val 0 b" "c = d" using eq 4 digit_val_inj [of c d] by simp_all
  then show ?case using 4 by simp
qed simp_all

lemma fmt_dec:
  assumes "list_all is_digit s" and "length s = w" and "0 < w"
  shows "fmt_0d w (int (dec_val 0 s)) = s"
proof -
  have "dec_val 0 s < 10 ^ w" using dec_val_bound [OF assms(1), of 0] assms(2) by simp
  then show ?thesis using fmt_0d_nat [of "dec_val 0 s" w] assms by (intro dec_val_inj) simp_all
qed

lemma digits_fit:
  assumes "list_all is_digit s" and "length s = w" and "10 ^ w \<le> (2::nat) ^ LENGTH('a::len)"
  shows "unat (of_nat (dec_val 0 s) :: 'a word) = dec_val 0 s"
  using dec_val_bound [OF assms(1), of 0] assms by (simp add: unat_of_nat)

text \<open>
  Device identifiers. An identifier built from an 8-digit center code and numbers that fit their two,
  three and seven places has 20 digits and is parsed back to the same parts; and every 20-digit identifier
  is parsed, to parts that format to it again.
\<close>

theorem device_id_roundtrip:
  assumes "length center = 8" and "list_all is_digit center" and "unat industry < 100" and "unat devType < 1000" and "unat serial < 10000000"
    and "length i = 20" and "list_all is_digit i"
  shows "(\<exists>t. FormatDeviceID center industry devType serial = Inr t \<and> length t = 20
      \<and> ParseDeviceID t = Inr \<lparr>id_RegionCode = center, id_IndustryType = industry, id_DeviceType = devType, id_Serial = serial\<rparr>)
    \<and> (\<exists>p. ParseDeviceID i = Inr p \<and> FormatDeviceID (id_RegionCode p) (id_IndustryType p) (id_DeviceType p) (id_Serial p) = Inr i)"
proof
  have a: "unat industry < 10 ^ 2" "unat devType < 10 ^ 3" "unat serial < 10 ^ 7" using assms by simp_all
  note f = fmt_0d_nat [OF a(1)] fmt_0d_nat [OF a(2)] fmt_0d_nat [OF a(3)]
  define x y z where "x = fmt_0d 2 (uint industry)" and "y = fmt_0d 3 (uint devType)" and "z = fmt_0d 7 (uint serial)"
  let ?t = "center @ x @ y @ z"
  have len: "length x = 2" "length y = 3" "length z = 7" and dig: "list_all is_digit x" "list_all is_digit y" "list_all is_digit z"
    and dv: "dec_val 0 x = unat industry" "dec_val 0 y = unat devType" "dec_val 0 z = unat serial"
    using f unfolding x_def y_def z_def uint_nat by simp_all
  have "FormatDeviceID center industry devType serial = Inr ?t" using assms(1,2) by (simp add: FormatDeviceID_def x_def y_def z_def)
  moreover have "length ?t = 20" "list_all is_digit ?t" using len dig assms(1,2) by simp_all
  moreover have "ParseDeviceID ?t = Inr \<lparr>id_RegionCode = center, id_IndustryType = industry, id_DeviceType = devType, id_Serial = serial\<rparr>"
    using len dig dv assms(1,2) by (simp add: ParseDeviceID_def)
  ultimately show "\<exists>t. FormatDeviceID center industry devType serial = Inr t \<and> length t = 20
      \<and> ParseDeviceID t = Inr \<lparr>id_RegionCode = center, id_IndustryType = industry, id_DeviceType = devType, id_Serial = serial\<rparr>"
    by blast
next
  define x y z where "x = take 2 (drop 8 i)" and "y = take 3 (drop 10 i)" and "z = drop 13 i"
  have d: "list_all is_digit x" "list_all is_digit y" "list_all is_digit z" "list_all is_digit (take 8 i)"
    using assms(7) by (auto simp: x_def y_def z_def list_all_iff dest: in_set_takeD in_set_dropD)
  have l: "length x = 2" "length y = 3" "length z = 7" using assms(6) by (simp_all add: x_def y_def z_def)
  have cat: "take 8 i @ x @ y @ z = i" unfolding x_def y_def z_def
    using append_take_drop_id [of 8 i] append_take_drop_id [of 2 "drop 8 i"] append_take_drop_id [of 3 "drop 10 i"] by (simp add: drop_drop)
  have "FormatDeviceID (take 8 i) (of_nat (dec_val 0 x)) (of_nat (dec_val 0 y)) (of_nat (dec_val 0 z)) = Inr (take 8 i @ x @ y @ z)"
    using d(4) assms(6) digits_fit [OF d(1) l(1), where 'a = 8] digits_fit [OF d(2) l(2), where 'a = 16] digits_fit [OF d(3) l(3), where 'a = 32] fmt_dec [OF d(1) l(1)] fmt_dec [OF d(2) l(2)] fmt_dec [OF d(3) l(3)]
    by (simp add: FormatDeviceID_def uint_nat)
  then show "\<exists>p. ParseDeviceID i = Inr p \<and> FormatDeviceID (id_RegionCode p) (id_IndustryType p) (id_DeviceType p) (id_Serial p) = Inr i"
    using assms(6,7) cat by (simp add: ParseDeviceID_def x_def y_def z_def)
qed

theorem device_id_roundtrip_witness:
  "\<exists>t. FormatDeviceID ''34020000'' 0 132 1 = Inr t \<and> ParseDeviceID t = Inr \<lparr>id_RegionCode = ''34020000'', id_IndustryType = 0, id_DeviceType = 132, id_Serial = 1\<rparr>"
  using device_id_roundtrip [of "''34020000''" 0 132 1 "''34020000001320000001''"] by (auto simp: is_digit_def)

end
