(* ===== verification/Digest.thy ===== *)
theory Digest
  imports Sip_Message Go_Hash
begin

text \<open>
  Digest authentication of REGISTER: the challenge of the platform (\<open>send401Challenge\<close> of
  \<open>src/platform/sip/server.go\<close>) and its parser, the response and the \<open>Authorization\<close> header of the
  device (\<open>src/device/digest.go\<close>, \<open>ComputeDigest\<close> of \<open>src/device/sip.go\<close>). The random nonces are arguments.
\<close>

subsection \<open>Hashing\<close>

definition hash_hex :: "(bytes \<Rightarrow> bytes) \<Rightarrow> string \<Rightarrow> string" where
  "hash_hex h s = hex_encode (h (str_bytes s))"

definition ComputeDigest :: "string \<Rightarrow> string list \<Rightarrow> string" where
  "ComputeDigest algorithm inputs =
     (let algorithm = (if algorithm = [] then ''MD5'' else algorithm); data = Join inputs '':''; a = ToUpper algorithm in
      if a = ''MD5'' then hash_hex md5_Sum data
      else if a = ''SHA-256'' \<or> a = ''SHA256'' then hash_hex sha256_Sum data
      else hash_hex md5_Sum data)"

text \<open>The text of a nonce (\<open>nonce\<close> of the server, \<open>cnonce\<close> of the client).\<close>

type_synonym nonce_text = string

definition ComputeResponse :: "string \<Rightarrow> string \<Rightarrow> string \<Rightarrow> nonce_text \<Rightarrow> string \<Rightarrow> string \<Rightarrow> string \<Rightarrow> string \<Rightarrow> string \<Rightarrow> nonce_text \<Rightarrow> string" where
  "ComputeResponse username realm password nonce uri method algorithm qop nc cnonce =
     (let algorithm = (if algorithm = [] then ''MD5'' else algorithm);
          ha1 = ComputeDigest algorithm [username, realm, password];
          ha2 = ComputeDigest algorithm [method, uri]
      in if qop = ''auth'' then ComputeDigest algorithm [ha1, nonce, nc, cnonce, qop, ha2]
         else ComputeDigest algorithm [ha1, nonce, ha2])"

subsection \<open>Challenges\<close>

record digest_auth =
  da_Realm :: string
  da_Nonce :: string
  da_Algorithm :: string
  da_Qop :: string
  da_Opaque :: string
  da_Stale :: string

text \<open>The word characters of \<open>regexp\<close>, and the characters of a value.\<close>

definition word_char :: "char \<Rightarrow> bool" where
  "word_char c \<longleftrightarrow> (let n = (of_char c :: nat) in 48 \<le> n \<and> n \<le> 57 \<or> 65 \<le> n \<and> n \<le> 90 \<or> n = 95 \<or> 97 \<le> n \<and> n \<le> 122)"

definition value_char :: "char \<Rightarrow> bool" where
  "value_char c \<longleftrightarrow> c \<noteq> CHR 0x22 \<and> c \<noteq> CHR '',''"

definition opt_quote :: "string \<Rightarrow> string" where
  "opt_quote s = (case s of c # cs \<Rightarrow> if c = CHR 0x22 then cs else s | [] \<Rightarrow> [])"

text \<open>
  All matches of \<open>(\w+)="?([^",]+)"?\<close> from left to right: a word that is not followed by an equals sign and a
  value matches at none of its characters.
\<close>

function find_pairs :: "string \<Rightarrow> (string \<times> string) list" where
  "find_pairs s =
     (let s1 = dropWhile (\<lambda>c. \<not> word_char c) s; key = takeWhile word_char s1; r = dropWhile word_char s1 in
      if s1 = [] then []
      else case r of
        [] \<Rightarrow> []
      | c # r1 \<Rightarrow>
          let r2 = opt_quote r1; v = takeWhile value_char r2 in
          if c = CHR ''='' \<and> v \<noteq> [] then (key, v) # find_pairs (opt_quote (dropWhile value_char r2))
          else find_pairs r1)"
  by pat_completeness auto
termination
proof (relation "measure length")
  have opt: "length (opt_quote s) \<le> length s" for s by (simp add: opt_quote_def split: list.split)
  have dw: "length (dropWhile P s) \<le> length s" for P :: "char \<Rightarrow> bool" and s by (rule length_dropWhile_le)
  show "wf (measure (length :: string \<Rightarrow> nat))" by simp
  fix s s1 key r c r1 r2 v
  assume s1: "s1 = dropWhile (\<lambda>c. \<not> word_char c) s" and r: "r = dropWhile word_char s1" "r = c # r1" and r2: "r2 = opt_quote r1"
  have "length (c # r1) \<le> length s"
    using order_trans [OF dw [of word_char s1] dw [of "\<lambda>c. \<not> word_char c" s, folded s1]] unfolding r(2) [symmetric] r(1) .
  then have "length r1 < length s" by simp
  moreover have "length (opt_quote (dropWhile value_char r2)) \<le> length r1"
    using opt [of "dropWhile value_char r2"] dw [of value_char r2] opt [of r1] unfolding r2 by linarith
  ultimately show "(opt_quote (dropWhile value_char r2), s) \<in> measure length" "(r1, s) \<in> measure length" by simp_all
qed

declare find_pairs.simps [simp del]

definition set_param :: "digest_auth \<Rightarrow> string \<times> string \<Rightarrow> digest_auth" where
  "set_param d kv =
     (let k = ToLower (fst kv); v = snd kv in
      if k = ''realm'' then d\<lparr>da_Realm := v\<rparr> else if k = ''nonce'' then d\<lparr>da_Nonce := v\<rparr>
      else if k = ''algorithm'' then d\<lparr>da_Algorithm := v\<rparr> else if k = ''qop'' then d\<lparr>da_Qop := v\<rparr>
      else if k = ''opaque'' then d\<lparr>da_Opaque := v\<rparr> else if k = ''stale'' then d\<lparr>da_Stale := v\<rparr> else d)"

datatype digest_error = NotDigest string | MissingParams

definition ParseChallenge :: "string \<Rightarrow> digest_error + digest_auth" where
  "ParseChallenge header =
     (let h = TrimSpace header in
      if \<not> HasPrefix (ToLower h) ''digest '' then Inl (NotDigest h)
      else let d = foldl set_param (digest_auth.make [] [] [] [] [] []) (find_pairs (TrimSpace (drop 7 h))) in
           if da_Realm d = [] \<or> da_Nonce d = [] then Inl MissingParams else Inr d)"

text \<open>The quotation mark.\<close>

definition dq :: string where "dq = [CHR 0x22]"

definition challenge_value :: "string \<Rightarrow> string \<Rightarrow> string" where
  "challenge_value realm nonce =
     (let realm = (if realm = [] then ''gb28181'' else realm) in
      ''Digest realm='' @ dq @ realm @ dq @ '', nonce='' @ dq @ nonce @ dq @ '', algorithm=MD5'')"

subsection \<open>The answer of the device\<close>

definition BuildAuthorizationHeader :: "string \<Rightarrow> digest_auth \<Rightarrow> string \<Rightarrow> string \<Rightarrow> string \<Rightarrow> string \<Rightarrow> string" where
  "BuildAuthorizationHeader cnonce d username password uri method =
     (let nc = ''00000001'';
          response = ComputeResponse username (da_Realm d) password (da_Nonce d) uri method (da_Algorithm d) (da_Qop d) nc cnonce
      in ''Digest username='' @ dq @ username @ dq @ '', realm='' @ dq @ da_Realm d @ dq @ '', nonce='' @ dq @ da_Nonce d @ dq
         @ '', uri='' @ dq @ uri @ dq @ '', response='' @ dq @ response @ dq
         @ (if da_Algorithm d \<noteq> [] then '', algorithm='' @ da_Algorithm d else [])
         @ (if da_Qop d \<noteq> [] then '', qop='' @ da_Qop d @ '', nc='' @ nc @ '', cnonce='' @ dq @ cnonce @ dq else [])
         @ (if da_Opaque d \<noteq> [] then '', opaque='' @ dq @ da_Opaque d @ dq else []))"

subsection \<open>Reading headers of this form\<close>

definition param_name :: "string \<Rightarrow> bool" where
  "param_name k \<longleftrightarrow> k \<noteq> [] \<and> list_all word_char k"

definition param_value :: "string \<Rightarrow> bool" where
  "param_value v \<longleftrightarrow> v \<noteq> [] \<and> list_all value_char v"

lemma span_all: "list_all P k \<Longrightarrow> \<not> P c \<Longrightarrow> takeWhile P (k @ c # r) = k \<and> dropWhile P (k @ c # r) = c # r"
  by (induction k) auto

lemma span_end: "list_all P k \<Longrightarrow> takeWhile P k = k \<and> dropWhile P k = []"
  by (induction k) auto

lemma word_eq [simp]: "\<not> word_char (CHR ''='')" "\<not> word_char (CHR '','')" "\<not> word_char (CHR '' '')" "\<not> value_char (CHR 0x22)"
  "\<not> value_char (CHR '','')"
  by (simp_all add: word_char_def value_char_def)

lemma find_pairs_nil [simp]: "find_pairs [] = []"
  by (subst find_pairs.simps) simp

lemma find_pairs_sep [simp]: "find_pairs (CHR '','' # CHR '' '' # s) = find_pairs s"
  by (subst find_pairs.simps, subst (2) find_pairs.simps) simp

lemma find_pairs_quoted:
  assumes "param_name k" and "param_value v"
  shows "find_pairs (k @ ''='' @ dq @ v @ dq @ s) = (k, v) # find_pairs s"
proof -
  obtain c cs where k: "k = c # cs" "word_char c" using assms(1) by (cases k) (simp_all add: param_name_def)
  have w: "takeWhile word_char (k @ CHR ''='' # r) = k" "dropWhile word_char (k @ CHR ''='' # r) = CHR ''='' # r" for r
    using span_all [of word_char k "CHR ''=''" r] assms(1) by (simp_all add: param_name_def)
  have v: "takeWhile value_char (v @ CHR 0x22 # s) = v" "dropWhile value_char (v @ CHR 0x22 # s) = CHR 0x22 # s"
    using span_all [of value_char v "CHR 0x22" s] assms(2) by (simp_all add: param_value_def)
  show ?thesis using k w v assms(2)
    by (subst find_pairs.simps) (simp add: dq_def opt_quote_def param_value_def)
qed

lemma find_pairs_last:
  assumes "param_name k" and "param_value v"
  shows "find_pairs (k @ ''='' @ v) = [(k, v)]"
proof -
  obtain c cs where k: "k = c # cs" "word_char c" using assms(1) by (cases k) (simp_all add: param_name_def)
  obtain d ds where v: "v = d # ds" "d \<noteq> CHR 0x22" "list_all value_char v" using assms(2) by (cases v) (simp_all add: param_value_def value_char_def)
  have w: "takeWhile word_char (k @ CHR ''='' # r) = k" "dropWhile word_char (k @ CHR ''='' # r) = CHR ''='' # r" for r
    using span_all [of word_char k "CHR ''=''" r] assms(1) by (simp_all add: param_name_def)
  have "opt_quote v = v" using v by (simp add: opt_quote_def)
  then show ?thesis using k w v span_end [OF v(3)] span_end [of value_char ds]
    by (subst find_pairs.simps) (simp add: opt_quote_def del: dropWhile_eq_Nil_conv)
qed

lemma md5_Sum_length: "length (md5_Sum msg) = 16"
  by (simp add: md5_Sum_def Let_def bytes_le_def split: prod.split)

lemma hex_chars:
  assumes "c \<in> set (hex_encode bs)"
  shows "value_char c" "plain_char c"
proof -
  have d: "value_char (hex_digit d) \<and> plain_char (hex_digit d)" if "d < 16" for d :: nat
    using that by (cases "d < 10")
      (auto simp: hex_digit_def value_char_def plain_char_def dest: arg_cong [where f = "of_char :: char \<Rightarrow> nat"])
  obtain b :: byte where "c = hex_digit (unat b div 16) \<or> c = hex_digit (unat b mod 16)"
    using assms by (auto simp: hex_encode_def)
  moreover have "unat b div 16 < 16" using unat_byte_less [of b] by simp
  ultimately show "value_char c" "plain_char c" using d by auto
qed

lemma md5_text: "param_value (hash_hex md5_Sum s)" "token (hash_hex md5_Sum s)" "length (hash_hex md5_Sum s) = 32"
proof -
  show l: "length (hash_hex md5_Sum s) = 32" by (simp add: hash_hex_def md5_Sum_length)
  then have "hash_hex md5_Sum s \<noteq> []" by auto
  then show "param_value (hash_hex md5_Sum s)" "token (hash_hex md5_Sum s)"
    using hex_chars by (auto simp: param_value_def token_def list_all_iff hash_hex_def)
qed

lemma param_names:
  "param_name ''realm''" "param_name ''nonce''" "param_name ''algorithm''" "param_name ''username''" "param_name ''uri''" "param_name ''response''"
  by (simp_all add: param_name_def word_char_def)

lemma md5_value: "param_value ''MD5''"
  by (simp add: param_value_def value_char_def)

lemma param_keys:
  "set_param d (''realm'', v) = d\<lparr>da_Realm := v\<rparr>" "set_param d (''nonce'', v) = d\<lparr>da_Nonce := v\<rparr>"
  "set_param d (''algorithm'', v) = d\<lparr>da_Algorithm := v\<rparr>"
  by (simp_all add: set_param_def lower_char_def char_of_def bit_Suc_0_iff)

lemma pairs_end: "find_pairs (k @ ''='' @ dq @ v @ dq @ '', algorithm=MD5'') = (k, v) # [(''algorithm'', ''MD5'')]"
  if "param_name k" and "param_value v"
  using find_pairs_quoted [OF that, of "'', algorithm=MD5''"] find_pairs_last [OF param_names(3) md5_value] by simp

lemma pairs_sep: "find_pairs (k @ ''='' @ dq @ v @ dq @ '', '' @ s) = (k, v) # find_pairs s"
  if "param_name k" and "param_value v"
  using find_pairs_quoted [OF that, of "'', '' @ s"] by simp

lemma digest_prefix: "HasPrefix (ToLower (''Digest '' @ s)) ''digest ''"
  by (simp add: lower_char_def char_of_def bit_Suc_0_iff)

definition realm_of :: "string \<Rightarrow> string" where
  "realm_of realm = (if realm = [] then ''gb28181'' else realm)"

lemma ParseChallenge_digest:
  assumes "trim_stable p" and "p \<noteq> []" and "find_pairs p = kvs"
  shows "ParseChallenge (''Digest '' @ p) =
    (let d = foldl set_param (digest_auth.make [] [] [] [] [] []) kvs in if da_Realm d = [] \<or> da_Nonce d = [] then Inl MissingParams else Inr d)"
proof -
  have "trim_stable (''Digest '' @ p)" using assms(1,2) by (simp add: trim_stable_def plain_char_def)
  then have t: "TrimSpace (''Digest '' @ p) = ''Digest '' @ p" "TrimSpace p = p" using TrimSpace_stable assms(1) by blast+
  have "drop 7 (''Digest '' @ p) = p" by simp
  then show ?thesis unfolding ParseChallenge_def Let_def t by (simp only: t digest_prefix assms(3) if_False not_True_eq_False)
qed

lemma challenge_understood:
  assumes "param_value (realm_of realm)" and "param_value nonce"
  shows "ParseChallenge (challenge_value realm nonce)
    = Inr \<lparr>da_Realm = realm_of realm, da_Nonce = nonce, da_Algorithm = ''MD5'', da_Qop = [], da_Opaque = [], da_Stale = []\<rparr>"
proof -
  define p where "p = ''realm='' @ dq @ realm_of realm @ dq @ '', nonce='' @ dq @ nonce @ dq @ '', algorithm=MD5''"
  have h: "challenge_value realm nonce = ''Digest '' @ p" by (simp add: challenge_value_def realm_of_def Let_def p_def)
  have "trim_stable p" "p \<noteq> []" by (simp_all add: p_def trim_stable_def plain_char_def)
  moreover have "find_pairs p = [(''realm'', realm_of realm), (''nonce'', nonce), (''algorithm'', ''MD5'')]"
    using pairs_sep [OF param_names(1) assms(1), of "''nonce='' @ dq @ nonce @ dq @ '', algorithm=MD5''"] pairs_end [OF param_names(2) assms(2)]
    by (simp add: p_def)
  ultimately show ?thesis
    unfolding h using ParseChallenge_digest [of p] assms by (simp add: param_keys digest_auth.make_def param_value_def)
qed

lemma md5_digest: "ComputeDigest ''MD5'' xs = hash_hex md5_Sum (Join xs '':'')"
  by (simp add: ComputeDigest_def upper_char_def)

lemma md5_response:
  "ComputeResponse user realm pw nonce uri method ''MD5'' [] nc cnonce
    = hash_hex md5_Sum (hash_hex md5_Sum (user @ '':'' @ realm @ '':'' @ pw) @ '':'' @ nonce @ '':'' @ hash_hex md5_Sum (method @ '':'' @ uri))"
  by (simp add: ComputeResponse_def md5_digest Join_def)

text \<open>The parameters of an \<open>Authorization\<close> value for a challenge of the platform, and the response of RFC 2617.\<close>

definition md5_answer :: "string \<Rightarrow> string \<Rightarrow> string \<Rightarrow> string \<Rightarrow> string \<Rightarrow> string \<Rightarrow> string" where
  "md5_answer user realm pw nonce uri method =
     hash_hex md5_Sum (hash_hex md5_Sum (user @ '':'' @ realm @ '':'' @ pw) @ '':'' @ nonce @ '':'' @ hash_hex md5_Sum (method @ '':'' @ uri))"

definition auth_params :: "string \<Rightarrow> string \<Rightarrow> string \<Rightarrow> string \<Rightarrow> string \<Rightarrow> string" where
  "auth_params user realm nonce uri resp = ''username='' @ dq @ user @ dq @ '', realm='' @ dq @ realm @ dq @ '', nonce='' @ dq @ nonce @ dq
     @ '', uri='' @ dq @ uri @ dq @ '', response='' @ dq @ resp @ dq @ '', algorithm=MD5''"

lemma md5_answer_text: "param_value (md5_answer user realm pw nonce uri method)" "CHR 0x0D \<notin> set (md5_answer user realm pw nonce uri method)"
  unfolding md5_answer_def using md5_text(1,2) token_no_space by blast+

lemma auth_header_text:
  "BuildAuthorizationHeader cnonce \<lparr>da_Realm = realm, da_Nonce = nonce, da_Algorithm = ''MD5'', da_Qop = [], da_Opaque = [], da_Stale = []\<rparr> user pw uri method
    = ''Digest '' @ auth_params user realm nonce uri (md5_answer user realm pw nonce uri method)"
  unfolding BuildAuthorizationHeader_def Let_def auth_params_def digest_auth.simps md5_response md5_answer_def by simp

lemma auth_params_pairs:
  assumes "param_value realm" and "param_value nonce" and "param_value user" and "param_value uri" and "param_value resp"
  shows "find_pairs (auth_params user realm nonce uri resp)
    = [(''username'', user), (''realm'', realm), (''nonce'', nonce), (''uri'', uri), (''response'', resp), (''algorithm'', ''MD5'')]"
  using pairs_sep [OF param_names(4) assms(3), of "''realm='' @ dq @ realm @ dq @ '', nonce='' @ dq @ nonce @ dq @ '', uri='' @ dq @ uri @ dq @ '', response='' @ dq @ resp @ dq @ '', algorithm=MD5''"]
    pairs_sep [OF param_names(1) assms(1), of "''nonce='' @ dq @ nonce @ dq @ '', uri='' @ dq @ uri @ dq @ '', response='' @ dq @ resp @ dq @ '', algorithm=MD5''"]
    pairs_sep [OF param_names(2) assms(2), of "''uri='' @ dq @ uri @ dq @ '', response='' @ dq @ resp @ dq @ '', algorithm=MD5''"]
    pairs_sep [OF param_names(5) assms(4), of "''response='' @ dq @ resp @ dq @ '', algorithm=MD5''"] pairs_end [OF param_names(6) assms(5)]
  by (simp add: auth_params_def)

text \<open>
  The REGISTER handshake. The device reads realm and nonce out of every challenge of the platform; the
  \<open>Authorization\<close> value it answers with carries its identifier, that realm and nonce, the request URI and the
  RFC 2617 MD5 response over them, which is 32 hexadecimal digits; and the header arrives unchanged when the
  retried REGISTER is serialized and parsed.
\<close>

theorem digest_handshake:
  assumes "param_value (realm_of realm)" and "param_value nonce" and "param_value user" and "param_value uri"
    and "CHR 0x0D \<notin> set (user @ realm @ nonce @ uri)" and "sip_wf (BuildRegister ua uri from to cid cseq contact [])"
  shows "\<exists>d h r. ParseChallenge (challenge_value realm nonce) = Inr d
    \<and> h = BuildAuthorizationHeader cnonce d user pw uri ''REGISTER''
    \<and> find_pairs (drop 7 h) = [(''username'', user), (''realm'', realm_of realm), (''nonce'', nonce), (''uri'', uri),
         (''response'', hash_hex md5_Sum (hash_hex md5_Sum (user @ '':'' @ realm_of realm @ '':'' @ pw) @ '':'' @ nonce @ '':''
            @ hash_hex md5_Sum (''REGISTER:'' @ uri))), (''algorithm'', ''MD5'')]
    \<and> Parse (Serialize (BuildRegister ua uri from to cid cseq contact h)) = Inr r \<and> sip_Authorization r = h"
proof -
  let ?d = "\<lparr>da_Realm = realm_of realm, da_Nonce = nonce, da_Algorithm = ''MD5'', da_Qop = [], da_Opaque = [], da_Stale = []\<rparr>"
  define resp where "resp = md5_answer user (realm_of realm) pw nonce uri ''REGISTER''"
  define p where "p = auth_params user (realm_of realm) nonce uri resp"
  have h: "BuildAuthorizationHeader cnonce ?d user pw uri ''REGISTER'' = ''Digest '' @ p" unfolding auth_header_text p_def resp_def ..
  have resp: "param_value resp" "CHR 0x0D \<notin> set resp" unfolding resp_def by (rule md5_answer_text)+
  have pairs: "find_pairs p = [(''username'', user), (''realm'', realm_of realm), (''nonce'', nonce), (''uri'', uri), (''response'', resp), (''algorithm'', ''MD5'')]"
    unfolding p_def by (rule auth_params_pairs [OF assms(1-4) resp(1)])
  have "field_text (''Digest '' @ p)"
    using assms(5) resp(2) by (simp add: field_text_def p_def auth_params_def trim_stable_def plain_char_def dq_def realm_of_def)
  then have "sip_wf (BuildRegister ua uri from to cid cseq contact (''Digest '' @ p))"
    using assms(6) by (simp add: sip_wf_def BuildRegister_def empty_sip_def sip_values_def body_length_def)
  from sip_wire [OF this] have wire: "\<exists>r. Parse (Serialize (BuildRegister ua uri from to cid cseq contact (''Digest '' @ p))) = Inr r \<and> sip_Authorization r = ''Digest '' @ p"
    by (simp add: sip_received_def BuildRegister_def empty_sip_def)
  show ?thesis using challenge_understood [OF assms(1,2)] h pairs wire by (simp add: resp_def md5_answer_def)
qed

theorem digest_handshake_witness:
  "\<exists>d h r. ParseChallenge (challenge_value ''3402000000'' ''6bd2'') = Inr d
    \<and> h = BuildAuthorizationHeader ''00'' d ''34020000001320000001'' ''secret'' ''sip:3402000000'' ''REGISTER''
    \<and> Parse (Serialize (BuildRegister ''GB28181-Go/1.0'' ''sip:3402000000'' ''<sip:1>'' ''<sip:1>'' ''c1'' ''2 REGISTER'' ''<sip:1>'' h)) = Inr r \<and> sip_Authorization r = h"
proof -
  have 1: "param_value (realm_of ''3402000000'')" "param_value ''6bd2''" "param_value ''34020000001320000001''" "param_value ''sip:3402000000''"
    "CHR 0x0D \<notin> set (''34020000001320000001'' @ ''3402000000'' @ ''6bd2'' @ ''sip:3402000000'')"
    by (simp_all add: param_value_def value_char_def realm_of_def)
  have 2: "sip_wf (BuildRegister ''GB28181-Go/1.0'' ''sip:3402000000'' ''<sip:1>'' ''<sip:1>'' ''c1'' ''2 REGISTER'' ''<sip:1>'' [])"
    by (simp add: sip_wf_def BuildRegister_def empty_sip_def token_def plain_char_def sip_values_def field_text_def trim_stable_def body_length_def)
  show ?thesis using digest_handshake [OF 1 2, of "''00''" "''secret''"] by blast
qed

end
