(* ===== verification/Sip_Config.thy ===== *)
theory Sip_Config
  imports Sdp Port_Pool Auth_Limiter
begin

text \<open>
  The configuration of the platform's SIP server: \<open>src/platform/sip/config.go\<close>, \<open>src/platform/sip/validate.go\<close>,
  the address helpers of \<open>src/platform/sip/server.go\<close>, and the path headers of \<open>src/platform/sip/gbpath.go\<close>.

  \<open>time.ParseDuration\<close> and \<open>net.ParseIP\<close> are the arguments \<open>pd\<close> (nanoseconds, or \<open>None\<close> on an error) and
  \<open>ip_ok\<close>: their grammar plays no part in what follows.
\<close>

subsection \<open>Addresses\<close>

text \<open>\<open>net.SplitHostPort\<close>.\<close>

definition last_colon :: "string \<Rightarrow> nat option" where
  "last_colon s = (if CHR '':'' \<in> set s then Some (length s - 1 - length (takeWhile (\<lambda>c. c \<noteq> CHR '':'') (rev s))) else None)"

definition SplitHostPort :: "string \<Rightarrow> (string \<times> string) option" where
  "SplitHostPort s =
     (case last_colon s of
        None \<Rightarrow> None
      | Some i \<Rightarrow>
          if hd s = CHR ''[''
          then (case str_index '']'' s of
                  None \<Rightarrow> None
                | Some e \<Rightarrow>
                    if Suc e \<noteq> i \<or> CHR ''['' \<in> set (drop 1 s) \<or> CHR '']'' \<in> set (drop (Suc e) s) then None
                    else Some (drop 1 (take e s), drop (Suc i) s))
          else let host = take i s in
               if CHR '':'' \<in> set host \<or> CHR ''['' \<in> set s \<or> CHR '']'' \<in> set s then None
               else Some (host, drop (Suc i) s))"

definition hostOfAddr :: "string \<Rightarrow> string" where
  "hostOfAddr addr = (case SplitHostPort addr of Some (h, _) \<Rightarrow> h | None \<Rightarrow> addr)"

datatype config_error =
    BadSIPTransport | BadMediaTransport | BadFraming | BadSubProbe | BadSubProbeOffset | BadDuration string | MissingTLSPair
  | TLSWithoutTransport | EmptyAllowed | BadPortRange | NoListen | BadListen | BadListenHost | BadServerID | NoRealm
  | BadListenPort

definition parseSIPListen :: "string \<Rightarrow> config_error + string \<times> int" where
  "parseSIPListen listen =
     (if listen = [] then Inr ([], 5060)
      else case SplitHostPort listen of
        None \<Rightarrow> Inl BadListen
      | Some (host, p) \<Rightarrow>
          case go_atoi p of
            None \<Rightarrow> Inl BadListenPort
          | Some port \<Rightarrow> if port < 1 \<or> port > 65535 then Inl BadListenPort else Inr (host, port))"

subsection \<open>The configuration\<close>

record alarm_linkage_config =
  al_Enabled :: bool
  al_Duration :: string

record platform_config =
  pc_Enabled :: bool
  pc_SIPListen :: string
  pc_ServerID :: string
  pc_Realm :: string
  pc_Password :: string
  pc_ProtocolVersion :: string
  pc_RegisterFailureLimit :: int
  pc_RegisterFailureWindow :: string
  pc_RegisterLockoutDuration :: string
  pc_StrictAuth :: bool
  pc_UserAgent :: string
  pc_InviteResponseTimeout :: string
  pc_PortRange :: string
  pc_AllowedDeviceIDs :: "string list"
  pc_HeartbeatInterval :: string
  pc_CatalogInterval :: string
  pc_SubChannelProbe :: string
  pc_SubChannelProbeOffset :: int
  pc_TCPMode :: bool
  pc_TCPFraming :: string
  pc_MediaTransport :: string
  pc_MonitorUserID :: string
  pc_SIPTransport :: string
  pc_TLSCertFile :: string
  pc_TLSKeyFile :: string
  pc_SubscribeCatalog :: "bool option"
  pc_SubscribeAlarm :: "bool option"
  pc_SubscribeMobilePosition :: bool
  pc_SubscribeExpires :: string
  pc_AlarmLinkage :: "alarm_linkage_config option"

definition seconds :: "int \<Rightarrow> int" where "seconds n = n * 10 ^ 9"

definition positive_duration :: "(string \<Rightarrow> int option) \<Rightarrow> string \<Rightarrow> int \<Rightarrow> int" where
  "positive_duration pd v dflt = (case pd v of Some d \<Rightarrow> if d > 0 then d else dflt | None \<Rightarrow> dflt)"

definition AlarmLinkageDuration :: "(string \<Rightarrow> int option) \<Rightarrow> alarm_linkage_config option \<Rightarrow> int" where
  "AlarmLinkageDuration pd c = (case c of None \<Rightarrow> 0 | Some c \<Rightarrow> positive_duration pd (al_Duration c) (seconds 60))"

definition CatalogSubscriptionOn :: "platform_config \<Rightarrow> bool" where
  "CatalogSubscriptionOn c = (case pc_SubscribeCatalog c of None \<Rightarrow> pc_Enabled c | Some b \<Rightarrow> b)"

definition AlarmSubscriptionOn :: "platform_config \<Rightarrow> bool" where
  "AlarmSubscriptionOn c = (case pc_SubscribeAlarm c of None \<Rightarrow> pc_Enabled c | Some b \<Rightarrow> b)"

definition EffectiveUserAgent :: "platform_config \<Rightarrow> string" where
  "EffectiveUserAgent c = (if pc_UserAgent c \<noteq> [] then pc_UserAgent c else ''gb28181-go'')"

definition InviteTimeout :: "(string \<Rightarrow> int option) \<Rightarrow> platform_config \<Rightarrow> int" where
  "InviteTimeout pd c = positive_duration pd (pc_InviteResponseTimeout c) (seconds 32)"

definition effectiveRegisterFailureLimit :: "platform_config \<Rightarrow> int" where
  "effectiveRegisterFailureLimit c =
     (if pc_RegisterFailureLimit c = 0 then 5 else if pc_RegisterFailureLimit c < 0 then 0 else pc_RegisterFailureLimit c)"

definition effectiveDuration :: "(string \<Rightarrow> int option) \<Rightarrow> string \<Rightarrow> int \<Rightarrow> int" where
  "effectiveDuration pd v dflt = (if v = [] then dflt else case pd v of Some d \<Rightarrow> d | None \<Rightarrow> dflt)"

subsection \<open>Validation\<close>

definition allDigits :: "string \<Rightarrow> bool" where
  "allDigits s = list_all is_digit s"

text \<open>\<open>strings.Cut\<close> at the first dash.\<close>

definition validatePortRange :: "string \<Rightarrow> config_error option" where
  "validatePortRange v =
     (case str_index ''-'' v of
        None \<Rightarrow> Some BadPortRange
      | Some i \<Rightarrow>
          case (go_atoi (take i v), go_atoi (drop (Suc i) v)) of
            (Some lo, Some hi) \<Rightarrow> if lo < 1 \<or> hi > 65535 \<or> lo > hi then Some BadPortRange else None
          | _ \<Rightarrow> Some BadPortRange)"

fun check_durations :: "(string \<Rightarrow> int option) \<Rightarrow> (string \<times> string) list \<Rightarrow> config_error option" where
  "check_durations pd [] = None"
| "check_durations pd ((name, v) # rest) =
     (if v = [] then check_durations pd rest
      else case pd v of
        None \<Rightarrow> Some (BadDuration name)
      | Some d \<Rightarrow> if d \<le> 0 then Some (BadDuration name) else check_durations pd rest)"

definition duration_fields :: "platform_config \<Rightarrow> (string \<times> string) list" where
  "duration_fields c =
     [(''RegisterFailureWindow'', pc_RegisterFailureWindow c), (''RegisterLockoutDuration'', pc_RegisterLockoutDuration c),
      (''InviteResponseTimeout'', pc_InviteResponseTimeout c), (''HeartbeatInterval'', pc_HeartbeatInterval c),
      (''CatalogInterval'', pc_CatalogInterval c), (''SubscribeExpires'', pc_SubscribeExpires c)]"

text \<open>The checks of an enabled server.\<close>

definition validate_enabled :: "(string \<Rightarrow> bool) \<Rightarrow> platform_config \<Rightarrow> config_error option" where
  "validate_enabled ip_ok c =
     (if pc_SIPListen c = [] then Some NoListen
      else case parseSIPListen (pc_SIPListen c) of
        Inl e \<Rightarrow> Some e
      | Inr (host, _) \<Rightarrow>
          if host \<noteq> [] \<and> \<not> ip_ok host then Some BadListenHost
          else if length (pc_ServerID c) \<noteq> 20 \<or> \<not> allDigits (pc_ServerID c) then Some BadServerID
          else if pc_Realm c = [] then Some NoRealm
          else None)"

definition pc_Validate :: "(string \<Rightarrow> int option) \<Rightarrow> (string \<Rightarrow> bool) \<Rightarrow> platform_config \<Rightarrow> config_error option" where
  "pc_Validate pd ip_ok c =
     (let tls = ToLower (pc_SIPTransport c) = ''tls'' in
      if ToLower (pc_SIPTransport c) \<notin> {[], ''udp'', ''tcp'', ''tls''} then Some BadSIPTransport
      else if pc_MediaTransport c \<notin> {[], ''tcp-passive'', ''udp'', ''tcp-active''} then Some BadMediaTransport
      else if pc_TCPFraming c \<notin> {[], ''rfc4571'', ''0x24'', ''auto''} then Some BadFraming
      else if pc_SubChannelProbe c \<notin> {[], ''auto'', ''on'', ''off''} then Some BadSubProbe
      else if pc_SubChannelProbeOffset c < 0 \<or> pc_SubChannelProbeOffset c > 99 then Some BadSubProbeOffset
      else case check_durations pd (duration_fields c) of
        Some e \<Rightarrow> Some e
      | None \<Rightarrow>
          if tls \<and> (pc_TLSCertFile c = [] \<or> pc_TLSKeyFile c = []) then Some MissingTLSPair
          else if \<not> tls \<and> (pc_TLSCertFile c \<noteq> [] \<or> pc_TLSKeyFile c \<noteq> []) then Some TLSWithoutTransport
          else if [] \<in> set (pc_AllowedDeviceIDs c) then Some EmptyAllowed
          else if pc_PortRange c \<noteq> [] \<and> validatePortRange (pc_PortRange c) \<noteq> None then validatePortRange (pc_PortRange c)
          else if \<not> pc_Enabled c then None
          else validate_enabled ip_ok c)"

subsection \<open>Path headers\<close>

definition validPlatformID :: "string \<Rightarrow> bool" where
  "validPlatformID i \<longleftrightarrow> length i = 20 \<and> list_all is_digit i \<and> take 3 (drop 10 i) = ''200''"

fun check_ids :: "string list \<Rightarrow> string + string list" where
  "check_ids [] = Inr []"
| "check_ids (p # ps) =
     (if \<not> validPlatformID p then Inl p else case check_ids ps of Inl e \<Rightarrow> Inl e | Inr rest \<Rightarrow> Inr (p # rest))"

definition ParsePlatformIDList :: "string \<Rightarrow> string + string list" where
  "ParsePlatformIDList v =
     (let v = TrimSpace v in if v = [] then Inr [] else check_ids (Split v ''-''))"

definition FormatPlatformIDList :: "string list \<Rightarrow> string" where
  "FormatPlatformIDList ids = Join ids ''-''"

text \<open>A header appended when its value is configured: \<open>X-GB-Ver\<close> and \<open>X-RoutePath\<close>.\<close>

definition appendXGBVer :: "(string \<times> string) list \<Rightarrow> string \<Rightarrow> (string \<times> string) list" where
  "appendXGBVer headers v = (if v = [] then headers else headers @ [(''X-GB-Ver'', v)])"

definition RoutePathHeader :: "string \<Rightarrow> (string \<times> string) option" where
  "RoutePathHeader announce = (if announce = [] then None else Some (''X-RoutePath'', announce))"

subsection \<open>Properties\<close>

lemma validPlatformID_text:
  assumes "validPlatformID i"
  shows "i \<noteq> []" "CHR ''-'' \<notin> set i" "token i"
proof -
  have d: "list_all is_digit i" "i \<noteq> []" using assms by (auto simp: validPlatformID_def)
  then show "i \<noteq> []" "token i" using digits_token by simp_all
  show "CHR ''-'' \<notin> set i" using d digit_not_sign by (auto simp: list_all_iff)
qed

lemma check_ids_ok: "check_ids ps = Inr xs \<longleftrightarrow> ps = xs \<and> list_all validPlatformID ps"
proof (induction ps arbitrary: xs)
  case (Cons p ps)
  show ?case
  proof (cases "check_ids ps")
    case (Inl e)
    then have "\<not> list_all validPlatformID ps" using Cons [of ps] by simp
    then show ?thesis using Inl by simp
  next
    case (Inr ys)
    then have "ps = ys" "list_all validPlatformID ps" using Cons [of ys] by auto
    then show ?thesis using Inr by auto
  qed
qed auto

lemma Split_Join:
  assumes "ss \<noteq> []" and "sep \<noteq> []" and "\<forall>s \<in> set ss. hd sep \<notin> set s"
  shows "Split (Join ss sep) sep = ss"
  using assms
proof (induction ss)
  case (Cons s ss)
  then show ?case by (cases "ss = []") (simp_all add: Join_Cons Split_step Split_none)
qed simp

lemma Join_ends:
  assumes "ss \<noteq> []" and "\<forall>s \<in> set ss. token s"
  shows "trim_stable (Join ss sep)" "Join ss sep \<noteq> []"
proof -
  have h: "plain_char (hd (Join ss sep)) \<and> Join ss sep \<noteq> []" if "ss \<noteq> []" "\<forall>s \<in> set ss. token s" for ss
    using that by (cases ss) (auto simp: Join_def token_def list_all_iff)
  have l: "plain_char (last (Join ss sep))" using assms
  proof (induction ss)
    case (Cons s ss)
    then show ?case using h [of ss] by (cases "ss = []") (auto simp: Join_Cons token_def list_all_iff)
  qed simp
  show "trim_stable (Join ss sep)" "Join ss sep \<noteq> []" using h [OF assms] l by (simp_all add: trim_stable_def)
qed

text \<open>
  Path headers. Every list of platform identifiers survives formatting and parsing, and what the parser
  accepts is exactly the formatted form of the list it returns, around which only white space may stand: an
  identifier of another shape is named in the error.
\<close>

theorem platform_path_roundtrip:
  "(ParsePlatformIDList (FormatPlatformIDList ids) = Inr ids \<longleftrightarrow> list_all validPlatformID ids)
   \<and> (ParsePlatformIDList v = Inr ids \<longleftrightarrow> TrimSpace v = FormatPlatformIDList ids \<and> list_all validPlatformID ids)"
proof -
  have fmt: "Split (FormatPlatformIDList ids) ''-'' = ids" "FormatPlatformIDList ids \<noteq> []" "TrimSpace (FormatPlatformIDList ids) = FormatPlatformIDList ids"
    if "list_all validPlatformID ids" "ids \<noteq> []" for ids
  proof -
    have t: "\<forall>s \<in> set ids. token s" "\<forall>s \<in> set ids. CHR ''-'' \<notin> set s" using that(1) validPlatformID_text by (auto simp: list_all_iff)
    show "Split (FormatPlatformIDList ids) ''-'' = ids" unfolding FormatPlatformIDList_def by (rule Split_Join [OF that(2)]) (use t in auto)
    show "FormatPlatformIDList ids \<noteq> []" "TrimSpace (FormatPlatformIDList ids) = FormatPlatformIDList ids"
      unfolding FormatPlatformIDList_def using Join_ends [OF that(2) t(1)] by (simp_all add: TrimSpace_stable)
  qed
  have parsed: "ParsePlatformIDList v = Inr ids \<longleftrightarrow> TrimSpace v = FormatPlatformIDList ids \<and> list_all validPlatformID ids" for v ids
  proof (cases "ids = []")
    case True
    then show ?thesis using Split_ne [of "TrimSpace v" "''-''"]
      by (auto simp: ParsePlatformIDList_def FormatPlatformIDList_def Join_def Let_def check_ids_ok)
  next
    case False
    have "TrimSpace v = FormatPlatformIDList ids" if "Split (TrimSpace v) ''-'' = ids"
      unfolding FormatPlatformIDList_def that [symmetric] by (rule Join_Split [symmetric]) simp
    then show ?thesis using False fmt [of ids] by (auto simp: ParsePlatformIDList_def Let_def check_ids_ok)
  qed
  show ?thesis using parsed [of "FormatPlatformIDList ids" ids] parsed [of v ids] fmt(3) [of ids]
    by (cases "ids = []") (auto simp: FormatPlatformIDList_def Join_def)
qed

lemma validatePortRange_ok:
  assumes "validatePortRange v = None"
  obtains lo hi where "1 \<le> lo" "lo \<le> hi" "hi \<le> 65535" "\<exists>i. go_atoi (take i v) = Some lo \<and> v ! i = CHR ''-'' \<and> go_atoi (drop (Suc i) v) = Some hi"
proof -
  obtain i where i: "str_index ''-'' v = Some i" using assms by (auto simp: validatePortRange_def split: option.splits)
  obtain lo hi where a: "go_atoi (take i v) = Some lo" "go_atoi (drop (Suc i) v) = Some hi" "1 \<le> lo" "hi \<le> 65535" "lo \<le> hi"
    using assms i by (auto simp: validatePortRange_def split: option.splits if_splits)
  have "length (take i v) < length v" using arg_cong [OF str_index_split [OF i], of length] by simp
  then have "i < length v" by (cases "i < length v") simp_all
  then have "v ! i = CHR ''-''" using str_index_split [OF i] by (metis add_diff_cancel_left' append_Cons length_take less_imp_le_nat min.absorb2 nth_append_length)
  then show thesis using that a by blast
qed

lemma NewPortManager_range:
  assumes "1 \<le> lo" and "lo \<le> hi" and "hi \<le> 65535"
  shows "\<exists>pm. NewPortManager (of_int lo) (of_int hi) = Some pm"
proof -
  have "uint (of_int lo :: u16) = lo" "uint (of_int hi :: u16) = hi" using assms by (simp_all add: uint_word_of_int)
  then have "(of_int lo :: u16) \<le> of_int hi" using assms(2) by (simp add: word_le_def)
  then show ?thesis by (simp add: NewPortManager_def not_less)
qed

lemma validated:
  assumes "pc_Validate pd ip_ok c = None"
  shows "check_durations pd (duration_fields c) = None" "pc_PortRange c \<noteq> [] \<Longrightarrow> validatePortRange (pc_PortRange c) = None"
    "pc_Enabled c \<Longrightarrow> validate_enabled ip_ok c = None" "pc_MediaTransport c \<in> {[], ''tcp-passive'', ''udp'', ''tcp-active''}"
  using assms by (auto simp: pc_Validate_def Let_def split: if_splits option.splits)

lemma check_durations_ok:
  "check_durations pd fs = None \<Longrightarrow> (n, v) \<in> set fs \<Longrightarrow> v \<noteq> [] \<Longrightarrow> \<exists>d. pd v = Some d \<and> 0 < d"
  by (induction pd fs rule: check_durations.induct) (auto split: if_splits option.splits)

lemma effectiveDuration_pos:
  assumes "v = [] \<or> (\<exists>d. pd v = Some d \<and> 0 < d)" and "0 < dflt"
  shows "0 < effectiveDuration pd v dflt"
  using assms by (auto simp: effectiveDuration_def)

text \<open>
  A configuration that passes \<open>Validate\<close> is one the server can run with. When it is enabled, the listen
  address has a port of 1 to 65535, every SSRC numbered from its server identifier is ten digits that fit 32 bits
  (so that devices accept the offers), and a configured port range makes a port pool; the REGISTER lockout
  has a positive window and duration.
\<close>

theorem validated_config_usable:
  assumes "pc_Validate pd ip_ok c = None" and "pc_Enabled c" and "0 \<le> seq"
  shows "(\<exists>host port. parseSIPListen (pc_SIPListen c) = Inr (host, port) \<and> 1 \<le> port \<and> port \<le> 65535 \<and> (host = [] \<or> ip_ok host))
    \<and> ParseUint32 (SSRC playback (pc_ServerID c) seq) \<noteq> None
    \<and> 0 < effectiveDuration pd (pc_RegisterFailureWindow c) (seconds 60) \<and> 0 < effectiveDuration pd (pc_RegisterLockoutDuration c) (seconds 60)
    \<and> (pc_PortRange c \<noteq> [] \<longrightarrow> (\<exists>lo hi pm i. go_atoi (take i (pc_PortRange c)) = Some lo \<and> go_atoi (drop (Suc i) (pc_PortRange c)) = Some hi
         \<and> 1 \<le> lo \<and> lo \<le> hi \<and> hi \<le> 65535 \<and> NewPortManager (of_int lo) (of_int hi) = Some pm))"
proof -
  have en: "validate_enabled ip_ok c = None" using validated(3) assms(1,2) .
  have ports: "\<exists>lo hi pm i. go_atoi (take i (pc_PortRange c)) = Some lo \<and> go_atoi (drop (Suc i) (pc_PortRange c)) = Some hi
         \<and> 1 \<le> lo \<and> lo \<le> hi \<and> hi \<le> 65535 \<and> NewPortManager (of_int lo) (of_int hi) = Some pm" if "pc_PortRange c \<noteq> []"
    using validatePortRange_ok [OF validated(2) [OF assms(1) that]] NewPortManager_range by metis
  have dur: "v = [] \<or> (\<exists>d. pd v = Some d \<and> 0 < d)" if "(n, v) \<in> set (duration_fields c)" for n v
    using check_durations_ok [OF validated(1) [OF assms(1)] that] by blast
  have pos: "0 < effectiveDuration pd (pc_RegisterFailureWindow c) (seconds 60)" "0 < effectiveDuration pd (pc_RegisterLockoutDuration c) (seconds 60)"
    using dur [of "''RegisterFailureWindow''"] dur [of "''RegisterLockoutDuration''"]
    by (auto simp: duration_fields_def seconds_def intro!: effectiveDuration_pos)
  obtain host port where l: "parseSIPListen (pc_SIPListen c) = Inr (host, port)" "host = [] \<or> ip_ok host" "list_all is_digit (pc_ServerID c)"
    using en by (auto simp: validate_enabled_def allDigits_def split: if_splits sum.splits prod.splits)
  have "1 \<le> port" "port \<le> 65535" using l(1) by (auto simp: parseSIPListen_def split: if_splits option.splits prod.splits)
  then show ?thesis using l ports pos SSRC_parses(1) [OF l(3) assms(3), of playback] by simp
qed

definition sample_config :: platform_config where
  "sample_config = \<lparr>pc_Enabled = True, pc_SIPListen = '':5060'', pc_ServerID = ''34020000002000000001'', pc_Realm = ''3402000000'',
     pc_Password = ''secret'', pc_ProtocolVersion = [], pc_RegisterFailureLimit = 0, pc_RegisterFailureWindow = [],
     pc_RegisterLockoutDuration = [], pc_StrictAuth = False, pc_UserAgent = [], pc_InviteResponseTimeout = [], pc_PortRange = ''3-5'',
     pc_AllowedDeviceIDs = [], pc_HeartbeatInterval = [], pc_CatalogInterval = [], pc_SubChannelProbe = [], pc_SubChannelProbeOffset = 0,
     pc_TCPMode = False, pc_TCPFraming = [], pc_MediaTransport = ''udp'', pc_MonitorUserID = [], pc_SIPTransport = [], pc_TLSCertFile = [],
     pc_TLSKeyFile = [], pc_SubscribeCatalog = None, pc_SubscribeAlarm = None, pc_SubscribeMobilePosition = False,
     pc_SubscribeExpires = [], pc_AlarmLinkage = None\<rparr>"

lemma sample_listen: "parseSIPListen '':5060'' = Inr ([], 5060)"
  by (simp add: parseSIPListen_def SplitHostPort_def last_colon_def go_atoi_def is_digit_def digit_val_def)

lemma sample_range: "validatePortRange ''3-5'' = None"
  by (simp add: validatePortRange_def str_index.simps go_atoi_def is_digit_def digit_val_def)

lemma sample_valid: "pc_Validate (\<lambda>_. None) (\<lambda>_. True) sample_config = None"
  by (simp add: pc_Validate_def sample_config_def duration_fields_def sample_range validate_enabled_def sample_listen allDigits_def is_digit_def)

theorem validated_config_usable_witness:
  "ParseUint32 (SSRC True (pc_ServerID sample_config) 7) \<noteq> None \<and> (\<exists>pm. NewPortManager 3 5 = Some pm)"
  using validated_config_usable [OF sample_valid, of 7 True]
  by (simp add: sample_config_def NewPortManager_def)

end
