(* ===== verification/Manscdp.thy ===== *)
theory Manscdp
  imports Go_Strings
begin

text \<open>
  The MANSCDP messages that pass between device and platform and the decoder of
  \<open>src/manscdp/codec.go\<close>, with the message types of \<open>src/manscdp/types.go\<close> the platform's handlers read.

  The record \<open>xml_env\<close> holds what the decoder calls outside the program: the UTF-8 check, the GB18030 and GBK
  decoders, and \<open>xml.Unmarshal\<close>, as the probe for root element and command type and as the decoding of a body into
  one of the message types (with \<open>normalize\<close>, which moves attribute forms into the fields).
\<close>

subsection \<open>Messages\<close>

record catalog_item =
  it_DeviceID :: string
  it_Name :: string
  it_Parental :: int
  it_Manufacturer :: string
  it_Model :: string
  it_PTZType :: int
  it_Photoelectric :: int

record record_item =
  ri_DeviceID :: string
  ri_Name :: string
  ri_FilePath :: string
  ri_StartTime :: string
  ri_EndTime :: string

record gb_alarm =
  ga_DeviceID :: string
  ga_Priority :: string
  ga_Method :: string
  ga_Time :: string
  ga_Description :: string
  ga_Type :: string

record mobile_position =
  mp_DeviceID :: string
  mp_Time :: string
  mp_Longitude :: string
  mp_Latitude :: string
  mp_Speed :: string
  mp_Direction :: string
  mp_Altitude :: string

text \<open>The types \<open>Decode\<close> may return; the ones no handler of the platform reads are \<open>POther\<close>.\<close>

datatype msg_kind =
    KCatalogNotify | KCatalogQuery | KCatalog | KTimeSyncResponse | KTimeSyncQuery | KMobilePosition | KRecordInfoQuery | KRecordInfo
  | KHomePositionQuery | KHomePositionResponse | KCruiseTrackListQuery | KCruiseTrackListResponse | KCruiseTrackQuery
  | KCruiseTrackResponse | KPTZPositionQuery | KPTZPositionResponse | KSDCardStatusQuery | KSDCardStatusResponse
  | KBroadcastResponse | KBroadcast | KUploadSnapShotFinished | KDeviceUpgradeResult | KKeepalive | KDeviceInfo | KDeviceStatus
  | KDeviceControl | KDeviceConfig | KAlarm

datatype payload =
    PCatalogNotify string "catalog_item list"
  | PCatalog string "catalog_item list"
  | PKeepalive string string
  | PDeviceInfo string string string string
  | PDeviceStatus string string
  | PRecordInfo string int int "record_item list"
  | PAlarm gb_alarm
  | PMobilePosition mobile_position
  | PSnapShotFinished string string "string list"
  | PTimeSyncQuery string int
  | PBroadcastResponse string string
  | POther msg_kind

fun kind_of :: "payload \<Rightarrow> msg_kind" where
  "kind_of (PCatalogNotify _ _) = KCatalogNotify"
| "kind_of (PCatalog _ _) = KCatalog"
| "kind_of (PKeepalive _ _) = KKeepalive"
| "kind_of (PDeviceInfo _ _ _ _) = KDeviceInfo"
| "kind_of (PDeviceStatus _ _) = KDeviceStatus"
| "kind_of (PRecordInfo _ _ _ _) = KRecordInfo"
| "kind_of (PAlarm _) = KAlarm"
| "kind_of (PMobilePosition _) = KMobilePosition"
| "kind_of (PSnapShotFinished _ _ _) = KUploadSnapShotFinished"
| "kind_of (PTimeSyncQuery _ _) = KTimeSyncQuery"
| "kind_of (PBroadcastResponse _ _) = KBroadcastResponse"
| "kind_of (POther k) = k"

subsection \<open>Routing\<close>

text \<open>The message type for a root element and a command type: the two switches of \<open>decodeOnce\<close> in order.\<close>

definition route :: "string \<Rightarrow> string \<Rightarrow> msg_kind option" where
  "route root cmd =
     (if cmd = ''Catalog'' \<and> root = ''Notify'' then Some KCatalogNotify
      else if cmd = ''Catalog'' \<and> root = ''Query'' then Some KCatalogQuery
      else if cmd = ''TimeSync'' \<and> root = ''Response'' then Some KTimeSyncResponse
      else if cmd = ''TimeSync'' then Some KTimeSyncQuery
      else if cmd = ''MobilePosition'' then Some KMobilePosition
      else if cmd = ''RecordInfo'' \<and> root = ''Query'' then Some KRecordInfoQuery
      else if cmd = ''HomePositionQuery'' \<and> root = ''Query'' then Some KHomePositionQuery
      else if cmd = ''HomePositionQuery'' then Some KHomePositionResponse
      else if cmd = ''CruiseTrackListQuery'' \<and> root = ''Query'' then Some KCruiseTrackListQuery
      else if cmd = ''CruiseTrackListQuery'' then Some KCruiseTrackListResponse
      else if cmd = ''CruiseTrackQuery'' \<and> root = ''Query'' then Some KCruiseTrackQuery
      else if cmd = ''CruiseTrackQuery'' then Some KCruiseTrackResponse
      else if cmd = ''PTZPosition'' \<and> root = ''Query'' then Some KPTZPositionQuery
      else if cmd = ''PTZPosition'' then Some KPTZPositionResponse
      else if cmd = ''SDCardStatus'' \<and> root = ''Query'' then Some KSDCardStatusQuery
      else if cmd = ''SDCardStatus'' then Some KSDCardStatusResponse
      else if cmd = ''Broadcast'' \<and> root = ''Response'' then Some KBroadcastResponse
      else if cmd = ''Catalog'' then Some KCatalog
      else if cmd = ''UploadSnapShotFinished'' then Some KUploadSnapShotFinished
      else if cmd = ''DeviceUpgradeResult'' then Some KDeviceUpgradeResult
      else if cmd = ''Keepalive'' then Some KKeepalive
      else if cmd = ''DeviceInfo'' then Some KDeviceInfo
      else if cmd = ''DeviceStatus'' then Some KDeviceStatus
      else if cmd = ''RecordInfo'' then Some KRecordInfo
      else if cmd = ''DeviceControl'' then Some KDeviceControl
      else if cmd = ''DeviceConfig'' then Some KDeviceConfig
      else if cmd = ''Alarm'' then Some KAlarm
      else if cmd = ''Broadcast'' then Some KBroadcast
      else None)"

text \<open>The command type that goes with a message type.\<close>

definition kind_cmd :: "msg_kind \<Rightarrow> string" where
  "kind_cmd k = (case k of
     KCatalogNotify \<Rightarrow> ''Catalog'' | KCatalogQuery \<Rightarrow> ''Catalog'' | KCatalog \<Rightarrow> ''Catalog'' | KTimeSyncResponse \<Rightarrow> ''TimeSync''
   | KTimeSyncQuery \<Rightarrow> ''TimeSync'' | KMobilePosition \<Rightarrow> ''MobilePosition'' | KRecordInfoQuery \<Rightarrow> ''RecordInfo'' | KRecordInfo \<Rightarrow> ''RecordInfo''
   | KHomePositionQuery \<Rightarrow> ''HomePositionQuery'' | KHomePositionResponse \<Rightarrow> ''HomePositionQuery''
   | KCruiseTrackListQuery \<Rightarrow> ''CruiseTrackListQuery'' | KCruiseTrackListResponse \<Rightarrow> ''CruiseTrackListQuery''
   | KCruiseTrackQuery \<Rightarrow> ''CruiseTrackQuery'' | KCruiseTrackResponse \<Rightarrow> ''CruiseTrackQuery''
   | KPTZPositionQuery \<Rightarrow> ''PTZPosition'' | KPTZPositionResponse \<Rightarrow> ''PTZPosition''
   | KSDCardStatusQuery \<Rightarrow> ''SDCardStatus'' | KSDCardStatusResponse \<Rightarrow> ''SDCardStatus''
   | KBroadcastResponse \<Rightarrow> ''Broadcast'' | KBroadcast \<Rightarrow> ''Broadcast'' | KUploadSnapShotFinished \<Rightarrow> ''UploadSnapShotFinished''
   | KDeviceUpgradeResult \<Rightarrow> ''DeviceUpgradeResult'' | KKeepalive \<Rightarrow> ''Keepalive'' | KDeviceInfo \<Rightarrow> ''DeviceInfo''
   | KDeviceStatus \<Rightarrow> ''DeviceStatus'' | KDeviceControl \<Rightarrow> ''DeviceControl'' | KDeviceConfig \<Rightarrow> ''DeviceConfig'' | KAlarm \<Rightarrow> ''Alarm'')"

lemma route_cmd: "route root cmd = Some k \<Longrightarrow> kind_cmd k = cmd"
  unfolding route_def by (auto simp: kind_cmd_def split: if_splits)

subsection \<open>The decoder\<close>

record xml_env =
  xe_utf8 :: "string \<Rightarrow> bool"
  xe_gb18030 :: "string \<Rightarrow> string option"
  xe_gbk :: "string \<Rightarrow> string option"
  xe_probe :: "string \<Rightarrow> (string \<times> string \<times> string) option"
  xe_unmarshal :: "msg_kind \<Rightarrow> string \<Rightarrow> payload option"

datatype decode_error = XmlError | MissingCmdType | UnsupportedCmdType string | CharsetError

definition stripXMLDecl :: "string \<Rightarrow> string" where
  "stripXMLDecl data =
     (let trimmed = TrimLeft data ('' '' @ [CHR 0x09, CHR 0x0D, CHR 0x0A]) in
      if \<not> HasPrefix trimmed ''<?xml'' then data
      else case str_index ''?>'' trimmed of Some e \<Rightarrow> drop (e + 2) trimmed | None \<Rightarrow> data)"

definition CharsetDecode :: "xml_env \<Rightarrow> string \<Rightarrow> decode_error + string" where
  "CharsetDecode env data =
     (let attempt = (\<lambda>dec. case dec data of Some out \<Rightarrow> if xe_utf8 env out then Some out else None | None \<Rightarrow> None) in
      if xe_utf8 env data then Inr data
      else case attempt (xe_gb18030 env) of
        Some out \<Rightarrow> Inr out
      | None \<Rightarrow> (case attempt (xe_gbk env) of Some out \<Rightarrow> Inr out | None \<Rightarrow> Inl CharsetError))"

definition decodeOnce :: "xml_env \<Rightarrow> string \<Rightarrow> decode_error + string \<times> payload" where
  "decodeOnce env data =
     (let body = stripXMLDecl data in
      case xe_probe env body of
        None \<Rightarrow> Inl XmlError
      | Some (root, el, attr) \<Rightarrow>
          let cmd = (if el = [] then attr else el) in
          if cmd = [] then Inl MissingCmdType
          else case route root cmd of
            None \<Rightarrow> Inl (UnsupportedCmdType cmd)
          | Some k \<Rightarrow> (case xe_unmarshal env k body of None \<Rightarrow> Inl XmlError | Some p \<Rightarrow> Inr (cmd, p)))"

definition Decode :: "xml_env \<Rightarrow> string \<Rightarrow> decode_error + string \<times> payload" where
  "Decode env data =
     (let again = (case CharsetDecode env data of Inl e \<Rightarrow> Inl e | Inr c \<Rightarrow> decodeOnce env c) in
      if xe_utf8 env data then (case decodeOnce env data of Inr r \<Rightarrow> Inr r | Inl _ \<Rightarrow> again) else again)"

text \<open>\<open>xml.Unmarshal\<close> decodes into a value of the type it is given.\<close>

definition xml_typed :: "xml_env \<Rightarrow> bool" where
  "xml_typed env \<longleftrightarrow> (\<forall>k body p. xe_unmarshal env k body = Some p \<longrightarrow> kind_of p = k)"

lemma decodeOnce_kind:
  assumes "xml_typed env" and "decodeOnce env data = Inr (cmd, p)"
  shows "cmd = kind_cmd (kind_of p)"
  using assms route_cmd by (fastforce simp: decodeOnce_def Let_def xml_typed_def split: option.splits prod.splits if_splits)

lemma Decode_kind:
  assumes "xml_typed env" and "Decode env data = Inr (cmd, p)"
  shows "cmd = kind_cmd (kind_of p)"
  using assms(2) decodeOnce_kind [OF assms(1)] by (auto simp: Decode_def Let_def split: sum.splits if_splits)

end
