(* ===== verification/Sip_Server.thy ===== *)
theory Sip_Server
  imports Session_Mgr Sip_Config Digest Manscdp
begin

text \<open>
  The state of the platform's SIP server (\<open>src/platform/sip/server.go\<close>) and its REGISTER handler.

  A request is what the handlers read of it: the user parts of \<open>From\<close> and \<open>To\<close>, the source, the generic headers.
  The SIP stack (gosip) is a parameter: \<open>auth_view\<close> is a parsed \<open>Authorization\<close> header with the response computed
  for a password and a method. The A-level authenticator, the camera enroller and the device store are interfaces of
  the host: the first is a record of functions, calls of the others are events of \<open>sv_log\<close> and their
  answers come from \<open>host_env\<close>. A goroutine that a handler starts is an entry of \<open>sv_tasks\<close>. The session manager and the
  registry share their channel objects: \<open>sv_addr\<close> gives the address of the object registered for a device and a channel,
  in the store \<open>sm_chans\<close> of the session manager, where its status lives. \<open>bye_sent\<close> is the SIP side of a BYE that the session
  manager asks for.
\<close>

subsection \<open>Requests and interfaces\<close>

record sip_request =
  rq_method :: string
  rq_from :: "string option"
  rq_to :: "string option"
  rq_source :: string
  rq_transport :: string
  rq_callID :: "string option"
  rq_generic :: "string \<Rightarrow> string list"
  rq_wire :: "string \<Rightarrow> string"
  rq_expires :: "int option"
  rq_body :: string

record auth_view =
  av_Username :: string
  av_Response :: string
  av_Calc :: "string \<Rightarrow> string \<Rightarrow> string"

record register_authenticator =
  ra_Challenge :: "string \<Rightarrow> string \<Rightarrow> string option"
  ra_VerifyRegister :: "string \<Rightarrow> string \<Rightarrow> string option"
  ra_VerifyNote :: "string \<Rightarrow> string \<Rightarrow> string \<Rightarrow> string \<Rightarrow> string \<Rightarrow> string \<Rightarrow> string \<Rightarrow> string \<Rightarrow> bool"

record host_env =
  he_camera :: "string \<Rightarrow> string \<Rightarrow> string option"
  he_nalu :: "string \<Rightarrow> bool"
  he_audio :: "string \<Rightarrow> bool"
  he_channels :: "string \<Rightarrow> string list option"

datatype sv_event =
    DbUpsertDevice string string string string string | DbDeleteDevice string | DbOffline string
  | DbUpsertChannel string string string string string | DbDeleteChannel string
  | EnsureCamera string string string string | ArchiveCamera string string | CameraBye string | CameraInvite string
  | CameraMeta string string string | WireBye string | WireReset string | WireSubscribe string string | WireMessage string string
  | WireInvite string string | WireAck string | PublishAlarm string | PublishSnapshot string string "string list"

datatype sv_task = TDetails string | TAutoInvite string | TProbe string | TTimeSync string int | TWatch string string

type_synonym reply = "nat \<times> string \<times> (string \<times> string) list"

record gb_subscription =
  gs_deviceID :: string
  gs_subject :: string
  gs_expires :: int
  gs_refreshAt :: int

record alarm_event =
  ae_CameraID :: string
  ae_alarm :: gb_alarm
  ae_ReceivedAt :: int

record pending_query =
  pq_sn :: int
  pq_sumNum :: int
  pq_items :: "record_item list"
  pq_done :: bool

record sip_dialog =
  dg_callID :: "string option"
  dg_ends :: bool

subsection \<open>The server\<close>

record sip_server =
  sv_cfg :: platform_config
  sv_auth :: "register_authenticator option"
  sv_started :: bool
  sv_dm :: device_manager
  sv_sm :: session_manager
  sv_addr :: "string \<Rightarrow> string \<Rightarrow> nat"
  sv_fresh :: nat
  sv_authFailures :: authFailureTracker
  sv_db :: bool
  sv_enroller :: bool
  sv_onInvite :: bool
  sv_onBye :: bool
  sv_dialogs :: "(string \<times> sip_dialog) list"
  sv_pbDialogs :: "(string \<times> sip_dialog) list"
  sv_playbacks :: "string list"
  sv_recordQueries :: "(string \<times> nat) list"
  sv_queries :: "pending_query list"
  sv_subscriptions :: "(string \<times> gb_subscription) list"
  sv_alarmRing :: "string \<Rightarrow> alarm_event list"
  sv_posRing :: "string \<Rightarrow> (mobile_position \<times> int) list"
  sv_eventBus :: bool
  sv_talks :: "(string \<times> string) list"
  sv_holds :: "(string \<times> string \<times> int) list"
  sv_log :: "sv_event list"
  sv_tasks :: "sv_task list"

definition NewServer :: "(string \<Rightarrow> int option) \<Rightarrow> platform_config \<Rightarrow> register_authenticator option \<Rightarrow> string option \<Rightarrow> device_manager \<Rightarrow> session_manager \<Rightarrow> bool \<Rightarrow> sip_server" where
  "NewServer pd cfg auth offer dm sm db =
     \<lparr>sv_cfg = cfg, sv_auth = auth, sv_started = False, sv_dm = dm,
      sv_sm = SetPlaybackByeSender
        ((\<lambda>m. if offer = None then m else SetMediaSecurityOffer m offer)
          (SetTCPFraming (SetMediaTransport (SetFirstRTPHook (SetByeSender sm True) True) (Some (pc_MediaTransport cfg))) (Some (pc_TCPFraming cfg)))) True,
      sv_addr = (\<lambda>_ _. 0), sv_fresh = 0,
      sv_authFailures = newAuthFailureTracker (effectiveRegisterFailureLimit cfg)
        (effectiveDuration pd (pc_RegisterFailureWindow cfg) (seconds 60)) (effectiveDuration pd (pc_RegisterLockoutDuration cfg) (seconds 60)),
      sv_db = db, sv_enroller = False, sv_onInvite = False, sv_onBye = False, sv_dialogs = [], sv_pbDialogs = [], sv_playbacks = [],
      sv_recordQueries = [], sv_queries = [], sv_subscriptions = [], sv_alarmRing = (\<lambda>_. []), sv_posRing = (\<lambda>_. []), sv_eventBus = False, sv_talks = [], sv_holds = [],
      sv_log = [], sv_tasks = []\<rparr>"

definition sv_emit :: "sip_server \<Rightarrow> sv_event list \<Rightarrow> sip_server" where
  "sv_emit s evs = s\<lparr>sv_log := sv_log s @ evs\<rparr>"

definition sv_go :: "sip_server \<Rightarrow> sv_task list \<Rightarrow> sip_server" where
  "sv_go s ts = s\<lparr>sv_tasks := sv_tasks s @ ts\<rparr>"

text \<open>\<open>sendByeForChannel\<close> and \<open>sendByeForPlayback\<close>: the dialog is forgotten and, if the stack runs, a BYE is sent on it.\<close>

fun bye_sent :: "sip_server \<Rightarrow> sm_event \<Rightarrow> sip_server" where
  "bye_sent s (SipBye i) =
     (let s' = s\<lparr>sv_dialogs := AList.delete i (sv_dialogs s)\<rparr> in
      case map_of (sv_dialogs s) i of
        None \<Rightarrow> s'
      | Some d \<Rightarrow> if sv_started s \<and> dg_ends d then sv_emit s' [WireBye i] else s')"
| "bye_sent s (PlaybackBye i) =
     (let s' = s\<lparr>sv_pbDialogs := AList.delete i (sv_pbDialogs s)\<rparr> in
      case map_of (sv_pbDialogs s) i of
        None \<Rightarrow> s'
      | Some d \<Rightarrow> if sv_started s \<and> dg_ends d then sv_emit s' [WireBye i] else s')"
| "bye_sent s _ = s"

text \<open>Take over the state of the session manager after a call, with the BYEs it asked for.\<close>

definition absorb :: "sip_server \<Rightarrow> session_manager \<Rightarrow> sip_server" where
  "absorb s m = foldl bye_sent (s\<lparr>sv_sm := m\<rparr>) (drop (length (sm_log (sv_sm s))) (sm_log m))"

subsection \<open>Channels\<close>

text \<open>A new channel object, and the status of a registered one.\<close>

definition register_channel :: "sip_server \<Rightarrow> string \<Rightarrow> channel \<Rightarrow> sip_server" where
  "register_channel s dev ch =
     (let a = sv_fresh s; ch = attach dev ch in
      s\<lparr>sv_dm := RegisterChannel (sv_dm s) dev ch, sv_fresh := Suc a,
        sv_sm := (sv_sm s)\<lparr>sm_chans := (sm_chans (sv_sm s))(a := ch)\<rparr>,
        sv_addr := (sv_addr s)(dev := (sv_addr s dev)(ch_ID ch := a))\<rparr>)"

definition channel_state :: "sip_server \<Rightarrow> string \<Rightarrow> string \<Rightarrow> channel_status" where
  "channel_state s dev c = ch_Status (sm_chans (sv_sm s) (sv_addr s dev c))"

definition plain_channel :: "string \<Rightarrow> string \<Rightarrow> channel" where
  "plain_channel i name =
     \<lparr>ch_DeviceID = [], ch_ID = i, ch_Name = name, ch_Parental = 0, ch_Status = ChannelIdle, ch_PTZType = 0, ch_Photoelectric = 0,
      ch_SubProbe = False, ch_TypeCode = 0, ch_AudioOnly = False\<rparr>"

definition deviceOfChannel :: "sip_server \<Rightarrow> string \<Rightarrow> string" where
  "deviceOfChannel s c =
     (case find (\<lambda>d. FindChannel (sv_dm s) (dv_ID d) c \<noteq> None) (AllDevices (sv_dm s)) of None \<Rightarrow> [] | Some d \<Rightarrow> dv_ID d)"

text \<open>The camera bound to a channel, when an enroller is installed.\<close>

definition bound_camera :: "host_env \<Rightarrow> sip_server \<Rightarrow> string \<Rightarrow> string \<Rightarrow> string option" where
  "bound_camera h s dev c = (if sv_enroller s then he_camera h dev c else None)"

definition notifyCameraBye :: "host_env \<Rightarrow> sip_server \<Rightarrow> string \<Rightarrow> string \<Rightarrow> sip_server" where
  "notifyCameraBye h s dev c = (case bound_camera h s dev c of None \<Rightarrow> s | Some cam \<Rightarrow> sv_emit s [CameraBye cam])"

definition unsubscribeDevice :: "sip_server \<Rightarrow> string \<Rightarrow> sip_server" where
  "unsubscribeDevice s dev = s\<lparr>sv_subscriptions := filter (\<lambda>(k, sub). gs_deviceID sub \<noteq> dev) (sv_subscriptions s)\<rparr>"

definition teardownDevice :: "host_env \<Rightarrow> sip_server \<Rightarrow> string \<Rightarrow> sip_server go" where
  "teardownDevice h s dev = do {
     m \<leftarrow> ByeDevice (sv_sm s) dev;
     let s = unsubscribeDevice (absorb s m) dev;
     Some (foldl (\<lambda>s ch. notifyCameraBye h s dev (ch_ID ch)) s (Channels (sv_dm s) dev)) }"

definition OnDeviceOffline :: "host_env \<Rightarrow> sip_server \<Rightarrow> string \<Rightarrow> sip_server go" where
  "OnDeviceOffline h s dev = do {
     m \<leftarrow> ByeDevice (sv_sm s) dev;
     let s = absorb s m;
     Some (foldl (\<lambda>s ch. notifyCameraBye h s dev (ch_ID ch)) s (Channels (sv_dm s) dev)) }"

subsection \<open>Headers\<close>

definition rawHeaderValue :: "sip_request \<Rightarrow> string \<Rightarrow> string" where
  "rawHeaderValue req name = (case rq_generic req name of [] \<Rightarrow> [] | v # _ \<Rightarrow> TrimSpace v)"

definition authScheme :: "string \<Rightarrow> string" where
  "authScheme a =
     (let w = takeWhile (\<lambda>c. c \<noteq> CHR '' '' \<and> c \<noteq> CHR 0x09) a in if w = [] then a else w)"

definition isAllowedDevice :: "platform_config \<Rightarrow> string \<Rightarrow> bool" where
  "isAllowedDevice c dev \<longleftrightarrow> pc_AllowedDeviceIDs c = [] \<or> dev \<in> set (pc_AllowedDeviceIDs c)"

definition getAuthHeader :: "(string \<Rightarrow> auth_view) \<Rightarrow> sip_request \<Rightarrow> auth_view option" where
  "getAuthHeader pa req = (case rq_generic req ''Authorization'' of [] \<Rightarrow> None | v # _ \<Rightarrow> Some (pa v))"

definition validateDigest :: "platform_config \<Rightarrow> auth_view \<Rightarrow> string \<Rightarrow> sip_request \<Rightarrow> bool" where
  "validateDigest c a dev req \<longleftrightarrow> av_Username a = dev \<and> av_Calc a (pc_Password c) (rq_method req) = av_Response a"

definition deviceHasCatalogChannels :: "host_env \<Rightarrow> sip_server \<Rightarrow> string \<Rightarrow> bool" where
  "deviceHasCatalogChannels h s dev =
     (sv_db s \<and> (case he_channels h dev of None \<Rightarrow> False | Some cs \<Rightarrow> \<exists>c \<in> set cs. c \<noteq> dev))"

subsection \<open>REGISTER\<close>

text \<open>The GB35114 part: a reply, or the security information of a verified REGISTER.\<close>

definition alevel :: "sip_server \<Rightarrow> sip_request \<Rightarrow> string \<Rightarrow> int \<Rightarrow> sip_server \<times> (reply + string option)" where
  "alevel s req dev now =
     (case sv_auth s of
        None \<Rightarrow> (s, Inr None)
      | Some ra \<Rightarrow>
          let v = rawHeaderValue req ''Authorization''; scheme = authScheme v; key = hostOfAddr (rq_source req) in
          if scheme = ''Capability''
          then (case ra_Challenge ra dev v of
                  None \<Rightarrow> (s, Inl (403, ''A-level challenge failed'', []))
                | Some w \<Rightarrow> (s, Inl (401, ''Unauthorized'', appendXGBVer [(''WWW-Authenticate'', w)] (pc_ProtocolVersion (sv_cfg s)))))
          else if scheme = ''Unidirection'' \<or> scheme = ''Bidirection''
          then (case ra_VerifyRegister ra dev v of
                  None \<Rightarrow> (s\<lparr>sv_authFailures := recordFailure (sv_authFailures s) key now\<rparr>, Inl (403, ''A-level verification failed'', []))
                | Some si \<Rightarrow> (s\<lparr>sv_authFailures := recordSuccess (sv_authFailures s) key\<rparr>, Inr (Some si)))
          else (s, Inr None))"

text \<open>The lockout and the digest part.\<close>

definition digest_part :: "(string \<Rightarrow> auth_view) \<Rightarrow> sip_server \<Rightarrow> sip_request \<Rightarrow> string \<Rightarrow> bool \<Rightarrow> string \<Rightarrow> int \<Rightarrow> sip_server \<times> reply option" where
  "digest_part pa s req dev authed nonce now =
     (let key = hostOfAddr (rq_source req); (t, isLocked) = locked (sv_authFailures s) key now; s = s\<lparr>sv_authFailures := t\<rparr>; c = sv_cfg s in
      if isLocked then (s, Some (403, ''Too many auth failures'', []))
      else if \<not> authed \<and> pc_Password c \<noteq> []
      then (case getAuthHeader pa req of
              None \<Rightarrow> (s, Some (401, ''Unauthorized'', appendXGBVer [(''WWW-Authenticate'', challenge_value (pc_Realm c) nonce)] (pc_ProtocolVersion c)))
            | Some a \<Rightarrow>
                if \<not> validateDigest c a dev req
                then (s\<lparr>sv_authFailures := recordFailure t key now\<rparr>, Some (403, ''Invalid credentials'', []))
                else (s\<lparr>sv_authFailures := recordSuccess t key\<rparr>, None))
      else if \<not> authed \<and> pc_Password c = [] \<and> sv_auth s = None \<and> pc_StrictAuth c
      then (s, Some (403, ''No authentication configured'', []))
      else (s, None))"

definition unregister_device :: "host_env \<Rightarrow> sip_server \<Rightarrow> string \<Rightarrow> sip_server go" where
  "unregister_device h s dev = do {
     s \<leftarrow> teardownDevice h s dev;
     let s = s\<lparr>sv_dm := Unregister (sv_dm s) dev\<rparr>;
     Some (if sv_db s then sv_emit s [DbDeleteDevice dev] else s) }"

definition new_device :: "string \<Rightarrow> string \<Rightarrow> string \<Rightarrow> device" where
  "new_device dev addr transport =
     \<lparr>dv_ID = dev, dv_Name = [], dv_Manufacturer = [], dv_Model = [], dv_NetAddr = addr, dv_Transport = transport,
      dv_Status = DeviceOffline, dv_channels = [], dv_lastKeepalive = 0\<rparr>"

text \<open>A re-REGISTER from another host tears the sessions of the device down.\<close>

definition recycle_moved :: "sip_server \<Rightarrow> string \<Rightarrow> string \<Rightarrow> sip_server go" where
  "recycle_moved s dev source =
     (case dm_Device (sv_dm s) dev of
        None \<Rightarrow> Some s
      | Some d \<Rightarrow>
          if hostOfAddr (dv_NetAddr d) \<noteq> hostOfAddr source then map_option (absorb s) (ByeDevice (sv_sm s) dev) else Some s)"

text \<open>What the host is told of a registration, \<open>fresh\<close> when the device was made a channel of itself.\<close>

definition note_registration :: "sip_server \<Rightarrow> string \<Rightarrow> bool \<Rightarrow> string \<Rightarrow> sip_server" where
  "note_registration s dev fresh source =
     sv_emit s ((if sv_db s then [DbUpsertDevice dev [] [] [] ''online''] @ (if fresh then [DbUpsertChannel dev dev [] ''idle'' []] else []) else [])
       @ (if fresh \<and> sv_enroller s then [EnsureCamera dev dev [] (hostOfAddr source)] else []))"

definition register_device :: "host_env \<Rightarrow> sip_server \<Rightarrow> string \<Rightarrow> sip_request \<Rightarrow> int \<Rightarrow> sip_server go" where
  "register_device h s dev req now = do {
     s \<leftarrow> recycle_moved s dev (rq_source req);
     let s = s\<lparr>sv_dm := Register (sv_dm s) (new_device dev (rq_source req) (ToLower (rq_transport req))) now\<rparr>;
     let channelExists = (FindChannel (sv_dm s) dev dev \<noteq> None);
     let fresh = (\<not> channelExists \<and> \<not> deviceHasCatalogChannels h s dev);
     Some (note_registration (if fresh then register_channel s dev (plain_channel dev []) else s) dev fresh (rq_source req)) }"

definition requested_expires :: "sip_request \<Rightarrow> int" where
  "requested_expires req = (case rq_expires req of Some h \<Rightarrow> if h \<ge> 0 then h else 3600 | None \<Rightarrow> 3600)"

definition admitted :: "host_env \<Rightarrow> sip_server \<Rightarrow> string \<Rightarrow> sip_request \<Rightarrow> string option \<Rightarrow> int \<Rightarrow> (sip_server \<times> reply) go" where
  "admitted h s dev req securityInfo now = do {
     let expires = requested_expires req;
     s \<leftarrow> (if expires = 0 then unregister_device h s dev else register_device h s dev req now);
     let headers = [(''Expires'', go_itoa expires)]
        @ (case securityInfo of Some si \<Rightarrow> if si \<noteq> [] then [(''SecurityInfo'', si)] else [] | None \<Rightarrow> []);
     let s = (if expires \<noteq> 0 then sv_go s [TDetails dev, TAutoInvite dev] else s);
     Some (s, (200, ''OK'', appendXGBVer headers (pc_ProtocolVersion (sv_cfg s)))) }"

definition handleRegister :: "(string \<Rightarrow> auth_view) \<Rightarrow> host_env \<Rightarrow> sip_server \<Rightarrow> sip_request \<Rightarrow> string \<Rightarrow> int \<Rightarrow> (sip_server \<times> reply) go" where
  "handleRegister pa h s req nonce now =
     (case rq_from req of
        None \<Rightarrow> Some (s, (400, ''Missing From header'', []))
      | Some dev \<Rightarrow>
          if dev = [] then Some (s, (400, ''Missing device ID'', []))
          else if \<not> isAllowedDevice (sv_cfg s) dev then Some (s, (403, ''Device not allowed'', []))
          else case alevel s req dev now of
            (s, Inl r) \<Rightarrow> Some (s, r)
          | (s, Inr si) \<Rightarrow>
              (case digest_part pa s req dev (si \<noteq> None) nonce now of
                 (s, Some r) \<Rightarrow> Some (s, r)
               | (s, None) \<Rightarrow> admitted h s dev req si now))"

subsection \<open>Frames\<close>

lemma bye_sent_frame [simp]:
  "sv_cfg (bye_sent s e) = sv_cfg s" "sv_auth (bye_sent s e) = sv_auth s" "sv_started (bye_sent s e) = sv_started s"
  "sv_dm (bye_sent s e) = sv_dm s" "sv_sm (bye_sent s e) = sv_sm s" "sv_addr (bye_sent s e) = sv_addr s" "sv_fresh (bye_sent s e) = sv_fresh s"
  "sv_authFailures (bye_sent s e) = sv_authFailures s" "sv_db (bye_sent s e) = sv_db s" "sv_enroller (bye_sent s e) = sv_enroller s"
  "sv_subscriptions (bye_sent s e) = sv_subscriptions s" "sv_alarmRing (bye_sent s e) = sv_alarmRing s" "sv_posRing (bye_sent s e) = sv_posRing s"
  "sv_tasks (bye_sent s e) = sv_tasks s" "sv_playbacks (bye_sent s e) = sv_playbacks s" "sv_queries (bye_sent s e) = sv_queries s"
  "sv_recordQueries (bye_sent s e) = sv_recordQueries s" "sv_eventBus (bye_sent s e) = sv_eventBus s"
  by (cases e; simp add: Let_def sv_emit_def split: option.split)+

lemma byes_sent_frame [simp]:
  "sv_cfg (foldl bye_sent s es) = sv_cfg s" "sv_auth (foldl bye_sent s es) = sv_auth s" "sv_started (foldl bye_sent s es) = sv_started s"
  "sv_dm (foldl bye_sent s es) = sv_dm s" "sv_sm (foldl bye_sent s es) = sv_sm s" "sv_addr (foldl bye_sent s es) = sv_addr s"
  "sv_fresh (foldl bye_sent s es) = sv_fresh s" "sv_authFailures (foldl bye_sent s es) = sv_authFailures s"
  "sv_db (foldl bye_sent s es) = sv_db s" "sv_enroller (foldl bye_sent s es) = sv_enroller s"
  "sv_subscriptions (foldl bye_sent s es) = sv_subscriptions s" "sv_alarmRing (foldl bye_sent s es) = sv_alarmRing s"
  "sv_posRing (foldl bye_sent s es) = sv_posRing s" "sv_tasks (foldl bye_sent s es) = sv_tasks s" "sv_playbacks (foldl bye_sent s es) = sv_playbacks s"
  "sv_queries (foldl bye_sent s es) = sv_queries s" "sv_recordQueries (foldl bye_sent s es) = sv_recordQueries s"
  "sv_eventBus (foldl bye_sent s es) = sv_eventBus s"
  by (induction es arbitrary: s; simp)+

lemma absorb_frame [simp]:
  "sv_cfg (absorb s m) = sv_cfg s" "sv_auth (absorb s m) = sv_auth s" "sv_started (absorb s m) = sv_started s" "sv_dm (absorb s m) = sv_dm s"
  "sv_sm (absorb s m) = m" "sv_addr (absorb s m) = sv_addr s" "sv_fresh (absorb s m) = sv_fresh s"
  "sv_authFailures (absorb s m) = sv_authFailures s" "sv_db (absorb s m) = sv_db s" "sv_enroller (absorb s m) = sv_enroller s"
  "sv_subscriptions (absorb s m) = sv_subscriptions s" "sv_alarmRing (absorb s m) = sv_alarmRing s" "sv_posRing (absorb s m) = sv_posRing s"
  "sv_tasks (absorb s m) = sv_tasks s" "sv_playbacks (absorb s m) = sv_playbacks s" "sv_queries (absorb s m) = sv_queries s"
  "sv_recordQueries (absorb s m) = sv_recordQueries s" "sv_eventBus (absorb s m) = sv_eventBus s"
  by (simp_all add: absorb_def)

lemma emit_frame [simp]:
  "sv_cfg (sv_emit s es) = sv_cfg s" "sv_auth (sv_emit s es) = sv_auth s" "sv_started (sv_emit s es) = sv_started s" "sv_dm (sv_emit s es) = sv_dm s"
  "sv_sm (sv_emit s es) = sv_sm s" "sv_addr (sv_emit s es) = sv_addr s" "sv_fresh (sv_emit s es) = sv_fresh s"
  "sv_authFailures (sv_emit s es) = sv_authFailures s" "sv_db (sv_emit s es) = sv_db s" "sv_enroller (sv_emit s es) = sv_enroller s"
  "sv_subscriptions (sv_emit s es) = sv_subscriptions s" "sv_alarmRing (sv_emit s es) = sv_alarmRing s" "sv_posRing (sv_emit s es) = sv_posRing s"
  "sv_tasks (sv_emit s es) = sv_tasks s" "sv_log (sv_emit s es) = sv_log s @ es" "sv_dialogs (sv_emit s es) = sv_dialogs s"
  by (simp_all add: sv_emit_def)

lemma notify_frame [simp]:
  "sv_cfg (notifyCameraBye h s d c) = sv_cfg s" "sv_auth (notifyCameraBye h s d c) = sv_auth s" "sv_dm (notifyCameraBye h s d c) = sv_dm s"
  "sv_sm (notifyCameraBye h s d c) = sv_sm s" "sv_addr (notifyCameraBye h s d c) = sv_addr s" "sv_fresh (notifyCameraBye h s d c) = sv_fresh s"
  "sv_authFailures (notifyCameraBye h s d c) = sv_authFailures s" "sv_db (notifyCameraBye h s d c) = sv_db s"
  "sv_enroller (notifyCameraBye h s d c) = sv_enroller s" "sv_subscriptions (notifyCameraBye h s d c) = sv_subscriptions s"
  "sv_started (notifyCameraBye h s d c) = sv_started s" "sv_tasks (notifyCameraBye h s d c) = sv_tasks s" "sv_dialogs (notifyCameraBye h s d c) = sv_dialogs s"
  by (simp_all add: notifyCameraBye_def split: option.split)

lemma notify_all_frame [simp]:
  "sv_cfg (foldl (\<lambda>s ch. notifyCameraBye h s d (ch_ID ch)) s cs) = sv_cfg s" "sv_auth (foldl (\<lambda>s ch. notifyCameraBye h s d (ch_ID ch)) s cs) = sv_auth s"
  "sv_dm (foldl (\<lambda>s ch. notifyCameraBye h s d (ch_ID ch)) s cs) = sv_dm s" "sv_sm (foldl (\<lambda>s ch. notifyCameraBye h s d (ch_ID ch)) s cs) = sv_sm s"
  "sv_authFailures (foldl (\<lambda>s ch. notifyCameraBye h s d (ch_ID ch)) s cs) = sv_authFailures s"
  "sv_db (foldl (\<lambda>s ch. notifyCameraBye h s d (ch_ID ch)) s cs) = sv_db s"
  "sv_subscriptions (foldl (\<lambda>s ch. notifyCameraBye h s d (ch_ID ch)) s cs) = sv_subscriptions s"
  "sv_fresh (foldl (\<lambda>s ch. notifyCameraBye h s d (ch_ID ch)) s cs) = sv_fresh s" "sv_addr (foldl (\<lambda>s ch. notifyCameraBye h s d (ch_ID ch)) s cs) = sv_addr s"
  by (induction cs arbitrary: s; simp)+

lemma go_frame [simp]:
  "sv_dm (sv_go s ts) = sv_dm s" "sv_sm (sv_go s ts) = sv_sm s" "sv_cfg (sv_go s ts) = sv_cfg s" "sv_authFailures (sv_go s ts) = sv_authFailures s"
  "sv_subscriptions (sv_go s ts) = sv_subscriptions s" "sv_addr (sv_go s ts) = sv_addr s" "sv_fresh (sv_go s ts) = sv_fresh s" "sv_auth (sv_go s ts) = sv_auth s"
  by (simp_all add: sv_go_def)

lemma register_channel_frame [simp]:
  "sv_cfg (register_channel s d ch) = sv_cfg s" "sv_authFailures (register_channel s d ch) = sv_authFailures s" "sv_db (register_channel s d ch) = sv_db s"
  "sv_enroller (register_channel s d ch) = sv_enroller s" "sv_subscriptions (register_channel s d ch) = sv_subscriptions s" "sv_auth (register_channel s d ch) = sv_auth s"
  "sv_dm (register_channel s d ch) = RegisterChannel (sv_dm s) d (attach d ch)" "sm_inv (sv_sm (register_channel s d ch)) = sm_inv (sv_sm s)"
  "sm_sessions (sv_sm (register_channel s d ch)) = sm_sessions (sv_sm s)" "sm_heap (sv_sm (register_channel s d ch)) = sm_heap (sv_sm s)"
  by (simp_all add: register_channel_def Let_def) (rule sm_inv_cong; simp)

subsection \<open>What a REGISTER changes\<close>

definition sv_inv :: "sip_server \<Rightarrow> bool" where
  "sv_inv s \<longleftrightarrow> registry_ok (sv_dm s) \<and> sm_inv (sv_sm s)"

lemma Unregister_ok: "registry_ok m \<Longrightarrow> registry_ok (Unregister m i)"
  using reg_step_ok [of m "RUnregister i"] by simp

lemma teardownDevice_inv:
  assumes "sv_inv s"
  shows "\<exists>s'. teardownDevice h s dev = Some s' \<and> sv_inv s' \<and> sv_dm s' = sv_dm s \<and> sv_cfg s' = sv_cfg s \<and> sv_auth s' = sv_auth s
    \<and> sv_db s' = sv_db s \<and> sv_authFailures s' = sv_authFailures s \<and> (\<forall>(k, sub) \<in> set (sv_subscriptions s'). gs_deviceID sub \<noteq> dev)"
  using ByeDevice_inv [of "sv_sm s" dev] assms by (auto simp: teardownDevice_def sv_inv_def unsubscribeDevice_def)

lemma unregister_device_inv:
  assumes "sv_inv s"
  shows "\<exists>s'. unregister_device h s dev = Some s' \<and> sv_inv s' \<and> sv_dm s' = Unregister (sv_dm s) dev \<and> sv_cfg s' = sv_cfg s"
proof -
  obtain s1 where s1: "teardownDevice h s dev = Some s1" "sv_inv s1" "sv_dm s1 = sv_dm s" "sv_cfg s1 = sv_cfg s"
    using teardownDevice_inv [OF assms] by blast
  then show ?thesis using Unregister_ok by (auto simp: unregister_device_def sv_inv_def Let_def)
qed

lemma recycle_moved_inv:
  assumes "sv_inv s"
  shows "\<exists>s'. recycle_moved s dev src = Some s' \<and> sv_inv s' \<and> sv_dm s' = sv_dm s \<and> sv_cfg s' = sv_cfg s \<and> sv_db s' = sv_db s"
  using ByeDevice_inv [of "sv_sm s" dev] assms by (auto simp: recycle_moved_def sv_inv_def split: option.split)

lemma teardown_all_sessions: "teardown_all m as = Some m' \<Longrightarrow> sm_sessions m' = sm_sessions m \<and> (\<forall>x. ss_deviceID (sm_heap m' ! x) = ss_deviceID (sm_heap m ! x))"
proof (induction as arbitrary: m)
  case (Cons a as)
  obtain m1 where m1: "teardown m a True = Some m1" "teardown_all m1 as = Some m'"
    using Cons.prems by (auto simp: Option.bind_eq_Some_conv)
  have "ss_deviceID (sm_heap m1 ! x) = ss_deviceID (sm_heap m ! x)" for x
    using m1(1) by (cases "x = a"; cases "a < length (sm_heap m)")
      (auto simp: teardown_def Option.bind_eq_Some_conv go_idx_Some put_session_def sm_emit_def recycle_port_def set_status_def Let_def)
  then show ?case using Cons.IH [OF m1(2)] teardown_effect(8) [OF m1(1)] by simp
qed simp

lemma ByeDevice_sessions:
  assumes "ByeDevice m dev = Some m'"
  shows "sm_sessions m' = filter (\<lambda>(i, a). ss_deviceID (sm_heap m ! a) \<noteq> dev) (sm_sessions m)"
  using assms teardown_all_sessions by (auto simp: ByeDevice_def Let_def)

definition moved :: "sip_server \<Rightarrow> string \<Rightarrow> string \<Rightarrow> bool" where
  "moved s dev src = (case dm_Device (sv_dm s) dev of None \<Rightarrow> False | Some d \<Rightarrow> hostOfAddr (dv_NetAddr d) \<noteq> hostOfAddr src)"

lemma recycle_moved_sessions:
  assumes "recycle_moved s dev src = Some s'"
  shows "sm_sessions (sv_sm s') = (if moved s dev src then filter (\<lambda>(i, a). ss_deviceID (sm_heap (sv_sm s) ! a) \<noteq> dev) (sm_sessions (sv_sm s))
    else sm_sessions (sv_sm s))" "sv_dm s' = sv_dm s" "sv_cfg s' = sv_cfg s" "sv_db s' = sv_db s"
  using assms ByeDevice_sessions [of "sv_sm s" dev] by (auto simp: recycle_moved_def moved_def split: option.splits if_splits)

lemma FindChannel_register:
  "FindChannel (RegisterChannel m d ch) d c = (if dm_Device m d \<noteq> None \<and> c = ch_ID ch then Some (attach d ch) else FindChannel m d c)"
  by (auto simp: FindChannel_def RegisterChannel_def dm_Device_def map_of_map_entry update_conv' split: option.split)

lemma Device_register:
  "dm_Device (RegisterChannel m d ch) d = map_option (\<lambda>e. e\<lparr>dv_channels := AList.update (ch_ID ch) (attach d ch) (dv_channels e)\<rparr>) (dm_Device m d)"
  by (auto simp: RegisterChannel_def dm_Device_def map_of_map_entry split: option.split)

lemma Register_device:
  "\<exists>d. dm_Device (Register m (new_device dev src tp) now) dev = Some d \<and> dv_Status d = DeviceOnline \<and> dv_NetAddr d = src
    \<and> dv_Transport d = tp \<and> dv_lastKeepalive d = now \<and> dv_channels d = (case dm_Device m dev of None \<Rightarrow> [] | Some e \<Rightarrow> dv_channels e)"
  by (simp add: Register_def dm_Device_def new_device_def Let_def update_conv' split: option.split)

lemma register_device_effect:
  assumes "sv_inv s"
  shows "\<exists>s' d. register_device h s dev req now = Some s' \<and> sv_inv s' \<and> sv_cfg s' = sv_cfg s
    \<and> dm_Device (sv_dm s') dev = Some d \<and> dv_Status d = DeviceOnline \<and> dv_NetAddr d = rq_source req \<and> dv_lastKeepalive d = now
    \<and> (\<forall>c ch. FindChannel (sv_dm s) dev c = Some ch \<longrightarrow> FindChannel (sv_dm s') dev c = Some ch)
    \<and> sm_sessions (sv_sm s') = (if moved s dev (rq_source req) then filter (\<lambda>(i, a). ss_deviceID (sm_heap (sv_sm s) ! a) \<noteq> dev) (sm_sessions (sv_sm s))
        else sm_sessions (sv_sm s))"
proof -
  obtain s1 where s1: "recycle_moved s dev (rq_source req) = Some s1" "sv_inv s1" using recycle_moved_inv [OF assms] by blast
  note rm = recycle_moved_sessions [OF s1(1)]
  let ?tp = "ToLower (rq_transport req)"
  define s2 where "s2 = s1\<lparr>sv_dm := Register (sv_dm s1) (new_device dev (rq_source req) ?tp) now\<rparr>"
  define fresh where "fresh = (FindChannel (sv_dm s2) dev dev = None \<and> \<not> deviceHasCatalogChannels h s2 dev)"
  define s3 where "s3 = (if fresh then register_channel s2 dev (plain_channel dev []) else s2)"
  have reg: "registry_ok (sv_dm s2)" using s1(2) Register_ok [of "sv_dm s1"] by (simp add: s2_def sv_inv_def new_device_def)
  have inv3: "sv_inv s3" "sv_cfg s3 = sv_cfg s" "sm_sessions (sv_sm s3) = sm_sessions (sv_sm s1)"
    using reg s1(2) RegisterChannel_ok rm(3) by (auto simp: s3_def sv_inv_def) (simp_all add: s2_def)
  obtain d where d: "dm_Device (sv_dm s2) dev = Some d" "dv_Status d = DeviceOnline" "dv_NetAddr d = rq_source req" "dv_lastKeepalive d = now"
      "dv_channels d = (case dm_Device (sv_dm s1) dev of None \<Rightarrow> [] | Some e \<Rightarrow> dv_channels e)"
    using Register_device [of "sv_dm s1" dev "rq_source req" ?tp now] by (auto simp: s2_def)
  have find2: "FindChannel (sv_dm s2) dev c = FindChannel (sv_dm s) dev c" for c
    using d rm(2) by (auto simp: FindChannel_def dm_Device_def split: option.splits)
  have ch3: "FindChannel (sv_dm s3) dev c = Some ch" if "FindChannel (sv_dm s) dev c = Some ch" for c ch
    using that find2 [of c] by (auto simp: s3_def fresh_def FindChannel_register plain_channel_def attach_def)
  have "\<exists>d'. dm_Device (sv_dm s3) dev = Some d' \<and> dv_Status d' = DeviceOnline \<and> dv_NetAddr d' = rq_source req \<and> dv_lastKeepalive d' = now"
    using d by (simp add: s3_def Device_register)
  moreover have "register_device h s dev req now = Some (note_registration s3 dev fresh (rq_source req))"
    unfolding register_device_def s1(1) Let_def s3_def fresh_def s2_def by (simp only: Option.bind.simps not_not)
  ultimately show ?thesis using inv3 ch3 rm(1) by (simp add: note_registration_def sv_inv_def)
qed

subsection \<open>Who is admitted\<close>

definition digest_ok :: "(string \<Rightarrow> auth_view) \<Rightarrow> sip_server \<Rightarrow> sip_request \<Rightarrow> string \<Rightarrow> bool" where
  "digest_ok pa s req dev = (case getAuthHeader pa req of None \<Rightarrow> False | Some a \<Rightarrow> validateDigest (sv_cfg s) a dev req)"

definition alevel_ok :: "sip_server \<Rightarrow> sip_request \<Rightarrow> string \<Rightarrow> bool" where
  "alevel_ok s req dev = (case sv_auth s of None \<Rightarrow> False | Some ra \<Rightarrow>
     let v = rawHeaderValue req ''Authorization'' in authScheme v \<in> {''Unidirection'', ''Bidirection''} \<and> ra_VerifyRegister ra dev v \<noteq> None)"

definition source_locked :: "sip_server \<Rightarrow> sip_request \<Rightarrow> int \<Rightarrow> bool" where
  "source_locked s req now = snd (locked (sv_authFailures s) (hostOfAddr (rq_source req)) now)"

text \<open>Only the lockout counters change before a REGISTER is admitted.\<close>

definition only_failures :: "sip_server \<Rightarrow> sip_server \<Rightarrow> bool" where
  "only_failures s s' \<longleftrightarrow> (\<exists>t. s' = s\<lparr>sv_authFailures := t\<rparr>)"

lemma only_failures_refl [simp]: "only_failures s s"
  unfolding only_failures_def by (rule exI [of _ "sv_authFailures s"]) simp

lemma only_failures_frame:
  assumes "only_failures s s'"
  shows "sv_dm s' = sv_dm s" "sv_sm s' = sv_sm s" "sv_subscriptions s' = sv_subscriptions s" "sv_log s' = sv_log s" "sv_tasks s' = sv_tasks s"
    "sv_cfg s' = sv_cfg s" "sv_auth s' = sv_auth s" "sv_inv s' = sv_inv s" "digest_ok pa s' req dev = digest_ok pa s req dev" "moved s' dev src = moved s dev src"
  using assms by (auto simp: only_failures_def sv_inv_def digest_ok_def moved_def split: option.splits)

lemma alevel_cases:
  assumes "alevel s req dev now = (s', r)"
  shows "only_failures s s'" "r = Inl q \<Longrightarrow> fst q \<in> {401, 403}" "r = Inr si \<Longrightarrow> si \<noteq> None \<Longrightarrow> alevel_ok s req dev"
    "r = Inr None \<Longrightarrow> s' = s"
  using assms
  by (auto simp: alevel_def only_failures_def alevel_ok_def Let_def appendXGBVer_def split: option.splits if_splits)
     (metis sip_server.surjective sip_server.update_convs(8))+

lemma digest_cases:
  assumes "digest_part pa s req dev authed nonce now = (s', r)"
  shows "only_failures s s'" "r = Some q \<Longrightarrow> fst q \<in> {401, 403}"
    "r = None \<Longrightarrow> \<not> source_locked s req now \<and> (authed \<or> (if pc_Password (sv_cfg s) \<noteq> [] then digest_ok pa s req dev else sv_auth s \<noteq> None \<or> \<not> pc_StrictAuth (sv_cfg s)))"
proof -
  obtain t l where tl: "locked (sv_authFailures s) (hostOfAddr (rq_source req)) now = (t, l)" by (cases "locked (sv_authFailures s) (hostOfAddr (rq_source req)) now")
  show "only_failures s s'" "r = Some q \<Longrightarrow> fst q \<in> {401, 403}"
    "r = None \<Longrightarrow> \<not> source_locked s req now \<and> (authed \<or> (if pc_Password (sv_cfg s) \<noteq> [] then digest_ok pa s req dev else sv_auth s \<noteq> None \<or> \<not> pc_StrictAuth (sv_cfg s)))"
    using assms tl by (auto simp: digest_part_def only_failures_def source_locked_def digest_ok_def Let_def split: option.splits if_splits)
qed

lemma admitted_effect:
  assumes "sv_inv s"
  shows "\<exists>s' hdrs. admitted h s dev req si now = Some (s', 200, ''OK'', hdrs) \<and> sv_inv s'
    \<and> (if requested_expires req = 0 then dm_Device (sv_dm s') dev = None
       else \<exists>d. dm_Device (sv_dm s') dev = Some d \<and> dv_Status d = DeviceOnline \<and> dv_NetAddr d = rq_source req \<and> dv_lastKeepalive d = now
         \<and> (\<forall>c ch. FindChannel (sv_dm s) dev c = Some ch \<longrightarrow> FindChannel (sv_dm s') dev c = Some ch))
    \<and> sm_sessions (sv_sm s') = (if requested_expires req = 0 \<or> moved s dev (rq_source req)
         then filter (\<lambda>(i, a). ss_deviceID (sm_heap (sv_sm s) ! a) \<noteq> dev) (sm_sessions (sv_sm s)) else sm_sessions (sv_sm s))"
proof (cases "requested_expires req = 0")
  case True
  obtain m' where m': "ByeDevice (sv_sm s) dev = Some m'" "sm_inv m'" using ByeDevice_inv assms by (auto simp: sv_inv_def)
  obtain s' where s': "unregister_device h s dev = Some s'" "sv_inv s'" "sv_dm s' = Unregister (sv_dm s) dev"
    using unregister_device_inv [OF assms] by blast
  have "sv_sm s' = m'" using s'(1) m'(1) by (auto simp: unregister_device_def teardownDevice_def Let_def unsubscribeDevice_def split: if_splits)
  moreover have "dm_Device (Unregister (sv_dm s) dev) dev = None" by (simp add: dm_Device_def Unregister_def AList.delete_conv')
  ultimately show ?thesis using True s' ByeDevice_sessions [OF m'(1)] by (simp add: admitted_def Let_def sv_inv_def)
next
  case False
  obtain s' d where s': "register_device h s dev req now = Some s'" "sv_inv s'" "dm_Device (sv_dm s') dev = Some d" "dv_Status d = DeviceOnline"
      "dv_NetAddr d = rq_source req" "dv_lastKeepalive d = now" "\<forall>c ch. FindChannel (sv_dm s) dev c = Some ch \<longrightarrow> FindChannel (sv_dm s') dev c = Some ch"
      "sm_sessions (sv_sm s') = (if moved s dev (rq_source req) then filter (\<lambda>(i, a). ss_deviceID (sm_heap (sv_sm s) ! a) \<noteq> dev) (sm_sessions (sv_sm s))
        else sm_sessions (sv_sm s))"
    using register_device_effect [OF assms] by blast
  then show ?thesis using False by (simp add: admitted_def Let_def sv_inv_def)
qed

subsection \<open>REGISTER: what holds of the handler\<close>

definition may_register :: "(string \<Rightarrow> auth_view) \<Rightarrow> sip_server \<Rightarrow> sip_request \<Rightarrow> string \<Rightarrow> int \<Rightarrow> bool" where
  "may_register pa s req dev now \<longleftrightarrow> dev \<noteq> [] \<and> isAllowedDevice (sv_cfg s) dev \<and>
     (alevel_ok s req dev \<or> \<not> source_locked s req now \<and> (if pc_Password (sv_cfg s) \<noteq> [] then digest_ok pa s req dev else sv_auth s \<noteq> None \<or> \<not> pc_StrictAuth (sv_cfg s)))"

lemma handleRegister_cases:
  assumes "sv_inv s"
  shows "(\<exists>s' c msg hs. handleRegister pa h s req nonce now = Some (s', c, msg, hs) \<and> c \<in> {400, 401, 403} \<and> only_failures s s')
    \<or> (\<exists>s0 dev si. only_failures s s0 \<and> rq_from req = Some dev \<and> may_register pa s req dev now \<and> handleRegister pa h s req nonce now = admitted h s0 dev req si now)"
    (is "?refused \<or> ?admitted")
proof (cases "rq_from req")
  case None
  then show ?thesis by (auto simp: handleRegister_def)
next
  case (Some dev)
  show ?thesis
  proof (cases "dev = [] \<or> \<not> isAllowedDevice (sv_cfg s) dev")
    case True
    then show ?thesis using Some by (auto simp: handleRegister_def)
  next
    case False
    obtain s1 r1 where a: "alevel s req dev now = (s1, r1)" by (cases "alevel s req dev now")
    note ac = alevel_cases [OF a]
    show ?thesis
    proof (cases r1)
      case (Inl q)
      then show ?thesis using a ac(1) ac(2) [of q] Some False by (cases q) (auto simp: handleRegister_def)
    next
      case (Inr si)
      obtain s2 r2 where d: "digest_part pa s1 req dev (si \<noteq> None) nonce now = (s2, r2)" by (cases "digest_part pa s1 req dev (si \<noteq> None) nonce now")
      note dc = digest_cases [OF d]
      have of2: "only_failures s s2" using ac(1) dc(1) by (auto simp: only_failures_def)
      have reg: "handleRegister pa h s req nonce now = (case r2 of Some r \<Rightarrow> Some (s2, r) | None \<Rightarrow> admitted h s2 dev req si now)"
        using Some False a Inr d by (simp add: handleRegister_def)
      show ?thesis
      proof (cases r2)
        case None
        have "may_register pa s req dev now"
          using dc(3) [OF None] ac(3) [OF Inr] ac(4) Inr False only_failures_frame [OF ac(1)] by (cases si) (auto simp: may_register_def)
        then show ?thesis using reg None of2 Some by auto
      next
        case (Some q)
        then show ?thesis using reg of2 dc(2) [OF Some] by (cases q) auto
      qed
    qed
  qed
qed


lemma register_effect_parts:
  assumes "sv_inv s" "handleRegister pa h s req nonce now = Some (s', 200, msg, hs)" "rq_from req = Some dev"
  shows "if requested_expires req = 0 then dm_Device (sv_dm s') dev = None
    else \<exists>d. dm_Device (sv_dm s') dev = Some d \<and> dv_Status d = DeviceOnline \<and> dv_NetAddr d = rq_source req \<and> dv_lastKeepalive d = now
      \<and> (\<forall>c ch. FindChannel (sv_dm s) dev c = Some ch \<longrightarrow> FindChannel (sv_dm s') dev c = Some ch)"
    "sm_sessions (sv_sm s') = (if requested_expires req = 0 \<or> moved s dev (rq_source req)
      then filter (\<lambda>(i, a). ss_deviceID (sm_heap (sv_sm s) ! a) \<noteq> dev) (sm_sessions (sv_sm s)) else sm_sessions (sv_sm s))"
proof -
  obtain s0 si where s0: "only_failures s s0" "handleRegister pa h s req nonce now = admitted h s0 dev req si now"
    using handleRegister_cases [OF assms(1), of pa h req nonce now] assms(2,3) by auto
  note fr = only_failures_frame [OF s0(1)]
  have "sv_inv s0" using assms(1) fr(8) by simp
  from admitted_effect [OF this, of h dev req si now] s0(2) assms(2) fr
  show "if requested_expires req = 0 then dm_Device (sv_dm s') dev = None
    else \<exists>d. dm_Device (sv_dm s') dev = Some d \<and> dv_Status d = DeviceOnline \<and> dv_NetAddr d = rq_source req \<and> dv_lastKeepalive d = now
      \<and> (\<forall>c ch. FindChannel (sv_dm s) dev c = Some ch \<longrightarrow> FindChannel (sv_dm s') dev c = Some ch)"
    "sm_sessions (sv_sm s') = (if requested_expires req = 0 \<or> moved s dev (rq_source req)
      then filter (\<lambda>(i, a). ss_deviceID (sm_heap (sv_sm s) ! a) \<noteq> dev) (sm_sessions (sv_sm s)) else sm_sessions (sv_sm s))"
    by auto
qed

text \<open>C18: a REGISTER that is accepted with Expires 0 removes the device and its sessions. Any other accepted REGISTER leaves
  the device online at the source address with a fresh keepalive time and every channel it had, and ends the sessions of
  the device exactly when its host changed. The sessions of other devices are never touched.\<close>

theorem register_effect:
  assumes "sv_inv s" "handleRegister pa h s req nonce now = Some (s', 200, msg, hs)" "rq_from req = Some dev"
  shows "(if requested_expires req = 0 then dm_Device (sv_dm s') dev = None
      else \<exists>d. dm_Device (sv_dm s') dev = Some d \<and> dv_Status d = DeviceOnline \<and> dv_NetAddr d = rq_source req \<and> dv_lastKeepalive d = now
        \<and> (\<forall>c ch. FindChannel (sv_dm s) dev c = Some ch \<longrightarrow> FindChannel (sv_dm s') dev c = Some ch))
    \<and> sm_sessions (sv_sm s') = (if requested_expires req = 0 \<or> moved s dev (rq_source req)
      then filter (\<lambda>(i, a). ss_deviceID (sm_heap (sv_sm s) ! a) \<noteq> dev) (sm_sessions (sv_sm s)) else sm_sessions (sv_sm s))"
  by (intro conjI register_effect_parts [OF assms])

lemma NewServer_inv: "registry_ok dm \<Longrightarrow> sm_inv sm \<Longrightarrow> sv_inv (NewServer pd cfg auth offer dm sm db)"
  unfolding sv_inv_def NewServer_def
  by (auto simp: SetPlaybackByeSender_def SetMediaSecurityOffer_def SetTCPFraming_def SetMediaTransport_def SetFirstRTPHook_def SetByeSender_def
      elim!: sm_inv_cong [THEN iffD1, rotated -1])

definition start_server :: sip_server where
  "start_server = NewServer (\<lambda>_. None) sample_config None None (NewDeviceManager 60) start_manager False"

lemma start_server_inv: "sv_inv start_server"
  using sm_reach_inv [OF start_reach] unfolding start_server_def
  by (intro NewServer_inv) (simp_all add: NewDeviceManager_def registry_ok_def Let_def)

definition sample_register :: "string list \<Rightarrow> int \<Rightarrow> sip_request" where
  "sample_register auth expires = \<lparr>rq_method = ''REGISTER'', rq_from = Some ''34020000001320000001'', rq_to = Some ''34020000002000000001'',
     rq_source = ''10.0.0.5:5060'', rq_transport = ''UDP'', rq_callID = Some ''c1'',
     rq_generic = (\<lambda>n. if n = ''Authorization'' then auth else []), rq_wire = (\<lambda>_. []), rq_expires = Some expires, rq_body = []\<rparr>"

definition sample_auth :: "string \<Rightarrow> auth_view" where
  "sample_auth v = \<lparr>av_Username = ''34020000001320000001'', av_Response = v, av_Calc = (\<lambda>pw meth. pw @ meth)\<rparr>"

definition bare_host :: host_env where
  "bare_host = \<lparr>he_camera = (\<lambda>_ _. None), he_nalu = (\<lambda>_. False), he_audio = (\<lambda>_. False), he_channels = (\<lambda>_. None)\<rparr>"


lemma sample_admitted:
  "\<exists>s' msg hs. handleRegister sample_auth bare_host start_server (sample_register [''secretREGISTER''] 3600) ''n'' 7 = Some (s', 200, msg, hs)"
proof -
  let ?r = "sample_register [''secretREGISTER''] 3600"
  have "alevel start_server ?r d 7 = (start_server, Inr None)" for d by (simp add: alevel_def start_server_def NewServer_def)
  moreover have "\<exists>s0. only_failures start_server s0 \<and> digest_part sample_auth start_server ?r ''34020000001320000001'' False ''n'' 7 = (s0, None)"
    by (auto simp: digest_part_def sample_register_def start_server_def NewServer_def sample_config_def getAuthHeader_def validateDigest_def sample_auth_def
        Let_def newAuthFailureTracker_def locked_def only_failures_def)
  then obtain s0 where s0: "only_failures start_server s0" "digest_part sample_auth start_server ?r ''34020000001320000001'' False ''n'' 7 = (s0, None)" by blast
  moreover have "isAllowedDevice (sv_cfg start_server) d" for d by (simp add: isAllowedDevice_def start_server_def NewServer_def sample_config_def)
  moreover have "rq_from ?r = Some ''34020000001320000001''" by (simp add: sample_register_def)
  ultimately have "handleRegister sample_auth bare_host start_server ?r ''n'' 7 = admitted bare_host s0 ''34020000001320000001'' ?r None 7"
    by (simp add: handleRegister_def)
  then show ?thesis using admitted_effect [of s0 bare_host "''34020000001320000001''" ?r None 7] only_failures_frame(8) [OF s0(1)] start_server_inv by auto
qed

theorem register_effect_witness:
  "\<exists>s' msg hs d. handleRegister sample_auth bare_host start_server (sample_register [''secretREGISTER''] 3600) ''n'' 7 = Some (s', 200, msg, hs)
    \<and> dm_Device (sv_dm s') ''34020000001320000001'' = Some d \<and> dv_Status d = DeviceOnline \<and> dv_NetAddr d = ''10.0.0.5:5060'' \<and> dv_lastKeepalive d = 7"
proof -
  obtain s' msg hs where *: "handleRegister sample_auth bare_host start_server (sample_register [''secretREGISTER''] 3600) ''n'' 7 = Some (s', 200, msg, hs)"
    using sample_admitted by blast
  show ?thesis using register_effect [OF start_server_inv *, of "''34020000001320000001''", THEN conjunct1] *
    by (auto simp: sample_register_def requested_expires_def)
qed

end
