(* ===== verification/Sip_Invite.thy ===== *)
theory Sip_Invite
  imports Sip_Server
begin

text \<open>
  How the platform starts and ends live sessions: \<open>InviteChannel\<close> and \<open>inviteCore\<close> with the wait for the answer,
  \<open>ByeChannel\<close>, the automatic INVITE of a device, the confirmation by the first media packet, the session watchdog and
  the alarm linkage (\<open>src/platform/sip/server.go\<close>, \<open>src/platform/sip/alarm_linkage.go\<close>).

  \<open>invite_env\<close> is what one INVITE meets: the network for the media socket, the local address, whether the SIP stack can
  build and send the request, what happens on the transaction, and the media negotiation of the authenticator.
  The events of a transaction end with the deadline timer: an exhausted list is its expiry.
\<close>

subsection \<open>SDP answers\<close>

fun splitCRLF_loop :: "string \<Rightarrow> string \<Rightarrow> string list" where
  "splitCRLF_loop cur [] = (if cur = [] then [] else [cur])"
| "splitCRLF_loop cur [c] = [cur @ [c]]"
| "splitCRLF_loop cur (c # d # s) =
     (if c = CHR 0x0D \<and> d = CHR 0x0A then cur # splitCRLF_loop [] s else splitCRLF_loop (cur @ [c]) (d # s))"

definition splitCRLF :: "string \<Rightarrow> string list" where
  "splitCRLF s = splitCRLF_loop [] s"

definition sdpSSRC :: "string \<Rightarrow> string" where
  "sdpSSRC sdp =
     (case find (\<lambda>l. length l > 2 \<and> HasPrefix l ''y='') (splitCRLF sdp) of None \<Rightarrow> [] | Some l \<Rightarrow> drop 2 l)"

fun audio_codec :: "bool \<Rightarrow> string list \<Rightarrow> string" where
  "audio_codec inAudio [] = []"
| "audio_codec inAudio (l # ls) =
     (let line = TrimSpace l in
      if HasPrefix line ''m='' then audio_codec (HasPrefix line ''m=audio '') ls
      else if inAudio \<and> HasPrefix line ''a=rtpmap:''
      then (case Fields (TrimPrefix line ''a=rtpmap:'') of
              _ # enc # _ \<Rightarrow>
                let name = ToUpper (hd (SplitN 2 enc ''/'')) in
                if name = ''PCMA'' then ''g711a'' else if name = ''PCMU'' then ''g711u''
                else if name = ''MPEG4-GENERIC'' then ''aac'' else audio_codec inAudio ls
            | _ \<Rightarrow> audio_codec inAudio ls)
      else audio_codec inAudio ls)"

definition sdpAudioCodec :: "string \<Rightarrow> string" where
  "sdpAudioCodec sdp = audio_codec False (splitCRLF sdp)"

subsection \<open>The transaction\<close>

datatype answer_event = Answer nat string "string option" bool | SpeculativeDue | AnswerTimeout | ResponsesClosed

datatype invite_error =
    NotStarted | DeviceUnknown | ChannelUnknown | RecorderNotRunning | SetupFailed sm_error | BadDeviceAddress | BuildFailed | SendFailed
  | DeviceBusy | Rejected nat | Unanswered | MediaConnectFailed sm_error

record invite_env =
  ie_net :: net_env
  ie_host :: string
  ie_builds :: bool
  ie_stopped :: bool
  ie_sends :: bool
  ie_events :: "answer_event list"
  ie_resets :: bool
  ie_arm :: "(string \<Rightarrow> string \<Rightarrow> (cryptor option \<times> verifier option) option) option"

text \<open>The number of speculative ACKs sent, and the body, Call-ID and From/To of the answer or the error.\<close>

fun awaitInviteAnswer :: "answer_event list \<Rightarrow> nat \<times> (invite_error + string \<times> string option \<times> bool)" where
  "awaitInviteAnswer [] = (0, Inl Unanswered)"
| "awaitInviteAnswer (Answer code body cid ends # es) =
     (if 200 \<le> code \<and> code < 300 then (0, Inr (body, cid, ends))
      else if code \<ge> 200 then (0, Inl (if code = 486 then DeviceBusy else Rejected code))
      else awaitInviteAnswer es)"
| "awaitInviteAnswer (SpeculativeDue # es) = (case awaitInviteAnswer es of (n, r) \<Rightarrow> (Suc n, r))"
| "awaitInviteAnswer (AnswerTimeout # es) = (0, Inl Unanswered)"
| "awaitInviteAnswer (ResponsesClosed # es) = (0, Inl Unanswered)"

subsection \<open>The receiver of a session\<close>

definition on_receiver :: "session_manager \<Rightarrow> string \<Rightarrow> (receiver \<Rightarrow> receiver go) \<Rightarrow> session_manager go" where
  "on_receiver m c f =
     (case map_of (sm_sessions m) c of
        None \<Rightarrow> Some m
      | Some a \<Rightarrow> do { r \<leftarrow> f (ss_receiver (sm_heap m ! a)); Some (put_session m a ((sm_heap m ! a)\<lparr>ss_receiver := r\<rparr>)) })"

definition arm_receiver :: "cryptor option \<times> verifier option \<Rightarrow> receiver \<Rightarrow> receiver go" where
  "arm_receiver k r = do {
     r \<leftarrow> (case fst k of None \<Rightarrow> Some r | Some c \<Rightarrow> SetPayloadDecryptor r (Some c));
     Some (case snd k of None \<Rightarrow> r | Some f \<Rightarrow> (SetAUVerifier r (Some f))\<lparr>r_failHook := True\<rparr>) }"

definition armMediaSecurity :: "invite_env \<Rightarrow> session_manager \<Rightarrow> string \<Rightarrow> string \<Rightarrow> string \<Rightarrow> session_manager go" where
  "armMediaSecurity e m dev c body =
     (case ie_arm e of
        None \<Rightarrow> Some m
      | Some neg \<Rightarrow> (case neg dev body of None \<Rightarrow> Some m | Some k \<Rightarrow> on_receiver m c (arm_receiver k)))"

definition seedAudio :: "session_manager \<Rightarrow> string \<Rightarrow> string \<Rightarrow> session_manager go" where
  "seedAudio m c body =
     (if sdpAudioCodec body = [] then Some m else on_receiver m c (\<lambda>r. Some (rx_SetAudioCodecHint r (sdpAudioCodec body))))"

subsection \<open>INVITE\<close>

text \<open>Give the half-open session up.\<close>

definition abandon :: "sip_server \<Rightarrow> string \<Rightarrow> invite_error \<Rightarrow> (sip_server \<times> invite_error option) go" where
  "abandon s c err = do { m \<leftarrow> Bye (sv_sm s) c; Some (absorb s m, Some err) }"

definition sendDialogReset :: "invite_env \<Rightarrow> sip_server \<Rightarrow> string \<Rightarrow> string \<Rightarrow> sip_server" where
  "sendDialogReset e s c deviceAddr =
     (if \<not> sv_started s \<or> SplitHostPort deviceAddr = None \<or> \<not> ie_builds e \<or> \<not> ie_resets e then s else sv_emit s [WireReset c])"

text \<open>The 2xx: security first, then the ACK, the dialog, the audio hint and, in tcp-active mode, the connection.\<close>

definition answered :: "invite_env \<Rightarrow> sip_server \<Rightarrow> string \<Rightarrow> string \<Rightarrow> string \<times> string option \<times> bool \<Rightarrow> (sip_server \<times> invite_error option) go" where
  "answered e s dev c resp = (case resp of (body, cid, ends) \<Rightarrow> do {
     m \<leftarrow> armMediaSecurity e (sv_sm s) dev c body;
     let s = sv_emit (s\<lparr>sv_sm := m, sv_dialogs := AList.update c \<lparr>dg_callID = cid, dg_ends = ends\<rparr> (sv_dialogs s)\<rparr>) [WireAck c];
     m \<leftarrow> seedAudio (sv_sm s) c body;
     let s = s\<lparr>sv_sm := m\<rparr>;
     if pc_MediaTransport (sv_cfg s) \<noteq> MediaTCPActive then Some (s, None)
     else do {
       (m, r) \<leftarrow> ConnectActiveTCP (ie_net e) (sv_sm s) c body;
       case r of Inl err \<Rightarrow> abandon (absorb s m) c (MediaConnectFailed err) | Inr _ \<Rightarrow> Some (absorb s m, None) } })"

definition subject_of :: "sip_server \<Rightarrow> string \<Rightarrow> string \<Rightarrow> string" where
  "subject_of s c sdp = c @ '':'' @ sdpSSRC sdp @ '','' @ pc_ServerID (sv_cfg s) @ '':0''"

text \<open>The request is out: wait for the answer.\<close>

definition invite_sent :: "invite_env \<Rightarrow> sip_server \<Rightarrow> string \<Rightarrow> string \<Rightarrow> string \<Rightarrow> (sip_server \<times> invite_error option) go" where
  "invite_sent e s dev c netAddr =
     (case awaitInviteAnswer (ie_events e) of
        (acks, Inr resp) \<Rightarrow> answered e (sv_emit s (replicate acks (WireAck c))) dev c resp
      | (acks, Inl err) \<Rightarrow> do {
          (s, r) \<leftarrow> abandon (sv_emit s (replicate acks (WireAck c))) c err;
          Some (if err = DeviceBusy then sendDialogReset e s c netAddr else s, r) })"

definition inviteCore :: "invite_env \<Rightarrow> sip_server \<Rightarrow> string \<Rightarrow> nat \<Rightarrow> string \<Rightarrow> bool \<Rightarrow> bool \<Rightarrow> (sip_server \<times> invite_error option) go" where
  "inviteCore e s dev a netAddr onAU onAudio = do {
     let c = ch_ID (sm_chans (sv_sm s) a);
     (m, r) \<leftarrow> Invite (ie_net e) (sv_sm s) (Some a) (ie_host e) onAU onAudio;
     let s = absorb s m;
     case r of
       Inl err \<Rightarrow> Some (s, Some (SetupFailed err))
     | Inr sdp \<Rightarrow>
         if SplitHostPort netAddr = None then abandon s c BadDeviceAddress
         else if \<not> ie_builds e then abandon s c BuildFailed
         else if ie_stopped e then abandon s c NotStarted
         else if \<not> ie_sends e then abandon s c SendFailed
         else invite_sent e (sv_emit s [WireInvite c (subject_of s c sdp)]) dev c netAddr }"

definition invited :: "sip_server \<Rightarrow> string \<Rightarrow> string \<Rightarrow> string option \<Rightarrow> sip_server" where
  "invited s dev c cam =
     sv_go (sv_emit (s\<lparr>sv_sm := fst (MarkPlaying (sv_sm s) c)\<rparr>)
       (case cam of None \<Rightarrow> [] | Some i \<Rightarrow> if i = [] then [] else [CameraInvite i])) [TWatch dev c]"

text \<open>Whether the recorder takes video and audio of a channel.\<close>

definition writers :: "host_env \<Rightarrow> string option \<Rightarrow> bool \<times> bool" where
  "writers h cam = (case cam of None \<Rightarrow> (False, False) | Some i \<Rightarrow> (he_nalu h i, he_audio h i))"

definition InviteChannel :: "host_env \<Rightarrow> invite_env \<Rightarrow> sip_server \<Rightarrow> string \<Rightarrow> string \<Rightarrow> (sip_server \<times> invite_error option) go" where
  "InviteChannel h e s dev c =
     (if \<not> sv_started s then Some (s, Some NotStarted)
      else if GetReceiver (sv_sm s) c \<noteq> None then Some (s, None)
      else case (dm_Device (sv_dm s) dev, FindChannel (sv_dm s) dev c) of
        (None, _) \<Rightarrow> Some (s, Some DeviceUnknown)
      | (Some d, None) \<Rightarrow> Some (s, Some ChannelUnknown)
      | (Some d, Some ch) \<Rightarrow>
          let cam = bound_camera h s dev c; (onAU, onAudio) = writers h cam; bound = (if ch_AudioOnly ch then onAudio else onAU) in
          if cam \<noteq> None \<and> cam \<noteq> Some [] \<and> \<not> bound then Some (s, Some RecorderNotRunning)
          else do {
            (s, r) \<leftarrow> inviteCore e s dev (sv_addr s dev c) (dv_NetAddr d) onAU onAudio;
            Some (if r = None then invited s dev c cam else s, r) })"

definition ByeChannel :: "host_env \<Rightarrow> sip_server \<Rightarrow> string \<Rightarrow> string \<Rightarrow> sip_server go" where
  "ByeChannel h s dev c = do { m \<leftarrow> Bye (sv_sm s) c; Some (notifyCameraBye h (absorb s m) dev c) }"

definition ByeChannelByID :: "host_env \<Rightarrow> sip_server \<Rightarrow> string \<Rightarrow> sip_server go" where
  "ByeChannelByID h s c = ByeChannel h s (deviceOfChannel s c) c"

fun bye_each :: "sip_server \<Rightarrow> string list \<Rightarrow> sip_server go" where
  "bye_each s [] = Some s"
| "bye_each s (c # cs) = do { m \<leftarrow> Bye (sv_sm s) c; bye_each (absorb s m) cs }"

definition ByeAllSessions :: "sip_server \<Rightarrow> sip_server go" where
  "ByeAllSessions s = bye_each s (ChannelIDs (sv_sm s))"

text \<open>\<open>autoInviteDevice\<close>: each INVITE has its own surroundings.\<close>

fun invite_each :: "host_env \<Rightarrow> (string \<Rightarrow> invite_env) \<Rightarrow> sip_server \<Rightarrow> string \<Rightarrow> channel list \<Rightarrow> sip_server go" where
  "invite_each h e s dev [] = Some s"
| "invite_each h e s dev (ch # chs) =
     (if GetReceiver (sv_sm s) (ch_ID ch) \<noteq> None \<or> he_camera h dev (ch_ID ch) = None then invite_each h e s dev chs
      else do { (s, _) \<leftarrow> InviteChannel h (e (ch_ID ch)) s dev (ch_ID ch); invite_each h e s dev chs })"

definition autoInviteDevice :: "host_env \<Rightarrow> (string \<Rightarrow> invite_env) \<Rightarrow> sip_server \<Rightarrow> string \<Rightarrow> sip_server go" where
  "autoInviteDevice h e s dev = (if \<not> sv_enroller s then Some s else invite_each h e s dev (Channels (sv_dm s) dev))"

definition onFirstRTP :: "host_env \<Rightarrow> sip_server \<Rightarrow> string \<Rightarrow> sip_server" where
  "onFirstRTP h s c =
     (let s = s\<lparr>sv_sm := fst (MarkPlaying (sv_sm s) c)\<rparr> in
      case bound_camera h s (deviceOfChannel s c) c of None \<Rightarrow> s | Some i \<Rightarrow> sv_emit s [CameraInvite i])"

subsection \<open>The session watchdog\<close>

datatype watch_verdict = WatchGone | WatchOn | WatchRecycle string

definition watch_check :: "session_manager \<Rightarrow> string \<Rightarrow> i64 \<Rightarrow> watch_verdict" where
  "watch_check m c now =
     (case GetReceiver m c of
        None \<Rightarrow> WatchGone
      | Some r \<Rightarrow>
          let r = r\<lparr>r_now := now\<rparr> in
          if \<not> 0 <s r_received r then WatchOn
          else if 45000000000 <s since r (r_lastPkt r) then WatchRecycle ''stream stalled''
          else if AudioOnly r then WatchOn
          else case SinceLastIDR r of
            (age, has) \<Rightarrow> if \<not> has \<or> 600000000000 <s age then WatchRecycle ''no keyframe'' else WatchOn)"

text \<open>One wake-up of \<open>watchSession\<close>; the flag says whether the watchdog goes on.\<close>

definition watchSession :: "host_env \<Rightarrow> invite_env \<Rightarrow> sip_server \<Rightarrow> string \<Rightarrow> string \<Rightarrow> i64 \<Rightarrow> (sip_server \<times> bool) go" where
  "watchSession h e s dev c now =
     (case watch_check (sv_sm s) c now of
        WatchGone \<Rightarrow> Some (s, False)
      | WatchOn \<Rightarrow> Some (s, True)
      | WatchRecycle _ \<Rightarrow> do {
          s \<leftarrow> ByeChannel h s dev c;
          (s, _) \<leftarrow> InviteChannel h e s dev c;
          Some (s, False) })"

subsection \<open>Alarm linkage\<close>

text \<open>Whether a session streams, and the holds: a channel with the device and the time of its BYE.\<close>

definition streamingFor :: "sip_server \<Rightarrow> string \<Rightarrow> bool" where
  "streamingFor s c = (case GetReceiver (sv_sm s) c of None \<Rightarrow> False | Some r \<Rightarrow> r_running r)"

definition extend :: "sip_server \<Rightarrow> string \<Rightarrow> string \<Rightarrow> int \<Rightarrow> sip_server" where
  "extend s dev c at = s\<lparr>sv_holds := AList.update c (dev, at) (sv_holds s)\<rparr>"

definition Trigger :: "(string \<Rightarrow> int option) \<Rightarrow> host_env \<Rightarrow> (string \<Rightarrow> string \<Rightarrow> bool) \<Rightarrow> invite_env \<Rightarrow> sip_server \<Rightarrow> string \<Rightarrow> string \<Rightarrow> int \<Rightarrow> sip_server go" where
  "Trigger pd h wanted e s dev c now =
     (case pc_AlarmLinkage (sv_cfg s) of
        None \<Rightarrow> Some s
      | Some cfg \<Rightarrow>
          if \<not> al_Enabled cfg then Some s
          else if sv_enroller s \<and> wanted dev c
          then (if streamingFor s c then Some s else map_option fst (InviteChannel h e s dev c))
          else if streamingFor s c then Some (extend s dev c (now + AlarmLinkageDuration pd (Some cfg)))
          else do {
            (s, r) \<leftarrow> InviteChannel h e s dev c;
            Some (if r = None then extend s dev c (now + AlarmLinkageDuration pd (Some cfg)) else s) })"

text \<open>The timer of a hold runs out.\<close>

definition hold_elapsed :: "host_env \<Rightarrow> sip_server \<Rightarrow> string \<Rightarrow> sip_server go" where
  "hold_elapsed h s c =
     (case map_of (sv_holds s) c of
        None \<Rightarrow> Some s
      | Some (dev, _) \<Rightarrow> ByeChannel h (s\<lparr>sv_holds := AList.delete c (sv_holds s)\<rparr>) dev c)"

subsection \<open>A half-open session\<close>

text \<open>Between the start of an INVITE on \<open>m0\<close> and its end: one more session, for channel \<open>c\<close>; and afterwards, when it was given up.\<close>

definition same_ids :: "session_manager \<Rightarrow> session_manager \<Rightarrow> bool" where
  "same_ids m0 m \<longleftrightarrow> (\<forall>x. ch_ID (sm_chans m x) = ch_ID (sm_chans m0 x))"

definition beside :: "session_manager \<Rightarrow> session_manager \<Rightarrow> bool" where
  "beside m0 m \<longleftrightarrow> sm_inv m \<and> same_ids m0 m \<and> sm_playback m = sm_playback m0 \<and> (\<forall>b < length (sm_heap m0). sm_heap m ! b = sm_heap m0 ! b) \<and> pool_range m = pool_range m0"

definition half_open :: "session_manager \<Rightarrow> string \<Rightarrow> session_manager \<Rightarrow> bool" where
  "half_open m0 c m \<longleftrightarrow> beside m0 m \<and> sm_sessions m = sm_sessions m0 @ [(c, length (sm_heap m0))] \<and> length (sm_heap m) = Suc (length (sm_heap m0))"

definition restored :: "session_manager \<Rightarrow> session_manager \<Rightarrow> bool" where
  "restored m0 m \<longleftrightarrow> beside m0 m \<and> sm_sessions m = sm_sessions m0"

lemma same_ids_refl [simp]: "same_ids m m"
  by (simp add: same_ids_def)

lemma same_ids_trans: "same_ids m n \<Longrightarrow> same_ids n k \<Longrightarrow> same_ids m k"
  by (simp add: same_ids_def)

lemma same_ids_frame [simp]:
  "same_ids m (set_status n c st) = same_ids m n" "same_ids m (cas_status n c old new) = same_ids m n" "same_ids m (sm_emit n evs) = same_ids m n"
  "same_ids m (put_session n a s) = same_ids m n" "same_ids m (recycle_port n p) = same_ids m n" "same_ids m (store_live n s) = same_ids m n"
  "same_ids m (fst (invite_failed n p e)) = same_ids m n" "same_ids m (n\<lparr>sm_sessions := xs\<rparr>) = same_ids m n" "same_ids m (n\<lparr>sm_playback := xs\<rparr>) = same_ids m n"
  "same_ids m (n\<lparr>sm_pool := pl\<rparr>) = same_ids m n" "same_ids m (n\<lparr>sm_ssrcSeq := q\<rparr>) = same_ids m n"
  by (auto simp: same_ids_def set_status_def cas_status_def sm_emit_def put_session_def recycle_port_def store_live_def invite_failed_def)

lemma teardown_ids: "teardown m a b = Some m' \<Longrightarrow> same_ids m m'"
  by (auto simp: teardown_def Option.bind_eq_Some_conv Let_def)

lemma Bye_ids: "Bye m c = Some m' \<Longrightarrow> same_ids m m'"
  by (auto simp: Bye_def same_ids_def dest!: teardown_ids split: option.splits) (simp_all add: sm_emit_def)

lemma live_transport_ids: "same_ids m (fst (live_transport env m t ip s))"
  by (simp add: live_transport_def Let_def split: option.split)

lemma free_ports:
  assumes "sm_inv m"
  shows "pm_free (sm_pool m) = pm_all (sm_pool m) - port_at m ` owned m"
proof -
  have *: "F = A - I" if "I \<inter> F = {}" "I \<union> F = A" for I F A :: "u16 set" using that by blast
  show ?thesis by (rule *) (use assms in \<open>simp_all add: sm_inv_def sm_core_def rtp_ports.leased_def\<close>)
qed

lemma delete_snoc: "c \<notin> fst ` set xs \<Longrightarrow> AList.delete c (xs @ [(c, a)]) = xs"
  by (induction xs) auto

lemma restored_free:
  assumes "sm_inv m0" "restored m0 m"
  shows "pm_free (sm_pool m) = pm_free (sm_pool m0)"
proof -
  have o: "owned m = owned m0" "sm_inv m" using assms(2) by (simp_all add: restored_def beside_def owned_def)
  have p: "port_at m b = port_at m0 b" if "b \<in> owned m0" for b
    using that owned_below [OF assms(1)] assms(2) by (auto simp: restored_def beside_def port_at_def)
  have a: "pm_all (sm_pool m) = pm_all (sm_pool m0)" using assms(2) by (simp add: restored_def beside_def pool_range_def pm_all_def)
  have "port_at m ` owned m = port_at m0 ` owned m0" using o(1) p by simp
  moreover have "pm_free (sm_pool m) = pm_all (sm_pool m) - port_at m ` owned m" by (rule free_ports [OF o(2)])
  moreover have "pm_free (sm_pool m0) = pm_all (sm_pool m0) - port_at m0 ` owned m0" by (rule free_ports [OF assms(1)])
  ultimately show ?thesis using a by simp
qed

lemma teardown_heap: "teardown m a b = Some m' \<Longrightarrow> x \<noteq> a \<Longrightarrow> sm_heap m' ! x = sm_heap m ! x"
  by (auto simp: teardown_def Option.bind_eq_Some_conv go_idx_Some put_session_def sm_emit_def recycle_port_def set_status_def Let_def)

lemma Bye_half_open:
  assumes "half_open m0 c m" "c \<notin> fst ` set (sm_sessions m0)"
  shows "\<exists>m'. Bye m c = Some m' \<and> restored m0 m'"
proof -
  let ?a = "length (sm_heap m0)"
  have inv: "sm_inv m" and ses: "sm_sessions m = sm_sessions m0 @ [(c, ?a)]" using assms(1) by (simp_all add: half_open_def beside_def)
  have at: "map_of (sm_sessions m) c = Some ?a" using assms(2) by (simp add: ses map_of_eq_None_iff [THEN iffD2] map_add_def)
  let ?m1 = "sm_emit (m\<lparr>sm_sessions := AList.delete c (sm_sessions m)\<rparr>) (bye_event m c)"
  obtain m' where m': "teardown ?m1 ?a True = Some m'" "sm_inv m'" "sm_sessions m' = AList.delete c (sm_sessions m)" "sm_playback m' = sm_playback m"
    using remove_live_ok [OF inv at, of "bye_event m c" True] by blast
  have del: "AList.delete c (sm_sessions m) = sm_sessions m0"
    using delete_snoc [OF assms(2)] by (simp add: ses)
  have "sm_heap m' ! b = sm_heap m0 ! b" if "b < ?a" for b
    using teardown_heap [OF m'(1), of b] assms(1) that by (simp add: half_open_def beside_def sm_emit_def)
  moreover have "pool_range m' = pool_range m0" using teardown_range [OF m'(1)] assms(1) by (simp add: half_open_def beside_def)
  moreover have "same_ids m0 m'"
    using teardown_ids [OF m'(1)] assms(1) by (simp add: half_open_def beside_def same_ids_def) (simp add: sm_emit_def)
  ultimately show ?thesis using m' at del assms(1) by (simp add: Bye_def restored_def beside_def half_open_def)
qed

text \<open>A live session set up on a manager that had none for the channel.\<close>

lemma live_transport_effect:
  assumes "live_transport env m t ip s = (m', r)" "ss_channelID s \<notin> fst ` set (sm_sessions m)"
  shows "sm_playback m' = sm_playback m" "r = Inl e \<Longrightarrow> sm_sessions m' = sm_sessions m \<and> sm_heap m' = sm_heap m"
    "r = Inr u \<Longrightarrow> sm_sessions m' = sm_sessions m @ [(ss_channelID s, length (sm_heap m))] \<and> (\<exists>s'. sm_heap m' = sm_heap m @ [s'])"
  using assms
  by (auto simp: live_transport_def Let_def store_live_def cas_status_def set_status_def invite_failed_def recycle_port_def sm_emit_def attach_udp_def update_fresh
      split: if_splits option.splits sum.splits)

lemma Invite_effect:
  assumes "sm_inv m" "ch_ID (sm_chans m a) = c" "map_of (sm_sessions m) c = None"
  shows "\<exists>m' r. Invite env m (Some a) ip au ad = Some (m', r) \<and> (case r of Inl _ \<Rightarrow> restored m m' | Inr _ \<Rightarrow> half_open m c m')"
proof -
  obtain m' r where m': "Invite env m (Some a) ip au ad = Some (m', r)" "sm_inv m'" using Invite_inv [OF assms(1)] by blast
  have rng: "pool_range m' = pool_range m" using Invite_range [OF m'(1)] .
  have new: "c \<notin> fst ` set (sm_sessions m)" using assms(3) by (simp add: map_of_eq_None_iff)
  have rep: "replace_live m c = Some m" using assms(3) by (simp add: replace_live_def)
  obtain pool res where g: "pm_Get (sm_pool m) = (pool, res)" by (cases "pm_Get (sm_pool m)")
  show ?thesis
  proof (cases res)
    case (Inl e)
    then have "m' = m\<lparr>sm_pool := pool\<rparr>" "r = Inl NoFreePort" using m'(1) g rep assms(2) by (simp_all add: Invite_def)
    then show ?thesis using m' rng by (simp add: restored_def beside_def same_ids_def)
  next
    case (Inr port)
    let ?m1 = "m\<lparr>sm_pool := pool, sm_ssrcSeq := sm_ssrcSeq m + 1\<rparr>"
    let ?s = "(new_session a (sm_chans m a) (live_receiver ?m1 (sm_chans m a) au ad) (\<not> au) port)\<lparr>ss_firstRTP := sm_firstRTPHook ?m1\<rparr>"
    obtain m2 q where lt: "live_transport env ?m1 (MediaTransport ?m1) ip ?s = (m2, q)" by (cases "live_transport env ?m1 (MediaTransport ?m1) ip ?s")
    have id: "ss_channelID ?s = c" using assms(2) by (simp add: new_session_def)
    note eff = live_transport_effect [OF lt]
    have "m' = m2" "(\<exists>e. q = Inl e \<and> r = Inl e) \<or> (\<exists>u v. q = Inr u \<and> r = Inr v)"
      using m'(1) g Inr rep assms(2) lt by (auto simp: Invite_def Let_def split: sum.splits)
    moreover have "same_ids m m2"
      using live_transport_ids [of ?m1 env "MediaTransport ?m1" ip ?s] lt by (simp add: same_ids_def)
    ultimately show ?thesis using eff(1,2,3) m' rng id new by (auto simp: restored_def half_open_def beside_def nth_append)
  qed
qed

text \<open>Setters of the receiver keep a half-open session half-open.\<close>

lemma half_open_put:
  assumes "half_open m0 c m" "session_ok s" "ss_port s = ss_port (sm_heap m ! length (sm_heap m0))" "ss_channelID s = ss_channelID (sm_heap m ! length (sm_heap m0))"
    "ss_tcpLn s = ss_tcpLn (sm_heap m ! length (sm_heap m0))" "ss_closed s = ss_closed (sm_heap m ! length (sm_heap m0))"
  shows "half_open m0 c (put_session m (length (sm_heap m0)) s)"
proof -
  have "sm_inv (put_session m (length (sm_heap m0)) s)"
    using assms by (intro put_session_inv) (simp_all add: half_open_def beside_def)
  then show ?thesis using assms(1) by (simp add: half_open_def beside_def) (simp add: put_session_def)
qed

lemma half_open_entry:
  assumes "half_open m0 c m" "c \<notin> fst ` set (sm_sessions m0)"
  shows "map_of (sm_sessions m) c = Some (length (sm_heap m0))" "session_ok (sm_heap m ! length (sm_heap m0))" "\<not> ss_closed (sm_heap m ! length (sm_heap m0))"
proof -
  show e: "map_of (sm_sessions m) c = Some (length (sm_heap m0))"
    using assms by (simp add: half_open_def map_of_eq_None_iff [THEN iffD2] map_add_def)
  show "session_ok (sm_heap m ! length (sm_heap m0))" using assms(1) by (simp add: half_open_def beside_def sm_inv_def sm_core_def)
  show "\<not> ss_closed (sm_heap m ! length (sm_heap m0))"
    using assms(1) maps_entry(1) [of m c "length (sm_heap m0)"] by (simp add: half_open_def beside_def sm_inv_def)
qed

lemma on_receiver_half_open:
  assumes "half_open m0 c m" "c \<notin> fst ` set (sm_sessions m0)"
    and f: "\<And>r. rx_inv r \<Longrightarrow> \<exists>r'. f r = Some r' \<and> rx_inv r' \<and> r_doneClosed r' = r_doneClosed r"
  shows "\<exists>m'. on_receiver m c f = Some m' \<and> half_open m0 c m'"
proof -
  let ?s = "sm_heap m ! length (sm_heap m0)"
  note en = half_open_entry [OF assms(1,2)]
  obtain r' where r': "f (ss_receiver ?s) = Some r'" "rx_inv r'" "r_doneClosed r' = r_doneClosed (ss_receiver ?s)"
    using f en(2) by (auto simp: session_ok_def)
  have "half_open m0 c (put_session m (length (sm_heap m0)) (?s\<lparr>ss_receiver := r'\<rparr>))"
    using en(2) r' by (intro half_open_put [OF assms(1)]) (simp_all add: session_ok_def)
  then show ?thesis using en(1) r'(1) by (simp add: on_receiver_def)
qed

lemma arm_receiver_ok:
  assumes "rx_inv r"
  shows "\<exists>r'. arm_receiver k r = Some r' \<and> rx_inv r' \<and> r_doneClosed r' = r_doneClosed r"
proof -
  obtain r1 where r1: "(case fst k of None \<Rightarrow> Some r | Some c \<Rightarrow> SetPayloadDecryptor r (Some c)) = Some r1" "rx_inv r1" "r_doneClosed r1 = r_doneClosed r"
    using SetPayloadDecryptor_inv [OF assms] rx_exec_done [OF assms, where op = "OpDecryptor c" for c] assms by (cases "fst k") fastforce+
  have "rx_inv ((SetAUVerifier r1 (Some f))\<lparr>r_failHook := True\<rparr>)" for f using r1(2) by (simp add: rx_inv_def rx_core_def SetAUVerifier_def)
  then show ?thesis using r1 by (auto simp: arm_receiver_def SetAUVerifier_def split: option.split)
qed

lemma hint_ok: "rx_inv r \<Longrightarrow> rx_inv (rx_SetAudioCodecHint r c) \<and> r_doneClosed (rx_SetAudioCodecHint r c) = r_doneClosed r"
  using rx_exec_inv [of r "OpHint c" "\<lambda>_. None"] by (auto simp: rx_allowed_def rx_SetAudioCodecHint_def)

lemma armMediaSecurity_half_open:
  assumes "half_open m0 c m" "c \<notin> fst ` set (sm_sessions m0)"
  shows "\<exists>m'. armMediaSecurity e m dev c body = Some m' \<and> half_open m0 c m'"
  using assms on_receiver_half_open [OF assms arm_receiver_ok] by (auto simp: armMediaSecurity_def split: option.split)

lemma seedAudio_half_open:
  assumes "half_open m0 c m" "c \<notin> fst ` set (sm_sessions m0)"
  shows "\<exists>m'. seedAudio m c body = Some m' \<and> half_open m0 c m'"
  using assms on_receiver_half_open [OF assms, of "\<lambda>r. Some (rx_SetAudioCodecHint r (sdpAudioCodec body))"] hint_ok
  by (auto simp: seedAudio_def)

lemma half_open_emit [simp]: "half_open m0 c (sm_emit m evs) = half_open m0 c m"
  by (simp add: half_open_def beside_def) (simp add: sm_emit_def)

lemma attach_tcp_half_open:
  assumes "half_open m0 c m" "c \<notin> fst ` set (sm_sessions m0)" "attach_tcp m (length (sm_heap m0)) (sm_heap m ! length (sm_heap m0)) = (m', ok)"
  shows "half_open m0 c m'" "set (drop (length (sm_log m)) (sm_log m')) \<subseteq> range ConnClosed"
proof -
  note en = half_open_entry [OF assms(1,2)]
  have st: "session_ok ((sm_heap m ! length (sm_heap m0))\<lparr>ss_conn := True, ss_tcpMode := t\<rparr>)"
    "rx_Start (ss_receiver (sm_heap m ! length (sm_heap m0))) False = Inr r
      \<Longrightarrow> session_ok ((sm_heap m ! length (sm_heap m0))\<lparr>ss_conn := True, ss_tcpMode := t, ss_receiver := r, ss_cancel := True\<rparr>)" for t r
    using en(2) start_ok [OF en(2,3)] by (auto simp: session_ok_def)
  show "half_open m0 c m'" using assms(3) half_open_put [OF assms(1) st(1)] half_open_put [OF assms(1) st(2)]
    by (auto simp: attach_tcp_def Let_def split: sum.splits)
  show "set (drop (length (sm_log m)) (sm_log m')) \<subseteq> range ConnClosed" using assms(3)
    by (auto simp: attach_tcp_def Let_def sm_emit_def put_session_def split: sum.splits)
qed

lemma Connect_half_open:
  assumes "half_open m0 c m" "c \<notin> fst ` set (sm_sessions m0)"
  shows "\<exists>m' r. ConnectActiveTCP env m c sdp = Some (m', r) \<and> half_open m0 c m' \<and> set (drop (length (sm_log m)) (sm_log m')) \<subseteq> range ConnClosed"
proof -
  let ?a = "length (sm_heap m0)"
  note en = half_open_entry [OF assms]
  have a: "go_idx (sm_heap m) ?a = Some (sm_heap m ! ?a)" using assms(1) by (simp add: half_open_def go_idx_def)
  obtain m1 ok where at: "attach_tcp m ?a (sm_heap m ! ?a) = (m1, ok)" by (cases "attach_tcp m ?a (sm_heap m ! ?a)")
  show ?thesis using assms(1) en a at attach_tcp_half_open [OF assms at]
    by (auto simp: ConnectActiveTCP_def split: option.split bool.split)
qed

subsection \<open>What an INVITE leaves behind\<close>

definition same_control :: "sip_server \<Rightarrow> sip_server \<Rightarrow> bool" where
  "same_control s s' \<longleftrightarrow> sv_dm s' = sv_dm s \<and> sv_cfg s' = sv_cfg s \<and> sv_auth s' = sv_auth s \<and> sv_addr s' = sv_addr s \<and> sv_fresh s' = sv_fresh s
     \<and> sv_started s' = sv_started s \<and> sv_subscriptions s' = sv_subscriptions s \<and> sv_enroller s' = sv_enroller s \<and> sv_db s' = sv_db s
     \<and> sv_alarmRing s' = sv_alarmRing s \<and> sv_posRing s' = sv_posRing s \<and> sv_queries s' = sv_queries s \<and> sv_recordQueries s' = sv_recordQueries s"

lemma same_control_refl [simp]: "same_control s s"
  by (simp add: same_control_def)

lemma same_control_trans: "same_control s t \<Longrightarrow> same_control t u \<Longrightarrow> same_control s u"
  by (simp add: same_control_def)

lemma same_control_frame [simp]:
  "same_control s (absorb s m)" "same_control s (sv_emit s es)" "same_control s (s\<lparr>sv_sm := m\<rparr>)" "same_control s (notifyCameraBye h s d c)"
  "same_control s (s\<lparr>sv_sm := m, sv_dialogs := ds\<rparr>)" "same_control s (s\<lparr>sv_holds := hs\<rparr>)" "same_control s (sv_go s ts)"
  by (simp_all add: same_control_def sv_go_def sv_emit_def notifyCameraBye_def split: option.split)

lemma absorb_conn_closed:
  assumes "set (drop (length (sm_log (sv_sm s))) (sm_log m)) \<subseteq> range ConnClosed"
  shows "sv_dialogs (absorb s m) = sv_dialogs s"
proof -
  have "foldl bye_sent t es = t" if "set es \<subseteq> range ConnClosed" for t es using that by (induction es arbitrary: t) auto
  then show ?thesis using assms by (simp add: absorb_def)
qed

lemma abandon_restores:
  assumes "half_open m0 c (sv_sm s)" "c \<notin> fst ` set (sm_sessions m0)"
  shows "\<exists>s'. abandon s c err = Some (s', Some err) \<and> restored m0 (sv_sm s') \<and> same_control s s'"
  using Bye_half_open [OF assms] by (auto simp: abandon_def)

text \<open>The state of an INVITE that is over: a session and a dialog, or neither.\<close>

definition settled :: "session_manager \<Rightarrow> string \<Rightarrow> sip_server \<Rightarrow> invite_error option \<Rightarrow> bool" where
  "settled m0 c s r \<longleftrightarrow> (if r = None then half_open m0 c (sv_sm s) \<and> map_of (sv_dialogs s) c \<noteq> None else restored m0 (sv_sm s))"

lemma answered_settles:
  assumes "half_open m0 c (sv_sm s)" "c \<notin> fst ` set (sm_sessions m0)"
  shows "\<exists>s' r. answered e s dev c resp = Some (s', r) \<and> settled m0 c s' r \<and> same_control s s'"
proof -
  obtain body cid ends where resp: "resp = (body, cid, ends)" by (cases resp)
  obtain m1 where m1: "armMediaSecurity e (sv_sm s) dev c body = Some m1" "half_open m0 c m1" using armMediaSecurity_half_open [OF assms] by blast
  obtain m2 where m2: "seedAudio m1 c body = Some m2" "half_open m0 c m2" using seedAudio_half_open [OF m1(2) assms(2)] by blast
  define s1 where "s1 = (sv_emit (s\<lparr>sv_sm := m1, sv_dialogs := AList.update c \<lparr>dg_callID = cid, dg_ends = ends\<rparr> (sv_dialogs s)\<rparr>) [WireAck c])\<lparr>sv_sm := m2\<rparr>"
  have s1: "sv_sm s1 = m2" "map_of (sv_dialogs s1) c \<noteq> None" "same_control s s1" "sv_cfg s1 = sv_cfg s"
    by (simp_all add: s1_def AList.update_conv' same_control_def sv_emit_def)
  have eq: "answered e s dev c resp = (if pc_MediaTransport (sv_cfg s1) \<noteq> MediaTCPActive then Some (s1, None)
     else ConnectActiveTCP (ie_net e) m2 c body \<bind> (\<lambda>(m, r). case r of Inl err \<Rightarrow> abandon (absorb s1 m) c (MediaConnectFailed err) | Inr _ \<Rightarrow> Some (absorb s1 m, None)))"
    unfolding s1_def using m1(1) m2(1) by (simp add: answered_def resp Let_def)
  obtain m3 r where m3: "ConnectActiveTCP (ie_net e) m2 c body = Some (m3, r)" "half_open m0 c m3" "set (drop (length (sm_log m2)) (sm_log m3)) \<subseteq> range ConnClosed"
    using Connect_half_open [OF m2(2) assms(2)] by blast
  have d3: "map_of (sv_dialogs (absorb s1 m3)) c \<noteq> None" using absorb_conn_closed [of s1 m3] s1 m3(3) by simp
  obtain s4 where s4: "abandon (absorb s1 m3) c err = Some (s4 err, Some err)" "restored m0 (sv_sm (s4 err))" "same_control (absorb s1 m3) (s4 err)" for err
    using abandon_restores [of m0 c "absorb s1 m3"] m3(2) assms(2) by (simp add: choice_iff) metis
  show ?thesis
  proof (cases "pc_MediaTransport (sv_cfg s1) \<noteq> MediaTCPActive")
    case True
    then show ?thesis using eq s1 m2(2) by (simp add: settled_def)
  next
    case False
    have sc: "same_control s (absorb s1 m3)" using same_control_trans [OF s1(3)] by simp
    show ?thesis
    proof (cases r)
      case (Inl err)
      then show ?thesis using eq False m3(1) s4 [of "MediaConnectFailed err"] same_control_trans [OF sc] by (simp add: settled_def)
    next
      case (Inr u)
      then show ?thesis using eq False m3 d3 sc by (simp add: settled_def)
    qed
  qed
qed

lemma reset_frame [simp]: "sv_sm (sendDialogReset e s c addr) = sv_sm s" "same_control s (sendDialogReset e s c addr)"
  by (simp_all add: sendDialogReset_def)

lemma invite_sent_settles:
  assumes "half_open m0 c (sv_sm s)" "c \<notin> fst ` set (sm_sessions m0)"
  shows "\<exists>s' r. invite_sent e s dev c addr = Some (s', r) \<and> settled m0 c s' r \<and> same_control s s'"
proof -
  obtain acks q where q: "awaitInviteAnswer (ie_events e) = (acks, q)" by (cases "awaitInviteAnswer (ie_events e)")
  let ?s = "sv_emit s (replicate acks (WireAck c))"
  have h: "half_open m0 c (sv_sm ?s)" "same_control s ?s" using assms(1) by simp_all
  show ?thesis
  proof (cases q)
    case (Inl err)
    obtain s' where s': "abandon ?s c err = Some (s', Some err)" "restored m0 (sv_sm s')" "same_control ?s s'"
      using abandon_restores [OF h(1) assms(2)] by blast
    then have "same_control s s'" "same_control s (sendDialogReset e s' c addr)" using h(2) by (meson same_control_trans reset_frame)+
    then show ?thesis using s' q Inl by (simp add: invite_sent_def settled_def)
  next
    case (Inr resp)
    obtain s' r where s': "answered e ?s dev c resp = Some (s', r)" "settled m0 c s' r" "same_control ?s s'"
      using answered_settles [OF h(1) assms(2)] by blast
    then show ?thesis using q Inr same_control_trans [OF h(2)] by (simp add: invite_sent_def)
  qed
qed

lemma inviteCore_settles:
  assumes "sm_inv (sv_sm s)" "ch_ID (sm_chans (sv_sm s) a) = c" "map_of (sm_sessions (sv_sm s)) c = None"
  shows "\<exists>s' r. inviteCore e s dev a addr au ad = Some (s', r) \<and> settled (sv_sm s) c s' r \<and> same_control s s'"
proof -
  let ?m0 = "sv_sm s"
  have new: "c \<notin> fst ` set (sm_sessions ?m0)" using assms(3) by (simp add: map_of_eq_None_iff)
  obtain m r where m: "Invite (ie_net e) ?m0 (Some a) (ie_host e) au ad = Some (m, r)" "case r of Inl _ \<Rightarrow> restored ?m0 m | Inr _ \<Rightarrow> half_open ?m0 c m"
    using Invite_effect [OF assms] by blast
  show ?thesis
  proof (cases r)
    case (Inl err)
    then show ?thesis using m assms(2) by (simp add: inviteCore_def settled_def)
  next
    case (Inr sdp)
    let ?s = "absorb s m"
    have h: "half_open ?m0 c (sv_sm ?s)" using m(2) Inr by simp
    define G where "G x \<longleftrightarrow> (\<exists>s' r. x = Some (s', r) \<and> settled ?m0 c s' r \<and> same_control s s')" for x
    have ab: "G (abandon ?s c err)" for err
    proof -
      obtain s' where "abandon ?s c err = Some (s', Some err)" "restored ?m0 (sv_sm s')" "same_control ?s s'"
        using abandon_restores [OF h new, of err] by blast
      then show ?thesis unfolding G_def using same_control_trans [OF same_control_frame(1)]
        by (intro exI [of _ s'] exI [of _ "Some err"]) (simp add: settled_def)
    qed
    have sent: "G (invite_sent e (sv_emit ?s [WireInvite c (subject_of ?s c sdp)]) dev c addr)"
      using invite_sent_settles [of ?m0 c "sv_emit ?s [WireInvite c (subject_of ?s c sdp)]"] h new
        same_control_trans [OF same_control_trans [OF same_control_frame(1) same_control_frame(2)]] unfolding G_def by fastforce
    have "G (inviteCore e s dev a addr au ad)" using m(1) Inr assms(2) ab sent by (simp add: inviteCore_def Let_def)
    then show ?thesis by (simp add: G_def)
  qed
qed

text \<open>Every registered channel has its object at the address the server keeps, and the next object gets an unused address.\<close>

definition sv_linked :: "sip_server \<Rightarrow> bool" where
  "sv_linked s \<longleftrightarrow> (\<forall>d c ch. FindChannel (sv_dm s) d c = Some ch \<longrightarrow>
     ch_ID (sm_chans (sv_sm s) (sv_addr s d c)) = c \<and> sv_addr s d c < sv_fresh s)"

lemma invited_frame [simp]:
  "same_control s (invited s dev c cam)" "sm_sessions (sv_sm (invited s dev c cam)) = sm_sessions (sv_sm s)" "sm_pool (sv_sm (invited s dev c cam)) = sm_pool (sv_sm s)"
  "sv_dialogs (invited s dev c cam) = sv_dialogs s"
  by (auto simp: invited_def MarkPlaying_def cas_status_def set_status_def same_control_def sv_go_def sv_emit_def split: option.split)

lemma invited_inv [simp]: "sm_inv (sv_sm (invited s dev c cam)) = sm_inv (sv_sm s)"
  by (simp add: invited_def MarkPlaying_def sv_go_def split: option.split)

lemma linked_kept: "sv_linked s \<Longrightarrow> same_control s s' \<Longrightarrow> same_ids (sv_sm s) (sv_sm s') \<Longrightarrow> sv_linked s'"
  by (simp add: sv_linked_def same_control_def same_ids_def)

lemma invited_ids [simp]: "same_ids m (sv_sm (invited s dev c cam)) = same_ids m (sv_sm s)"
  by (simp add: invited_def MarkPlaying_def sv_go_def split: option.split)

lemma settled_ids: "settled m0 c s r \<Longrightarrow> same_ids m0 (sv_sm s)"
  by (auto simp: settled_def half_open_def restored_def beside_def split: if_splits)

lemma InviteChannel_outcome:
  assumes "sv_inv s" "sv_linked s"
  shows "\<exists>s' r. InviteChannel h e s dev c = Some (s', r) \<and> sv_inv s' \<and> sv_linked s' \<and> same_control s s'
    \<and> (if r = None
       then \<exists>a. map_of (sm_sessions (sv_sm s')) c = Some a
         \<and> (GetReceiver (sv_sm s) c = None \<longrightarrow> sm_sessions (sv_sm s') = sm_sessions (sv_sm s) @ [(c, a)] \<and> map_of (sv_dialogs s') c \<noteq> None)
       else sm_sessions (sv_sm s') = sm_sessions (sv_sm s) \<and> pm_free (sm_pool (sv_sm s')) = pm_free (sm_pool (sv_sm s)))"
proof -
  have inv: "sm_inv (sv_sm s)" "registry_ok (sv_dm s)" using assms(1) by (simp_all add: sv_inv_def)
  show ?thesis
  proof (cases "sv_started s \<and> map_of (sm_sessions (sv_sm s)) c = None \<and> dm_Device (sv_dm s) dev \<noteq> None \<and> FindChannel (sv_dm s) dev c \<noteq> None")
    case False
    then have "\<exists>r. InviteChannel h e s dev c = Some (s, r) \<and> (r = None \<longrightarrow> map_of (sm_sessions (sv_sm s)) c \<noteq> None)"
      by (cases "map_of (sm_sessions (sv_sm s)) c"; cases "dm_Device (sv_dm s) dev"; cases "FindChannel (sv_dm s) dev c")
         (simp_all add: InviteChannel_def GetReceiver_def)
    then obtain r where r: "InviteChannel h e s dev c = Some (s, r)" "r = None \<longrightarrow> map_of (sm_sessions (sv_sm s)) c \<noteq> None" by blast
    show ?thesis by (rule exI [of _ s], rule exI [of _ r]) (use r assms in \<open>auto simp: GetReceiver_def\<close>)
  next
    case True
    then obtain d ch where st: "sv_started s" "map_of (sm_sessions (sv_sm s)) c = None" "dm_Device (sv_dm s) dev = Some d" "FindChannel (sv_dm s) dev c = Some ch"
      by blast
    obtain au ad where w: "writers h (bound_camera h s dev c) = (au, ad)" by (cases "writers h (bound_camera h s dev c)")
    have id: "ch_ID (sm_chans (sv_sm s) (sv_addr s dev c)) = c" using assms(2) st(4) by (simp add: sv_linked_def)
    obtain s1 r where s1: "inviteCore e s dev (sv_addr s dev c) (dv_NetAddr d) au ad = Some (s1, r)" "settled (sv_sm s) c s1 r" "same_control s s1"
      using inviteCore_settles [OF inv(1) id st(2)] by blast
    have new: "c \<notin> fst ` set (sm_sessions (sv_sm s))" using st(2) by (simp add: map_of_eq_None_iff)
    let ?s' = "if r = None then invited s1 dev c (bound_camera h s dev c) else s1"
    have sc: "same_control s ?s'" using s1(3) same_control_trans [OF s1(3)] by simp
    have "same_ids (sv_sm s) (sv_sm ?s')" using settled_ids [OF s1(2)] by simp
    then have "sv_linked ?s'" by (rule linked_kept [OF assms(2) sc])
    moreover have "sv_inv ?s'" using s1(2,3) inv(2) invited_frame(1) [of s1 dev c "bound_camera h s dev c"]
      by (auto simp: settled_def sv_inv_def half_open_def restored_def beside_def same_control_def)
    moreover have "sm_sessions (sv_sm ?s') = sm_sessions (sv_sm s) \<and> pm_free (sm_pool (sv_sm ?s')) = pm_free (sm_pool (sv_sm s))" if "r \<noteq> None"
      using that s1(2) restored_free [OF inv(1)] by (auto simp: settled_def restored_def)
    moreover have "\<exists>a. map_of (sm_sessions (sv_sm ?s')) c = Some a \<and> sm_sessions (sv_sm ?s') = sm_sessions (sv_sm s) @ [(c, a)] \<and> map_of (sv_dialogs ?s') c \<noteq> None"
      if "r = None" using that s1(2) half_open_entry(1) [OF _ new] by (auto simp: settled_def half_open_def)
    moreover have "InviteChannel h e s dev c = (if bound_camera h s dev c \<noteq> None \<and> bound_camera h s dev c \<noteq> Some [] \<and> \<not> (if ch_AudioOnly ch then ad else au)
        then Some (s, Some RecorderNotRunning) else Some (?s', r))"
      using st w s1(1) by (simp add: InviteChannel_def GetReceiver_def Let_def split del: if_split cong del: if_weak_cong)
    ultimately show ?thesis using assms sc by (cases "r = None") auto
  qed
qed

text \<open>C16: an INVITE is all or nothing. Whatever the device, the network and the SIP stack do, \<open>InviteChannel\<close> returns and keeps the
  invariant. If it reports success the channel has a session, and the one it set up has its dialog recorded. If it reports
  an error, the sessions are the ones before the call and every RTP port taken for the attempt is free again. Devices,
  subscriptions and the sessions of other channels are never touched.\<close>

theorem invite_all_or_nothing:
  assumes "sv_inv s" "sv_linked s"
  shows "\<exists>s' r. InviteChannel h e s dev c = Some (s', r) \<and> sv_inv s' \<and> sv_linked s' \<and> same_control s s'
    \<and> (if r = None
       then \<exists>a. map_of (sm_sessions (sv_sm s')) c = Some a
         \<and> (GetReceiver (sv_sm s) c = None \<longrightarrow> sm_sessions (sv_sm s') = sm_sessions (sv_sm s) @ [(c, a)] \<and> map_of (sv_dialogs s') c \<noteq> None)
       else sm_sessions (sv_sm s') = sm_sessions (sv_sm s) \<and> pm_free (sm_pool (sv_sm s')) = pm_free (sm_pool (sv_sm s)))"
  by (rule InviteChannel_outcome [OF assms])

text \<open>A started server with one device and its channel, and a device that answers 200.\<close>

definition sample_id :: string where "sample_id = ''34020000001320000001''"

definition invite_server :: sip_server where
  "invite_server = register_channel (start_server\<lparr>sv_started := True, sv_dm := Register (NewDeviceManager 60) (new_device sample_id ''10.0.0.5:5060'' ''udp'') 0\<rparr>)
     sample_id (plain_channel sample_id ''gate'')"

definition answering :: invite_env where
  "answering = \<lparr>ie_net = open_net, ie_host = ''10.0.0.1'', ie_builds = True, ie_stopped = False, ie_sends = True,
     ie_events = [Answer 100 [] None True, SpeculativeDue, Answer 200 [] (Some ''c1'') True], ie_resets = True, ie_arm = None\<rparr>"

lemma invite_server_inv: "sv_inv invite_server"
proof -
  have "registry_ok (NewDeviceManager 60)" by (simp add: NewDeviceManager_def registry_ok_def Let_def)
  then have "registry_ok (Register (NewDeviceManager 60) (new_device sample_id ''10.0.0.5:5060'' ''udp'') 0)"
    by (rule Register_ok) (simp add: new_device_def)
  then show ?thesis using start_server_inv RegisterChannel_ok by (simp add: invite_server_def sv_inv_def register_channel_def Let_def) (rule sm_inv_cong [THEN iffD1, rotated -1]; simp)
qed

lemma invite_server_linked: "sv_linked invite_server"
  by (auto simp: sv_linked_def invite_server_def register_channel_def FindChannel_def RegisterChannel_def Register_def NewDeviceManager_def new_device_def
      plain_channel_def attach_def Let_def AList.update.simps AList.map_entry.simps split: if_splits)

theorem invite_all_or_nothing_witness:
  "\<exists>s' r. InviteChannel bare_host answering invite_server sample_id sample_id = Some (s', r) \<and> sv_inv s'
    \<and> (r = None \<longrightarrow> map_of (sv_dialogs s') sample_id \<noteq> None)
    \<and> (r \<noteq> None \<longrightarrow> pm_free (sm_pool (sv_sm s')) = pm_free (sm_pool (sv_sm invite_server)))"
proof -
  have "GetReceiver (sv_sm invite_server) sample_id = None"
    by (simp add: GetReceiver_def invite_server_def register_channel_def start_server_def NewServer_def start_manager_def NewSessionManager_def Let_def
        SetPlaybackByeSender_def SetTCPFraming_def SetMediaTransport_def SetFirstRTPHook_def SetByeSender_def)
  then show ?thesis using invite_all_or_nothing [OF invite_server_inv invite_server_linked, of bare_host answering sample_id sample_id]
    by (auto split: if_splits)
qed

text \<open>Alarm linkage: an alarm on a channel that streams for another reason puts a hold on it, and the hold ends the stream.\<close>

lemma Bye_removes:
  assumes "sm_inv m"
  shows "\<exists>m'. Bye m c = Some m' \<and> sm_inv m' \<and> map_of (sm_sessions m') c = None"
proof (cases "map_of (sm_sessions m) c")
  case (Some a)
  then show ?thesis using remove_live_ok [OF assms Some, of "bye_event m c" True] by (auto simp: Bye_def AList.delete_conv')
qed (use assms in \<open>simp add: Bye_def\<close>)

text \<open>with alarm linkage on, an alarm for a channel that is already streaming and whose recorder does not want it arms a hold on a
  session that the linkage did not start; no INVITE is sent, and when the hold runs out that session is ended.\<close>

theorem alarm_hold_ends_session:
  assumes "sv_inv s" "pc_AlarmLinkage (sv_cfg s) = Some cfg" "al_Enabled cfg" "\<not> wanted dev c" "streamingFor s c"
  shows "\<exists>s1 s2. Trigger pd h wanted e s dev c now = Some s1 \<and> sv_sm s1 = sv_sm s \<and> sv_log s1 = sv_log s \<and> map_of (sv_holds s1) c \<noteq> None
    \<and> hold_elapsed h s1 c = Some s2 \<and> \<not> streamingFor s2 c \<and> sv_inv s2"
proof -
  let ?s1 = "extend s dev c (now + AlarmLinkageDuration pd (Some cfg))"
  obtain m where m: "Bye (sv_sm s) c = Some m" "sm_inv m" "map_of (sm_sessions m) c = None" using Bye_removes assms(1) by (auto simp: sv_inv_def)
  have "Trigger pd h wanted e s dev c now = Some ?s1" using assms by (simp add: Trigger_def)
  moreover have "hold_elapsed h ?s1 c = Some (notifyCameraBye h (absorb (?s1\<lparr>sv_holds := AList.delete c (sv_holds ?s1)\<rparr>) m) dev c)"
    using m(1) by (simp add: hold_elapsed_def ByeChannel_def extend_def AList.update_conv')
  ultimately show ?thesis using assms(1) m by (simp add: sv_inv_def streamingFor_def GetReceiver_def extend_def AList.update_conv')
qed

definition alarm_server :: sip_server where
  "alarm_server = start_server\<lparr>sv_sm := one_session, sv_cfg := sample_config\<lparr>pc_AlarmLinkage := Some \<lparr>al_Enabled = True, al_Duration = []\<rparr>\<rparr>\<rparr>"

lemma one_session_running: "r_running (ss_receiver (sm_heap one_session ! 0))"
  by (simp add: one_session_def start_manager_def NewSessionManager_def NewPortManager_def Invite_def replace_live_def pm_Get_def
      live_transport_def MediaTransport_def MediaUDP_def MediaTCPPassive_def MediaTCPActive_def open_net_def attach_udp_def rx_Start_def new_session_def live_receiver_def
      mediaSecurityOffer_def NewReceiver_def SetAudioOnly_def HasPrefix_def store_live_def cas_status_def set_status_def Let_def word_less_nat_alt)

theorem alarm_hold_ends_session_witness:
  "\<exists>s1 s2. Trigger (\<lambda>_. None) bare_host (\<lambda>_ _. False) answering alarm_server ''34020000001320000001'' (ch_ID sample_channel) 0 = Some s1
    \<and> sv_sm s1 = one_session \<and> hold_elapsed bare_host s1 (ch_ID sample_channel) = Some s2 \<and> \<not> streamingFor s2 (ch_ID sample_channel)"
proof -
  have "sv_inv alarm_server" using start_server_inv sm_reach_inv [OF one_session_reach] by (simp add: alarm_server_def sv_inv_def)
  moreover have "streamingFor alarm_server (ch_ID sample_channel)"
    using one_session_facts(1) one_session_running by (simp add: alarm_server_def streamingFor_def GetReceiver_def)
  ultimately show ?thesis
    using alarm_hold_ends_session [of alarm_server "\<lparr>al_Enabled = True, al_Duration = []\<rparr>" "\<lambda>_ _. False" "''34020000001320000001''" "ch_ID sample_channel"
        "\<lambda>_. None" bare_host answering 0]
    by (fastforce simp: alarm_server_def)
qed

end
