(* ===== verification/Sip_Handlers.thy ===== *)
theory Sip_Handlers
  imports Sip_Invite
begin

text \<open>
  The other requests the platform receives (\<open>handleMessage\<close>, \<open>handleNotify\<close>, \<open>handleBye\<close>, \<open>handleInfo\<close>, \<open>handleOptions\<close>
  of \<open>src/platform/sip/server.go\<close> and \<open>subscribe.go\<close>), the merge of a catalog, the subscriptions with their renewal,
  the rings of alarms and positions, and the recording queries of \<open>src/platform/sip/playback.go\<close>.

  A failed type assertion panics: the handler is then \<open>None\<close>.
\<close>

subsection \<open>Subscriptions\<close>

definition subscriptionSubjects :: "platform_config \<Rightarrow> string list" where
  "subscriptionSubjects c =
     (if CatalogSubscriptionOn c then [''Catalog''] else []) @ (if AlarmSubscriptionOn c then [''Alarm''] else [])
     @ (if pc_SubscribeMobilePosition c then [''MobilePosition''] else [])"

definition subscribeExpires :: "(string \<Rightarrow> int option) \<Rightarrow> platform_config \<Rightarrow> int" where
  "subscribeExpires pd c = positive_duration pd (pc_SubscribeExpires c) (seconds 3600)"

datatype sip_send_error = SendNotStarted | SendUnknownDevice | SendBadAddress | SendBadPort | SendRefused

definition refreshAt :: "int \<Rightarrow> int \<Rightarrow> int" where
  "refreshAt now expires = now + (wrap64 (expires * 80)) sdiv 100"

text \<open>\<open>sends\<close> says whether the SIP stack builds and sends a request.\<close>

definition sendRequestTo :: "bool \<Rightarrow> sip_server \<Rightarrow> string \<Rightarrow> sip_send_error option" where
  "sendRequestTo sends s netAddr =
     (if \<not> sv_started s then Some SendNotStarted
      else case SplitHostPort netAddr of
        None \<Rightarrow> Some SendBadAddress
      | Some (devHost, devPort) \<Rightarrow>
          if go_atoi devPort = None then Some SendBadPort else if \<not> sends then Some SendRefused else None)"

definition SendMessage :: "bool \<Rightarrow> sip_server \<Rightarrow> string \<Rightarrow> string \<Rightarrow> sip_server \<times> sip_send_error option" where
  "SendMessage sends s dev body =
     (if \<not> sv_started s then (s, Some SendNotStarted)
      else case dm_Device (sv_dm s) dev of
        None \<Rightarrow> (s, Some SendUnknownDevice)
      | Some d \<Rightarrow>
          (case sendRequestTo sends s (dv_NetAddr d) of
             Some err \<Rightarrow> (s, Some err)
           | None \<Rightarrow> (sv_emit s [WireMessage dev body], None)))"

definition sub_key :: "string \<Rightarrow> string \<Rightarrow> string" where "sub_key dev subject = dev @ ''|'' @ subject"

definition sendSubscribe :: "(string \<Rightarrow> int option) \<Rightarrow> bool \<Rightarrow> sip_server \<Rightarrow> string \<Rightarrow> string \<Rightarrow> int \<Rightarrow> sip_server \<times> sip_send_error option" where
  "sendSubscribe pd sends s dev subject now =
     (if \<not> sv_started s then (s, Some SendNotStarted)
      else case dm_Device (sv_dm s) dev of
        None \<Rightarrow> (s, Some SendUnknownDevice)
      | Some d \<Rightarrow>
          let expires = subscribeExpires pd (sv_cfg s) in
          (case sendRequestTo sends s (dv_NetAddr d) of
             Some err \<Rightarrow> (s, Some err)
           | None \<Rightarrow>
               ((sv_emit s [WireSubscribe dev subject])\<lparr>sv_subscriptions := AList.update (sub_key dev subject)
                   \<lparr>gs_deviceID = dev, gs_subject = subject, gs_expires = expires, gs_refreshAt = refreshAt now expires\<rparr> (sv_subscriptions s)\<rparr>, None)))"

definition subscribeDevice :: "(string \<Rightarrow> int option) \<Rightarrow> bool \<Rightarrow> sip_server \<Rightarrow> string \<Rightarrow> int \<Rightarrow> sip_server" where
  "subscribeDevice pd sends s dev now =
     foldl (\<lambda>s subject. fst (sendSubscribe pd sends s dev subject now)) s (subscriptionSubjects (sv_cfg s))"

text \<open>One tick of \<open>subscribeLoop\<close>.\<close>

definition online :: "sip_server \<Rightarrow> string \<Rightarrow> bool" where
  "online s dev = (case dm_Device (sv_dm s) dev of None \<Rightarrow> False | Some d \<Rightarrow> dv_Status d = DeviceOnline)"

definition subscribe_tick :: "(string \<Rightarrow> int option) \<Rightarrow> bool \<Rightarrow> sip_server \<Rightarrow> int \<Rightarrow> sip_server" where
  "subscribe_tick pd sends s now =
     foldl (\<lambda>s sub. if online s (gs_deviceID sub) then fst (sendSubscribe pd sends s (gs_deviceID sub) (gs_subject sub) now) else s)
       s (filter (\<lambda>sub. gs_refreshAt sub < now) (map snd (sv_subscriptions s)))"

subsection \<open>Queries the platform sends\<close>

definition query_body :: "string \<Rightarrow> int \<Rightarrow> string \<Rightarrow> string" where
  "query_body cmd sn dev =
     ''<Query><CmdType>'' @ cmd @ ''</CmdType><SN>'' @ go_itoa sn @ ''</SN><DeviceID>'' @ dev @ ''</DeviceID></Query>''"

definition queryDeviceDetails :: "bool \<Rightarrow> sip_server \<Rightarrow> string \<Rightarrow> int \<Rightarrow> int \<Rightarrow> sip_server" where
  "queryDeviceDetails sends s dev sn1 sn2 =
     fst (SendMessage sends (fst (SendMessage sends s dev (query_body ''DeviceInfo'' sn1 dev))) dev (query_body ''DeviceStatus'' sn2 dev))"

definition requestCatalog :: "bool \<Rightarrow> sip_server \<Rightarrow> string \<Rightarrow> int \<Rightarrow> sip_server \<times> sip_send_error option" where
  "requestCatalog sends s dev sn =
     (if \<not> online s dev then (s, Some SendUnknownDevice) else SendMessage sends s dev (query_body ''Catalog'' sn dev))"

text \<open>One tick of \<open>catalogLoop\<close>.\<close>

definition catalog_tick :: "bool \<Rightarrow> sip_server \<Rightarrow> int \<Rightarrow> sip_server" where
  "catalog_tick sends s sn =
     foldl (\<lambda>s d. if dv_Status d = DeviceOnline then fst (requestCatalog sends s (dv_ID d) sn) else s) s (AllDevices (sv_dm s))"

subsection \<open>Alarms and positions\<close>

definition maxAlarmsPerDevice :: nat where "maxAlarmsPerDevice = 200"

definition maxPositionsPerDevice :: nat where "maxPositionsPerDevice = 100"

definition alarm_owner :: "sip_server \<Rightarrow> string \<Rightarrow> string" where
  "alarm_owner s c = (let d = deviceOfChannel s c in if d = [] then c else d)"

definition ring_alarm :: "host_env \<Rightarrow> sip_server \<Rightarrow> gb_alarm \<Rightarrow> int \<Rightarrow> sip_server" where
  "ring_alarm h s a now =
     (let owner = alarm_owner s (ga_DeviceID a);
          cam = (case bound_camera h s owner (ga_DeviceID a) of None \<Rightarrow> [] | Some i \<Rightarrow> i);
          evt = \<lparr>ae_CameraID = cam, ae_alarm = a, ae_ReceivedAt = now\<rparr>;
          s = s\<lparr>sv_alarmRing := (sv_alarmRing s)(owner := take maxAlarmsPerDevice (evt # sv_alarmRing s owner))\<rparr>
      in if sv_eventBus s then sv_emit s [PublishAlarm (ga_DeviceID a)] else s)"

definition handleAlarm :: "(string \<Rightarrow> int option) \<Rightarrow> host_env \<Rightarrow> (string \<Rightarrow> string \<Rightarrow> bool) \<Rightarrow> invite_env \<Rightarrow> sip_server \<Rightarrow> gb_alarm \<Rightarrow> int \<Rightarrow> sip_server go" where
  "handleAlarm pd h wanted e s a now = Trigger pd h wanted e (ring_alarm h s a now) (alarm_owner s (ga_DeviceID a)) (ga_DeviceID a) now"

definition GB28181Alarms :: "sip_server \<Rightarrow> string \<Rightarrow> alarm_event list" where
  "GB28181Alarms s dev = sv_alarmRing s dev"

definition handleMobilePosition :: "sip_server \<Rightarrow> mobile_position \<Rightarrow> int \<Rightarrow> sip_server" where
  "handleMobilePosition s p now =
     s\<lparr>sv_posRing := (sv_posRing s)(mp_DeviceID p := take maxPositionsPerDevice ((p, now) # sv_posRing s (mp_DeviceID p)))\<rparr>"

definition GB28181Positions :: "sip_server \<Rightarrow> string \<Rightarrow> (mobile_position \<times> int) list" where
  "GB28181Positions s dev = sv_posRing s dev"

subsection \<open>Catalogs\<close>

definition other_real :: "string \<Rightarrow> catalog_item list \<Rightarrow> bool" where
  "other_real dev items = list_ex (\<lambda>it. it_Parental it \<noteq> 1 \<and> it_DeviceID it \<noteq> dev) items"

definition channelStatusString :: "channel_status \<Rightarrow> string" where
  "channelStatusString st = (case st of ChannelInviting \<Rightarrow> ''inviting'' | ChannelPlaying \<Rightarrow> ''playing'' | ChannelIdle \<Rightarrow> ''idle'')"

definition item_channel :: "catalog_item \<Rightarrow> channel_status \<Rightarrow> channel" where
  "item_channel it st =
     \<lparr>ch_DeviceID = [], ch_ID = it_DeviceID it, ch_Name = it_Name it, ch_Parental = it_Parental it, ch_Status = st, ch_PTZType = it_PTZType it,
      ch_Photoelectric = it_Photoelectric it, ch_SubProbe = False, ch_TypeCode = 0, ch_AudioOnly = False\<rparr>"

text \<open>Whether an item is a channel to register, and the status it keeps.\<close>

definition merges :: "string \<Rightarrow> catalog_item list \<Rightarrow> catalog_item \<Rightarrow> bool" where
  "merges dev items it \<longleftrightarrow> \<not> (other_real dev items \<and> it_DeviceID it = dev) \<and> it_Parental it \<noteq> 1"

definition kept_status :: "sip_server \<Rightarrow> string \<Rightarrow> string \<Rightarrow> channel_status" where
  "kept_status s dev c = (if FindChannel (sv_dm s) dev c \<noteq> None then channel_state s dev c else ChannelIdle)"

definition merge_item :: "host_env \<Rightarrow> string \<Rightarrow> string \<Rightarrow> sip_server \<Rightarrow> catalog_item \<Rightarrow> sip_server" where
  "merge_item h dev srcHost s it =
     (let c = it_DeviceID it; status = kept_status s dev c;
          s = register_channel s dev (item_channel it status);
          cam = (case bound_camera h s dev c of None \<Rightarrow> [] | Some i \<Rightarrow> i)
      in sv_emit s ((if sv_db s then [DbUpsertChannel c dev (it_Name it) (channelStatusString status) cam] else [])
           @ (if cam = [] \<and> sv_enroller s then [EnsureCamera dev c (it_Name it) srcHost] else [])))"

definition retireDeviceSelfChannel :: "sip_server \<Rightarrow> string \<Rightarrow> catalog_item list \<Rightarrow> sip_server" where
  "retireDeviceSelfChannel s dev items =
     (if \<not> other_real dev items \<or> FindChannel (sv_dm s) dev dev = None \<or> channel_state s dev dev \<noteq> ChannelIdle then s
      else sv_emit (s\<lparr>sv_dm := UnregisterChannel (sv_dm s) dev dev\<rparr>)
             ((if sv_db s then [DbDeleteChannel dev] else []) @ (if sv_enroller s then [ArchiveCamera dev dev] else [])))"

definition first_nonempty :: "(catalog_item \<Rightarrow> string) \<Rightarrow> catalog_item list \<Rightarrow> string" where
  "first_nonempty f items =
     (case find (\<lambda>it. it_Parental it \<noteq> 1 \<and> f it \<noteq> []) items of None \<Rightarrow> [] | Some it \<Rightarrow> f it)"

definition device_host :: "sip_server \<Rightarrow> string \<Rightarrow> string" where
  "device_host s dev = (case dm_Device (sv_dm s) dev of None \<Rightarrow> [] | Some d \<Rightarrow> hostOfAddr (dv_NetAddr d))"

definition mergeCatalogChannels :: "host_env \<Rightarrow> sip_server \<Rightarrow> string \<Rightarrow> catalog_item list \<Rightarrow> sip_server" where
  "mergeCatalogChannels h s dev items =
     (let s = foldl (merge_item h dev (device_host s dev)) s (filter (merges dev items) items);
          s = sv_go (retireDeviceSelfChannel s dev items) [TAutoInvite dev, TProbe dev];
          mfr = first_nonempty it_Manufacturer items; mdl = first_nonempty it_Model items
      in if (mfr \<noteq> [] \<or> mdl \<noteq> []) \<and> sv_enroller s then sv_emit s [CameraMeta dev mfr mdl] else s)"

subsection \<open>Recording queries\<close>

definition recordKey :: "string \<Rightarrow> int \<Rightarrow> string" where "recordKey dev sn = dev @ ''|'' @ go_itoa sn"

text \<open>The two halves of \<open>QueryChannelRecords\<close>: before the query is sent and after the wait.\<close>

definition open_query :: "sip_server \<Rightarrow> string \<Rightarrow> string \<Rightarrow> int \<Rightarrow> sip_server" where
  "open_query s dev c sn =
     (let q = length (sv_queries s) in
      s\<lparr>sv_queries := sv_queries s @ [\<lparr>pq_sn = sn, pq_sumNum = 0, pq_items = [], pq_done = False\<rparr>],
        sv_recordQueries := AList.update (recordKey c sn) q (AList.update (recordKey dev sn) q (sv_recordQueries s))\<rparr>)"

definition close_query :: "sip_server \<Rightarrow> string \<Rightarrow> string \<Rightarrow> int \<Rightarrow> sip_server" where
  "close_query s dev c sn =
     s\<lparr>sv_recordQueries := AList.delete (recordKey c sn) (AList.delete (recordKey dev sn) (sv_recordQueries s))\<rparr>"

definition fold_page :: "pending_query \<Rightarrow> int \<Rightarrow> record_item list \<Rightarrow> pending_query" where
  "fold_page q sumNum items =
     (let q = q\<lparr>pq_sumNum := max (pq_sumNum q) sumNum, pq_items := pq_items q @ items\<rparr>;
          complete = (pq_sumNum q > 0 \<and> int (length (pq_items q)) \<ge> pq_sumNum q)
      in if complete then q\<lparr>pq_done := True\<rparr> else q)"

definition feedRecordQuery :: "sip_server \<Rightarrow> string \<Rightarrow> int \<Rightarrow> int \<Rightarrow> record_item list \<Rightarrow> sip_server" where
  "feedRecordQuery s dev sn sumNum items =
     (case map_of (sv_recordQueries s) (recordKey dev sn) of
        None \<Rightarrow> s
      | Some q \<Rightarrow> s\<lparr>sv_queries := (sv_queries s)[q := fold_page (sv_queries s ! q) sumNum items]\<rparr>)"

subsection \<open>MESSAGE\<close>

definition verifyIncomingNote :: "register_authenticator \<Rightarrow> sip_request \<Rightarrow> bool" where
  "verifyIncomingNote ra req =
     (let note = rawHeaderValue req ''Note''; callID = rawHeaderValue req ''Call-ID'';
          callID = (if callID = [] then rq_wire req ''Call-ID'' else callID) in
      note = [] \<or> ra_VerifyNote ra (case rq_from req of None \<Rightarrow> [] | Some u \<Rightarrow> u) note (rq_method req)
        (rq_wire req ''From'') (rq_wire req ''To'') callID (rawHeaderValue req ''Date'') (rq_body req))"

definition note_ok :: "sip_server \<Rightarrow> sip_request \<Rightarrow> bool" where
  "note_ok s req = (case sv_auth s of None \<Rightarrow> True | Some ra \<Rightarrow> verifyIncomingNote ra req)"

definition ok_reply :: reply where "ok_reply = (200, ''OK'', [])"

definition handleKeepalive :: "host_env \<Rightarrow> sip_server \<Rightarrow> string \<Rightarrow> string \<Rightarrow> string \<Rightarrow> int \<Rightarrow> (sip_server \<times> reply) go" where
  "handleKeepalive h s fromUser dev status now =
     (if fromUser \<noteq> [] \<and> fromUser \<noteq> dev then Some (s, (403, ''Keepalive sender mismatch'', []))
      else if dm_Device (sv_dm s) dev = None then Some (s, (403, ''Device not registered'', []))
      else if status \<noteq> [] \<and> status \<noteq> ''OK''
      then do {
        s \<leftarrow> teardownDevice h s dev;
        let s = s\<lparr>sv_dm := MarkOffline (sv_dm s) dev\<rparr>;
        Some (if sv_db s then sv_emit s [DbOffline dev] else s, ok_reply) }
      else
        let s = s\<lparr>sv_dm := Touch (sv_dm s) dev now\<rparr> in
        Some (if sv_db s then sv_emit s [DbUpsertDevice dev [] [] [] ''online''] else s, ok_reply))"

definition note_info :: "string \<Rightarrow> string \<Rightarrow> string \<Rightarrow> device \<Rightarrow> device" where
  "note_info name mfr mdl d =
     d\<lparr>dv_Name := (if name \<noteq> [] then name else dv_Name d), dv_Manufacturer := (if mfr \<noteq> [] then mfr else dv_Manufacturer d),
       dv_Model := (if mdl \<noteq> [] then mdl else dv_Model d)\<rparr>"

definition handleDeviceInfo :: "sip_server \<Rightarrow> string \<Rightarrow> string \<Rightarrow> string \<Rightarrow> string \<Rightarrow> sip_server" where
  "handleDeviceInfo s dev name mfr mdl =
     (let s = s\<lparr>sv_dm := (sv_dm s)\<lparr>dm_devices := AList.map_entry dev (note_info name mfr mdl) (dm_devices (sv_dm s))\<rparr>\<rparr>
      in sv_emit s ((if sv_db s then [DbUpsertDevice dev name mfr mdl ''online''] else [])
           @ (if sv_enroller s \<and> (mfr \<noteq> [] \<or> mdl \<noteq> []) then [CameraMeta dev mfr mdl] else [])))"

text \<open>The switch of \<open>handleMessage\<close> on a decoded body: the cases assert the type of the payload.\<close>

definition message_case :: "(string \<Rightarrow> int option) \<Rightarrow> host_env \<Rightarrow> (string \<Rightarrow> string \<Rightarrow> bool) \<Rightarrow> invite_env \<Rightarrow> sip_server \<Rightarrow> string \<Rightarrow> string \<Rightarrow> payload \<Rightarrow> int \<Rightarrow> (sip_server \<times> reply) go" where
  "message_case pd h wanted e s fromUser ct p now =
     (if ct = ''Broadcast'' then Some (s, ok_reply)
      else if ct = ''Keepalive'' then (case p of PKeepalive dev status \<Rightarrow> handleKeepalive h s fromUser dev status now | _ \<Rightarrow> None)
      else if ct = ''Catalog'' then Some (case p of PCatalogNotify dev items \<Rightarrow> mergeCatalogChannels h s dev items
             | PCatalog dev items \<Rightarrow> mergeCatalogChannels h s dev items | _ \<Rightarrow> s, ok_reply)
      else if ct = ''RecordInfo'' then (case p of PRecordInfo dev sn sumNum items \<Rightarrow> Some (feedRecordQuery s dev sn sumNum items, ok_reply) | _ \<Rightarrow> None)
      else if ct = ''DeviceInfo'' then (case p of PDeviceInfo dev name mfr mdl \<Rightarrow> Some (handleDeviceInfo s dev name mfr mdl, ok_reply) | _ \<Rightarrow> None)
      else if ct = ''DeviceStatus'' then (case p of PDeviceStatus dev status \<Rightarrow> Some (s, ok_reply) | _ \<Rightarrow> None)
      else if ct = ''Alarm'' then (case p of PAlarm a \<Rightarrow> map_option (\<lambda>s. (s, ok_reply)) (handleAlarm pd h wanted e s a now) | _ \<Rightarrow> None)
      else if ct = ''UploadSnapShotFinished''
      then (case p of PSnapShotFinished dev sess files \<Rightarrow> Some (if sv_eventBus s then sv_emit s [PublishSnapshot dev sess files] else s, ok_reply) | _ \<Rightarrow> None)
      else if ct = ''TimeSync'' then (case p of PTimeSyncQuery dev sn \<Rightarrow> Some (sv_go s [TTimeSync dev sn], ok_reply) | _ \<Rightarrow> None)
      else Some (s, ok_reply))"

definition handleMessage :: "(string \<Rightarrow> int option) \<Rightarrow> host_env \<Rightarrow> (string \<Rightarrow> string \<Rightarrow> bool) \<Rightarrow> invite_env \<Rightarrow> xml_env \<Rightarrow> sip_server \<Rightarrow> sip_request \<Rightarrow> int \<Rightarrow> (sip_server \<times> reply) go" where
  "handleMessage pd h wanted e x s req now =
     (if \<not> note_ok s req then Some (s, (403, ''Note verification failed'', []))
      else if rq_body req = [] then Some (s, (400, ''Empty body'', []))
      else case Decode x (rq_body req) of
        Inl _ \<Rightarrow> Some (s, (400, ''Invalid MANSCDP body'', []))
      | Inr (ct, p) \<Rightarrow> message_case pd h wanted e s (case rq_from req of None \<Rightarrow> [] | Some u \<Rightarrow> u) ct p now)"

subsection \<open>NOTIFY, BYE, INFO and OPTIONS\<close>

definition notify_case :: "(string \<Rightarrow> int option) \<Rightarrow> host_env \<Rightarrow> (string \<Rightarrow> string \<Rightarrow> bool) \<Rightarrow> invite_env \<Rightarrow> sip_server \<Rightarrow> string \<Rightarrow> payload \<Rightarrow> int \<Rightarrow> sip_server go" where
  "notify_case pd h wanted e s ct p now =
     (if ct = ''Catalog'' then (case p of PCatalogNotify dev items \<Rightarrow> Some (mergeCatalogChannels h s dev items) | _ \<Rightarrow> None)
      else if ct = ''Alarm'' then (case p of PAlarm a \<Rightarrow> handleAlarm pd h wanted e s a now | _ \<Rightarrow> None)
      else if ct = ''MobilePosition'' then (case p of PMobilePosition mp \<Rightarrow> Some (handleMobilePosition s mp now) | _ \<Rightarrow> None)
      else Some s)"

definition handleNotify :: "(string \<Rightarrow> int option) \<Rightarrow> host_env \<Rightarrow> (string \<Rightarrow> string \<Rightarrow> bool) \<Rightarrow> invite_env \<Rightarrow> xml_env \<Rightarrow> sip_server \<Rightarrow> sip_request \<Rightarrow> int \<Rightarrow> (sip_server \<times> reply) go" where
  "handleNotify pd h wanted e x s req now =
     (if rq_body req = [] then Some (s, (400, ''Empty body'', []))
      else case Decode x (rq_body req) of
        Inl _ \<Rightarrow> Some (s, (400, ''Invalid MANSCDP body'', []))
      | Inr (ct, p) \<Rightarrow> map_option (\<lambda>s. (s, ok_reply)) (notify_case pd h wanted e s ct p now))"

definition StopPlayback :: "sip_server \<Rightarrow> string \<Rightarrow> sip_server go" where
  "StopPlayback s c = do {
     let s = s\<lparr>sv_playbacks := removeAll c (sv_playbacks s)\<rparr>;
     m \<leftarrow> ByePlayback (sv_sm s) c;
     Some (absorb s m) }"

definition requestIDs :: "sip_request \<Rightarrow> string \<times> string" where
  "requestIDs req = (case rq_from req of None \<Rightarrow> [] | Some u \<Rightarrow> u, case rq_to req of None \<Rightarrow> [] | Some u \<Rightarrow> u)"

definition stopTalkOnBye :: "sip_server \<Rightarrow> sip_request \<Rightarrow> sip_server option" where
  "stopTalkOnBye s req =
     (case rq_callID req of
        None \<Rightarrow> None
      | Some cid \<Rightarrow>
          (case find (\<lambda>(c, t). t \<noteq> [] \<and> t = cid) (sv_talks s) of
             None \<Rightarrow> None
           | Some (c, t) \<Rightarrow> Some (s\<lparr>sv_talks := AList.delete c (sv_talks s)\<rparr>)))"

text \<open>Whether a request belongs to the fetch dialog of a channel.\<close>

definition on_fetch_dialog :: "sip_server \<Rightarrow> sip_request \<Rightarrow> string \<Rightarrow> bool" where
  "on_fetch_dialog s req c =
     (case (rq_callID req, map_of (sv_pbDialogs s) c) of (Some cid, Some d) \<Rightarrow> dg_callID d = Some cid | _ \<Rightarrow> False)"

definition bye_target :: "sip_server \<Rightarrow> sip_request \<Rightarrow> string \<times> string" where
  "bye_target s req =
     (let (deviceID, channelID) = requestIDs req; server = pc_ServerID (sv_cfg s);
          byeChannel = (case rq_from req of Some u \<Rightarrow> if u \<noteq> [] \<and> u \<noteq> server then u else channelID | None \<Rightarrow> channelID)
      in (if byeChannel \<noteq> channelID \<or> deviceID = server then deviceOfChannel s byeChannel else deviceID, byeChannel))"

definition handleBye :: "host_env \<Rightarrow> sip_server \<Rightarrow> sip_request \<Rightarrow> (sip_server \<times> reply) go" where
  "handleBye h s req =
     (let (deviceID, channelID) = requestIDs req in
      case stopTalkOnBye s req of
        Some s \<Rightarrow> Some (s, ok_reply)
      | None \<Rightarrow>
          if on_fetch_dialog s req channelID
          then do {
            s \<leftarrow> StopPlayback (s\<lparr>sv_pbDialogs := AList.delete channelID (sv_pbDialogs s)\<rparr>) channelID;
            Some (s, ok_reply) }
          else if sv_onBye s then Some (s, ok_reply)
          else do {
            let (dev, c) = bye_target s req;
            let s = s\<lparr>sv_dialogs := AList.delete c (sv_dialogs s)\<rparr>;
            m \<leftarrow> Bye (sv_sm s) c;
            Some (notifyCameraBye h (absorb s m) dev c, ok_reply) })"

definition handleInfo :: "sip_server \<Rightarrow> sip_request \<Rightarrow> (sip_server \<times> reply) go" where
  "handleInfo s req =
     (let body = ToLower (rq_body req); c = (case rq_from req of None \<Rightarrow> [] | Some u \<Rightarrow> u) in
      if \<not> Contains body ''mediastatus'' \<or> c = [] \<or> c = pc_ServerID (sv_cfg s) \<or> \<not> on_fetch_dialog s req c \<or> \<not> Contains body ''finished''
      then Some (s, ok_reply)
      else map_option (\<lambda>s. (s, ok_reply)) (StopPlayback s c))"

definition handleOptions :: "sip_server \<Rightarrow> reply" where
  "handleOptions s = (200, ''OK'', [(''Allow'', ''REGISTER, MESSAGE, INVITE, ACK, BYE, CANCEL, OPTIONS'')])"

subsection \<open>Life cycle\<close>

text \<open>\<open>Start\<close>: \<open>listens\<close> says which listeners the network accepts.\<close>

datatype start_failure = ConfigInvalid config_error | ListenHostInvalid | ListenFailed string | TlsFilesMissing

definition listen_steps :: "platform_config \<Rightarrow> (string \<Rightarrow> bool) \<Rightarrow> start_failure option" where
  "listen_steps c listens =
     (if \<not> listens ''UDP'' then Some (ListenFailed ''UDP'')
      else if (pc_SIPTransport c = ''tcp'' \<or> pc_TCPMode c) \<and> \<not> listens ''TCP'' then Some (ListenFailed ''TCP'')
      else if pc_SIPTransport c = ''tls'' \<and> (pc_TLSCertFile c = [] \<or> pc_TLSKeyFile c = []) then Some TlsFilesMissing
      else if pc_SIPTransport c = ''tls'' \<and> \<not> listens ''TLS'' then Some (ListenFailed ''TLS'')
      else None)"

definition sv_Start :: "(string \<Rightarrow> int option) \<Rightarrow> (string \<Rightarrow> bool) \<Rightarrow> (string \<Rightarrow> bool) \<Rightarrow> sip_server \<Rightarrow> sip_server \<times> start_failure option" where
  "sv_Start pd ip_ok listens s =
     (case pc_Validate pd ip_ok (sv_cfg s) of
        Some err \<Rightarrow> (s, Some (ConfigInvalid err))
      | None \<Rightarrow>
          if sv_started s then (s, None)
          else case parseSIPListen (pc_SIPListen (sv_cfg s)) of
            Inl err \<Rightarrow> (s, Some (ConfigInvalid err))
          | Inr (host, port) \<Rightarrow>
              if \<not> ip_ok (if host = [] then ''0.0.0.0'' else host) then (s, Some ListenHostInvalid)
              else case listen_steps (sv_cfg s) listens of
                Some err \<Rightarrow> (s, Some err)
              | None \<Rightarrow> (s\<lparr>sv_started := True, sv_dm := dm_Start (sv_dm s)\<rparr>, None))"

definition sv_Stop :: "sip_server \<Rightarrow> sip_server" where
  "sv_Stop s = (if \<not> sv_started s then s else s\<lparr>sv_started := False, sv_holds := [], sv_dm := dm_Stop (sv_dm s)\<rparr>)"

end
