(* ===== verification/Sip_Reach.thy ===== *)
theory Sip_Reach
  imports Sip_Handlers
begin

text \<open>
  What holds of the platform's SIP server in every state its handlers, timers and callers can reach: the invariant, how each operation
  keeps it, and which requests make a handler panic.
\<close>

subsection \<open>The invariant\<close>

definition rings_ok :: "sip_server \<Rightarrow> bool" where
  "rings_ok s \<longleftrightarrow> (\<forall>d. length (sv_alarmRing s d) \<le> 200 \<and> length (sv_posRing s d) \<le> 100)"

definition queries_ok :: "sip_server \<Rightarrow> bool" where
  "queries_ok s \<longleftrightarrow> (\<forall>k q. map_of (sv_recordQueries s) k = Some q \<longrightarrow> q < length (sv_queries s))"

definition sv_good :: "sip_server \<Rightarrow> bool" where
  "sv_good s \<longleftrightarrow> sv_inv s \<and> sv_linked s \<and> rings_ok s \<and> queries_ok s"

text \<open>The part of the state the invariant speaks of, up to the session manager.\<close>

definition keeps :: "sip_server \<Rightarrow> sip_server \<Rightarrow> bool" where
  "keeps s s' \<longleftrightarrow> sv_dm s' = sv_dm s \<and> sv_addr s' = sv_addr s \<and> sv_fresh s' = sv_fresh s \<and> same_ids (sv_sm s) (sv_sm s')
     \<and> sv_alarmRing s' = sv_alarmRing s \<and> sv_posRing s' = sv_posRing s \<and> sv_queries s' = sv_queries s \<and> sv_recordQueries s' = sv_recordQueries s"

lemma keeps_refl [simp]: "keeps s s"
  by (simp add: keeps_def)

lemma keeps_trans: "keeps s t \<Longrightarrow> keeps t u \<Longrightarrow> keeps s u"
  by (simp add: keeps_def same_ids_def)

lemma keeps_control: "same_control s s' \<Longrightarrow> same_ids (sv_sm s) (sv_sm s') \<Longrightarrow> keeps s s'"
  by (simp add: keeps_def same_control_def)

lemma good_keeps: "sv_good s \<Longrightarrow> keeps s s' \<Longrightarrow> sm_inv (sv_sm s') \<Longrightarrow> sv_good s'"
  by (simp add: sv_good_def keeps_def sv_inv_def sv_linked_def rings_ok_def queries_ok_def same_ids_def)

lemma good_control: "sv_good s \<Longrightarrow> same_control s s' \<Longrightarrow> sv_inv s' \<Longrightarrow> sv_linked s' \<Longrightarrow> sv_good s'"
  by (simp add: sv_good_def same_control_def rings_ok_def queries_ok_def)

lemma keeps_frame [simp]:
  "same_ids (sv_sm s) m \<Longrightarrow> keeps s (absorb s m)" "keeps s (sv_emit s es)" "keeps s (sv_go s ts)" "keeps s (notifyCameraBye h s d c)"
  "keeps s (s\<lparr>sv_subscriptions := x\<rparr>)" "keeps s (s\<lparr>sv_dialogs := ds\<rparr>)" "keeps s (s\<lparr>sv_pbDialogs := ds\<rparr>)" "keeps s (s\<lparr>sv_talks := tks\<rparr>)"
  "keeps s (s\<lparr>sv_playbacks := pbs\<rparr>)" "keeps s (s\<lparr>sv_holds := hs\<rparr>)" "keeps s (s\<lparr>sv_started := b\<rparr>)" "keeps s (s\<lparr>sv_authFailures := af\<rparr>)"
  by (simp_all add: keeps_def sv_emit_def sv_go_def notifyCameraBye_def split: option.split)

lemma sm_frame [simp]: "sv_sm (sv_emit s es) = sv_sm s" "sv_sm (sv_go s ts) = sv_sm s" "sv_sm (unsubscribeDevice s dev) = sv_sm s"
  by (simp_all add: sv_emit_def sv_go_def unsubscribeDevice_def)

lemma keeps_notify_all [simp]: "keeps s (foldl (\<lambda>s ch. notifyCameraBye h s d (ch_ID ch)) s cs)"
proof (induction cs arbitrary: s)
  case (Cons ch cs)
  show ?case using keeps_trans [OF keeps_frame(4) Cons.IH] by simp
qed simp

subsection \<open>Channel objects keep their identifiers\<close>

lemma teardown_all_ids: "teardown_all m as = Some m' \<Longrightarrow> same_ids m m'"
proof (induction as arbitrary: m)
  case (Cons a as)
  then show ?case by (auto simp: Option.bind_eq_Some_conv dest!: teardown_ids intro: same_ids_trans)
qed simp

lemma ByeDevice_ids: "ByeDevice m dev = Some m' \<Longrightarrow> same_ids m m'"
  using teardown_all_ids by (fastforce simp: ByeDevice_def Let_def same_ids_def)

lemma ByePlayback_ids: "ByePlayback m c = Some m' \<Longrightarrow> same_ids m m'"
  by (auto simp: ByePlayback_def same_ids_def dest!: teardown_ids split: option.splits) (simp_all add: sm_emit_def)

lemma MarkPlaying_ids [simp]: "same_ids m (fst (MarkPlaying m c))" "sm_inv (fst (MarkPlaying m c)) = sm_inv m"
  by (simp_all add: MarkPlaying_def split: option.split)

subsection \<open>The registry and the links\<close>

lemma FindChannel_RegisterChannel:
  "FindChannel (RegisterChannel m d ch) d' c = (if d' = d \<and> dm_Device m d \<noteq> None \<and> c = ch_ID ch then Some (attach d ch) else FindChannel m d' c)"
  by (auto simp: FindChannel_def RegisterChannel_def dm_Device_def map_of_map_entry update_conv' split: option.split)

lemma FindChannel_Unregister: "FindChannel (Unregister m d) d' c = (if d' = d then None else FindChannel m d' c)"
  by (simp add: FindChannel_def Unregister_def AList.delete_conv')

lemma FindChannel_UnregisterChannel: "FindChannel (UnregisterChannel m d c) d' c' = (if d' = d \<and> c' = c then None else FindChannel m d' c')"
  by (auto simp: FindChannel_def UnregisterChannel_def map_of_map_entry AList.delete_conv' split: option.split)

lemma FindChannel_map_entry:
  "(\<And>d. dv_channels (f d) = dv_channels d) \<Longrightarrow> FindChannel (m\<lparr>dm_devices := AList.map_entry i f (dm_devices m)\<rparr>) d c = FindChannel m d c"
  by (auto simp: FindChannel_def map_of_map_entry split: option.split)

lemma FindChannel_Register: "dv_channels d = [] \<Longrightarrow> FindChannel (Register m d now) d' c = FindChannel m d' c"
  by (auto simp: FindChannel_def Register_def Let_def AList.update_conv' split: option.split)

lemma linked_dm:
  assumes "sv_linked s" "\<And>d c ch. FindChannel dm d c = Some ch \<Longrightarrow> FindChannel (sv_dm s) d c \<noteq> None"
  shows "sv_linked (s\<lparr>sv_dm := dm\<rparr>)"
  using assms unfolding sv_linked_def by fastforce

lemma good_dm:
  assumes "sv_good s" "registry_ok dm" "\<And>d c ch. FindChannel dm d c = Some ch \<Longrightarrow> FindChannel (sv_dm s) d c \<noteq> None"
  shows "sv_good (s\<lparr>sv_dm := dm\<rparr>)"
  using assms linked_dm [of s dm] by (simp add: sv_good_def sv_inv_def rings_ok_def queries_ok_def)

lemma register_channel_good:
  assumes "sv_good s"
  shows "sv_good (register_channel s dev ch)"
proof -
  have "registry_ok (sv_dm (register_channel s dev ch))" "sm_inv (sv_sm (register_channel s dev ch))"
    using assms RegisterChannel_ok by (simp_all add: sv_good_def sv_inv_def)
  moreover have "sv_linked (register_channel s dev ch)"
    unfolding sv_linked_def
  proof (intro allI impI)
    fix d c ch' assume f: "FindChannel (sv_dm (register_channel s dev ch)) d c = Some ch'"
    have id: "ch_ID (attach dev ch) = ch_ID ch" by (simp add: attach_def)
    have ads: "sv_addr (register_channel s dev ch) d c = (if d = dev \<and> c = ch_ID ch then sv_fresh s else sv_addr s d c)"
      "sv_fresh (register_channel s dev ch) = Suc (sv_fresh s)"
      "sm_chans (sv_sm (register_channel s dev ch)) x = (if x = sv_fresh s then attach dev ch else sm_chans (sv_sm s) x)" for x
      by (simp_all add: register_channel_def Let_def id)
    show "ch_ID (sm_chans (sv_sm (register_channel s dev ch)) (sv_addr (register_channel s dev ch) d c)) = c
      \<and> sv_addr (register_channel s dev ch) d c < sv_fresh (register_channel s dev ch)"
    proof (cases "d = dev \<and> c = ch_ID ch")
      case True
      then show ?thesis unfolding ads by (simp add: id)
    next
      case False
      then have "FindChannel (sv_dm s) d c = Some ch'" using f id by (auto simp: FindChannel_RegisterChannel split: if_splits)
      then have "ch_ID (sm_chans (sv_sm s) (sv_addr s d c)) = c" "sv_addr s d c < sv_fresh s" using assms by (auto simp: sv_good_def sv_linked_def)
      then show ?thesis using False by (auto simp: ads)
    qed
  qed
  moreover have "rings_ok (register_channel s dev ch)" "queries_ok (register_channel s dev ch)"
    using assms by (simp_all add: sv_good_def rings_ok_def queries_ok_def register_channel_def Let_def)
  ultimately show ?thesis by (simp add: sv_good_def sv_inv_def)
qed

subsection \<open>Requests keep the invariant\<close>

lemma teardownDevice_keeps:
  assumes "sv_good s"
  shows "\<exists>s'. teardownDevice h s dev = Some s' \<and> keeps s s' \<and> sm_inv (sv_sm s')"
proof -
  obtain m where m: "ByeDevice (sv_sm s) dev = Some m" "sm_inv m" using assms ByeDevice_inv by (auto simp: sv_good_def sv_inv_def)
  let ?s = "unsubscribeDevice (absorb s m) dev"
  have k: "keeps s ?s" using keeps_trans [OF keeps_frame(1) keeps_frame(5)] ByeDevice_ids [OF m(1)] by (simp add: unsubscribeDevice_def)
  show ?thesis using m keeps_trans [OF k keeps_notify_all] by (simp add: teardownDevice_def Let_def)
qed

lemma OnDeviceOffline_keeps:
  assumes "sv_good s"
  shows "\<exists>s'. OnDeviceOffline h s dev = Some s' \<and> keeps s s' \<and> sm_inv (sv_sm s')"
proof -
  obtain m where m: "ByeDevice (sv_sm s) dev = Some m" "sm_inv m" using assms ByeDevice_inv by (auto simp: sv_good_def sv_inv_def)
  have k: "keeps s (absorb s m)" using ByeDevice_ids [OF m(1)] by simp
  show ?thesis using m keeps_trans [OF k keeps_notify_all] by (simp add: OnDeviceOffline_def Let_def)
qed

lemma recycle_moved_keeps:
  assumes "sv_good s"
  shows "\<exists>s'. recycle_moved s dev src = Some s' \<and> sv_good s'"
proof -
  obtain m where m: "ByeDevice (sv_sm s) dev = Some m" "sm_inv m" using assms ByeDevice_inv by (auto simp: sv_good_def sv_inv_def)
  then have "sv_good (absorb s m)" using good_keeps [OF assms keeps_frame(1) [OF ByeDevice_ids [OF m(1)]]] by simp
  then show ?thesis using assms m by (simp add: recycle_moved_def split: option.split)
qed

lemma good_frame [simp]: "sv_good (sv_emit s es) = sv_good s" "sv_good (sv_go s ts) = sv_good s" "sv_good (s\<lparr>sv_subscriptions := x\<rparr>) = sv_good s"
  "sv_good (s\<lparr>sv_dialogs := ds\<rparr>) = sv_good s" "sv_good (s\<lparr>sv_pbDialogs := ds\<rparr>) = sv_good s" "sv_good (s\<lparr>sv_playbacks := pbs\<rparr>) = sv_good s"
  "sv_good (s\<lparr>sv_talks := tks\<rparr>) = sv_good s" "sv_good (s\<lparr>sv_holds := hs\<rparr>) = sv_good s" "sv_good (s\<lparr>sv_started := b\<rparr>) = sv_good s"
  "sv_good (s\<lparr>sv_authFailures := af\<rparr>) = sv_good s" "sv_good (notifyCameraBye h s d c) = sv_good s"
  by (simp_all add: sv_good_def sv_inv_def sv_linked_def rings_ok_def queries_ok_def sv_emit_def sv_go_def notifyCameraBye_def split: option.split)

lemma register_device_good:
  assumes "sv_good s"
  shows "\<exists>s'. register_device h s dev req now = Some s' \<and> sv_good s'"
proof -
  obtain s1 where s1: "recycle_moved s dev (rq_source req) = Some s1" "sv_good s1" using recycle_moved_keeps [OF assms] by blast
  let ?d = "new_device dev (rq_source req) (ToLower (rq_transport req))"
  define s2 where "s2 = s1\<lparr>sv_dm := Register (sv_dm s1) ?d now\<rparr>"
  have "sv_good s2" unfolding s2_def
    using s1(2) Register_ok [of "sv_dm s1" ?d now] FindChannel_Register [of ?d "sv_dm s1" now]
    by (intro good_dm) (simp_all add: sv_good_def sv_inv_def new_device_def)
  then show ?thesis using s1(1) register_channel_good [of s2] by (simp add: register_device_def note_registration_def s2_def [symmetric] Let_def)
qed

lemma unregister_device_good:
  assumes "sv_good s"
  shows "\<exists>s'. unregister_device h s dev = Some s' \<and> sv_good s'"
proof -
  obtain s1 where s1: "teardownDevice h s dev = Some s1" "keeps s s1" "sm_inv (sv_sm s1)" using teardownDevice_keeps [OF assms] by blast
  have g: "sv_good s1" using good_keeps [OF assms s1(2,3)] .
  then have "sv_good (s1\<lparr>sv_dm := Unregister (sv_dm s1) dev\<rparr>)"
    using Unregister_ok [of "sv_dm s1"] by (intro good_dm) (auto simp: sv_good_def sv_inv_def FindChannel_Unregister split: if_splits)
  then show ?thesis using s1(1) by (simp add: unregister_device_def Let_def)
qed

lemma handleRegister_good:
  assumes "sv_good s"
  shows "\<exists>s' r. handleRegister pa h s req nonce now = Some (s', r) \<and> sv_good s'"
proof -
  have i: "sv_inv s" using assms by (simp add: sv_good_def)
  have of: "sv_good s0" if "only_failures s s0" for s0 using that assms by (auto simp: only_failures_def)
  have "\<exists>s' r. admitted h s0 dev req si now = Some (s', r) \<and> sv_good s'" if "sv_good s0" for s0 dev si
    using register_device_good [OF that, of h dev req now] unregister_device_good [OF that, of h dev] by (auto simp: admitted_def Let_def)
  then show ?thesis using handleRegister_cases [OF i, of pa h req nonce now] of by metis
qed

lemma Trigger_good:
  assumes "sv_good s"
  shows "\<exists>s'. Trigger pd h wanted e s dev c now = Some s' \<and> sv_good s'"
proof -
  have "sv_inv s" "sv_linked s" using assms by (simp_all add: sv_good_def)
  then obtain s' r where s': "InviteChannel h e s dev c = Some (s', r)" "sv_inv s'" "sv_linked s'" "same_control s s'"
    using InviteChannel_outcome by meson
  have "sv_good s'" using good_control [OF assms s'(4,2,3)] .
  then show ?thesis using assms s'(1) by (simp add: Trigger_def extend_def split: option.split)
qed

lemma ring_alarm_good: "sv_good s \<Longrightarrow> sv_good (ring_alarm h s a now)"
  by (auto simp: ring_alarm_def Let_def maxAlarmsPerDevice_def sv_good_def sv_inv_def sv_linked_def rings_ok_def queries_ok_def sv_emit_def)

lemma handleAlarm_good: "sv_good s \<Longrightarrow> \<exists>s'. handleAlarm pd h wanted e s a now = Some s' \<and> sv_good s'"
  unfolding handleAlarm_def by (rule Trigger_good [OF ring_alarm_good])

lemma handleMobilePosition_good: "sv_good s \<Longrightarrow> sv_good (handleMobilePosition s p now)"
  by (auto simp: handleMobilePosition_def maxPositionsPerDevice_def sv_good_def sv_inv_def sv_linked_def rings_ok_def queries_ok_def)

lemma merge_item_good: "sv_good s \<Longrightarrow> sv_good (merge_item h dev host s it)"
  using register_channel_good by (simp add: merge_item_def Let_def)

lemma merge_items_good: "sv_good s \<Longrightarrow> sv_good (foldl (merge_item h dev host) s its)"
  by (induction its arbitrary: s) (simp_all add: merge_item_good)

lemma UnregisterChannel_ok: "registry_ok m \<Longrightarrow> registry_ok (UnregisterChannel m d c)"
  using reg_step_ok [of m "RUnchannel d c"] by simp

lemma retire_good:
  assumes "sv_good s"
  shows "sv_good (retireDeviceSelfChannel s dev items)"
proof -
  have "sv_good (s\<lparr>sv_dm := UnregisterChannel (sv_dm s) dev dev\<rparr>)"
    using assms UnregisterChannel_ok by (intro good_dm) (auto simp: sv_good_def sv_inv_def FindChannel_UnregisterChannel split: if_splits)
  then show ?thesis using assms by (simp add: retireDeviceSelfChannel_def)
qed

lemma mergeCatalogChannels_good: "sv_good s \<Longrightarrow> sv_good (mergeCatalogChannels h s dev items)"
  using merge_items_good retire_good by (simp add: mergeCatalogChannels_def Let_def)

lemma feedRecordQuery_good: "sv_good s \<Longrightarrow> sv_good (feedRecordQuery s dev sn n items)"
  by (simp add: feedRecordQuery_def sv_good_def sv_inv_def sv_linked_def rings_ok_def queries_ok_def split: option.split)

lemma open_query_good: "sv_good s \<Longrightarrow> sv_good (open_query s dev c sn)"
  by (auto simp: open_query_def Let_def sv_good_def sv_inv_def sv_linked_def rings_ok_def queries_ok_def AList.update_conv' intro: less_SucI split: if_splits)

lemma close_query_good: "sv_good s \<Longrightarrow> sv_good (close_query s dev c sn)"
  by (auto simp: close_query_def sv_good_def sv_inv_def sv_linked_def rings_ok_def queries_ok_def AList.delete_conv' split: if_splits)

lemma good_map_entry:
  assumes "sv_good s" "\<And>d. device_ok (i, d) \<Longrightarrow> device_ok (i, f d)" "\<And>d. dv_channels (f d) = dv_channels d"
  shows "sv_good (s\<lparr>sv_dm := (sv_dm s)\<lparr>dm_devices := AList.map_entry i f (dm_devices (sv_dm s))\<rparr>\<rparr>)"
  using assms(1) map_entry_ok [OF _ assms(2), where m = "sv_dm s"] FindChannel_map_entry [OF assms(3), where m = "sv_dm s"]
  by (intro good_dm) (simp_all add: sv_good_def sv_inv_def)

lemma handleDeviceInfo_good:
  assumes "sv_good s"
  shows "sv_good (handleDeviceInfo s dev name mfr mdl)"
  using good_map_entry [OF assms, of dev "note_info name mfr mdl"] by (simp add: handleDeviceInfo_def Let_def note_info_def device_ok_def)

lemma handleKeepalive_good:
  assumes "sv_good s"
  shows "\<exists>s' r. handleKeepalive h s from dev status now = Some (s', r) \<and> sv_good s'"
proof -
  obtain s1 where s1: "teardownDevice h s dev = Some s1" "keeps s s1" "sm_inv (sv_sm s1)" using teardownDevice_keeps [OF assms] by blast
  have g: "sv_good s1" using good_keeps [OF assms s1(2,3)] .
  have "sv_good (s1\<lparr>sv_dm := MarkOffline (sv_dm s1) dev\<rparr>)" unfolding MarkOffline_def
    by (rule good_map_entry [OF g]) (simp_all add: device_ok_def)
  moreover have "sv_good (s\<lparr>sv_dm := Touch (sv_dm s) dev now\<rparr>)" unfolding Touch_def
    by (rule good_map_entry [OF assms]) (simp_all add: device_ok_def)
  ultimately show ?thesis using assms s1(1) by (simp add: handleKeepalive_def ok_reply_def Let_def)
qed

text \<open>The payloads on which the assertions of a handler fail.\<close>

definition message_panics :: "payload \<Rightarrow> bool" where
  "message_panics p \<longleftrightarrow> kind_of p \<in> {KRecordInfoQuery, KTimeSyncResponse}"

definition notify_panics :: "payload \<Rightarrow> bool" where
  "notify_panics p \<longleftrightarrow> kind_of p \<in> {KCatalog, KCatalogQuery}"

text \<open>Payloads are values of the type of their kind: only the kinds no handler reads are opaque.\<close>

definition opaque_kind :: "msg_kind \<Rightarrow> bool" where
  "opaque_kind k \<longleftrightarrow> k \<notin> {KCatalogNotify, KCatalog, KKeepalive, KDeviceInfo, KDeviceStatus, KRecordInfo, KAlarm, KMobilePosition,
     KUploadSnapShotFinished, KTimeSyncQuery, KBroadcastResponse}"

fun payload_ok :: "payload \<Rightarrow> bool" where
  "payload_ok (POther k) = opaque_kind k"
| "payload_ok _ = True"

lemma message_case_good:
  assumes "sv_good s" "payload_ok p" "\<not> message_panics p" "ct = kind_cmd (kind_of p)"
  shows "\<exists>s' r. message_case pd h wanted e s from ct p now = Some (s', r) \<and> sv_good s'"
proof (cases p)
  case (PKeepalive dev st)
  then show ?thesis using assms(4) handleKeepalive_good [OF assms(1)] by (simp add: message_case_def kind_cmd_def)
next
  case (PAlarm a)
  then show ?thesis using assms(4) handleAlarm_good [OF assms(1), of pd h wanted e a now] by (auto simp: message_case_def kind_cmd_def ok_reply_def)
next
  case (POther k)
  then show ?thesis using assms by (cases k) (auto simp: message_case_def kind_cmd_def opaque_kind_def message_panics_def ok_reply_def)
qed (use assms mergeCatalogChannels_good feedRecordQuery_good handleDeviceInfo_good in \<open>simp_all add: message_case_def kind_cmd_def ok_reply_def\<close>)

lemma message_case_panics:
  assumes "payload_ok p" "message_panics p" "ct = kind_cmd (kind_of p)"
  shows "message_case pd h wanted e s from ct p now = None"
  using assms by (cases p) (auto simp: message_case_def message_panics_def kind_cmd_def)

lemma notify_case_good:
  assumes "sv_good s" "payload_ok p" "\<not> notify_panics p" "ct = kind_cmd (kind_of p)"
  shows "\<exists>s'. notify_case pd h wanted e s ct p now = Some s' \<and> sv_good s'"
proof (cases p)
  case (PAlarm a)
  then show ?thesis using assms(4) handleAlarm_good [OF assms(1), of pd h wanted e a now] by (auto simp: notify_case_def kind_cmd_def)
next
  case (POther k)
  then show ?thesis using assms by (cases k) (auto simp: notify_case_def kind_cmd_def opaque_kind_def notify_panics_def)
qed (use assms mergeCatalogChannels_good handleMobilePosition_good in \<open>simp_all add: notify_case_def kind_cmd_def notify_panics_def\<close>)

lemma notify_case_panics:
  assumes "payload_ok p" "notify_panics p" "ct = kind_cmd (kind_of p)"
  shows "notify_case pd h wanted e s ct p now = None"
  using assms by (cases p) (auto simp: notify_case_def notify_panics_def kind_cmd_def)

definition xml_values :: "xml_env \<Rightarrow> bool" where
  "xml_values x \<longleftrightarrow> xml_typed x \<and> (\<forall>k body p. xe_unmarshal x k body = Some p \<longrightarrow> payload_ok p)"

lemma decodeOnce_values: "xml_values x \<Longrightarrow> decodeOnce x data = Inr (ct, p) \<Longrightarrow> payload_ok p"
  by (auto simp: decodeOnce_def xml_values_def Let_def split: option.splits prod.splits if_splits)

lemma Decode_values:
  assumes "xml_values x" "Decode x data = Inr (ct, p)"
  shows "ct = kind_cmd (kind_of p)" "payload_ok p"
  using assms Decode_kind [of x data ct p] decodeOnce_values [OF assms(1)]
  by (auto simp: xml_values_def Decode_def Let_def split: sum.splits if_splits)

definition message_trap :: "xml_env \<Rightarrow> sip_server \<Rightarrow> sip_request \<Rightarrow> bool" where
  "message_trap x s req \<longleftrightarrow> note_ok s req \<and> rq_body req \<noteq> [] \<and> (case Decode x (rq_body req) of Inl _ \<Rightarrow> False | Inr (ct, p) \<Rightarrow> message_panics p)"

definition notify_trap :: "xml_env \<Rightarrow> sip_request \<Rightarrow> bool" where
  "notify_trap x req \<longleftrightarrow> rq_body req \<noteq> [] \<and> (case Decode x (rq_body req) of Inl _ \<Rightarrow> False | Inr (ct, p) \<Rightarrow> notify_panics p)"

lemma handleMessage_cases:
  assumes "sv_good s" "xml_values x"
  shows "if message_trap x s req then handleMessage pd h wanted e x s req now = None
    else \<exists>s' r. handleMessage pd h wanted e x s req now = Some (s', r) \<and> sv_good s'"
proof (cases "Decode x (rq_body req)")
  case (Inl err)
  then show ?thesis using assms by (simp add: message_trap_def handleMessage_def)
next
  case (Inr r)
  obtain ct p where r: "r = (ct, p)" by (cases r)
  note d = Decode_values [OF assms(2) Inr [unfolded r]]
  show ?thesis using assms(1) Inr r message_case_good [OF assms(1) d(2) _ d(1)] message_case_panics [OF d(2) _ d(1)]
    by (cases "message_panics p") (simp_all add: message_trap_def handleMessage_def)
qed

lemma handleNotify_cases:
  assumes "sv_good s" "xml_values x"
  shows "if notify_trap x req then handleNotify pd h wanted e x s req now = None
    else \<exists>s' r. handleNotify pd h wanted e x s req now = Some (s', r) \<and> sv_good s'"
proof (cases "Decode x (rq_body req)")
  case (Inl err)
  then show ?thesis using assms by (simp add: notify_trap_def handleNotify_def)
next
  case (Inr r)
  obtain ct p where r: "r = (ct, p)" by (cases r)
  note d = Decode_values [OF assms(2) Inr [unfolded r]]
  show ?thesis
  proof (cases "rq_body req = [] \<or> notify_panics p")
    case True
    then show ?thesis using assms(1) Inr r notify_case_panics [OF d(2) _ d(1)] by (auto simp: notify_trap_def handleNotify_def)
  next
    case False
    then obtain s' where "notify_case pd h wanted e s ct p now = Some s'" "sv_good s'" using notify_case_good [OF assms(1) d(2) _ d(1)] by blast
    then show ?thesis using False Inr r by (simp add: notify_trap_def handleNotify_def ok_reply_def)
  qed
qed

lemma StopPlayback_good:
  assumes "sv_good s"
  shows "\<exists>s'. StopPlayback s c = Some s' \<and> sv_good s'"
proof -
  let ?s = "s\<lparr>sv_playbacks := removeAll c (sv_playbacks s)\<rparr>"
  obtain m where m: "ByePlayback (sv_sm s) c = Some m" "sm_inv m" using assms ByePlayback_inv by (auto simp: sv_good_def sv_inv_def)
  have "sv_good (absorb ?s m)" using good_keeps [of ?s "absorb ?s m"] assms m(2) ByePlayback_ids [OF m(1)] by simp
  then show ?thesis using m(1) by (simp add: StopPlayback_def)
qed

lemma Bye_good:
  assumes "sv_good s"
  shows "\<exists>m. Bye (sv_sm s) c = Some m \<and> sv_good (absorb s m)"
proof -
  obtain m where m: "Bye (sv_sm s) c = Some m" "sm_inv m" using assms Bye_inv by (auto simp: sv_good_def sv_inv_def)
  then show ?thesis using good_keeps [OF assms keeps_frame(1) [OF Bye_ids [OF m(1)]]] by simp
qed

lemma ByeChannel_good:
  assumes "sv_good s"
  shows "\<exists>s'. ByeChannel h s dev c = Some s' \<and> sv_good s'"
  using Bye_good [OF assms, of c] by (auto simp: ByeChannel_def)

lemma handleBye_good:
  assumes "sv_good s"
  shows "\<exists>s' r. handleBye h s req = Some (s', r) \<and> sv_good s'"
proof -
  obtain dev c where ids: "requestIDs req = (dev, c)" by (cases "requestIDs req")
  obtain bd bc where bt: "bye_target s req = (bd, bc)" by (cases "bye_target s req")
  obtain s1 where s1: "StopPlayback (s\<lparr>sv_pbDialogs := AList.delete c (sv_pbDialogs s)\<rparr>) c = Some s1" "sv_good s1"
    using StopPlayback_good [of "s\<lparr>sv_pbDialogs := AList.delete c (sv_pbDialogs s)\<rparr>" c] assms by auto
  obtain m where m: "Bye (sv_sm s) bc = Some m" "sv_good (absorb (s\<lparr>sv_dialogs := AList.delete bc (sv_dialogs s)\<rparr>) m)"
    using Bye_good [of "s\<lparr>sv_dialogs := AList.delete bc (sv_dialogs s)\<rparr>" bc] assms by auto
  have t: "sv_good s'" if "stopTalkOnBye s req = Some s'" for s' using that assms by (auto simp: stopTalkOnBye_def split: option.splits)
  show ?thesis using assms s1 m t ids bt by (auto simp: handleBye_def ok_reply_def split: option.split)
qed

lemma handleInfo_good:
  assumes "sv_good s"
  shows "\<exists>s' r. handleInfo s req = Some (s', r) \<and> sv_good s'"
proof -
  obtain s1 where "StopPlayback s (case rq_from req of None \<Rightarrow> [] | Some u \<Rightarrow> u) = Some s1" "sv_good s1" using StopPlayback_good [OF assms] by blast
  then show ?thesis using assms by (simp add: handleInfo_def Let_def ok_reply_def)
qed

subsection \<open>Timers and callers keep the invariant\<close>

lemma InviteChannel_good:
  assumes "sv_good s"
  shows "\<exists>s' r. InviteChannel h e s dev c = Some (s', r) \<and> sv_good s'"
proof -
  have "sv_inv s" "sv_linked s" using assms by (simp_all add: sv_good_def)
  then obtain s' r where "InviteChannel h e s dev c = Some (s', r)" "sv_inv s'" "sv_linked s'" "same_control s s'" using InviteChannel_outcome by meson
  then show ?thesis using good_control [OF assms] by blast
qed

lemma invite_each_good: "sv_good s \<Longrightarrow> \<exists>s'. invite_each h e s dev chs = Some s' \<and> sv_good s'"
proof (induction chs arbitrary: s)
  case (Cons ch chs)
  obtain s1 r where "InviteChannel h (e (ch_ID ch)) s dev (ch_ID ch) = Some (s1, r)" "sv_good s1" using InviteChannel_good [OF Cons.prems] by blast
  then show ?case using Cons.IH [OF Cons.prems] Cons.IH [of s1] by simp
qed simp

lemma autoInviteDevice_good: "sv_good s \<Longrightarrow> \<exists>s'. autoInviteDevice h e s dev = Some s' \<and> sv_good s'"
  using invite_each_good by (simp add: autoInviteDevice_def)

lemma watchSession_good:
  assumes "sv_good s"
  shows "\<exists>s' b. watchSession h e s dev c now = Some (s', b) \<and> sv_good s'"
proof -
  obtain s1 where s1: "ByeChannel h s dev c = Some s1" "sv_good s1" using ByeChannel_good [OF assms] by blast
  obtain s2 r where "InviteChannel h e s1 dev c = Some (s2, r)" "sv_good s2" using InviteChannel_good [OF s1(2)] by blast
  then show ?thesis using assms s1 by (cases "watch_check (sv_sm s) c now") (auto simp: watchSession_def)
qed

lemma hold_elapsed_good:
  assumes "sv_good s"
  shows "\<exists>s'. hold_elapsed h s c = Some s' \<and> sv_good s'"
  using assms ByeChannel_good [of "s\<lparr>sv_holds := AList.delete c (sv_holds s)\<rparr>"] by (auto simp: hold_elapsed_def split: option.split)

lemma onFirstRTP_good: "sv_good s \<Longrightarrow> sv_good (onFirstRTP h s c)"
proof -
  assume g: "sv_good s"
  have "sv_good (s\<lparr>sv_sm := fst (MarkPlaying (sv_sm s) c)\<rparr>)"
    by (rule good_keeps [OF g]) (use g in \<open>simp_all add: keeps_def sv_good_def sv_inv_def\<close>)
  then show ?thesis by (simp add: onFirstRTP_def Let_def split: option.split)
qed

lemma bye_each_good: "sv_good s \<Longrightarrow> \<exists>s'. bye_each s cs = Some s' \<and> sv_good s'"
proof (induction cs arbitrary: s)
  case (Cons c cs)
  obtain m where "Bye (sv_sm s) c = Some m" "sv_good (absorb s m)" using Bye_good [OF Cons.prems] by blast
  then show ?case using Cons.IH [of "absorb s m"] by simp
qed simp

lemma SendMessage_good: "sv_good s \<Longrightarrow> sv_good (fst (SendMessage b s dev body))"
  by (simp add: SendMessage_def split: option.split)

lemma sendSubscribe_good: "sv_good s \<Longrightarrow> sv_good (fst (sendSubscribe pd b s dev subject now))"
  by (simp add: sendSubscribe_def Let_def split: option.split)

lemma foldl_good: "(\<And>s x. sv_good s \<Longrightarrow> sv_good (f s x)) \<Longrightarrow> sv_good s \<Longrightarrow> sv_good (foldl f s xs)"
  by (induction xs arbitrary: s) simp_all

lemma ticks_good:
  assumes "sv_good s"
  shows "sv_good (subscribeDevice pd b s dev now)" "sv_good (subscribe_tick pd b s now)" "sv_good (catalog_tick b s sn)" "sv_good (queryDeviceDetails b s dev sn sn')"
  unfolding subscribeDevice_def subscribe_tick_def catalog_tick_def queryDeviceDetails_def
  using assms by (auto intro!: foldl_good sendSubscribe_good SendMessage_good simp: requestCatalog_def)

lemma checkHeartbeats_channels: "FindChannel (fst (checkHeartbeats m now)) d c = FindChannel m d c"
  by (induction "dm_devices m") (auto simp: checkHeartbeats_def FindChannel_def Let_def map_of_map split: option.split)

lemma heartbeat_good: "sv_good s \<Longrightarrow> sv_good (s\<lparr>sv_dm := fst (checkHeartbeats (sv_dm s) now)\<rparr>)"
  using checkHeartbeats_ok by (intro good_dm) (auto simp: sv_good_def sv_inv_def checkHeartbeats_channels)

lemma life_good: "sv_good s \<Longrightarrow> sv_good (fst (sv_Start pd ip_ok listens s))" "sv_good s \<Longrightarrow> sv_good (sv_Stop s)"
  by (auto simp: sv_Start_def sv_Stop_def dm_Start_def dm_Stop_def sv_good_def sv_inv_def sv_linked_def rings_ok_def queries_ok_def FindChannel_def registry_ok_def
      split: option.split sum.split)

subsection \<open>Reachable states\<close>

text \<open>Everything that runs on the server: requests, calls of the host, goroutines and timers, each with what it meets outside.\<close>

datatype sv_op =
    RxRegister "string \<Rightarrow> auth_view" host_env sip_request string int
  | RxMessage "string \<Rightarrow> int option" host_env "string \<Rightarrow> string \<Rightarrow> bool" invite_env sip_request int
  | RxNotify "string \<Rightarrow> int option" host_env "string \<Rightarrow> string \<Rightarrow> bool" invite_env sip_request int
  | RxBye host_env sip_request
  | RxInfo sip_request
  | CallInvite host_env invite_env string string
  | CallBye host_env string string
  | CallByeAll
  | CallStopPlayback string
  | CallStart "string \<Rightarrow> int option" "string \<Rightarrow> bool" "string \<Rightarrow> bool"
  | CallStop
  | QueryOpen string string int
  | QueryClose string string int
  | GoAutoInvite host_env "string \<Rightarrow> invite_env" string
  | GoWatch host_env invite_env string string i64
  | GoDetails bool string int int
  | GoSubscribe "string \<Rightarrow> int option" bool string int
  | HoldElapsed host_env string
  | FirstRtp host_env string
  | HeartbeatTick int
  | DeviceGone host_env string
  | SubscribeTick "string \<Rightarrow> int option" bool int
  | CatalogTick bool int

fun sv_exec :: "xml_env \<Rightarrow> sip_server \<Rightarrow> sv_op \<Rightarrow> sip_server go" where
  "sv_exec x s (RxRegister pa h req nonce now) = map_option fst (handleRegister pa h s req nonce now)"
| "sv_exec x s (RxMessage pd h w e req now) = map_option fst (handleMessage pd h w e x s req now)"
| "sv_exec x s (RxNotify pd h w e req now) = map_option fst (handleNotify pd h w e x s req now)"
| "sv_exec x s (RxBye h req) = map_option fst (handleBye h s req)"
| "sv_exec x s (RxInfo req) = map_option fst (handleInfo s req)"
| "sv_exec x s (CallInvite h e dev c) = map_option fst (InviteChannel h e s dev c)"
| "sv_exec x s (CallBye h dev c) = ByeChannel h s dev c"
| "sv_exec x s CallByeAll = ByeAllSessions s"
| "sv_exec x s (CallStopPlayback c) = StopPlayback s c"
| "sv_exec x s (CallStart pd ip ls) = Some (fst (sv_Start pd ip ls s))"
| "sv_exec x s CallStop = Some (sv_Stop s)"
| "sv_exec x s (QueryOpen dev c sn) = Some (open_query s dev c sn)"
| "sv_exec x s (QueryClose dev c sn) = Some (close_query s dev c sn)"
| "sv_exec x s (GoAutoInvite h e dev) = autoInviteDevice h e s dev"
| "sv_exec x s (GoWatch h e dev c now) = map_option fst (watchSession h e s dev c now)"
| "sv_exec x s (GoDetails b dev sn sn') = Some (queryDeviceDetails b s dev sn sn')"
| "sv_exec x s (GoSubscribe pd b dev now) = Some (subscribeDevice pd b s dev now)"
| "sv_exec x s (HoldElapsed h c) = hold_elapsed h s c"
| "sv_exec x s (FirstRtp h c) = Some (onFirstRTP h s c)"
| "sv_exec x s (HeartbeatTick now) = Some (s\<lparr>sv_dm := fst (checkHeartbeats (sv_dm s) now)\<rparr>)"
| "sv_exec x s (DeviceGone h dev) = OnDeviceOffline h s dev"
| "sv_exec x s (SubscribeTick pd b now) = Some (subscribe_tick pd b s now)"
| "sv_exec x s (CatalogTick b sn) = Some (catalog_tick b s sn)"

text \<open>The requests on which a handler panics.\<close>

definition sv_trap :: "xml_env \<Rightarrow> sip_server \<Rightarrow> sv_op \<Rightarrow> bool" where
  "sv_trap x s op = (case op of RxMessage _ _ _ _ req _ \<Rightarrow> message_trap x s req | RxNotify _ _ _ _ req _ \<Rightarrow> notify_trap x req | _ \<Rightarrow> False)"

inductive sv_reach :: "xml_env \<Rightarrow> sip_server \<Rightarrow> bool" for x where
  init: "NewPortManager lo hi = Some pm \<Longrightarrow>
    sv_reach x (NewServer pd cfg auth offer (NewDeviceManager hb) (NewSessionManager pm chans (pc_ServerID cfg)) db)"
| step: "sv_reach x s \<Longrightarrow> sv_exec x s op = Some s' \<Longrightarrow> sv_reach x s'"

lemma sv_exec_good:
  assumes "sv_good s" "xml_values x"
  shows "if sv_trap x s op then sv_exec x s op = None else \<exists>s'. sv_exec x s op = Some s' \<and> sv_good s'"
proof -
  note g = assms(1)
  show ?thesis
  proof (cases op)
    case (RxRegister pa h req nonce now)
    then show ?thesis using handleRegister_good [OF g] by (auto simp: sv_trap_def)
  next
    case (RxMessage pd h w e req now)
    then show ?thesis using handleMessage_cases [OF assms, of req pd h w e now] by (auto simp: sv_trap_def split: if_splits)
  next
    case (RxNotify pd h w e req now)
    then show ?thesis using handleNotify_cases [OF assms, of req pd h w e now] by (auto simp: sv_trap_def split: if_splits)
  next
    case (RxBye h req)
    then show ?thesis using handleBye_good [OF g] by (auto simp: sv_trap_def)
  next
    case (RxInfo req)
    then show ?thesis using handleInfo_good [OF g] by (auto simp: sv_trap_def)
  next
    case (CallInvite h e dev c)
    then show ?thesis using InviteChannel_good [OF g] by (auto simp: sv_trap_def)
  next
    case (GoWatch h e dev c now)
    then show ?thesis using watchSession_good [OF g] by (auto simp: sv_trap_def)
  next
    case (DeviceGone h dev)
    then show ?thesis using OnDeviceOffline_keeps [OF g, of h dev] good_keeps [OF g] by (auto simp: sv_trap_def)
  qed (use g in \<open>simp_all add: sv_trap_def ByeAllSessions_def ByeChannel_good bye_each_good StopPlayback_good life_good open_query_good close_query_good
      autoInviteDevice_good ticks_good hold_elapsed_good onFirstRTP_good heartbeat_good\<close>)
qed

lemma NewServer_good:
  assumes "NewPortManager lo hi = Some pm"
  shows "sv_good (NewServer pd cfg auth offer (NewDeviceManager hb) (NewSessionManager pm chans sid) db)"
proof -
  have "sv_inv (NewServer pd cfg auth offer (NewDeviceManager hb) (NewSessionManager pm chans sid) db)"
    by (rule NewServer_inv [OF NewDeviceManager_ok New_inv(1) [OF assms]])
  then show ?thesis by (simp add: sv_good_def sv_linked_def rings_ok_def queries_ok_def NewServer_def NewDeviceManager_def FindChannel_def Let_def)
qed

lemma sv_reach_good:
  assumes "xml_values x"
  shows "sv_reach x s \<Longrightarrow> sv_good s"
proof (induction rule: sv_reach.induct)
  case (step s op s')
  then show ?case using sv_exec_good [OF step.IH assms, of op] by (auto split: if_splits)
qed (rule NewServer_good)


lemma handlers_panic_exactly_parts:
  assumes "xml_values x" "sv_reach x s"
  shows "handleMessage pd h w e x s req now = None \<longleftrightarrow> note_ok s req \<and> rq_body req \<noteq> []
      \<and> (\<exists>ct p. Decode x (rq_body req) = Inr (ct, p) \<and> kind_of p \<in> {KRecordInfoQuery, KTimeSyncResponse})"
    "handleNotify pd h w e x s req now = None \<longleftrightarrow> rq_body req \<noteq> []
      \<and> (\<exists>ct p. Decode x (rq_body req) = Inr (ct, p) \<and> kind_of p \<in> {KCatalog, KCatalogQuery})"
proof -
  have g: "sv_good s" by (rule sv_reach_good [OF assms])
  show "handleMessage pd h w e x s req now = None \<longleftrightarrow> note_ok s req \<and> rq_body req \<noteq> []
      \<and> (\<exists>ct p. Decode x (rq_body req) = Inr (ct, p) \<and> kind_of p \<in> {KRecordInfoQuery, KTimeSyncResponse})"
    using handleMessage_cases [OF g assms(1), of req pd h w e now]
    by (cases "Decode x (rq_body req)") (auto simp: message_trap_def message_panics_def split: if_splits prod.splits)
  show "handleNotify pd h w e x s req now = None \<longleftrightarrow> rq_body req \<noteq> []
      \<and> (\<exists>ct p. Decode x (rq_body req) = Inr (ct, p) \<and> kind_of p \<in> {KCatalog, KCatalogQuery})"
    using handleNotify_cases [OF g assms(1), of req pd h w e now]
    by (cases "Decode x (rq_body req)") (auto simp: notify_trap_def notify_panics_def split: if_splits prod.splits)
qed


text \<open>A codec for the witnesses: a body is its own root and command, with empty fields.\<close>

definition kind_payload :: "msg_kind \<Rightarrow> payload" where
  "kind_payload k = (case k of
     KCatalogNotify \<Rightarrow> PCatalogNotify [] [] | KCatalog \<Rightarrow> PCatalog [] [] | KKeepalive \<Rightarrow> PKeepalive [] [] | KDeviceInfo \<Rightarrow> PDeviceInfo [] [] [] []
   | KDeviceStatus \<Rightarrow> PDeviceStatus [] [] | KRecordInfo \<Rightarrow> PRecordInfo [] 0 0 []
   | KAlarm \<Rightarrow> PAlarm \<lparr>ga_DeviceID = [], ga_Priority = [], ga_Method = [], ga_Time = [], ga_Description = [], ga_Type = []\<rparr>
   | KMobilePosition \<Rightarrow> PMobilePosition \<lparr>mp_DeviceID = [], mp_Time = [], mp_Longitude = [], mp_Latitude = [], mp_Speed = [], mp_Direction = [], mp_Altitude = []\<rparr>
   | KUploadSnapShotFinished \<Rightarrow> PSnapShotFinished [] [] [] | KTimeSyncQuery \<Rightarrow> PTimeSyncQuery [] 0 | KBroadcastResponse \<Rightarrow> PBroadcastResponse [] []
   | _ \<Rightarrow> POther k)"

definition toy_xml :: xml_env where
  "toy_xml = \<lparr>xe_utf8 = (\<lambda>_. True), xe_gb18030 = (\<lambda>_. None), xe_gbk = (\<lambda>_. None),
     xe_probe = (\<lambda>b. if b = ''Query RecordInfo'' then Some (''Query'', ''RecordInfo'', []) else if b = ''Response Catalog'' then Some (''Response'', ''Catalog'', []) else None),
     xe_unmarshal = (\<lambda>k b. Some (kind_payload k))\<rparr>"

lemma toy_xml_values: "xml_values toy_xml"
proof -
  have "kind_of (kind_payload k) = k \<and> payload_ok (kind_payload k)" for k by (cases k) (simp_all add: kind_payload_def opaque_kind_def)
  then show ?thesis by (auto simp: xml_values_def xml_typed_def toy_xml_def)
qed

definition fresh_server :: sip_server where
  "fresh_server = NewServer (\<lambda>_. None) sample_config None None (NewDeviceManager 60)
     (NewSessionManager (the (NewPortManager 30000 30002)) (\<lambda>_. sample_channel) (pc_ServerID sample_config)) False"

lemma fresh_server_reach: "sv_reach x fresh_server"
  unfolding fresh_server_def by (rule sv_reach.init [of 30000 30002]) (simp add: NewPortManager_def)

definition body_request :: "string \<Rightarrow> sip_request" where
  "body_request body = (sample_register [] 0)\<lparr>rq_method := ''MESSAGE'', rq_from := None, rq_body := body\<rparr>"


lemma toy_decode: "Decode toy_xml ''Query RecordInfo'' = Inr (''RecordInfo'', POther KRecordInfoQuery)" "Decode toy_xml ''Response Catalog'' = Inr (''Catalog'', PCatalog [] [])"
  by (simp_all add: Decode_def decodeOnce_def stripXMLDecl_def TrimLeft_def HasPrefix_def toy_xml_def route_def kind_payload_def)


end
