(* ===== verification/Sip_Catalog.thy ===== *)
theory Sip_Catalog
  imports Sip_Reach
begin

text \<open>
  What the platform makes of the messages of a registered device: catalogs, keepalives and the pages of a recording query.
\<close>

subsection \<open>Catalogs\<close>

lemma register_channel_status:
  "channel_state (register_channel s dev ch) d c = (if d = dev \<and> c = ch_ID ch then ch_Status ch
     else if sv_addr s d c = sv_fresh s then ch_Status ch else channel_state s d c)"
  by (simp add: channel_state_def register_channel_def Let_def attach_def)

lemma merge_item_find:
  assumes "dm_Device (sv_dm s) dev \<noteq> None"
  shows "FindChannel (sv_dm (merge_item h dev host s it)) d c
    = (if d = dev \<and> c = it_DeviceID it then Some (attach dev (item_channel it (kept_status s dev c))) else FindChannel (sv_dm s) d c)"
proof -
  have "attach dev (attach dev ch) = attach dev ch" for ch by (simp add: attach_def)
  then show ?thesis using assms by (auto simp: merge_item_def Let_def FindChannel_RegisterChannel item_channel_def attach_def)
qed

lemma merge_item_registered: "dm_Device (sv_dm (merge_item h dev host s it)) d \<noteq> None \<longleftrightarrow> dm_Device (sv_dm s) d \<noteq> None"
  by (simp add: merge_item_def Let_def dm_Device_def RegisterChannel_def map_of_map_entry split: option.split)

lemma merge_item_status:
  assumes "sv_good s" "dm_Device (sv_dm s) dev \<noteq> None"
  shows "kept_status (merge_item h dev host s it) d c = kept_status s d c"
proof (cases "d = dev \<and> c = it_DeviceID it")
  case True
  have "channel_state (merge_item h dev host s it) dev (it_DeviceID it) = kept_status s dev (it_DeviceID it)"
    using register_channel_status [of s dev "item_channel it (kept_status s dev (it_DeviceID it))" dev "it_DeviceID it"]
    by (simp add: merge_item_def Let_def item_channel_def channel_state_def)
  then show ?thesis using True merge_item_find [OF assms(2), of h host it] by (simp add: kept_status_def)
next
  case False
  have f: "FindChannel (sv_dm (merge_item h dev host s it)) d c = FindChannel (sv_dm s) d c" using merge_item_find [OF assms(2)] False by auto
  have "channel_state (merge_item h dev host s it) d c = channel_state s d c" if "FindChannel (sv_dm s) d c = Some ch" for ch
  proof -
    have "sv_addr s d c < sv_fresh s" using assms(1) that by (auto simp: sv_good_def sv_linked_def)
    then show ?thesis using False register_channel_status [of s dev "item_channel it (kept_status s dev (it_DeviceID it))" d c]
      by (auto simp: merge_item_def Let_def item_channel_def channel_state_def)
  qed
  then show ?thesis using f by (auto simp: kept_status_def)
qed

lemma merge_items_effect:
  assumes "sv_good s" "dm_Device (sv_dm s) dev \<noteq> None"
  shows "kept_status (foldl (merge_item h dev host) s its) d c = kept_status s d c"
    "FindChannel (sv_dm (foldl (merge_item h dev host) s its)) d c \<noteq> None \<longleftrightarrow> FindChannel (sv_dm s) d c \<noteq> None \<or> d = dev \<and> c \<in> it_DeviceID ` set its"
  using assms
proof (induction its arbitrary: s)
  case (Cons it its)
  {
    case 1
    then show ?case using Cons.IH(1) [OF merge_item_good] merge_item_registered merge_item_status by simp
  next
    case 2
    then show ?case using Cons.IH(2) [OF merge_item_good] merge_item_registered merge_item_find by auto
  }
qed simp_all

lemma retire_effect:
  shows "kept_status (retireDeviceSelfChannel s dev items) d c = kept_status s d c"
    "FindChannel (sv_dm (retireDeviceSelfChannel s dev items)) d c \<noteq> None \<longleftrightarrow> FindChannel (sv_dm s) d c \<noteq> None
      \<and> \<not> (d = dev \<and> c = dev \<and> other_real dev items \<and> kept_status s dev dev = ChannelIdle)"
  by (auto simp: retireDeviceSelfChannel_def kept_status_def FindChannel_UnregisterChannel channel_state_def)

lemma merge_tail:
  "kept_status (if b then sv_emit (sv_go s ts) es else sv_go s ts) d c = kept_status s d c"
  "sv_dm (if b then sv_emit (sv_go s ts) es else sv_go s ts) = sv_dm s"
  by (cases "FindChannel (sv_dm s) d c"; simp add: kept_status_def channel_state_def sv_emit_def sv_go_def)+

lemma catalog_merge_exact_parts:
  assumes "sv_good s" "dm_Device (sv_dm s) dev \<noteq> None"
  shows "sv_good (mergeCatalogChannels h s dev items)"
    "kept_status (mergeCatalogChannels h s dev items) d c = kept_status s d c"
    "FindChannel (sv_dm (mergeCatalogChannels h s dev items)) d c \<noteq> None \<longleftrightarrow>
      (if d \<noteq> dev then FindChannel (sv_dm s) d c \<noteq> None
       else (FindChannel (sv_dm s) d c \<noteq> None \<or> (\<exists>it \<in> set items. it_DeviceID it = c \<and> it_Parental it \<noteq> 1 \<and> (c = dev \<longrightarrow> \<not> other_real dev items)))
         \<and> \<not> (c = dev \<and> other_real dev items \<and> kept_status s dev dev = ChannelIdle))"
proof -
  show "sv_good (mergeCatalogChannels h s dev items)" by (rule mergeCatalogChannels_good [OF assms(1)])
  define s1 where "s1 = foldl (merge_item h dev (device_host s dev)) s (filter (merges dev items) items)"
  have e: "kept_status s1 d c = kept_status s d c"
    "FindChannel (sv_dm s1) d c \<noteq> None \<longleftrightarrow> FindChannel (sv_dm s) d c \<noteq> None \<or> d = dev \<and> c \<in> it_DeviceID ` set (filter (merges dev items) items)" for d c
    unfolding s1_def by (rule merge_items_effect [OF assms])+
  define b where "b \<longleftrightarrow> (first_nonempty it_Manufacturer items \<noteq> [] \<or> first_nonempty it_Model items \<noteq> []) \<and> sv_enroller (sv_go (retireDeviceSelfChannel s1 dev items) [TAutoInvite dev, TProbe dev])"
  have m: "mergeCatalogChannels h s dev items = (if b then sv_emit (sv_go (retireDeviceSelfChannel s1 dev items) [TAutoInvite dev, TProbe dev])
      [CameraMeta dev (first_nonempty it_Manufacturer items) (first_nonempty it_Model items)] else sv_go (retireDeviceSelfChannel s1 dev items) [TAutoInvite dev, TProbe dev])"
    by (simp add: mergeCatalogChannels_def Let_def s1_def b_def)
  show "kept_status (mergeCatalogChannels h s dev items) d c = kept_status s d c" unfolding m merge_tail retire_effect(1) e(1) ..
  show "FindChannel (sv_dm (mergeCatalogChannels h s dev items)) d c \<noteq> None \<longleftrightarrow>
      (if d \<noteq> dev then FindChannel (sv_dm s) d c \<noteq> None
       else (FindChannel (sv_dm s) d c \<noteq> None \<or> (\<exists>it \<in> set items. it_DeviceID it = c \<and> it_Parental it \<noteq> 1 \<and> (c = dev \<longrightarrow> \<not> other_real dev items)))
         \<and> \<not> (c = dev \<and> other_real dev items \<and> kept_status s dev dev = ChannelIdle))"
    unfolding m merge_tail retire_effect(2) e by (auto simp: merges_def)
qed

text \<open>C20: a catalog of a registered device registers exactly its channels: an item is a channel unless it is a group node or names the device
  itself next to a real channel. Every channel keeps the status it had and a new one is idle. A channel of the device itself
  goes away when there is another real channel and it is idle. Channels of other devices stay as they are.\<close>

theorem catalog_merge_exact:
  assumes "sv_good s" "dm_Device (sv_dm s) dev \<noteq> None"
  shows "sv_good (mergeCatalogChannels h s dev items)
    \<and> kept_status (mergeCatalogChannels h s dev items) d c = kept_status s d c
    \<and> (FindChannel (sv_dm (mergeCatalogChannels h s dev items)) d c \<noteq> None \<longleftrightarrow>
      (if d \<noteq> dev then FindChannel (sv_dm s) d c \<noteq> None
       else (FindChannel (sv_dm s) d c \<noteq> None \<or> (\<exists>it \<in> set items. it_DeviceID it = c \<and> it_Parental it \<noteq> 1 \<and> (c = dev \<longrightarrow> \<not> other_real dev items)))
         \<and> \<not> (c = dev \<and> other_real dev items \<and> kept_status s dev dev = ChannelIdle)))"
  by (intro conjI catalog_merge_exact_parts [OF assms])

text \<open>A device with a channel of its own, whose catalog names a gate camera and a group node.\<close>

definition demo_item :: "string \<Rightarrow> int \<Rightarrow> catalog_item" where
  "demo_item i parental = \<lparr>it_DeviceID = i, it_Name = ''n'', it_Parental = parental, it_Manufacturer = [], it_Model = [], it_PTZType = 1, it_Photoelectric = 0\<rparr>"

lemma invite_server_good: "sv_good invite_server"
  using invite_server_inv invite_server_linked
  by (simp add: sv_good_def) (simp add: rings_ok_def queries_ok_def invite_server_def register_channel_def start_server_def NewServer_def Let_def)

lemma invite_server_device: "dm_Device (sv_dm invite_server) sample_id \<noteq> None" "FindChannel (sv_dm invite_server) sample_id sample_id \<noteq> None"
    "FindChannel (sv_dm invite_server) sample_id [c] = None" "kept_status invite_server sample_id sample_id = ChannelIdle"
  by (auto simp: invite_server_def register_channel_def RegisterChannel_def Register_def NewDeviceManager_def new_device_def FindChannel_def dm_Device_def
      plain_channel_def attach_def kept_status_def channel_state_def sample_id_def Let_def)

theorem catalog_merge_exact_witness:
  "let s' = mergeCatalogChannels bare_host invite_server sample_id [demo_item ''g'' 0, demo_item ''o'' 1] in
   FindChannel (sv_dm s') sample_id ''g'' \<noteq> None \<and> FindChannel (sv_dm s') sample_id ''o'' = None \<and> FindChannel (sv_dm s') sample_id sample_id = None"
proof -
  let ?its = "[demo_item ''g'' 0, demo_item ''o'' 1]"
  have o: "other_real sample_id ?its" by (simp add: other_real_def demo_item_def sample_id_def)
  show ?thesis
    using catalog_merge_exact [OF invite_server_good invite_server_device(1), of bare_host ?its sample_id "''g''"]
      catalog_merge_exact [OF invite_server_good invite_server_device(1), of bare_host ?its sample_id "''o''"]
      catalog_merge_exact [OF invite_server_good invite_server_device(1), of bare_host ?its sample_id sample_id]
      invite_server_device o
    by (simp add: demo_item_def sample_id_def)
qed

subsection \<open>A catalog refresh and a running session\<close>

lemma teardown_status:
  assumes "teardown m a b = Some m'" "ss_channel (sm_heap m ! a) \<noteq> x"
  shows "sm_chans m' x = sm_chans m x"
  using assms by (auto simp: teardown_def Option.bind_eq_Some_conv go_idx_Some put_session_def sm_emit_def recycle_port_def set_status_def Let_def)

lemma Bye_status:
  assumes "Bye m c = Some m'" "map_of (sm_sessions m) c = Some a" "ss_channel (sm_heap m ! a) \<noteq> x"
  shows "sm_chans m' x = sm_chans m x"
proof -
  have "teardown (sm_emit (m\<lparr>sm_sessions := AList.delete c (sm_sessions m)\<rparr>) (bye_event m c)) a True = Some m'" using assms(1,2) by (simp add: Bye_def)
  then show ?thesis using teardown_status [of _ a True m' x] assms(3) by (fastforce simp: sm_emit_def)
qed

lemma merge_item_sessions:
  "sm_sessions (sv_sm (merge_item h dev host s it)) = sm_sessions (sv_sm s)" "sm_heap (sv_sm (merge_item h dev host s it)) = sm_heap (sv_sm s)"
  by (simp_all add: merge_item_def Let_def)

text \<open>C22: a catalog refresh detaches a playing channel from its session. The refresh registers a new channel object with the old status, while the session
  keeps the old object: when the session is then ended the channel has no session any more and its registered status stays playing.\<close>

theorem refresh_strands_status:
  assumes "sv_good s" "FindChannel (sv_dm s) dev c = Some ch" "channel_state s dev c = ChannelPlaying"
    and "map_of (sm_sessions (sv_sm s)) c = Some a" "ss_channel (sm_heap (sv_sm s) ! a) = sv_addr s dev c"
    and "it_DeviceID it = c" "it_Parental it \<noteq> 1"
  shows "\<exists>s'. ByeChannel h (mergeCatalogChannels h s dev [it]) dev c = Some s' \<and> map_of (sm_sessions (sv_sm s')) c = None
    \<and> FindChannel (sv_dm s') dev c \<noteq> None \<and> channel_state s' dev c = ChannelPlaying"
proof -
  let ?s1 = "mergeCatalogChannels h s dev [it]" and ?host = "device_host s dev"
  have dev: "dm_Device (sv_dm s) dev \<noteq> None" using assms(2) by (auto simp: FindChannel_def dm_Device_def split: option.splits)
  have old: "sv_addr s dev c < sv_fresh s" using assms(1,2) by (auto simp: sv_good_def sv_linked_def)
  have mr: "merges dev [it] it" "other_real dev [it] \<longrightarrow> c \<noteq> dev" using assms(6,7) by (auto simp: merges_def other_real_def)
  define s2 where "s2 = merge_item h dev ?host s it"
  have st2: "sv_addr s2 dev c = sv_fresh s" "channel_state s2 dev c = ChannelPlaying"
    using assms(2,3,6) by (simp_all add: s2_def merge_item_def Let_def register_channel_def item_channel_def attach_def kept_status_def channel_state_def sv_emit_def)
  define s3 where "s3 = retireDeviceSelfChannel s2 dev [it]"
  have s3: "sv_sm s3 = sv_sm s2" "sv_addr s3 = sv_addr s2" by (simp_all add: s3_def retireDeviceSelfChannel_def)
  have s1: "sv_sm ?s1 = sv_sm s2" "sv_addr ?s1 = sv_addr s2"
    using mr(1) s3 by (simp_all add: mergeCatalogChannels_def Let_def s2_def [symmetric] s3_def [symmetric])
  have f2: "FindChannel (sv_dm s2) dev c \<noteq> None" using merge_item_find [OF dev] assms(6) by (simp add: s2_def)
  have "FindChannel (sv_dm s3) dev c \<noteq> None" unfolding s3_def retire_effect(2) using f2 mr(2) by auto
  then have f1: "FindChannel (sv_dm ?s1) dev c \<noteq> None"
    using mr(1) by (simp add: mergeCatalogChannels_def Let_def s2_def [symmetric] s3_def [symmetric])
  have "sm_inv (sv_sm ?s1)" using mergeCatalogChannels_good [OF assms(1)] by (simp add: sv_good_def sv_inv_def)
  then obtain m where m: "Bye (sv_sm ?s1) c = Some m" "map_of (sm_sessions m) c = None" using Bye_removes by blast
  have ses: "map_of (sm_sessions (sv_sm ?s1)) c = Some a" "ss_channel (sm_heap (sv_sm ?s1) ! a) \<noteq> sv_fresh s"
    using assms(4,5) old merge_item_sessions [of h dev ?host s it] by (simp_all add: s1 s2_def)
  have "sm_chans m (sv_fresh s) = sm_chans (sv_sm ?s1) (sv_fresh s)" by (rule Bye_status [OF m(1) ses])
  then have "ch_Status (sm_chans m (sv_addr ?s1 dev c)) = ChannelPlaying" using st2 by (simp add: s1 channel_state_def)
  then show ?thesis using m f1 by (simp add: ByeChannel_def channel_state_def)
qed

lemma one_session_channel: "ss_channel (sm_heap one_session ! 0) = 0" "ch_Status (sm_chans one_session 0) = ChannelInviting"
  by (simp_all add: one_session_def start_manager_def NewSessionManager_def NewPortManager_def Invite_def replace_live_def pm_Get_def
      live_transport_def MediaTransport_def MediaUDP_def MediaTCPPassive_def MediaTCPActive_def open_net_def attach_udp_def rx_Start_def new_session_def live_receiver_def
      mediaSecurityOffer_def NewReceiver_def SetAudioOnly_def HasPrefix_def store_live_def cas_status_def set_status_def sample_channel_def Let_def word_less_nat_alt)

definition playing_manager :: session_manager where
  "playing_manager = fst (MarkPlaying one_session (ch_ID sample_channel))"

definition playing_server :: sip_server where
  "playing_server = start_server\<lparr>sv_dm := RegisterChannel (Register (NewDeviceManager 60) (new_device sample_id ''10.0.0.5:5060'' ''udp'') 0) sample_id sample_channel,
     sv_sm := playing_manager, sv_addr := (\<lambda>_ _. 0), sv_fresh := 1\<rparr>"

lemma playing_manager_facts:
  "sm_inv playing_manager" "sm_sessions playing_manager = [(ch_ID sample_channel, 0)]" "ss_channel (sm_heap playing_manager ! 0) = 0"
  "ch_Status (sm_chans playing_manager 0) = ChannelPlaying" "ch_ID (sm_chans playing_manager 0) = ch_ID sample_channel"
  using sm_reach_inv [OF one_session_reach] one_session_facts(1) one_session_channel one_session_chan
  by (simp_all add: playing_manager_def) (simp_all add: MarkPlaying_def cas_status_def set_status_def)

lemma playing_server_good: "sv_good playing_server" "\<exists>ch. FindChannel (sv_dm playing_server) sample_id (ch_ID sample_channel) = Some ch"
proof -
  have "registry_ok (Register (NewDeviceManager 60) (new_device sample_id ''10.0.0.5:5060'' ''udp'') 0)"
    by (rule Register_ok [OF NewDeviceManager_ok]) (simp add: new_device_def)
  then have r: "registry_ok (sv_dm playing_server)" unfolding playing_server_def using RegisterChannel_ok by simp
  have f: "FindChannel (sv_dm playing_server) d c = (if d = sample_id \<and> c = ch_ID sample_channel then Some (attach sample_id sample_channel) else None)" for d c
    by (simp add: playing_server_def FindChannel_RegisterChannel) (auto simp: Register_def NewDeviceManager_def new_device_def FindChannel_def dm_Device_def Let_def)
  then show "\<exists>ch. FindChannel (sv_dm playing_server) sample_id (ch_ID sample_channel) = Some ch" by simp
  have "sv_linked playing_server" using playing_manager_facts(5) unfolding sv_linked_def f by (simp add: playing_server_def)
  then show "sv_good playing_server" using r playing_manager_facts(1)
    by (simp add: sv_good_def sv_inv_def) (simp add: playing_server_def rings_ok_def queries_ok_def start_server_def NewServer_def)
qed

theorem refresh_strands_status_witness:
  "\<exists>s'. ByeChannel bare_host (mergeCatalogChannels bare_host playing_server sample_id [demo_item (ch_ID sample_channel) 0]) sample_id (ch_ID sample_channel) = Some s'
    \<and> map_of (sm_sessions (sv_sm s')) (ch_ID sample_channel) = None \<and> channel_state s' sample_id (ch_ID sample_channel) = ChannelPlaying"
proof -
  obtain ch where ch: "FindChannel (sv_dm playing_server) sample_id (ch_ID sample_channel) = Some ch" using playing_server_good(2) by blast
  show ?thesis
    using refresh_strands_status [OF playing_server_good(1) ch, of 0 "demo_item (ch_ID sample_channel) 0" bare_host] playing_manager_facts
    by (auto simp: channel_state_def playing_server_def demo_item_def)
qed

subsection \<open>Keepalives\<close>



subsection \<open>Recording queries\<close>

text \<open>A page of an answer: the identifier it carries, its total and its items.\<close>

type_synonym record_page = "string \<times> int \<times> record_item list"

definition feed_pages :: "sip_server \<Rightarrow> int \<Rightarrow> record_page list \<Rightarrow> sip_server" where
  "feed_pages s sn pages = foldl (\<lambda>s (i, n, items). feedRecordQuery s i sn n items) s pages"

lemma feed_query:
  assumes "map_of (sv_recordQueries s) (recordKey i sn) = Some q" "q < length (sv_queries s)"
  shows "sv_recordQueries (feedRecordQuery s i sn n items) = sv_recordQueries s" "length (sv_queries (feedRecordQuery s i sn n items)) = length (sv_queries s)"
    "sv_queries (feedRecordQuery s i sn n items) ! q = fold_page (sv_queries s ! q) n items"
  using assms by (simp_all add: feedRecordQuery_def)

lemma feed_pages_query:
  assumes "\<forall>(i, n, items) \<in> set pages. map_of (sv_recordQueries s) (recordKey i sn) = Some q" "q < length (sv_queries s)"
  shows "sv_queries (feed_pages s sn pages) ! q = foldl (\<lambda>p (i, n, items). fold_page p n items) (sv_queries s ! q) pages"
  using assms
proof (induction pages arbitrary: s)
  case (Cons pg pages)
  obtain i n items where pg: "pg = (i, n, items)" by (cases pg)
  have f: "map_of (sv_recordQueries s) (recordKey i sn) = Some q" using Cons.prems(1) pg by simp
  note o = feed_query [OF f Cons.prems(2), of n items]
  show ?case using Cons.IH [of "feedRecordQuery s i sn n items"] Cons.prems pg o by (simp add: feed_pages_def)
qed (simp add: feed_pages_def)

lemma fold_pages_total:
  assumes "\<forall>(i, k, items) \<in> set pages. k = n" "n > 0" "pages \<noteq> [] \<or> pq_sumNum p = n" "pq_sumNum p \<in> {0, n}" "pq_done p \<longrightarrow> int (length (pq_items p)) \<ge> n"
    "pq_sumNum p = n \<longrightarrow> pq_done p = (int (length (pq_items p)) \<ge> n)"
  shows "let p' = foldl (\<lambda>p (i, k, items). fold_page p k items) p pages in
    pq_items p' = pq_items p @ concat (map (snd \<circ> snd) pages) \<and> (pq_done p' \<longleftrightarrow> int (length (pq_items p')) \<ge> n)"
  using assms
proof (induction pages arbitrary: p)
  case (Cons pg pages)
  obtain i items where pg: "pg = (i, n, items)" using Cons.prems(1) by (cases pg) auto
  have s: "pq_sumNum (fold_page p n items) = n" "pq_items (fold_page p n items) = pq_items p @ items"
    "pq_done (fold_page p n items) = (int (length (pq_items p @ items)) \<ge> n)"
    using Cons.prems(2,4,5) by (auto simp: fold_page_def Let_def)
  show ?case using Cons.IH [of "fold_page p n items"] Cons.prems(1,2) s pg by (simp add: Let_def)
qed (simp add: Let_def)

text \<open>C23: a recording query collects every page that answers it. While the query is open, pages with its serial number under the identifier of the device
  or of the channel are appended in the order of arrival, and the wait ends exactly when as many items have come as the
  device announced.\<close>

theorem record_query_collects:
  assumes "pages \<noteq> []" "n > 0" "\<forall>(i, k, items) \<in> set pages. i \<in> {dev, c} \<and> k = n"
  shows "let q = sv_queries (feed_pages (open_query s dev c sn) sn pages) ! length (sv_queries s) in
    pq_items q = concat (map (snd \<circ> snd) pages) \<and> (pq_done q \<longleftrightarrow> int (length (pq_items q)) \<ge> n)"
proof -
  let ?s = "open_query s dev c sn" and ?q = "length (sv_queries s)"
  have q0: "sv_queries ?s ! ?q = \<lparr>pq_sn = sn, pq_sumNum = 0, pq_items = [], pq_done = False\<rparr>" "?q < length (sv_queries ?s)" by (simp_all add: open_query_def Let_def)
  have "map_of (sv_recordQueries ?s) (recordKey i sn) = Some ?q" if "i \<in> {dev, c}" for i
    using that by (auto simp: open_query_def Let_def AList.update_conv')
  then have "sv_queries (feed_pages ?s sn pages) ! ?q = foldl (\<lambda>p (i, k, items). fold_page p k items) (sv_queries ?s ! ?q) pages"
    using assms(3) q0(2) by (intro feed_pages_query) auto
  moreover have t: "\<forall>(i, k, items) \<in> set pages. k = n" using assms(3) by auto
  ultimately show ?thesis using fold_pages_total [OF t assms(2), of "sv_queries ?s ! ?q"] assms(1,2) q0(1) by (simp add: Let_def)
qed

definition demo_record :: record_item where
  "demo_record = \<lparr>ri_DeviceID = sample_id, ri_Name = [], ri_FilePath = [], ri_StartTime = [], ri_EndTime = []\<rparr>"

theorem record_query_collects_witness:
  "let q = sv_queries (feed_pages (open_query start_server ''d'' ''c'' 5) 5 [(''c'', 3, [demo_record, demo_record]), (''d'', 3, [demo_record])]) ! 0 in
   length (pq_items q) = 3 \<and> pq_done q"
  using record_query_collects [of "[(''c'', 3, [demo_record, demo_record]), (''d'', 3, [demo_record])]" 3 "''d''" "''c''" start_server 5]
  by (simp add: Let_def start_server_def NewServer_def)

end
