(* ===== verification/Device_Media.thy ===== *)
theory Device_Media
  imports Sip_Message
begin

text \<open>
  The media sessions of the device's SIP server, \<open>src/device/server.go\<close> (INVITE, BYE, INFO and the answers kept for
  retransmissions), \<open>src/device/talkback.go\<close> (audio offers) and \<open>src/device/broadcast.go\<close> (the INVITE the device sends back
  after a broadcast notification). One slot of the server holds the sockets, the hub subscription and the cancel
  function of the running session; the goroutines of a session are tasks that act in steps of their own.

  Sockets, contexts and subscriptions are numbers from counters; \<open>ms_open\<close>, \<open>ms_ctxs\<close> and \<open>ms_subs\<close> are those not
  yet closed, cancelled or unsubscribed. What the operating system answers to one call is an argument (\<open>device_os\<close>); the
  host's index, sink, source and authenticator are fields. Socket options are left out.
\<close>

subsection \<open>State\<close>

datatype peer = UdpPeer string | TcpPeer string

record segment_meta =
  sg_File :: string
  sg_StartMS :: int
  sg_EndMS :: int
  sg_Size :: int
  sg_Frames :: int
  sg_Keyframes :: int

text \<open>A control of a recorded session; the speed is the bit pattern of a \<open>float64\<close>.\<close>

record playback_control =
  plc_Value :: string
  plc_StartTime :: "int option"
  plc_EndTime :: "int option"
  plc_Speed :: "u64 option"

datatype AudioCodec = AudioPCMU | AudioPCMA

datatype media_task =
    AwaitAccept nat nat "nat option" bool  \<comment> \<open>context, listener, accepted connection, live session\<close>
  | LiveStart nat                          \<comment> \<open>context\<close>
  | LivePush nat nat                       \<comment> \<open>context and subscription\<close>
  | PlaybackRun nat                        \<comment> \<open>context\<close>
  | TalkSend nat
  | TalkReceive nat nat                    \<comment> \<open>context and socket\<close>
  | BroadcastWait nat sip_message          \<comment> \<open>the socket of an INVITE of the device that is not yet answered\<close>

record media_server =
  ms_DeviceID :: string
  ms_Transport :: string
  ms_LocalSIPPort :: int
  ms_UserAgent :: string
  ms_dialogTag :: string
  ms_responder :: "(string \<Rightarrow> (string \<times> bool) option) option"
  ms_receiver :: "(string \<Rightarrow> bool option) option"
  ms_index :: "(int \<Rightarrow> int \<Rightarrow> segment_meta list) option"
  ms_audioSink :: bool
  ms_audioSource :: bool
  ms_mediaConn :: "nat option"
  ms_mediaTCPConn :: "nat option"
  ms_mediaTCPListener :: "nat option"
  ms_mediaCancel :: "nat option"
  ms_sub :: "nat option"
  ms_talkCryptor :: bool
  ms_remoteRTPAddr :: "string option"
  ms_playbackCtl :: "playback_control list option"
  ms_inviteAnswerCache :: "(string \<times> string) list"
  ms_upstreamLaw :: AudioCodec
  ms_fresh :: nat
  ms_open :: "nat list"
  ms_ctxs :: "nat list"
  ms_subs :: "nat list"
  ms_tasks :: "media_task list"
  ms_sent :: "(string \<times> peer) list"

record device_os =
  os_resolve :: "string \<Rightarrow> string option"
  os_listenTCP :: "int option"
  os_listenUDP :: "int option"
  os_localIP :: string
  os_sends :: bool
  os_dials :: bool
  os_parseIP :: "string \<Rightarrow> bool"

text \<open>Taking a number for a new socket, context or subscription.\<close>

definition open_socket :: "media_server \<Rightarrow> media_server \<times> nat" where
  "open_socket s = (s\<lparr>ms_fresh := ms_fresh s + 1, ms_open := ms_fresh s # ms_open s\<rparr>, ms_fresh s)"

definition with_cancel :: "media_server \<Rightarrow> media_server \<times> nat" where
  "with_cancel s = (s\<lparr>ms_fresh := ms_fresh s + 1, ms_ctxs := ms_fresh s # ms_ctxs s\<rparr>, ms_fresh s)"

definition hub_subscribe :: "media_server \<Rightarrow> media_server \<times> nat" where
  "hub_subscribe s = (s\<lparr>ms_fresh := ms_fresh s + 1, ms_subs := ms_fresh s # ms_subs s\<rparr>, ms_fresh s)"

definition drop_opt :: "nat option \<Rightarrow> nat list \<Rightarrow> nat list" where
  "drop_opt i xs = (case i of None \<Rightarrow> xs | Some a \<Rightarrow> removeAll a xs)"

definition sendSIP :: "device_os \<Rightarrow> media_server \<Rightarrow> sip_message \<Rightarrow> peer \<Rightarrow> media_server" where
  "sendSIP e s m p = (if os_sends e then s\<lparr>ms_sent := ms_sent s @ [(Serialize m, p)]\<rparr> else s)"

subsection \<open>Teardown and the answers kept for retransmissions\<close>

definition teardownMediaLocked :: "media_server \<Rightarrow> media_server" where
  "teardownMediaLocked s = s\<lparr>ms_talkCryptor := False,
     ms_ctxs := drop_opt (ms_mediaCancel s) (ms_ctxs s), ms_mediaCancel := None,
     ms_subs := drop_opt (ms_sub s) (ms_subs s), ms_sub := None,
     ms_open := drop_opt (ms_mediaTCPListener s) (drop_opt (ms_mediaTCPConn s) (drop_opt (ms_mediaConn s) (ms_open s))),
     ms_mediaConn := None, ms_mediaTCPConn := None, ms_mediaTCPListener := None, ms_playbackCtl := None\<rparr>"

definition inviteCacheKey :: "sip_message \<Rightarrow> string" where
  "inviteCacheKey msg = sip_CallID msg @ '' '' @ sip_CSeq msg"

definition cacheInviteAnswer :: "media_server \<Rightarrow> sip_message \<Rightarrow> string \<Rightarrow> media_server" where
  "cacheInviteAnswer s msg answer =
     s\<lparr>ms_inviteAnswerCache := AList.update (inviteCacheKey msg) answer
         (if length (ms_inviteAnswerCache s) > 4 then [] else ms_inviteAnswerCache s)\<rparr>"

definition replayInviteAnswer :: "device_os \<Rightarrow> media_server \<Rightarrow> sip_message \<Rightarrow> peer \<Rightarrow> media_server option" where
  "replayInviteAnswer e s msg addr =
     (case map_of (ms_inviteAnswerCache s) (inviteCacheKey msg) of
        None \<Rightarrow> None
      | Some cached \<Rightarrow> Some (if os_sends e then s\<lparr>ms_sent := ms_sent s @ [(cached, addr)]\<rparr> else s))"

definition reject_message :: "media_server \<Rightarrow> sip_message \<Rightarrow> string \<Rightarrow> sip_message" where
  "reject_message s msg to =
     empty_sip\<lparr>sip_StatusCode := 488, sip_Via := sip_Via msg, sip_From := sip_From msg, sip_To := to,
       sip_CallID := sip_CallID msg, sip_CSeq := sip_CSeq msg\<rparr>"

definition rejectInvite :: "device_os \<Rightarrow> media_server \<Rightarrow> sip_message \<Rightarrow> peer \<Rightarrow> media_server" where
  "rejectInvite e s msg from = sendSIP e s (reject_message s msg (to_with_tag (ms_dialogTag s) (sip_To msg))) from"

text \<open>The refusal of a talkback offer has no tag.\<close>

definition rejectInvite488 :: "device_os \<Rightarrow> media_server \<Rightarrow> sip_message \<Rightarrow> peer \<Rightarrow> media_server" where
  "rejectInvite488 e s msg from = sendSIP e s (reject_message s msg (sip_To msg)) from"

subsection \<open>Audio offers\<close>

record talkbackOffer =
  to_codec :: "AudioCodec option"
  to_ssrc :: u32
  to_tcp :: bool
  to_connIP :: string
  to_mediaPort :: int
  to_recvOnly :: bool
  to_sendOnly :: bool

record talk_acc =
  ta_hasVideo :: bool
  ta_hasAudio :: bool
  ta_payloadTypes :: "int list"
  ta_proto :: string
  ta_rtpmaps :: "string list"
  ta_offer :: talkbackOffer

definition talk_start :: talk_acc where
  "talk_start = \<lparr>ta_hasVideo = False, ta_hasAudio = False, ta_payloadTypes = [], ta_proto = [], ta_rtpmaps = [],
     ta_offer = \<lparr>to_codec = None, to_ssrc = 0, to_tcp = False, to_connIP = [], to_mediaPort = 0, to_recvOnly = False, to_sendOnly = False\<rparr>\<rparr>"

definition talk_line :: "talk_acc \<Rightarrow> string \<Rightarrow> talk_acc" where
  "talk_line a line0 =
     (let line = TrimSpace line0; offer = ta_offer a in
      if HasPrefix line ''m=video '' then a\<lparr>ta_hasVideo := True\<rparr>
      else if HasPrefix line ''m=audio '' then
        (let parts = Fields line; a = a\<lparr>ta_hasAudio := True\<rparr> in
         if length parts \<ge> 3
         then a\<lparr>ta_proto := parts ! 2,
                ta_offer := (case go_atoi (parts ! 1) of None \<Rightarrow> offer | Some port \<Rightarrow> offer\<lparr>to_mediaPort := port\<rparr>),
                ta_payloadTypes := ta_payloadTypes a @ List.map_filter go_atoi (drop 3 parts)\<rparr>
         else a)
      else if HasPrefix line ''c=IN IP4 '' then
        (if to_connIP offer = [] then a\<lparr>ta_offer := offer\<lparr>to_connIP := TrimSpace (TrimPrefix line ''c=IN IP4 '')\<rparr>\<rparr> else a)
      else if line = ''a=recvonly'' then a\<lparr>ta_offer := offer\<lparr>to_recvOnly := True\<rparr>\<rparr>
      else if line = ''a=sendonly'' then a\<lparr>ta_offer := offer\<lparr>to_sendOnly := True\<rparr>\<rparr>
      else if HasPrefix line ''a=rtpmap:'' then a\<lparr>ta_rtpmaps := ta_rtpmaps a @ [TrimPrefix line ''a=rtpmap:'']\<rparr>
      else if HasPrefix line ''y='' then
        (case ParseUint32 (TrimPrefix line ''y='') of None \<Rightarrow> a | Some v \<Rightarrow> a\<lparr>ta_offer := offer\<lparr>to_ssrc := v\<rparr>\<rparr>)
      else a)"

text \<open>The codec of the first payload type 8 or 0, else of the first \<open>rtpmap\<close> that names one of them.\<close>

definition talk_codec :: "talk_acc \<Rightarrow> AudioCodec option" where
  "talk_codec a =
     (case List.map_filter (\<lambda>pt. if pt = 8 then Some AudioPCMA else if pt = 0 then Some AudioPCMU else None) (ta_payloadTypes a) of
        c # _ \<Rightarrow> Some c
      | [] \<Rightarrow>
          (case List.map_filter (\<lambda>rm. if HasPrefix rm ''8 PCMA'' then Some AudioPCMA else if HasPrefix rm ''0 PCMU'' then Some AudioPCMU else None)
                  (ta_rtpmaps a) of
             c # _ \<Rightarrow> Some c | [] \<Rightarrow> None))"

definition parseTalkbackOffer :: "string \<Rightarrow> talkbackOffer option" where
  "parseTalkbackOffer body =
     (let a = foldl talk_line talk_start (Split body lf) in
      if ta_hasVideo a \<or> \<not> ta_hasAudio a then None
      else Some ((ta_offer a)\<lparr>to_tcp := Contains (ta_proto a) ''TCP'', to_codec := talk_codec a\<rparr>))"

definition PayloadType :: "AudioCodec \<Rightarrow> int" where
  "PayloadType c = (case c of AudioPCMU \<Rightarrow> 0 | AudioPCMA \<Rightarrow> 8)"

definition codec_name :: "AudioCodec \<Rightarrow> string" where
  "codec_name c = (case c of AudioPCMA \<Rightarrow> ''PCMA'' | AudioPCMU \<Rightarrow> ''PCMU'')"

definition buildTalkbackSDP :: "string \<Rightarrow> int \<Rightarrow> u32 \<Rightarrow> AudioCodec \<Rightarrow> string \<Rightarrow> string" where
  "buildTalkbackSDP deviceIP mediaPort ssrc codec direction =
     ''v=0'' @ crlf @ ''o=- 0 0 IN IP4 '' @ deviceIP @ crlf @ ''s=Play'' @ crlf @ ''c=IN IP4 '' @ deviceIP @ crlf @ ''t=0 0'' @ crlf
     @ ''m=audio '' @ go_itoa mediaPort @ '' RTP/AVP '' @ go_itoa (PayloadType codec) @ crlf
     @ ''a=rtpmap:'' @ go_itoa (PayloadType codec) @ '' '' @ codec_name codec @ ''/8000'' @ crlf
     @ direction @ ''y='' @ nat_text (unat ssrc) @ crlf"

definition start_task :: "media_server \<Rightarrow> media_task \<Rightarrow> media_server" where
  "start_task s t = s\<lparr>ms_tasks := t # ms_tasks s\<rparr>"

text \<open>Where the device sends its half: the address of the offer, else the peer of a UDP dialog.\<close>

definition upstream_target :: "device_os \<Rightarrow> talkbackOffer \<Rightarrow> peer \<Rightarrow> bool" where
  "upstream_target e offer from \<longleftrightarrow>
     (os_parseIP e (to_connIP offer) \<or> (case from of UdpPeer _ \<Rightarrow> True | TcpPeer _ \<Rightarrow> False)) \<and> to_mediaPort offer > 0"

definition talk_session :: "device_os \<Rightarrow> media_server \<Rightarrow> sip_message \<Rightarrow> talkbackOffer \<Rightarrow> AudioCodec \<Rightarrow> peer \<Rightarrow> media_server" where
  "talk_session e s msg offer codec from =
     (case os_listenUDP e of
        None \<Rightarrow> s
      | Some port \<Rightarrow>
          let (s, conn) = open_socket s;
              sdp = buildTalkbackSDP (os_localIP e) port (to_ssrc offer) codec (if to_recvOnly offer then ''a=sendonly'' @ crlf else []);
              s = sendSIP e s (Build200OK (ms_UserAgent s) (ms_dialogTag s) msg ''application/sdp'' sdp) from
          in if \<not> os_sends e then s\<lparr>ms_open := removeAll conn (ms_open s)\<rparr>
             else let (s, ctx) = with_cancel s;
                      s = s\<lparr>ms_mediaConn := Some conn, ms_mediaCancel := Some ctx\<rparr>;
                      s = (if ms_audioSource s \<and> \<not> to_sendOnly offer \<and> upstream_target e offer from
                           then start_task (s\<lparr>ms_upstreamLaw := codec\<rparr>) (TalkSend ctx) else s)
                  in start_task s (TalkReceive ctx conn))"

text \<open>\<open>OpenMediaSecurity\<close> on the attribute of the offer: no attribute is plaintext, a refusal is an error.\<close>

definition open_security :: "media_server \<Rightarrow> string \<Rightarrow> bool option" where
  "open_security s body =
     (let sec = SDPSecurityAttributeValue body in
      if sec = [] then Some False else case ms_receiver s of None \<Rightarrow> None | Some f \<Rightarrow> f sec)"

definition handleTalkbackInvite :: "device_os \<Rightarrow> media_server \<Rightarrow> sip_message \<Rightarrow> talkbackOffer \<Rightarrow> peer \<Rightarrow> media_server" where
  "handleTalkbackInvite e s msg offer from =
     (if \<not> ms_audioSink s then rejectInvite488 e s msg from
      else case to_codec offer of
        None \<Rightarrow> rejectInvite488 e s msg from
      | Some codec \<Rightarrow>
          if to_tcp offer \<or> to_recvOnly offer \<and> \<not> ms_audioSource s then rejectInvite488 e s msg from
          else case open_security s (sip_Body msg) of
            None \<Rightarrow> rejectInvite488 e s msg from
          | Some cryptor \<Rightarrow> talk_session e ((teardownMediaLocked s)\<lparr>ms_talkCryptor := cryptor\<rparr>) msg offer codec from)"

subsection \<open>Video sessions\<close>

text \<open>
  The range of recordings an offer asks for, from its first \<open>t=\<close> line: seconds of the NTP or of the Unix era, as
  milliseconds in \<open>int64\<close>.
\<close>

definition ntp_seconds :: "int \<Rightarrow> int" where
  "ntp_seconds t = (if t > 3000000000 then t - 2208988800 else t)"

definition all_time :: "int \<times> int" where
  "all_time = (0, 2 ^ 63 - 1)"

fun parseSDPTimeRange_lines :: "string list \<Rightarrow> int \<times> int" where
  "parseSDPTimeRange_lines [] = all_time"
| "parseSDPTimeRange_lines (l # ls) =
     (let line = TrimSpace l in
      if \<not> HasPrefix line ''t='' then parseSDPTimeRange_lines ls
      else case Fields (TrimPrefix line ''t='') of
        f0 # f1 # _ \<Rightarrow>
          (case (go_atoi f0, go_atoi f1) of
             (Some a, Some b) \<Rightarrow> if a = 0 \<and> b = 0 then all_time else (wrap64 (ntp_seconds a * 1000), wrap64 (ntp_seconds b * 1000))
           | _ \<Rightarrow> all_time)
      | _ \<Rightarrow> all_time)"

definition parseSDPTimeRange :: "string \<Rightarrow> int \<times> int" where
  "parseSDPTimeRange body = parseSDPTimeRange_lines (Split body lf)"

definition playback_segments :: "media_server \<Rightarrow> string \<Rightarrow> segment_meta list" where
  "playback_segments s body =
     (case ms_index s of None \<Rightarrow> [] | Some Lookup \<Rightarrow> (case parseSDPTimeRange body of (startMs, endMs) \<Rightarrow> Lookup startMs endMs))"

text \<open>The passive listener of an offer with \<open>a=setup:active\<close>; a failure ends the handler.\<close>

definition bind_listener :: "device_os \<Rightarrow> media_server \<Rightarrow> sdpMediaTransport \<Rightarrow> (media_server \<times> (nat \<times> int) option) option" where
  "bind_listener e s mt =
     (if mt = mediaTCPListen
      then (case os_listenTCP e of
              None \<Rightarrow> None
            | Some port \<Rightarrow> (case open_socket s of (s, l) \<Rightarrow> Some (s\<lparr>ms_mediaTCPListener := Some l\<rparr>, Some (l, port))))
      else Some (s, None))"

text \<open>The GB35114 answer: the attribute to add, or a refusal.\<close>

definition answer_security :: "media_server \<Rightarrow> string \<Rightarrow> string option" where
  "answer_security s body =
     (let offer = SDPSecurityAttributeValue body in
      if offer = [] then Some []
      else case ms_responder s of
        None \<Rightarrow> None
      | Some f \<Rightarrow> (case f offer of None \<Rightarrow> None | Some (ans, enc) \<Rightarrow> Some (if ans = [] then [] else lf @ ''a=security:'' @ ans)))"

definition device_answer :: "device_os \<Rightarrow> media_server \<Rightarrow> int \<Rightarrow> (nat \<times> int) option \<Rightarrow> u32 \<Rightarrow> sdpMediaTransport \<Rightarrow> string \<Rightarrow> string" where
  "device_answer e s port listener ssrc mt sessionType =
     buildDeviceSDP (ms_DeviceID s) (os_localIP e) (case listener of None \<Rightarrow> port | Some (l, p) \<Rightarrow> p) ssrc
       (if mt = mediaUDP then ''udp'' else ''tcp'') sessionType (if listener = None then ''active'' else ''passive'')"

text \<open>A live session subscribes to the hub before the answer leaves.\<close>

definition subscribe_live :: "media_server \<Rightarrow> string \<Rightarrow> media_server" where
  "subscribe_live s rtpDest =
     (let s = s\<lparr>ms_subs := drop_opt (ms_sub s) (ms_subs s)\<rparr>; (s, i) = hub_subscribe s in s\<lparr>ms_sub := Some i, ms_remoteRTPAddr := Some rtpDest\<rparr>)"

text \<open>The TCP connection of a device that dials; a failure gives the subscription back and ends the handler.\<close>

definition dial_media :: "device_os \<Rightarrow> media_server \<Rightarrow> sdpMediaTransport \<Rightarrow> media_server + media_server" where
  "dial_media e s mt =
     (if mt = mediaTCPConnect
      then (if os_dials e then (case open_socket s of (s, c) \<Rightarrow> Inr (s\<lparr>ms_mediaTCPConn := Some c\<rparr>))
            else Inl (s\<lparr>ms_subs := drop_opt (ms_sub s) (ms_subs s), ms_sub := None\<rparr>))
      else Inr s)"

text \<open>The media goroutine; one that waits for the dial of the platform starts there.\<close>

definition start_media :: "media_server \<Rightarrow> (nat \<times> int) option \<Rightarrow> string \<Rightarrow> string \<Rightarrow> media_server" where
  "start_media s listener rtpDest sessionType =
     (let (s, ctx) = with_cancel s; s = s\<lparr>ms_mediaCancel := Some ctx\<rparr> in
      if sessionType \<noteq> ''Play''
      then start_task (s\<lparr>ms_remoteRTPAddr := Some rtpDest, ms_playbackCtl := Some []\<rparr>)
             (case listener of Some (l, p) \<Rightarrow> AwaitAccept ctx l None False | None \<Rightarrow> PlaybackRun ctx)
      else start_task s (case listener of Some (l, p) \<Rightarrow> AwaitAccept ctx l None True | None \<Rightarrow> LiveStart ctx))"

definition answer_invite :: "device_os \<Rightarrow> media_server \<Rightarrow> sip_message \<Rightarrow> peer \<Rightarrow> (nat \<times> int) option \<Rightarrow> string \<Rightarrow> string \<Rightarrow> string \<Rightarrow> sdpMediaTransport \<Rightarrow> media_server" where
  "answer_invite e s msg from listener sdp rtpDest sessionType mt =
     (let s = (if sessionType = ''Play'' then subscribe_live s rtpDest else s);
          ok200 = Build200OK (ms_UserAgent s) (ms_dialogTag s) msg ''application/sdp'' sdp;
          s = sendSIP e (cacheInviteAnswer s msg (Serialize ok200)) ok200 from
      in if \<not> os_sends e then s
         else case dial_media e s mt of Inl s \<Rightarrow> s | Inr s \<Rightarrow> start_media s listener rtpDest sessionType)"

definition invite_media :: "device_os \<Rightarrow> media_server \<Rightarrow> sip_message \<Rightarrow> peer \<Rightarrow> string \<Rightarrow> u32 \<Rightarrow> string \<Rightarrow> sdpMediaTransport \<Rightarrow> media_server" where
  "invite_media e s msg from rtpDest ssrc sessionType mt =
     (case bind_listener e s mt of
        None \<Rightarrow> s
      | Some (s, listener) \<Rightarrow>
          case os_listenUDP e of
            None \<Rightarrow> s
          | Some port \<Rightarrow>
              let (s, conn) = open_socket s; s = s\<lparr>ms_mediaConn := Some conn\<rparr>;
                  sdp = device_answer e s port listener ssrc mt sessionType
              in case answer_security s (sip_Body msg) of
                   None \<Rightarrow> rejectInvite e s msg from
                 | Some sec \<Rightarrow> answer_invite e s msg from listener (sdp @ sec) rtpDest sessionType mt)"

definition handleInvite :: "device_os \<Rightarrow> media_server \<Rightarrow> sip_message \<Rightarrow> peer \<Rightarrow> media_server" where
  "handleInvite e s msg from =
     (case parseTalkbackOffer (sip_Body msg) of
        Some offer \<Rightarrow> handleTalkbackInvite e s msg offer from
      | None \<Rightarrow>
          case parseSDP (sip_Body msg) of
            Inl _ \<Rightarrow> s
          | Inr (mediaAddr, ssrc, sessionType, mt) \<Rightarrow>
              case os_resolve e mediaAddr of
                None \<Rightarrow> s
              | Some rtpDest \<Rightarrow>
                  if sessionType \<noteq> ''Play'' \<and> playback_segments s (sip_Body msg) = [] then rejectInvite e s msg from
                  else invite_media e (teardownMediaLocked s) msg from rtpDest ssrc sessionType mt)"

text \<open>An INVITE of the receive loop: a retransmission is served from the kept answers.\<close>

definition recv_invite :: "device_os \<Rightarrow> media_server \<Rightarrow> sip_message \<Rightarrow> peer \<Rightarrow> media_server" where
  "recv_invite e s msg from = (case replayInviteAnswer e s msg from of Some s \<Rightarrow> s | None \<Rightarrow> handleInvite e s msg from)"

definition device_handleBye :: "device_os \<Rightarrow> media_server \<Rightarrow> sip_message \<Rightarrow> peer \<Rightarrow> media_server" where
  "device_handleBye e s msg from =
     (let s = (teardownMediaLocked s)\<lparr>ms_remoteRTPAddr := None\<rparr> in sendSIP e s (Build200OK (ms_UserAgent s) (ms_dialogTag s) msg [] []) from)"

text \<open>INFO: a control goes to the running recorded session, whose channel holds four; \<open>ctl\<close> is what the body parses to.\<close>

definition device_handleInfo :: "device_os \<Rightarrow> media_server \<Rightarrow> sip_message \<Rightarrow> playback_control option \<Rightarrow> peer \<Rightarrow> media_server" where
  "device_handleInfo e s msg ctl from =
     (let s = (case (ctl, ms_playbackCtl s) of
                 (Some c, Some q) \<Rightarrow> if length q < 4 then s\<lparr>ms_playbackCtl := Some (q @ [c])\<rparr> else s
               | _ \<Rightarrow> s)
      in sendSIP e s (Build200OK (ms_UserAgent s) (ms_dialogTag s) msg [] []) from)"

subsection \<open>Voice broadcast\<close>

text \<open>The INVITE the device sends to the announced source; its random texts are arguments.\<close>

definition broadcastInvite :: "media_server \<Rightarrow> string \<Rightarrow> string \<Rightarrow> string \<Rightarrow> string \<Rightarrow> int \<Rightarrow> u32 \<Rightarrow> string \<Rightarrow> string \<Rightarrow> string \<Rightarrow> sip_message" where
  "broadcastInvite s domain sourceID platform localIP mediaPort ssrc branch tag callID =
     empty_sip\<lparr>sip_Method := ''INVITE'', sip_RequestURI := ''sip:'' @ sourceID @ ''@'' @ platform,
       sip_From := ''<sip:'' @ ms_DeviceID s @ ''@'' @ domain @ ''>;tag='' @ tag,
       sip_To := ''<sip:'' @ sourceID @ ''@'' @ domain @ ''>'', sip_CallID := callID @ ''@'' @ localIP, sip_CSeq := ''1 INVITE'',
       sip_Contact := ''<sip:'' @ ms_DeviceID s @ ''@'' @ localIP @ '':'' @ go_itoa (ms_LocalSIPPort s) @ ''>'',
       sip_Via := ''SIP/2.0/UDP '' @ localIP @ '':'' @ go_itoa (ms_LocalSIPPort s) @ '';branch=z9hG4bKbi'' @ branch,
       sip_MaxForwards := ''70'', sip_ContentType := ''application/sdp'', sip_UserAgent := ms_UserAgent s,
       sip_Headers := [(''Subject'', sourceID @ '':'' @ nat_text (unat ssrc) @ '','' @ ms_DeviceID s @ '':0'')],
       sip_Body := ''v=0'' @ crlf @ ''o=- 0 0 IN IP4 '' @ localIP @ crlf @ ''s=Play'' @ crlf @ ''c=IN IP4 '' @ localIP @ crlf @ ''t=0 0'' @ crlf
         @ ''m=audio '' @ go_itoa mediaPort @ '' RTP/AVP 8'' @ crlf @ ''a=rtpmap:8 PCMA/8000'' @ crlf @ ''y='' @ nat_text (unat ssrc) @ crlf\<rparr>"

definition parseCSeqNumber :: "string \<Rightarrow> string" where
  "parseCSeqNumber cseq = (case Fields cseq of n # _ \<Rightarrow> if go_atoi n \<noteq> None then n else ''1'' | [] \<Rightarrow> ''1'')"

definition viaHost :: "string \<Rightarrow> string" where
  "viaHost via =
     (let rest = TrimPrefix via ''SIP/2.0/UDP'' in TrimSpace (case str_index rest '';'' of None \<Rightarrow> rest | Some i \<Rightarrow> take i rest))"

definition broadcastAck :: "media_server \<Rightarrow> sip_message \<Rightarrow> sip_message \<Rightarrow> string \<Rightarrow> sip_message" where
  "broadcastAck s ivt resp branch =
     empty_sip\<lparr>sip_Method := ''ACK'', sip_RequestURI := sip_RequestURI ivt, sip_From := sip_From ivt, sip_To := sip_To resp,
       sip_CallID := sip_CallID ivt, sip_CSeq := parseCSeqNumber (sip_CSeq ivt) @ '' ACK'',
       sip_Via := ''SIP/2.0/UDP '' @ viaHost (sip_Via ivt) @ '';branch=z9hG4bKba'' @ branch,
       sip_MaxForwards := ''70'', sip_UserAgent := ms_UserAgent s\<rparr>"

text \<open>\<open>startBroadcastSession\<close> up to the wait for the answer; \<open>mk\<close> builds the INVITE for a port.\<close>

definition broadcast_start :: "device_os \<Rightarrow> media_server \<Rightarrow> (int \<Rightarrow> sip_message) \<Rightarrow> peer \<Rightarrow> media_server" where
  "broadcast_start e s mk platform =
     (let s = teardownMediaLocked s in
      case os_listenUDP e of
        None \<Rightarrow> s
      | Some port \<Rightarrow>
          let (s, conn) = open_socket s; ivt = mk port; s = sendSIP e s ivt platform
          in if os_sends e then start_task s (BroadcastWait conn ivt) else s\<lparr>ms_open := removeAll conn (ms_open s)\<rparr>)"

definition end_task :: "media_server \<Rightarrow> media_task \<Rightarrow> media_server" where
  "end_task s t = s\<lparr>ms_tasks := remove1 t (ms_tasks s)\<rparr>"

definition close_socket :: "media_server \<Rightarrow> nat \<Rightarrow> media_server" where
  "close_socket s c = s\<lparr>ms_open := removeAll c (ms_open s)\<rparr>"

definition cancel_ctx :: "media_server \<Rightarrow> nat \<Rightarrow> media_server" where
  "cancel_ctx s ctx = s\<lparr>ms_ctxs := removeAll ctx (ms_ctxs s)\<rparr>"

text \<open>The rest of it, on the answer or (\<open>None\<close>) after five seconds or at the end of the server.\<close>

definition broadcast_answered :: "device_os \<Rightarrow> media_server \<Rightarrow> nat \<Rightarrow> sip_message \<Rightarrow> sip_message option \<Rightarrow> string \<Rightarrow> peer \<Rightarrow> media_server" where
  "broadcast_answered e s conn ivt resp branch platform =
     (let s = end_task s (BroadcastWait conn ivt) in
      case resp of
        None \<Rightarrow> close_socket s conn
      | Some r \<Rightarrow>
          if sip_StatusCode r \<noteq> 200 then close_socket s conn
          else let s = sendSIP e s (broadcastAck s ivt r branch) platform in
               case open_security s (sip_Body r) of
                 None \<Rightarrow> close_socket s conn
               | Some cryptor \<Rightarrow>
                   let (s, ctx) = with_cancel s;
                       s = s\<lparr>ms_mediaConn := Some conn, ms_mediaCancel := Some ctx, ms_talkCryptor := cryptor\<rparr>
                   in start_task s (TalkReceive ctx conn))"

subsection \<open>Steps\<close>

datatype media_op =
    OpInvite device_os sip_message peer
  | OpBye device_os sip_message peer
  | OpInfo device_os sip_message "playback_control option" peer
  | OpBroadcast device_os "int \<Rightarrow> sip_message" peer
  | OpBroadcastAnswer device_os nat sip_message "sip_message option" string peer
  | OpAccept nat nat bool
  | OpAcceptTaken nat nat nat bool
  | OpAcceptDone nat nat "nat option" bool
  | OpAcceptFailed nat nat bool
  | OpLiveStart nat
  | OpEnds media_task

text \<open>The goroutine of a live session reads the subscription of the server when it starts: without one it panics.\<close>

definition live_start :: "media_server \<Rightarrow> nat \<Rightarrow> media_server go" where
  "live_start s ctx = (case ms_sub s of None \<Rightarrow> None | Some i \<Rightarrow> Some (start_task (end_task s (LiveStart ctx)) (LivePush ctx i)))"

text \<open>The accepting goroutine; \<open>accept_taken\<close> and \<open>accept_done\<close> are the two arms its reader may choose from.\<close>

definition accept_arrives :: "media_server \<Rightarrow> nat \<Rightarrow> nat \<Rightarrow> bool \<Rightarrow> media_server" where
  "accept_arrives s ctx l live =
     (case open_socket (end_task s (AwaitAccept ctx l None live)) of (s, c) \<Rightarrow> start_task s (AwaitAccept ctx l (Some c) live))"

definition accept_taken :: "media_server \<Rightarrow> nat \<Rightarrow> nat \<Rightarrow> nat \<Rightarrow> bool \<Rightarrow> media_server" where
  "accept_taken s ctx l c live =
     start_task ((end_task s (AwaitAccept ctx l (Some c) live))\<lparr>ms_mediaTCPConn := Some c\<rparr>) (if live then LiveStart ctx else PlaybackRun ctx)"

definition accept_done :: "media_server \<Rightarrow> nat \<Rightarrow> nat \<Rightarrow> nat option \<Rightarrow> bool \<Rightarrow> media_server" where
  "accept_done s ctx l c live = close_socket (end_task s (AwaitAccept ctx l c live)) l"

fun task_ends :: "media_server \<Rightarrow> media_task \<Rightarrow> media_server" where
  "task_ends s (LivePush ctx i) = cancel_ctx (end_task s (LivePush ctx i)) ctx"
| "task_ends s (PlaybackRun ctx) = cancel_ctx (end_task s (PlaybackRun ctx)) ctx"
| "task_ends s (TalkReceive ctx c) = cancel_ctx (end_task s (TalkReceive ctx c)) ctx"
| "task_ends s (TalkSend ctx) = end_task s (TalkSend ctx)"
| "task_ends s t = s"

fun ms_enabled :: "media_server \<Rightarrow> media_op \<Rightarrow> bool" where
  "ms_enabled s (OpBroadcastAnswer e c ivt r b p) \<longleftrightarrow> BroadcastWait c ivt \<in> set (ms_tasks s)"
| "ms_enabled s (OpAccept ctx l live) \<longleftrightarrow> AwaitAccept ctx l None live \<in> set (ms_tasks s) \<and> l \<in> set (ms_open s)"
| "ms_enabled s (OpAcceptTaken ctx l c live) \<longleftrightarrow> AwaitAccept ctx l (Some c) live \<in> set (ms_tasks s)"
| "ms_enabled s (OpAcceptDone ctx l c live) \<longleftrightarrow> AwaitAccept ctx l c live \<in> set (ms_tasks s) \<and> ctx \<notin> set (ms_ctxs s)"
| "ms_enabled s (OpAcceptFailed ctx l live) \<longleftrightarrow> AwaitAccept ctx l None live \<in> set (ms_tasks s) \<and> l \<notin> set (ms_open s)"
| "ms_enabled s (OpLiveStart ctx) \<longleftrightarrow> LiveStart ctx \<in> set (ms_tasks s)"
| "ms_enabled s (OpEnds t) \<longleftrightarrow> t \<in> set (ms_tasks s)"
| "ms_enabled s op \<longleftrightarrow> True"

fun ms_exec :: "media_server \<Rightarrow> media_op \<Rightarrow> media_server go" where
  "ms_exec s (OpInvite e msg p) = Some (recv_invite e s msg p)"
| "ms_exec s (OpBye e msg p) = Some (device_handleBye e s msg p)"
| "ms_exec s (OpInfo e msg ctl p) = Some (device_handleInfo e s msg ctl p)"
| "ms_exec s (OpBroadcast e mk p) = Some (broadcast_start e s mk p)"
| "ms_exec s (OpBroadcastAnswer e c ivt r b p) = Some (broadcast_answered e s c ivt r b p)"
| "ms_exec s (OpAccept ctx l live) = Some (accept_arrives s ctx l live)"
| "ms_exec s (OpAcceptTaken ctx l c live) = Some (accept_taken s ctx l c live)"
| "ms_exec s (OpAcceptDone ctx l c live) = Some (accept_done s ctx l c live)"
| "ms_exec s (OpAcceptFailed ctx l live) = Some (cancel_ctx (end_task s (AwaitAccept ctx l None live)) ctx)"
| "ms_exec s (OpLiveStart ctx) = live_start s ctx"
| "ms_exec s (OpEnds t) = Some (task_ends s t)"

text \<open>
  The steps that find the slot as the session they belong to left it: an accepted connection or an answered
  broadcast does not meet a session that took the slot in between, and an accepted connection is not passed over for the
  cancellation.
\<close>

fun orderly :: "media_server \<Rightarrow> media_op \<Rightarrow> bool" where
  "orderly s (OpBroadcastAnswer e c ivt r b p) \<longleftrightarrow>
     (case r of None \<Rightarrow> True | Some m \<Rightarrow> sip_StatusCode m = 200 \<longrightarrow> ms_mediaConn s = None \<and> ms_mediaCancel s = None)"
| "orderly s (OpAcceptTaken ctx l c live) \<longleftrightarrow> ms_mediaTCPConn s = None"
| "orderly s (OpAcceptDone ctx l c live) \<longleftrightarrow> c = None"
| "orderly s op \<longleftrightarrow> True"

definition idle_server :: "media_server \<Rightarrow> bool" where
  "idle_server s \<longleftrightarrow> ms_mediaConn s = None \<and> ms_mediaTCPConn s = None \<and> ms_mediaTCPListener s = None \<and> ms_mediaCancel s = None \<and> ms_sub s = None
     \<and> ms_playbackCtl s = None \<and> ms_inviteAnswerCache s = [] \<and> ms_open s = [] \<and> ms_ctxs s = [] \<and> ms_subs s = [] \<and> ms_tasks s = []"

inductive ms_reach :: "media_server \<Rightarrow> bool" where
  init: "idle_server s \<Longrightarrow> ms_reach s"
| step: "ms_reach s \<Longrightarrow> ms_enabled s op \<Longrightarrow> orderly s op \<Longrightarrow> ms_exec s op = Some s' \<Longrightarrow> ms_reach s'"

subsection \<open>The slot owns everything\<close>

fun task_socket :: "media_task \<Rightarrow> nat option" where
  "task_socket (AwaitAccept ctx l c live) = c"
| "task_socket (BroadcastWait c ivt) = Some c"
| "task_socket t = None"

definition waiting :: "media_task list \<Rightarrow> nat set" where
  "waiting ts = {c. \<exists>t \<in> set ts. task_socket t = Some c}"

definition slot_sockets :: "media_server \<Rightarrow> nat set" where
  "slot_sockets s = set_option (ms_mediaConn s) \<union> set_option (ms_mediaTCPConn s) \<union> set_option (ms_mediaTCPListener s)"

definition ms_inv :: "media_server \<Rightarrow> bool" where
  "ms_inv s \<longleftrightarrow> set (ms_open s) \<subseteq> slot_sockets s \<union> waiting (ms_tasks s) \<and> set (ms_ctxs s) \<subseteq> set_option (ms_mediaCancel s)
     \<and> set (ms_subs s) \<subseteq> set_option (ms_sub s) \<and> length (ms_inviteAnswerCache s) \<le> 5
     \<and> (case ms_playbackCtl s of None \<Rightarrow> True | Some q \<Rightarrow> length q \<le> 4)"

lemma waiting_simps [simp]:
  "waiting [] = {}" "waiting (t # ts) = set_option (task_socket t) \<union> waiting ts"
  by (auto simp: waiting_def)

lemma waiting_remove1: "waiting ts \<subseteq> set_option (task_socket t) \<union> waiting (remove1 t ts)"
  by (induction ts) auto

lemma set_drop_opt [simp]: "set (drop_opt i xs) = set xs - set_option i"
  by (auto simp: drop_opt_def split: option.splits)

text \<open>After a teardown only waiting goroutines hold sockets.\<close>

definition ms_empty :: "media_server \<Rightarrow> bool" where
  "ms_empty s \<longleftrightarrow> set (ms_open s) \<subseteq> waiting (ms_tasks s) \<and> ms_ctxs s = [] \<and> ms_subs s = [] \<and> slot_sockets s = {} \<and> ms_mediaCancel s = None \<and> ms_sub s = None
     \<and> ms_playbackCtl s = None \<and> length (ms_inviteAnswerCache s) \<le> 5"

lemma teardown_empty: "ms_inv s \<Longrightarrow> ms_empty (teardownMediaLocked s)"
  unfolding ms_empty_def teardownMediaLocked_def ms_inv_def slot_sockets_def
  by (auto simp flip: set_empty simp del: set_empty)

lemma empty_inv: "ms_empty s \<Longrightarrow> ms_inv s"
  by (auto simp: ms_empty_def ms_inv_def)

lemma send_frame [simp]:
  "ms_open (sendSIP e s m p) = ms_open s" "ms_ctxs (sendSIP e s m p) = ms_ctxs s" "ms_subs (sendSIP e s m p) = ms_subs s"
  "ms_tasks (sendSIP e s m p) = ms_tasks s" "ms_mediaConn (sendSIP e s m p) = ms_mediaConn s" "ms_mediaTCPConn (sendSIP e s m p) = ms_mediaTCPConn s"
  "ms_mediaTCPListener (sendSIP e s m p) = ms_mediaTCPListener s" "ms_mediaCancel (sendSIP e s m p) = ms_mediaCancel s"
  "ms_sub (sendSIP e s m p) = ms_sub s" "ms_playbackCtl (sendSIP e s m p) = ms_playbackCtl s"
  "ms_inviteAnswerCache (sendSIP e s m p) = ms_inviteAnswerCache s" "ms_fresh (sendSIP e s m p) = ms_fresh s"
  by (simp_all add: sendSIP_def)

lemma send_inv [simp]: "ms_inv (sendSIP e s m p) = ms_inv s" "ms_empty (sendSIP e s m p) = ms_empty s"
  by (simp_all add: ms_inv_def ms_empty_def slot_sockets_def)

lemma alist_update_length: "length (AList.update k v xs) \<le> Suc (length xs)"
  by (induction xs) auto

lemma cache_bound: "length (ms_inviteAnswerCache (cacheInviteAnswer s msg a)) \<le> 5"
  using alist_update_length [of "inviteCacheKey msg" a "if length (ms_inviteAnswerCache s) > 4 then [] else ms_inviteAnswerCache s"]
  by (simp add: cacheInviteAnswer_def split: if_splits)

lemma cache_inv: "ms_inv s \<Longrightarrow> ms_inv (cacheInviteAnswer s msg a)"
  using cache_bound [of s msg a] by (simp add: ms_inv_def cacheInviteAnswer_def slot_sockets_def)

lemmas media_defs = open_socket_def with_cancel_def hub_subscribe_def start_task_def end_task_def close_socket_def cancel_ctx_def slot_sockets_def

lemma talk_session_inv: "ms_empty s \<Longrightarrow> ms_inv (talk_session e s msg offer codec p)"
  by (auto simp: talk_session_def media_defs ms_inv_def ms_empty_def Let_def split: option.splits)

lemma talkback_inv:
  assumes "ms_inv s"
  shows "ms_inv (handleTalkbackInvite e s msg offer p)"
proof -
  have "ms_empty ((teardownMediaLocked s)\<lparr>ms_talkCryptor := c\<rparr>)" for c
    using teardown_empty [OF assms] by (simp add: ms_empty_def slot_sockets_def)
  then show ?thesis using assms
    by (auto simp: handleTalkbackInvite_def rejectInvite488_def intro: talk_session_inv split: option.splits)
qed

lemma start_media_inv:
  assumes "ms_inv s" "ms_ctxs s = []"
  shows "ms_inv (start_media s listener dest st)"
  using assms by (auto simp: start_media_def media_defs ms_inv_def Let_def split: option.splits)

text \<open>What holds between the bound sockets and the goroutine of an INVITE.\<close>

lemma dial_inv:
  assumes "ms_inv s" "ms_ctxs s = []" "ms_mediaTCPConn s = None" "dial_media e s mt = r"
  shows "case r of Inl s' \<Rightarrow> ms_inv s' | Inr s' \<Rightarrow> ms_inv s' \<and> ms_ctxs s' = []"
  using assms by (auto simp: dial_media_def media_defs ms_inv_def split: if_splits)

lemma subscribe_live_inv: "ms_inv s \<Longrightarrow> ms_inv (subscribe_live s dest)"
  by (auto simp: subscribe_live_def media_defs ms_inv_def Let_def)

lemma subscribe_live_frame [simp]: "ms_ctxs (subscribe_live s dest) = ms_ctxs s" "ms_mediaTCPConn (subscribe_live s dest) = ms_mediaTCPConn s"
  by (simp_all add: subscribe_live_def media_defs Let_def)

lemma cache_frame [simp]: "ms_ctxs (cacheInviteAnswer s msg a) = ms_ctxs s" "ms_mediaTCPConn (cacheInviteAnswer s msg a) = ms_mediaTCPConn s"
  by (simp_all add: cacheInviteAnswer_def)

lemma answer_invite_inv:
  assumes "ms_inv s" "ms_ctxs s = []" "ms_mediaTCPConn s = None"
  shows "ms_inv (answer_invite e s msg p listener sdp dest st mt)"
proof -
  define s1 where "s1 = (if st = ''Play'' then subscribe_live s dest else s)"
  define m where "m = Build200OK (ms_UserAgent s1) (ms_dialogTag s1) msg ''application/sdp'' sdp"
  define s2 where "s2 = sendSIP e (cacheInviteAnswer s1 msg (Serialize m)) m p"
  have "ms_inv s2" "ms_ctxs s2 = []" "ms_mediaTCPConn s2 = None"
    using assms subscribe_live_inv by (simp_all add: s2_def s1_def cache_inv)
  note s2 = this dial_inv [OF this refl, of e mt]
  have "answer_invite e s msg p listener sdp dest st mt =
      (if \<not> os_sends e then s2 else case dial_media e s2 mt of Inl s \<Rightarrow> s | Inr s \<Rightarrow> start_media s listener dest st)"
    by (simp add: answer_invite_def Let_def s2_def s1_def m_def)
  then show ?thesis using s2 start_media_inv by (auto split: sum.splits)
qed

lemma invite_media_inv:
  assumes "ms_empty s"
  shows "ms_inv (invite_media e s msg p dest ssrc st mt)"
proof (cases "bind_listener e s mt")
  case None
  then show ?thesis using empty_inv [OF assms] by (simp add: invite_media_def)
next
  case (Some q)
  obtain s1 listener where q: "q = (s1, listener)" by (cases q)
  have s1: "ms_inv s1" "ms_ctxs s1 = []" "ms_mediaTCPConn s1 = None" "ms_mediaConn s1 = None"
    using Some q assms by (auto simp: bind_listener_def media_defs ms_inv_def ms_empty_def split: if_splits option.splits)
  define s2 where "s2 = (fst (open_socket s1))\<lparr>ms_mediaConn := Some (snd (open_socket s1))\<rparr>"
  have s2: "ms_inv s2" "ms_ctxs s2 = []" "ms_mediaTCPConn s2 = None"
    using s1 by (auto simp: s2_def media_defs ms_inv_def)
  have "ms_inv (answer_invite e s2 msg p listener sdp dest st mt)" for sdp using s2 by (rule answer_invite_inv)
  then show ?thesis using s1 s2 Some q
    by (auto simp: invite_media_def rejectInvite_def s2_def Let_def split: option.splits prod.splits)
qed

lemma handleInvite_inv: "ms_inv s \<Longrightarrow> ms_inv (handleInvite e s msg p)"
  using teardown_empty
  by (auto simp: handleInvite_def rejectInvite_def split: option.splits sum.splits intro: talkback_inv invite_media_inv)

lemma sent_inv [simp]: "ms_inv (s\<lparr>ms_sent := x\<rparr>) = ms_inv s"
  by (simp add: ms_inv_def slot_sockets_def)

lemma recv_invite_inv: "ms_inv s \<Longrightarrow> ms_inv (recv_invite e s msg p)"
  by (cases "map_of (ms_inviteAnswerCache s) (inviteCacheKey msg)") (simp_all add: recv_invite_def replayInviteAnswer_def handleInvite_inv)

lemma bye_empty: "ms_inv s \<Longrightarrow> ms_empty (device_handleBye e s msg p)"
  using teardown_empty [of s] by (simp add: device_handleBye_def Let_def) (simp add: ms_empty_def slot_sockets_def)

lemma info_inv: "ms_inv s \<Longrightarrow> ms_inv (device_handleInfo e s msg ctl p)"
  by (auto simp: device_handleInfo_def Let_def ms_inv_def slot_sockets_def split: option.splits)

lemma broadcast_start_inv: "ms_inv s \<Longrightarrow> ms_inv (broadcast_start e s mk p)"
  using teardown_empty [of s]
  by (auto simp: broadcast_start_def media_defs ms_inv_def ms_empty_def Let_def split: option.splits)

lemma end_task_inv:
  assumes "ms_inv s"
  shows "task_socket t = None \<Longrightarrow> ms_inv (end_task s t)" "task_socket t = Some c \<Longrightarrow> ms_inv (close_socket (end_task s t) c)"
  using assms waiting_remove1 [of "ms_tasks s" t] by (auto simp: media_defs ms_inv_def)

lemma close_inv: "ms_inv s \<Longrightarrow> ms_inv (close_socket s c)" and start_task_inv: "ms_inv s \<Longrightarrow> ms_inv (start_task s t)"
  by (auto simp: media_defs ms_inv_def)

lemma open_security_cong: "ms_receiver s' = ms_receiver s \<Longrightarrow> open_security s' body = open_security s body"
  unfolding open_security_def by (simp only:)

lemma cancel_inv: "ms_inv s \<Longrightarrow> ms_inv (cancel_ctx s ctx)"
  by (auto simp: media_defs ms_inv_def)

lemma broadcast_answered_inv:
  assumes "ms_inv s" "orderly s (OpBroadcastAnswer e c m r b p)"
  shows "ms_inv (broadcast_answered e s c m r b p)"
proof -
  have o: "open_security (sendSIP e (end_task s t) n p) body = open_security s body" for t n body
    by (rule open_security_cong) (simp add: sendSIP_def end_task_def)
  have c: "close_socket (sendSIP e s' n p) c = sendSIP e (close_socket s' c) n p" for s' n by (simp add: close_socket_def sendSIP_def)
  have f: "ms_inv (close_socket (end_task s (BroadcastWait c m)) c)" by (rule end_task_inv(2) [OF assms(1)]) simp
  show ?thesis
  proof (cases "\<exists>a. r = Some a \<and> sip_StatusCode a = 200 \<and> open_security s (sip_Body a) \<noteq> None")
    case True
    then obtain a x where a: "r = Some a" "sip_StatusCode a = 200" "open_security s (sip_Body a) = Some x" by blast
    define s1 where "s1 = sendSIP e (end_task s (BroadcastWait c m)) (broadcastAck (end_task s (BroadcastWait c m)) m a b) p"
    have "open_security s1 (sip_Body a) = Some x" using a o by (simp add: s1_def)
    then have eq: "broadcast_answered e s c m r b p = start_task ((fst (with_cancel s1))\<lparr>ms_mediaConn := Some c,
        ms_mediaCancel := Some (snd (with_cancel s1)), ms_talkCryptor := x\<rparr>) (TalkReceive (snd (with_cancel s1)) c)"
      using a by (simp add: broadcast_answered_def Let_def s1_def case_prod_unfold)
    have "ms_mediaConn s1 = None" "ms_mediaCancel s1 = None" "ms_inv (close_socket s1 c)" using a assms(2) f by (simp_all add: s1_def end_task_def c)
    then show ?thesis unfolding eq by (auto simp: media_defs ms_inv_def)
  next
    case False
    then show ?thesis using f by (auto simp: broadcast_answered_def Let_def o c split: option.splits)
  qed
qed

lemma accept_inv:
  assumes "ms_inv s"
  shows "ms_inv (accept_arrives s ctx l live)" "ms_mediaTCPConn s = None \<Longrightarrow> ms_inv (accept_taken s ctx l c live)"
    "ms_inv (accept_done s ctx l None live)"
proof -
  have i: "ms_inv (end_task s (AwaitAccept ctx l None live))" by (rule end_task_inv(1) [OF assms]) simp
  then show "ms_inv (accept_done s ctx l None live)" by (simp add: accept_done_def close_inv)
  from i show "ms_inv (accept_arrives s ctx l live)" by (auto simp: accept_arrives_def open_socket_def start_task_def slot_sockets_def ms_inv_def)
  show "ms_mediaTCPConn s = None \<Longrightarrow> ms_inv (accept_taken s ctx l c live)"
    using end_task_inv(2) [OF assms, of "AwaitAccept ctx l (Some c) live" c] by (auto simp: accept_taken_def media_defs ms_inv_def)
qed

lemma live_start_inv:
  assumes "ms_inv s" "live_start s ctx = Some s'"
  shows "ms_inv s'"
  using assms end_task_inv(1) [OF assms(1), of "LiveStart ctx"] by (auto simp: live_start_def start_task_inv split: option.splits)

lemma task_ends_inv: "ms_inv s \<Longrightarrow> ms_inv (task_ends s t)"
  by (cases t) (simp_all add: cancel_inv end_task_inv(1))

lemma ms_exec_inv:
  assumes "ms_inv s" "orderly s op" "ms_exec s op = Some s'"
  shows "ms_inv s'"
proof -
  have f: "ms_inv (end_task s (AwaitAccept ctx l None live))" for ctx l live by (rule end_task_inv(1) [OF assms(1)]) simp
  show ?thesis using assms f
    by (cases op) (auto intro: recv_invite_inv empty_inv bye_empty info_inv broadcast_start_inv broadcast_answered_inv accept_inv
        cancel_inv live_start_inv task_ends_inv)
qed

lemma ms_reach_inv: "ms_reach s \<Longrightarrow> ms_inv s"
proof (induction rule: ms_reach.induct)
  case (init s)
  then show ?case by (simp add: idle_server_def ms_inv_def)
next
  case (step s op s')
  then show ?case by (blast intro: ms_exec_inv)
qed

subsection \<open>The offers of the platform\<close>

lemma talk_line_video: "ta_hasVideo a \<Longrightarrow> ta_hasVideo (talk_line a l)"
  by (auto simp: talk_line_def Let_def split: option.split)

lemma talk_lines_video: "ta_hasVideo a \<Longrightarrow> ta_hasVideo (foldl talk_line a ls)"
  by (induction ls arbitrary: a) (simp_all add: talk_line_video)

text \<open>An offer with a video line is never taken for an audio offer.\<close>

lemma video_not_talkback:
  assumes "\<forall>l \<in> set ls. line_text l" "l \<in> set ls" "HasPrefix l ''m=video ''"
  shows "parseTalkbackOffer (crlf_lines ls) = None"
proof -
  obtain a b where ls: "ls = a @ l # b" using assms(2) by (auto dest: split_list)
  have l: "line_text l" "l \<noteq> []" using assms by (auto simp: HasPrefix_def)
  then have "TrimSpace (l @ [CHR 0x0D]) = l" by (simp add: TrimSpace_cr TrimSpace_stable line_text_def)
  then have "ta_hasVideo (talk_line x (l @ [CHR 0x0D]))" for x using assms(3) by (simp add: talk_line_def Let_def)
  then have "ta_hasVideo (foldl talk_line talk_start (map (\<lambda>l. l @ [CHR 0x0D]) ls @ [[]]))"
    unfolding ls by (simp add: talk_lines_video talk_line_video)
  then show ?thesis using assms(1) by (simp add: parseTalkbackOffer_def Let_def Split_crlf_lf)
qed

lemma live_offer_read:
  assumes "token ip" "0 < port" "ParseUint32 ssrc = Some v"
  shows "parseSDP (buildLiveSDP ip port transport ssrc False []) = Inr (JoinHostPort ip (nat_text (offer_port transport port)), v, ''Play'',
      if transport = MediaTCPActive then mediaTCPListen else if transport = MediaTCPPassive then mediaTCPConnect else mediaUDP)"
    "SDPSecurityAttributeValue (buildLiveSDP ip port transport ssrc False []) = []"
    "parseTalkbackOffer (buildLiveSDP ip port transport ssrc False []) = None"
proof -
  have tz: "line_text ''0 0''" by (rule line_text_literal) (simp_all add: plain_char_def)
  have rm: "line_text ''96 PS/90000''" by (rule line_text_literal) (simp_all add: plain_char_def)
  have n: "line_text []" by (simp add: line_text_def trim_stable_def)
  have po: "0 < offer_port transport port" using assms(2) by (simp add: offer_port_def unat_gt_0 word_neq_0_conv)
  note p = parse_offer [OF assms(1) proto_tokens(6) tz list.distinct(2) offer_facts(1) po offer_facts(3,2) assms(3) n]
    and sec = security_offer [OF assms(1) proto_tokens(6) tz list.distinct(2) offer_facts(1,3,2) assms(3) n]
    and ls = sdp_head_text [OF assms(1) proto_tokens(6) tz list.distinct(2)] video_line_facts(1) [OF offer_facts(1,3)] sdp_tail_facts(1) [OF offer_facts(2) assms(3) n rm]
  show "parseSDP (buildLiveSDP ip port transport ssrc False []) = Inr (JoinHostPort ip (nat_text (offer_port transport port)), v, ''Play'',
      if transport = MediaTCPActive then mediaTCPListen else if transport = MediaTCPPassive then mediaTCPConnect else mediaUDP)"
    unfolding buildLiveSDP_lines p session_names(1) offer_facts(4) ..
  show "SDPSecurityAttributeValue (buildLiveSDP ip port transport ssrc False []) = []" unfolding buildLiveSDP_lines by (rule sec)
  show "parseTalkbackOffer (buildLiveSDP ip port transport ssrc False []) = None" unfolding buildLiveSDP_lines
    by (rule video_not_talkback [where l = "video_line (offer_port transport port) (offer_proto transport)"])
       (use ls in \<open>auto simp: video_line_def HasPrefix_def\<close>)
qed

subsection \<open>Properties\<close>

text \<open>C30: the device never loses track of what it opened. In every state its requests and goroutines lead to, unless an accepted
  connection or an answered broadcast meets a slot that was taken in between, every open media socket is in the slot of the
  server or held by a goroutine that still waits, the only context that is not cancelled and the only hub subscription are
  those of the slot, and at most five answers and four controls are kept. A BYE then leaves no context, no
  subscription and no socket but those of waiting goroutines.\<close>

theorem device_media_owned:
  assumes "ms_reach s"
  shows "set (ms_open s) \<subseteq> slot_sockets s \<union> waiting (ms_tasks s) \<and> set (ms_ctxs s) \<subseteq> set_option (ms_mediaCancel s)
    \<and> set (ms_subs s) \<subseteq> set_option (ms_sub s) \<and> length (ms_inviteAnswerCache s) \<le> 5
    \<and> (\<forall>q. ms_playbackCtl s = Some q \<longrightarrow> length q \<le> 4)
    \<and> set (ms_open (device_handleBye e s bye p)) \<subseteq> waiting (ms_tasks s) \<and> ms_ctxs (device_handleBye e s bye p) = [] \<and> ms_subs (device_handleBye e s bye p) = []"
proof -
  have i: "ms_inv s" by (rule ms_reach_inv [OF assms])
  have "ms_tasks (device_handleBye e s bye p) = ms_tasks s" by (simp add: device_handleBye_def teardownMediaLocked_def Let_def)
  then show ?thesis using i bye_empty [OF i, of e bye p] by (simp add: ms_inv_def ms_empty_def split: option.splits)
qed

text \<open>A device that opened a broadcast session.\<close>

definition sample_media :: media_server where
  "sample_media = \<lparr>ms_DeviceID = ''34020000001320000001'', ms_Transport = ''udp'', ms_LocalSIPPort = 5060, ms_UserAgent = ''GB28181-Go/1.0'',
     ms_dialogTag = ''t'', ms_responder = None, ms_receiver = None, ms_index = None, ms_audioSink = True, ms_audioSource = False,
     ms_mediaConn = None, ms_mediaTCPConn = None, ms_mediaTCPListener = None, ms_mediaCancel = None, ms_sub = None, ms_talkCryptor = False,
     ms_remoteRTPAddr = None, ms_playbackCtl = None, ms_inviteAnswerCache = [], ms_upstreamLaw = AudioPCMA, ms_fresh = 0, ms_open = [],
     ms_ctxs = [], ms_subs = [], ms_tasks = [], ms_sent = []\<rparr>"

definition sample_os :: device_os where
  "sample_os = \<lparr>os_resolve = (\<lambda>a. Some a), os_listenTCP = Some 40001, os_listenUDP = Some 40000, os_localIP = ''10.0.0.9'', os_sends = True,
     os_dials = True, os_parseIP = (\<lambda>_. True)\<rparr>"

definition ok_answer :: sip_message where
  "ok_answer = empty_sip\<lparr>sip_StatusCode := 200\<rparr>"

definition two_broadcasts :: media_server where
  "two_broadcasts = broadcast_start sample_os (broadcast_start sample_os sample_media (\<lambda>_. empty_sip) (UdpPeer ''p'')) (\<lambda>_. empty_sip) (UdpPeer ''p'')"

definition broadcast_session :: media_server where
  "broadcast_session = broadcast_answered sample_os two_broadcasts 1 empty_sip (Some ok_answer) ''b'' (UdpPeer ''p'')"

lemma plain_security: "open_security s [] = Some False"
proof -
  have "Split [] lf = [[]]" by (rule Split_none) (simp_all add: lf_def)
  then show ?thesis by (simp add: open_security_def SDPSecurityAttributeValue_def List.map_filter_simps security_line_def CutPrefix_def HasPrefix_def TrimRight_def TrimLeft_def)
qed

lemma ok_answer_facts: "sip_Body ok_answer = []" "sip_StatusCode ok_answer = 200"
  by (simp_all add: ok_answer_def empty_sip_def)

lemma two_broadcasts_facts:
  "ms_reach two_broadcasts" "ms_tasks two_broadcasts = [BroadcastWait 1 empty_sip, BroadcastWait 0 empty_sip]" "ms_open two_broadcasts = [1, 0]"
  "ms_mediaConn two_broadcasts = None" "ms_mediaCancel two_broadcasts = None" "ms_fresh two_broadcasts = 2" "ms_ctxs two_broadcasts = []"
  "ms_mediaTCPConn two_broadcasts = None" "ms_mediaTCPListener two_broadcasts = None"
proof -
  have 0: "ms_reach sample_media" by (rule ms_reach.init) (simp add: idle_server_def sample_media_def)
  have 1: "ms_reach (broadcast_start sample_os sample_media (\<lambda>_. empty_sip) (UdpPeer ''p''))"
    by (rule ms_reach.step [OF 0, of "OpBroadcast sample_os (\<lambda>_. empty_sip) (UdpPeer ''p'')"]) simp_all
  show "ms_reach two_broadcasts" unfolding two_broadcasts_def by (rule ms_reach.step [OF 1, of "OpBroadcast sample_os (\<lambda>_. empty_sip) (UdpPeer ''p'')"]) simp_all
qed (simp_all add: two_broadcasts_def broadcast_start_def teardownMediaLocked_def media_defs sample_media_def sample_os_def sendSIP_def drop_opt_def Let_def)

lemma broadcast_session_facts:
  "ms_reach broadcast_session" "ms_tasks broadcast_session = [TalkReceive 2 1, BroadcastWait 0 empty_sip]" "ms_open broadcast_session = [1, 0]"
  "ms_mediaConn broadcast_session = Some 1" "ms_mediaCancel broadcast_session = Some 2" "ms_ctxs broadcast_session = [2]"
  "ms_mediaTCPConn broadcast_session = None" "ms_mediaTCPListener broadcast_session = None"
proof -
  show "ms_reach broadcast_session" unfolding broadcast_session_def
    by (rule ms_reach.step [OF two_broadcasts_facts(1), of "OpBroadcastAnswer sample_os 1 empty_sip (Some ok_answer) ''b'' (UdpPeer ''p'')"])
       (simp_all add: two_broadcasts_facts)
qed (simp_all add: broadcast_session_def broadcast_answered_def ok_answer_facts plain_security media_defs two_broadcasts_facts Let_def)

theorem device_media_owned_witness:
  "1 \<in> set (ms_open broadcast_session) \<and> set (ms_open (device_handleBye sample_os broadcast_session empty_sip (UdpPeer ''p''))) \<subseteq> {0}"
  using device_media_owned [OF broadcast_session_facts(1), of sample_os empty_sip "UdpPeer ''p''"]
  by (simp add: broadcast_session_facts)

text \<open>C32: a broadcast of the platform that is answered while another session runs takes the slot without ending that session: its
  socket stays open and nothing holds it any more, neither after the answer nor after a later BYE.\<close>

theorem broadcast_answer_leaks:
  assumes "ms_mediaConn s = Some c" "c \<in> set (ms_open s)" "c \<noteq> d" "ms_mediaTCPConn s \<noteq> Some c" "ms_mediaTCPListener s \<noteq> Some c"
    "c \<notin> waiting (ms_tasks s)" "sip_StatusCode r = 200" "open_security s (sip_Body r) \<noteq> None"
    "s' = broadcast_answered e s d m (Some r) b p"
  shows "c \<in> set (ms_open s') \<and> c \<notin> slot_sockets s' \<union> waiting (ms_tasks s') \<and> c \<in> set (ms_open (device_handleBye e' s' bye p'))"
proof -
  obtain x where x: "open_security s (sip_Body r) = Some x" using assms(8) by blast
  have o: "open_security (sendSIP e (end_task s t) n p) body = open_security s body" for t n body
    by (rule open_security_cong) (simp add: sendSIP_def end_task_def)
  have "waiting (remove1 t ts) \<subseteq> waiting ts" for t ts using set_remove1_subset [of t ts] by (auto simp: waiting_def)
  then have w: "c \<notin> waiting (remove1 t (ms_tasks s))" for t using assms(6) by blast
  have "ms_open s' = ms_open s" "ms_mediaConn s' = Some d" "ms_mediaTCPConn s' = ms_mediaTCPConn s" "ms_mediaTCPListener s' = ms_mediaTCPListener s"
    "waiting (ms_tasks s') = waiting (remove1 (BroadcastWait d m) (ms_tasks s))"
    using assms(7) x by (simp_all add: assms(9) broadcast_answered_def o with_cancel_def start_task_def Let_def) (simp_all add: end_task_def)
  then show ?thesis using assms w by (auto simp: slot_sockets_def device_handleBye_def teardownMediaLocked_def Let_def)
qed

theorem broadcast_answer_leaks_witness:
  "let s' = broadcast_answered sample_os broadcast_session 0 empty_sip (Some ok_answer) ''b'' (UdpPeer ''p'') in
   1 \<in> set (ms_open s') \<and> 1 \<notin> slot_sockets s' \<union> waiting (ms_tasks s')"
  using broadcast_answer_leaks [of broadcast_session 1 0 ok_answer _ sample_os empty_sip "''b''" "UdpPeer ''p''" sample_os empty_sip "UdpPeer ''p''", OF _ _ _ _ _ _ _ _ refl]
  by (simp add: broadcast_session_facts ok_answer_facts plain_security)

lemma dial_keeps: "dial_media e s mt = Inl s' \<Longrightarrow> ms_inviteAnswerCache s' = ms_inviteAnswerCache s \<and> ms_sent s' = ms_sent s"
  "dial_media e s mt = Inr s' \<Longrightarrow> ms_inviteAnswerCache s' = ms_inviteAnswerCache s \<and> ms_sent s' = ms_sent s"
  by (auto simp: dial_media_def open_socket_def split: if_splits)

lemma start_media_keeps [simp]: "ms_inviteAnswerCache (start_media s l d st) = ms_inviteAnswerCache s" "ms_sent (start_media s l d st) = ms_sent s"
  by (simp_all add: start_media_def with_cancel_def start_task_def Let_def)

lemma answer_invite_cached:
  "\<exists>a. map_of (ms_inviteAnswerCache (answer_invite e s msg p l sdp d st mt)) (inviteCacheKey msg) = Some a
    \<and> (os_sends e \<longrightarrow> ms_sent (answer_invite e s msg p l sdp d st mt) = ms_sent s @ [(a, p)])"
proof -
  define s1 where "s1 = (if st = ''Play'' then subscribe_live s d else s)"
  define m where "m = Build200OK (ms_UserAgent s1) (ms_dialogTag s1) msg ''application/sdp'' sdp"
  define s2 where "s2 = sendSIP e (cacheInviteAnswer s1 msg (Serialize m)) m p"
  have "ms_sent s1 = ms_sent s" by (simp add: s1_def subscribe_live_def hub_subscribe_def Let_def)
  then have "map_of (ms_inviteAnswerCache s2) (inviteCacheKey msg) = Some (Serialize m)" "os_sends e \<longrightarrow> ms_sent s2 = ms_sent s @ [(Serialize m, p)]"
    by (simp_all add: s2_def cacheInviteAnswer_def update_conv sendSIP_def)
  moreover have "answer_invite e s msg p l sdp d st mt =
      (if \<not> os_sends e then s2 else case dial_media e s2 mt of Inl s \<Rightarrow> s | Inr s \<Rightarrow> start_media s l d st)"
    by (simp add: answer_invite_def Let_def s2_def s1_def m_def)
  ultimately show ?thesis using dial_keeps [of e s2 mt] by (auto split: sum.splits)
qed

lemma teardown_keeps [simp]: "ms_inviteAnswerCache (teardownMediaLocked s) = ms_inviteAnswerCache s" "ms_sent (teardownMediaLocked s) = ms_sent s"
  by (simp_all add: teardownMediaLocked_def)

lemma talkback_keeps: "ms_inviteAnswerCache (handleTalkbackInvite e s msg offer p) = ms_inviteAnswerCache s"
  by (auto simp: handleTalkbackInvite_def rejectInvite488_def talk_session_def media_defs Let_def split: option.splits)

lemma invite_media_cached:
  assumes "map_of (ms_inviteAnswerCache s) (inviteCacheKey msg) = None" "os_sends e"
    "map_of (ms_inviteAnswerCache (invite_media e s msg p d ssrc st mt)) (inviteCacheKey msg) = Some a"
  shows "ms_sent (invite_media e s msg p d ssrc st mt) = ms_sent s @ [(a, p)]"
proof (cases "bind_listener e s mt")
  case None
  then show ?thesis using assms by (simp add: invite_media_def)
next
  case (Some q)
  obtain s1 l where q: "q = (s1, l)" by (cases q)
  define s2 where "s2 = (fst (open_socket s1))\<lparr>ms_mediaConn := Some (snd (open_socket s1))\<rparr>"
  define sdp where "sdp port = device_answer e s2 port l ssrc mt st" for port
  have s2: "ms_inviteAnswerCache s2 = ms_inviteAnswerCache s" "ms_sent s2 = ms_sent s"
    using Some q by (auto simp: s2_def bind_listener_def open_socket_def split: if_splits option.splits)
  have "invite_media e s msg p d ssrc st mt = (case os_listenUDP e of None \<Rightarrow> s1 | Some port \<Rightarrow>
      case answer_security s2 (sip_Body msg) of None \<Rightarrow> rejectInvite e s2 msg p | Some sec \<Rightarrow> answer_invite e s2 msg p l (sdp port @ sec) d st mt)"
    using Some q by (simp add: invite_media_def s2_def sdp_def Let_def split: option.split prod.split)
  moreover have "ms_inviteAnswerCache s1 = ms_inviteAnswerCache s" using s2(1) by (simp add: s2_def open_socket_def)
  ultimately obtain port sec where "invite_media e s msg p d ssrc st mt = answer_invite e s2 msg p l (sdp port @ sec) d st mt"
    using assms(1,3) s2 by (auto simp: rejectInvite_def split: option.splits)
  then show ?thesis using answer_invite_cached [of e s2 msg p l "sdp port @ sec" d st mt] assms(2,3) s2(2) by auto
qed

text \<open>An INVITE that adds to the kept answers has sent that answer.\<close>

lemma invite_answered:
  assumes "map_of (ms_inviteAnswerCache s) (inviteCacheKey msg) = None" "map_of (ms_inviteAnswerCache (handleInvite e s msg p)) (inviteCacheKey msg) = Some a"
    "os_sends e"
  shows "ms_sent (handleInvite e s msg p) = ms_sent s @ [(a, p)]"
proof -
  have "ms_sent (invite_media e (teardownMediaLocked s) msg p d ssrc st mt) = ms_sent s @ [(a, p)]"
    if "map_of (ms_inviteAnswerCache (invite_media e (teardownMediaLocked s) msg p d ssrc st mt)) (inviteCacheKey msg) = Some a" for d ssrc st mt
    using invite_media_cached [of "teardownMediaLocked s" msg e] that assms(1,3) by simp
  then show ?thesis using assms(1,2)
    by (auto simp: handleInvite_def rejectInvite_def talkback_keeps split: option.splits sum.splits if_splits)
qed

text \<open>The slot after an INVITE with a live offer of the platform that the device can serve.\<close>

definition serves_live :: "device_os \<Rightarrow> media_server \<Rightarrow> media_server \<Rightarrow> string \<Rightarrow> string \<Rightarrow> bool" where
  "serves_live e s s' transport dest \<longleftrightarrow> (\<exists>c ctx i. ms_mediaConn s' = Some c \<and> c \<in> set (ms_open s') \<and> ms_mediaCancel s' = Some ctx \<and> ms_ctxs s' = [ctx]
     \<and> ms_sub s' = Some i \<and> ms_subs s' = [i] \<and> ms_remoteRTPAddr s' = Some dest
     \<and> (if transport = MediaTCPActive then \<exists>l. ms_mediaTCPListener s' = Some l \<and> l \<in> set (ms_open s') \<and> ms_tasks s' = AwaitAccept ctx l None True # ms_tasks s
        else ms_mediaTCPListener s' = None \<and> ms_tasks s' = LiveStart ctx # ms_tasks s \<and> (ms_mediaTCPConn s' \<noteq> None \<longleftrightarrow> transport = MediaTCPPassive)))"

text \<open>The answer to it.\<close>

definition live_answer :: "device_os \<Rightarrow> media_server \<Rightarrow> sip_message \<Rightarrow> int \<Rightarrow> int \<Rightarrow> u32 \<Rightarrow> string \<Rightarrow> string" where
  "live_answer e s msg udp tcp ssrc transport = Serialize (Build200OK (ms_UserAgent s) (ms_dialogTag s) msg ''application/sdp''
     (buildDeviceSDP (ms_DeviceID s) (os_localIP e) (if transport = MediaTCPActive then tcp else udp) ssrc
        (if transport = MediaTCPActive \<or> transport = MediaTCPPassive then ''tcp'' else ''udp'') ''Play''
        (if transport = MediaTCPActive then ''passive'' else ''active'')))"

lemma live_offer_served:
  assumes "ms_reach s" "map_of (ms_inviteAnswerCache s) (inviteCacheKey msg) = None"
    "sip_Body msg = buildLiveSDP ip port transport ssrc False []" "token ip" "0 < port" "ParseUint32 ssrc = Some v"
    "os_resolve e (JoinHostPort ip (nat_text (offer_port transport port))) = Some dest" "os_listenUDP e = Some udp" "os_listenTCP e = Some tcp" "os_sends e" "os_dials e"
    "s' = recv_invite e s msg p"
  shows "serves_live e s s' transport dest \<and> ms_sent s' = ms_sent s @ [(live_answer e s msg udp tcp v transport, p)]
    \<and> map_of (ms_inviteAnswerCache s') (inviteCacheKey msg) = Some (live_answer e s msg udp tcp v transport)"
proof -
  define mt where "mt = (if transport = MediaTCPActive then mediaTCPListen else if transport = MediaTCPPassive then mediaTCPConnect else mediaUDP)"
  define t where "t = teardownMediaLocked s"
  note parse = live_offer_read [OF assms(4-6), of transport, folded assms(3) mt_def]
  have s': "s' = invite_media e t msg p dest v ''Play'' mt"
    using assms parse by (simp add: recv_invite_def replayInviteAnswer_def handleInvite_def t_def)
  have sec: "answer_security x (sip_Body msg) = Some []" for x by (simp add: answer_security_def parse(2))
  have t: "ms_subs t = []" "ms_sub t = None" "ms_ctxs t = []" "ms_mediaTCPListener t = None" "ms_mediaTCPConn t = None" "ms_tasks t = ms_tasks s"
      "ms_sent t = ms_sent s" "ms_inviteAnswerCache t = ms_inviteAnswerCache s" "ms_DeviceID t = ms_DeviceID s" "ms_UserAgent t = ms_UserAgent s"
      "ms_dialogTag t = ms_dialogTag s"
    using teardown_empty [OF ms_reach_inv [OF assms(1)]] by (simp_all add: t_def ms_empty_def teardownMediaLocked_def)
  note defs = invite_media_def bind_listener_def device_answer_def answer_invite_def subscribe_live_def cacheInviteAnswer_def dial_media_def start_media_def
    open_socket_def with_cancel_def hub_subscribe_def start_task_def sendSIP_def serves_live_def live_answer_def
  consider "transport = MediaTCPActive" | "transport = MediaTCPPassive" "transport \<noteq> MediaTCPActive" | "transport \<noteq> MediaTCPActive" "transport \<noteq> MediaTCPPassive" by blast
  then show ?thesis
    by cases (simp_all add: s' mt_def defs assms(8-11) sec t drop_opt_def update_conv Let_def)
qed


definition live_invite :: sip_message where
  "live_invite = empty_sip\<lparr>sip_Method := ''INVITE'', sip_CallID := ''c'', sip_CSeq := ''1 INVITE'',
     sip_Body := buildLiveSDP ''10.0.0.5'' 9 ''udp'' ''1'' False []\<rparr>"

definition live_media_server :: media_server where
  "live_media_server = recv_invite sample_os sample_media live_invite (UdpPeer ''p'')"

lemma sample_offer:
  "ms_reach sample_media" "map_of (ms_inviteAnswerCache sample_media) (inviteCacheKey live_invite) = None"
  "sip_Body live_invite = buildLiveSDP ''10.0.0.5'' 9 ''udp'' ''1'' False []" "token ''10.0.0.5''" "0 < (9 :: u16)" "ParseUint32 ''1'' = Some 1"
  "os_resolve sample_os a = Some a" "os_listenUDP sample_os = Some 40000" "os_listenTCP sample_os = Some 40001" "os_sends sample_os" "os_dials sample_os"
  "''udp'' \<noteq> MediaTCPActive"
  by (rule ms_reach.init, simp add: idle_server_def sample_media_def)
     (simp_all add: sample_media_def live_invite_def sample_os_def token_def plain_char_def ParseUint32_def is_digit_def digit_val_def MediaTCPActive_def)


lemma bye_keeps [simp]: "ms_inviteAnswerCache (device_handleBye e s bye p) = ms_inviteAnswerCache s"
  by (simp add: device_handleBye_def Let_def)

text \<open>retransmissions are idempotent, and outlive their session. Once an INVITE is answered, the same INVITE gets the very bytes of that answer from any peer and
  changes nothing else: no second negotiation, no second goroutine. But the answer is not forgotten at the BYE: a late
  retransmission is still told that media flows from a socket that is closed.\<close>

theorem invite_retransmission:
  assumes "map_of (ms_inviteAnswerCache s) (inviteCacheKey msg) = None" "os_sends e" "os_sends e'"
    "s' = recv_invite e s msg p" "map_of (ms_inviteAnswerCache s') (inviteCacheKey msg) = Some a" "s'' = device_handleBye e' s' bye q"
  shows "ms_sent s' = ms_sent s @ [(a, p)] \<and> recv_invite e' s' msg p' = s'\<lparr>ms_sent := ms_sent s' @ [(a, p')]\<rparr>
    \<and> recv_invite e' s'' msg p' = s''\<lparr>ms_sent := ms_sent s'' @ [(a, p')]\<rparr> \<and> ms_mediaConn s'' = None \<and> ms_sub s'' = None"
proof -
  have "s' = handleInvite e s msg p" using assms(1,4) by (simp add: recv_invite_def replayInviteAnswer_def)
  then have "ms_sent s' = ms_sent s @ [(a, p)]" using invite_answered [OF assms(1) _ assms(2), of p a] assms(5) by simp
  moreover have "ms_mediaConn s'' = None" "ms_sub s'' = None" by (simp_all add: assms(6) device_handleBye_def teardownMediaLocked_def Let_def)
  ultimately show ?thesis using assms(3,5,6) by (simp add: recv_invite_def replayInviteAnswer_def)
qed

lemma live_media_facts:
  "\<exists>ctx. LiveStart ctx \<in> set (ms_tasks live_media_server)" "ms_sub live_media_server \<noteq> None"
  "\<exists>a. map_of (ms_inviteAnswerCache live_media_server) (inviteCacheKey live_invite) = Some a"
  using live_offer_served [OF sample_offer(1-6) sample_offer(7) sample_offer(8-11) live_media_server_def] sample_offer(12)
  by (auto simp: serves_live_def)

theorem invite_retransmission_witness:
  "\<exists>a. recv_invite sample_os live_media_server live_invite (UdpPeer ''p'') = live_media_server\<lparr>ms_sent := [(a, UdpPeer ''p''), (a, UdpPeer ''p'')]\<rparr>"
proof -
  obtain a where "map_of (ms_inviteAnswerCache live_media_server) (inviteCacheKey live_invite) = Some a" using live_media_facts(3) by blast
  then show ?thesis
    using invite_retransmission [OF sample_offer(2,10,10) live_media_server_def _ refl, where a = a and p' = "UdpPeer ''p''" and bye = empty_sip and q = "UdpPeer ''p''"]
    by (auto simp: sample_media_def)
qed



end
