(* ===== verification/Device_Register.thy ===== *)
theory Device_Register
  imports Sip_Server
begin

text \<open>
  The registration agent of the device: the configuration check (\<open>src/device/validate.go\<close>), REGISTER, de-registration, keepalive
  and the silence detector of \<open>src/device/server.go\<close>, and their composition with the REGISTER handler of the platform.

  The platform is a function \<open>peer\<close> from its state and the message it gets to its new state and the response that arrives in
  time. The two response sources of the code read the socket or the channel that the receive loop fills. Clocks,
  random texts, the local address, the date parser and the success of a send are arguments (\<open>reg_env\<close>).
\<close>

subsection \<open>Configuration\<close>

record agent_config =
  dc_Enabled :: bool
  dc_ProtocolVersion :: string
  dc_PlatformSIPAddress :: string
  dc_PlatformSIPPort :: int
  dc_DeviceID :: string
  dc_ChannelID :: string
  dc_SIPDomain :: string
  dc_Password :: string
  dc_LocalSIPPort :: int
  dc_RegisterIntervalSecs :: int
  dc_HeartbeatIntervalSecs :: int
  dc_HeartbeatTimeoutCount :: int
  dc_Transport :: string
  dc_TLSCAFile :: string
  dc_TLSCertFile :: string
  dc_TLSKeyFile :: string
  dc_TLSInsecureSkipVerify :: bool

datatype dc_error =
    BadTransport | BadLocalPort | TLSFilesNeedTLS | TLSListenNeedsPair | NoPlatformAddress | BadPlatformPort | BadGBID string | NoDomain
  | BadRegisterInterval | BadHeartbeatInterval | BadTimeoutCount | NoCAFile

definition validateGBID :: "string \<Rightarrow> string \<Rightarrow> dc_error option" where
  "validateGBID field i = (if length i = 20 \<and> list_all is_digit i then None else Some (BadGBID field))"

definition check_enabled :: "agent_config \<Rightarrow> string \<Rightarrow> dc_error option" where
  "check_enabled c transport =
     (if dc_PlatformSIPAddress c = [] then Some NoPlatformAddress
      else if dc_PlatformSIPPort c < 1 \<or> dc_PlatformSIPPort c > 65535 then Some BadPlatformPort
      else case validateGBID ''DeviceID'' (dc_DeviceID c) of Some e \<Rightarrow> Some e | None \<Rightarrow>
        (case validateGBID ''ChannelID'' (dc_ChannelID c) of Some e \<Rightarrow> Some e | None \<Rightarrow>
          if dc_SIPDomain c = [] then Some NoDomain
          else if dc_RegisterIntervalSecs c \<le> 0 then Some BadRegisterInterval
          else if dc_HeartbeatIntervalSecs c \<le> 0 then Some BadHeartbeatInterval
          else if dc_HeartbeatTimeoutCount c \<le> 0 then Some BadTimeoutCount
          else if transport = ''tls'' \<and> dc_TLSCAFile c = [] \<and> \<not> dc_TLSInsecureSkipVerify c then Some NoCAFile
          else None))"

definition dc_Validate :: "agent_config \<Rightarrow> dc_error option" where
  "dc_Validate c =
     (let transport = ToLower (dc_Transport c) in
      if transport \<notin> {[], ''udp'', ''tcp'', ''tcp-out'', ''tls'', ''tls-listen''} then Some BadTransport
      else if dc_LocalSIPPort c < 0 \<or> dc_LocalSIPPort c > 65535 then Some BadLocalPort
      else if transport \<noteq> ''tls'' \<and> transport \<noteq> ''tls-listen'' \<and> (dc_TLSCAFile c \<noteq> [] \<or> dc_TLSCertFile c \<noteq> [] \<or> dc_TLSKeyFile c \<noteq> []) then Some TLSFilesNeedTLS
      else if transport = ''tls-listen'' \<and> (dc_TLSCertFile c = [] \<or> dc_TLSKeyFile c = []) then Some TLSListenNeedsPair
      else if \<not> dc_Enabled c then None
      else check_enabled c transport)"

subsection \<open>The agent\<close>

record reg_auth =
  rga_Initial :: string
  rga_Authorize :: "string \<Rightarrow> string option"
  rga_VerifyOK :: "string \<Rightarrow> bool"
  rga_Decorate :: "(string \<Rightarrow> string \<Rightarrow> string \<Rightarrow> string \<Rightarrow> string \<Rightarrow> string \<times> string) option"

record agent =
  ag_cfg :: agent_config
  ag_auth :: "reg_auth option"
  ag_UserAgent :: string
  ag_regRespCh :: "sip_message list"
  ag_inviteRespCh :: "sip_message list"
  ag_reRegister :: bool
  ag_keepaliveFailures :: "32 word"
  ag_lastPlatformContact :: int
  ag_negotiatedExpiresSecs :: int
  ag_platformProtoVer :: string
  ag_platformDate :: int

record reg_env =
  re_localIP :: string
  re_unix :: int
  re_nanos :: int
  re_branch1 :: string
  re_branch2 :: string
  re_cnonce :: string
  re_sends1 :: bool
  re_sends2 :: bool
  re_parseDate :: "string \<Rightarrow> int option"

definition viaTransportLabel :: "agent_config \<Rightarrow> string" where
  "viaTransportLabel c =
     (if dc_Transport c = ''tls'' then ''TLS'' else if dc_Transport c = ''tcp'' \<or> dc_Transport c = ''tcp-out'' then ''TCP'' else ''UDP'')"

text \<open>\<open>sendToPlatform\<close>: what leaves, with the headers of a signing authenticator.\<close>

definition decorated :: "agent \<Rightarrow> sip_message \<Rightarrow> sip_message" where
  "decorated ag m =
     (case ag_auth ag of
        None \<Rightarrow> m
      | Some a \<Rightarrow>
          case rga_Decorate a of
            None \<Rightarrow> m
          | Some f \<Rightarrow>
              (case f (sip_Method m) (sip_From m) (sip_To m) (sip_CallID m) (sip_Body m) of
                 (date, note) \<Rightarrow> if date = [] then m else m\<lparr>sip_Headers := AList.update ''Note'' note (AList.update ''Date'' date (sip_Headers m))\<rparr>))"

definition request_uri :: "agent_config \<Rightarrow> string" where
  "request_uri c = ''sip:'' @ dc_SIPDomain c @ ''@'' @ dc_SIPDomain c"

definition own_address :: "agent_config \<Rightarrow> string" where
  "own_address c = ''<sip:'' @ dc_DeviceID c @ ''@'' @ dc_SIPDomain c @ ''>''"

definition register_message :: "agent \<Rightarrow> reg_env \<Rightarrow> string \<Rightarrow> string \<Rightarrow> string \<Rightarrow> string \<Rightarrow> sip_message" where
  "register_message ag e cseq branch auth expires =
     (let c = ag_cfg ag;
          m = BuildRegister (ag_UserAgent ag) (request_uri c) (own_address c) (own_address c) (go_itoa (re_unix e) @ ''@'' @ re_localIP e) cseq
                (''<sip:'' @ dc_DeviceID c @ ''@'' @ re_localIP e @ '':'' @ go_itoa (dc_LocalSIPPort c) @ ''>'') auth
      in m\<lparr>sip_Expires := expires,
           sip_Via := ''SIP/2.0/'' @ viaTransportLabel c @ '' '' @ re_localIP e @ '':'' @ go_itoa (dc_LocalSIPPort c) @ '';branch=z9hG4bK'' @ branch,
           sip_Headers := (if dc_ProtocolVersion c = [] then [] else [(''X-GB-Ver'', dc_ProtocolVersion c)])\<rparr>)"

subsection \<open>Responses\<close>

definition signalReRegister :: "agent \<Rightarrow> agent" where
  "signalReRegister ag = ag\<lparr>ag_reRegister := True\<rparr>"

definition handleResponse :: "agent \<Rightarrow> int \<Rightarrow> sip_message \<Rightarrow> agent" where
  "handleResponse ag nanos msg =
     (let ag = ag\<lparr>ag_lastPlatformContact := nanos\<rparr> in
      if Contains (sip_CSeq msg) ''REGISTER''
      then (if length (ag_regRespCh ag) < 4 then ag\<lparr>ag_regRespCh := ag_regRespCh ag @ [msg]\<rparr> else ag)
      else if Contains (sip_CSeq msg) ''INVITE''
      then (if length (ag_inviteRespCh ag) < 4 then ag\<lparr>ag_inviteRespCh := ag_inviteRespCh ag @ [msg]\<rparr> else ag)
      else if sip_StatusCode msg = 200 then ag\<lparr>ag_keepaliveFailures := 0\<rparr>
      else if sip_StatusCode msg \<in> {401, 403, 404, 407} then signalReRegister (ag\<lparr>ag_keepaliveFailures := ag_keepaliveFailures ag + 1\<rparr>)
      else ag)"

text \<open>The negotiated expiry: the header, else the parameter of the \<open>Contact\<close>; below a minute it is ignored.\<close>

definition negotiatedExpiresSecs :: "string \<Rightarrow> string \<Rightarrow> int" where
  "negotiatedExpiresSecs expiresHeader contact =
     (case go_atoi (TrimSpace expiresHeader) of
        Some v \<Rightarrow> if v \<ge> 60 then v else 0
      | None \<Rightarrow>
          (case str_index contact ''expires='' of
             None \<Rightarrow> 0
           | Some i \<Rightarrow>
               (case go_atoi (takeWhile is_digit (drop (i + 8) contact)) of None \<Rightarrow> 0 | Some v \<Rightarrow> if v < 60 then 0 else v)))"

definition noteNegotiatedExpires :: "agent \<Rightarrow> int \<Rightarrow> sip_message \<Rightarrow> agent" where
  "noteNegotiatedExpires ag nanos resp =
     ag\<lparr>ag_lastPlatformContact := nanos, ag_negotiatedExpiresSecs := negotiatedExpiresSecs (sip_Expires resp) (sip_Contact resp)\<rparr>"

definition notePlatformProtocolVersion :: "agent \<Rightarrow> sip_message \<Rightarrow> agent" where
  "notePlatformProtocolVersion ag resp =
     (let ver = ExtensionHeader resp ''X-GB-Ver'' in if ver = [] then ag else ag\<lparr>ag_platformProtoVer := ver\<rparr>)"

definition notePlatformDate :: "agent \<Rightarrow> (string \<Rightarrow> int option) \<Rightarrow> sip_message \<Rightarrow> agent" where
  "notePlatformDate ag pd resp =
     (let raw = ExtensionHeader resp ''Date'' in
      if raw = [] then ag else case pd raw of None \<Rightarrow> ag | Some u \<Rightarrow> ag\<lparr>ag_platformDate := u\<rparr>)"

definition note_response :: "agent \<Rightarrow> reg_env \<Rightarrow> sip_message \<Rightarrow> agent" where
  "note_response ag e resp = notePlatformDate (notePlatformProtocolVersion ag resp) (re_parseDate e) resp"

subsection \<open>REGISTER\<close>

datatype reg_error = RegSend | RegNoResponse | RegAuthenticate | RegChallenge digest_error | RegVerify | RegUnexpected int

type_synonym 'p peer_fn = "'p \<Rightarrow> sip_message \<Rightarrow> 'p \<times> sip_message option"
type_synonym 'p response_source = "agent \<Rightarrow> 'p \<Rightarrow> sip_message \<Rightarrow> agent \<times> 'p \<times> sip_message option"

text \<open>Before the receive loop runs the socket is read directly.\<close>

definition socketResponseSource :: "'p peer_fn \<Rightarrow> 'p response_source" where
  "socketResponseSource peer ag p m = (case peer p m of (p, r) \<Rightarrow> (ag, p, r))"

definition arrives :: "agent \<Rightarrow> int \<Rightarrow> sip_message option \<Rightarrow> agent" where
  "arrives ag nanos r = (case r of None \<Rightarrow> ag | Some m \<Rightarrow> handleResponse ag nanos m)"

text \<open>Afterwards the oldest entry of the channel is taken, whatever request it answers; the new response arrives behind it.\<close>

definition channelResponseSource :: "'p peer_fn \<Rightarrow> int \<Rightarrow> 'p response_source" where
  "channelResponseSource peer nanos ag p m =
     (case peer p m of
        (p, r) \<Rightarrow>
          case ag_regRespCh ag of
            h # t \<Rightarrow> (arrives (ag\<lparr>ag_regRespCh := t\<rparr>) nanos r, p, Some h)
          | [] \<Rightarrow>
              (let ag = arrives ag nanos r in
               case ag_regRespCh ag of [] \<Rightarrow> (ag, p, None) | h # t \<Rightarrow> (ag\<lparr>ag_regRespCh := t\<rparr>, p, Some h)))"

text \<open>The authorization for a challenge.\<close>

definition authorize :: "agent \<Rightarrow> reg_env \<Rightarrow> string \<Rightarrow> reg_error + string" where
  "authorize ag e challenge =
     (case ag_auth ag of
        Some a \<Rightarrow> (case rga_Authorize a challenge of None \<Rightarrow> Inl RegAuthenticate | Some h \<Rightarrow> Inr h)
      | None \<Rightarrow>
          (case ParseChallenge challenge of
             Inl err \<Rightarrow> Inl (RegChallenge err)
           | Inr d \<Rightarrow> Inr (BuildAuthorizationHeader (re_cnonce e) d (dc_DeviceID (ag_cfg ag)) (dc_Password (ag_cfg ag)) (request_uri (ag_cfg ag)) ''REGISTER'')))"

definition initial_auth :: "agent \<Rightarrow> string" where
  "initial_auth ag = (case ag_auth ag of None \<Rightarrow> [] | Some a \<Rightarrow> rga_Initial a)"

text \<open>The second leg of a registration, after a 401.\<close>

definition register_again :: "reg_env \<Rightarrow> 'p response_source \<Rightarrow> agent \<Rightarrow> 'p \<Rightarrow> string \<Rightarrow> agent \<times> 'p \<times> reg_error option" where
  "register_again e nxt ag p challenge =
     (case authorize ag e challenge of
        Inl err \<Rightarrow> (ag, p, Some err)
      | Inr h \<Rightarrow>
          if \<not> re_sends2 e then (ag, p, Some RegSend)
          else case nxt ag p (decorated ag (register_message ag e ''2 REGISTER'' (re_branch2 e) h ''3600'')) of
            (ag, p, None) \<Rightarrow> (ag, p, Some RegNoResponse)
          | (ag, p, Some resp) \<Rightarrow>
              let ag = note_response ag e resp in
              if sip_StatusCode resp = 200
              then (if (case ag_auth ag of None \<Rightarrow> True | Some a \<Rightarrow> rga_VerifyOK a (ExtensionHeader resp ''SecurityInfo''))
                    then (noteNegotiatedExpires ag (re_nanos e) resp, p, None) else (ag, p, Some RegVerify))
              else (ag, p, Some (RegUnexpected (sip_StatusCode resp))))"

definition runRegisterLifecycle :: "reg_env \<Rightarrow> 'p response_source \<Rightarrow> agent \<Rightarrow> 'p \<Rightarrow> agent \<times> 'p \<times> reg_error option" where
  "runRegisterLifecycle e nxt ag p =
     (if \<not> re_sends1 e then (ag, p, Some RegSend)
      else case nxt ag p (decorated ag (register_message ag e ''1 REGISTER'' (re_branch1 e) (initial_auth ag) ''3600'')) of
        (ag, p, None) \<Rightarrow> (ag, p, Some RegNoResponse)
      | (ag, p, Some resp) \<Rightarrow>
          let ag = note_response ag e resp in
          if sip_StatusCode resp = 401 then register_again e nxt ag p (sip_WWWAuthenticate resp)
          else if sip_StatusCode resp = 200 then (noteNegotiatedExpires ag (re_nanos e) resp, p, None)
          else (ag, p, Some (RegUnexpected (sip_StatusCode resp))))"

definition reregister :: "reg_env \<Rightarrow> 'p peer_fn \<Rightarrow> agent \<Rightarrow> 'p \<Rightarrow> agent \<times> 'p \<times> reg_error option" where
  "reregister e peer ag p = runRegisterLifecycle e (channelResponseSource peer (re_nanos e)) ag p"

text \<open>De-registration: the same two legs with an expiry of zero; nothing is noted.\<close>

definition deregister_again :: "reg_env \<Rightarrow> 'p response_source \<Rightarrow> agent \<Rightarrow> 'p \<Rightarrow> string \<Rightarrow> agent \<times> 'p \<times> reg_error option" where
  "deregister_again e nxt ag p challenge =
     (case authorize ag e challenge of
        Inl err \<Rightarrow> (ag, p, Some err)
      | Inr h \<Rightarrow>
          if \<not> re_sends2 e then (ag, p, Some RegSend)
          else case nxt ag p (decorated ag (register_message ag e ''2 REGISTER'' (re_branch2 e) h ''0'')) of
            (ag, p, None) \<Rightarrow> (ag, p, Some RegNoResponse)
          | (ag, p, Some resp) \<Rightarrow> (ag, p, if sip_StatusCode resp = 200 then None else Some (RegUnexpected (sip_StatusCode resp))))"

definition runDeregisterLifecycle :: "reg_env \<Rightarrow> 'p response_source \<Rightarrow> agent \<Rightarrow> 'p \<Rightarrow> agent \<times> 'p \<times> reg_error option" where
  "runDeregisterLifecycle e nxt ag p =
     (if \<not> re_sends1 e then (ag, p, Some RegSend)
      else case nxt ag p (decorated ag (register_message ag e ''1 REGISTER'' (re_branch1 e) (initial_auth ag) ''0'')) of
        (ag, p, None) \<Rightarrow> (ag, p, Some RegNoResponse)
      | (ag, p, Some resp) \<Rightarrow>
          if sip_StatusCode resp = 200 then (ag, p, None)
          else if sip_StatusCode resp \<noteq> 401 then (ag, p, Some (RegUnexpected (sip_StatusCode resp)))
          else deregister_again e nxt ag p (sip_WWWAuthenticate resp))"

definition Deregister :: "bool \<Rightarrow> reg_env \<Rightarrow> 'p peer_fn \<Rightarrow> agent \<Rightarrow> 'p \<Rightarrow> agent \<times> 'p \<times> reg_error option" where
  "Deregister testMode e peer ag p =
     (if testMode then (ag, p, None) else runDeregisterLifecycle e (channelResponseSource peer (re_nanos e)) ag p)"

subsection \<open>Keepalive and refresh\<close>

definition platformSilent :: "int \<Rightarrow> int \<Rightarrow> int \<Rightarrow> bool" where
  "platformSilent unheard heartbeat timeoutCount \<longleftrightarrow>
     (let heartbeat = (if heartbeat \<le> 0 then seconds 1 else heartbeat) in timeoutCount \<ge> 1 \<and> unheard \<ge> wrap64 (heartbeat * timeoutCount))"

text \<open>The ticker of a lifecycle goroutine: a period that is not positive panics.\<close>

definition NewTicker :: "int \<Rightarrow> int go" where
  "NewTicker d = (if d > 0 then Some d else None)"

definition heartbeat_interval :: "agent_config \<Rightarrow> int" where
  "heartbeat_interval c = wrap64 (dc_HeartbeatIntervalSecs c * 10 ^ 9)"

definition refreshInterval :: "agent \<Rightarrow> int" where
  "refreshInterval ag =
     (let base = (if ag_negotiatedExpiresSecs ag \<ge> 60 then ag_negotiatedExpiresSecs ag else dc_RegisterIntervalSecs (ag_cfg ag));
          base = (if base < 2 then 2 else base)
      in wrap64 (base div 2 * 10 ^ 9))"

text \<open>\<open>startLifecycles\<close>: the periods of its two goroutines.\<close>

definition startLifecycles :: "bool \<Rightarrow> agent \<Rightarrow> (int \<times> int) option go" where
  "startLifecycles testMode ag =
     (if testMode then Some None
      else do { h \<leftarrow> NewTicker (heartbeat_interval (ag_cfg ag)); r \<leftarrow> NewTicker (refreshInterval ag); Some (Some (h, r)) })"

text \<open>After a successful re-registration the ticker is reset to a new period, which panics as well if it is not positive.\<close>

definition refresh_reset :: "agent \<Rightarrow> int \<Rightarrow> int go" where
  "refresh_reset ag current = (let nxt = refreshInterval ag in if nxt \<noteq> current then NewTicker nxt else Some current)"

text \<open>One tick of the keepalive goroutine; \<open>sent\<close> is the success of the keepalive.\<close>

definition silence_check :: "agent \<Rightarrow> int \<Rightarrow> agent" where
  "silence_check ag now =
     (if ag_lastPlatformContact ag > 0
         \<and> platformSilent (now - ag_lastPlatformContact ag) (heartbeat_interval (ag_cfg ag)) (dc_HeartbeatTimeoutCount (ag_cfg ag))
      then (signalReRegister ag)\<lparr>ag_lastPlatformContact := now\<rparr> else ag)"

definition keepalive_tick :: "agent \<Rightarrow> int \<Rightarrow> bool \<Rightarrow> agent" where
  "keepalive_tick ag now sent =
     (let ag = silence_check ag now in
      if sent then ag
      else let f = ag_keepaliveFailures ag + 1; ag = ag\<lparr>ag_keepaliveFailures := f\<rparr> in
           if sint f \<ge> sint (word_of_int (dc_HeartbeatTimeoutCount (ag_cfg ag)) :: 32 word)
           then (signalReRegister ag)\<lparr>ag_keepaliveFailures := 0\<rparr> else ag)"

subsection \<open>The platform as peer\<close>

text \<open>
  The SIP stack between the two programs. \<open>gs\<close> is the request it makes of a message of the device, \<open>rs\<close> the response the device
  reads for an answer of a handler, \<open>pa\<close> its parser of digest headers. What is documented of them: the method, the
  \<open>Authorization\<close> and \<open>Expires\<close> headers and the user part of \<open>From\<close> are those of the message, and the source is the
  sender; a response repeats the \<open>CSeq\<close> and carries the status and headers it was given; a digest header of the six parameters is read as written, and
  its response for a password is that of RFC 2617.
\<close>

definition gosip_reads :: "(sip_message \<Rightarrow> sip_request) \<Rightarrow> string \<Rightarrow> bool" where
  "gosip_reads gs src \<longleftrightarrow> (\<forall>m. rq_method (gs m) = sip_Method m \<and> rq_source (gs m) = src \<and> rq_expires (gs m) = go_atoi (sip_Expires m)
     \<and> rq_generic (gs m) ''Authorization'' = (if sip_Authorization m = [] then [] else [sip_Authorization m])
     \<and> (\<forall>i d. sip_From m = ''<sip:'' @ i @ ''@'' @ d @ ''>'' \<longrightarrow> list_all is_digit i \<longrightarrow> rq_from (gs m) = Some i))"

definition header_of :: "(string \<times> string) list \<Rightarrow> string \<Rightarrow> string" where
  "header_of hs k = (case map_of hs k of None \<Rightarrow> [] | Some v \<Rightarrow> v)"

definition gosip_answers :: "(sip_message \<Rightarrow> reply \<Rightarrow> sip_message) \<Rightarrow> bool" where
  "gosip_answers rs \<longleftrightarrow> (\<forall>m code msg hs. sip_StatusCode (rs m (code, msg, hs)) = int code \<and> sip_CSeq (rs m (code, msg, hs)) = sip_CSeq m
     \<and> sip_WWWAuthenticate (rs m (code, msg, hs)) = header_of hs ''WWW-Authenticate'' \<and> sip_Expires (rs m (code, msg, hs)) = header_of hs ''Expires'')"

definition gosip_digest :: "(string \<Rightarrow> auth_view) \<Rightarrow> bool" where
  "gosip_digest pa \<longleftrightarrow> (\<forall>p user realm nonce uri resp.
     find_pairs p = [(''username'', user), (''realm'', realm), (''nonce'', nonce), (''uri'', uri), (''response'', resp), (''algorithm'', ''MD5'')] \<longrightarrow>
     av_Username (pa (''Digest '' @ p)) = user \<and> av_Response (pa (''Digest '' @ p)) = resp
     \<and> (\<forall>pw method. av_Calc (pa (''Digest '' @ p)) pw method = md5_answer user realm pw nonce uri method))"

definition platform_peer :: "(sip_message \<Rightarrow> sip_request) \<Rightarrow> (sip_message \<Rightarrow> reply \<Rightarrow> sip_message) \<Rightarrow> (string \<Rightarrow> auth_view) \<Rightarrow> host_env \<Rightarrow> string \<Rightarrow> int \<Rightarrow> sip_server peer_fn" where
  "platform_peer gs rs pa h nonce now s m =
     (case handleRegister pa h s (gs m) nonce now of None \<Rightarrow> (s, None) | Some (s', r) \<Rightarrow> (s', Some (rs m r)))"

lemma register_message_fields:
  "sip_Method (register_message ag e cseq branch auth expires) = ''REGISTER''" "sip_Authorization (register_message ag e cseq branch auth expires) = auth"
  "sip_Expires (register_message ag e cseq branch auth expires) = expires" "sip_CSeq (register_message ag e cseq branch auth expires) = cseq"
  "sip_From (register_message ag e cseq branch auth expires) = ''<sip:'' @ dc_DeviceID (ag_cfg ag) @ ''@'' @ dc_SIPDomain (ag_cfg ag) @ ''>''"
  by (simp_all add: register_message_def BuildRegister_def empty_sip_def own_address_def Let_def)

lemma note_response_frame [simp]:
  "ag_auth (note_response ag e m) = ag_auth ag" "ag_cfg (note_response ag e m) = ag_cfg ag" "ag_regRespCh (note_response ag e m) = ag_regRespCh ag"
  "ag_UserAgent (note_response ag e m) = ag_UserAgent ag" "ag_lastPlatformContact (note_response ag e m) = ag_lastPlatformContact ag"
  by (simp_all add: note_response_def notePlatformDate_def notePlatformProtocolVersion_def Let_def split: option.split)

text \<open>A response to a REGISTER passes through the empty channel to the attempt that waits for it.\<close>

lemma channel_empty:
  assumes "ag_regRespCh ag = []" "peer p m = (p', Some r)" "Contains (sip_CSeq r) ''REGISTER''"
  shows "channelResponseSource peer nanos ag p m = (ag\<lparr>ag_lastPlatformContact := nanos\<rparr>, p', Some r)"
  using assms by (simp add: channelResponseSource_def arrives_def handleResponse_def Let_def)

text \<open>The two answers of a platform with a password.\<close>

definition device_known :: "sip_server \<Rightarrow> agent_config \<Rightarrow> bool" where
  "device_known s c \<longleftrightarrow> sv_inv s \<and> sv_auth s = None \<and> pc_Password (sv_cfg s) = dc_Password c \<and> dc_Password c \<noteq> [] \<and> isAllowedDevice (sv_cfg s) (dc_DeviceID c)
     \<and> dc_DeviceID c \<noteq> [] \<and> list_all is_digit (dc_DeviceID c) \<and> param_value (realm_of (pc_Realm (sv_cfg s))) \<and> param_value (request_uri c)"

lemma device_id_value: "dc_DeviceID c \<noteq> [] \<Longrightarrow> list_all is_digit (dc_DeviceID c) \<Longrightarrow> param_value (dc_DeviceID c)"
  unfolding param_value_def list_all_iff by (auto simp: is_digit_def value_char_def)

lemma locked_again: "locked t key now = (t', False) \<Longrightarrow> locked t' key now = (t', False)"
  by (auto simp: locked_def split: option.splits if_splits)

lemma challenged:
  assumes "device_known s (ag_cfg ag)" "gosip_reads gs src" "\<not> snd (locked (sv_authFailures s) (hostOfAddr src) now)"
    "sip_From m = ''<sip:'' @ dc_DeviceID (ag_cfg ag) @ ''@'' @ d @ ''>''" "sip_Authorization m = []"
  shows "\<exists>t. locked (sv_authFailures s) (hostOfAddr src) now = (t, False) \<and> handleRegister pa h s (gs m) nonce now = Some (s\<lparr>sv_authFailures := t\<rparr>, 401, ''Unauthorized'',
      appendXGBVer [(''WWW-Authenticate'', challenge_value (pc_Realm (sv_cfg s)) nonce)] (pc_ProtocolVersion (sv_cfg s)))"
proof -
  obtain t where t: "locked (sv_authFailures s) (hostOfAddr src) now = (t, False)" using assms(3) by (cases "locked (sv_authFailures s) (hostOfAddr src) now") auto
  have "rq_from (gs m) = Some (dc_DeviceID (ag_cfg ag))" "rq_source (gs m) = src" "rq_generic (gs m) ''Authorization'' = []"
    using assms by (auto simp: gosip_reads_def device_known_def)
  then show ?thesis using assms(1) t by (simp add: handleRegister_def device_known_def alevel_def digest_part_def getAuthHeader_def Let_def)
qed

lemma authorized:
  assumes "device_known s (ag_cfg ag)" "gosip_reads gs src" "gosip_digest pa" "\<not> snd (locked (sv_authFailures s) (hostOfAddr src) now)" "param_value nonce"
    "sip_Method m = ''REGISTER''" "sip_From m = ''<sip:'' @ dc_DeviceID (ag_cfg ag) @ ''@'' @ d @ ''>''" "go_atoi (sip_Expires m) = Some x" "0 \<le> x"
    "sip_Authorization m = ''Digest '' @ auth_params (dc_DeviceID (ag_cfg ag)) (realm_of (pc_Realm (sv_cfg s))) nonce (request_uri (ag_cfg ag))
       (md5_answer (dc_DeviceID (ag_cfg ag)) (realm_of (pc_Realm (sv_cfg s))) (dc_Password (ag_cfg ag)) nonce (request_uri (ag_cfg ag)) ''REGISTER'')"
  shows "\<exists>s' hs. handleRegister pa h s (gs m) n now = Some (s', 200, ''OK'', hs) \<and> header_of hs ''Expires'' = go_itoa x \<and> requested_expires (gs m) = x
    \<and> rq_from (gs m) = Some (dc_DeviceID (ag_cfg ag)) \<and> rq_source (gs m) = src"
proof -
  obtain t where t: "locked (sv_authFailures s) (hostOfAddr src) now = (t, False)" using assms(4) by (cases "locked (sv_authFailures s) (hostOfAddr src) now") auto
  note k = assms(1) [unfolded device_known_def]
  have u: "param_value (dc_DeviceID (ag_cfg ag))" using device_id_value k by blast
  have rq: "rq_from (gs m) = Some (dc_DeviceID (ag_cfg ag))" "rq_source (gs m) = src" "rq_generic (gs m) ''Authorization'' = [sip_Authorization m]"
    "rq_method (gs m) = ''REGISTER''" "requested_expires (gs m) = x"
    using assms k by (auto simp: gosip_reads_def requested_expires_def)
  have "validateDigest (sv_cfg s) (pa (sip_Authorization m)) (dc_DeviceID (ag_cfg ag)) (gs m)"
    using assms(3) auth_params_pairs [OF _ assms(5) u _ md5_answer_text(1)] k rq(4) by (simp add: validateDigest_def gosip_digest_def assms(10))
  then have e: "handleRegister pa h s (gs m) n now = admitted h (s\<lparr>sv_authFailures := recordSuccess t (hostOfAddr src)\<rparr>) (dc_DeviceID (ag_cfg ag)) (gs m) None now"
    using rq k t by (simp add: handleRegister_def alevel_def digest_part_def getAuthHeader_def Let_def)
  have "sv_inv (s\<lparr>sv_authFailures := recordSuccess t (hostOfAddr src)\<rparr>)" using k by (simp add: sv_inv_def)
  from admitted_effect [OF this] obtain s' hs where a: "handleRegister pa h s (gs m) n now = Some (s', 200, ''OK'', hs)" unfolding e by blast
  then have "header_of hs ''Expires'' = go_itoa x"
    unfolding e admitted_def using rq(5) by (auto simp: header_of_def appendXGBVer_def Option.bind_eq_Some_conv Let_def split: if_splits)
  with a rq show ?thesis by blast
qed

lemma decorated_plain: "ag_auth ag = None \<Longrightarrow> decorated ag m = m"
  by (simp add: decorated_def)

lemma cseq_register: "Contains ''1 REGISTER'' ''REGISTER''" "Contains ''2 REGISTER'' ''REGISTER''"
  by (simp_all add: Contains_def str_index.simps)

lemma expiry_texts: "go_atoi ''3600'' = Some 3600" "go_atoi ''0'' = Some 0" "negotiatedExpiresSecs (go_itoa 3600) c = 3600"
proof -
  show "go_atoi ''3600'' = Some 3600" "go_atoi ''0'' = Some 0" by (simp_all add: go_atoi_def is_digit_def digit_val_def)
  have "token (nat_text 3600)" by (rule nat_text_token)
  then have "TrimSpace (go_itoa 3600) = go_itoa 3600" using TrimSpace_stable token_stable by (simp add: go_itoa_def)
  then show "negotiatedExpiresSecs (go_itoa 3600) c = 3600" using go_atoi_itoa [of 3600] by (simp add: negotiatedExpiresSecs_def)
qed

text \<open>The first leg of the digest dance with the platform, through the channel, and the answer to its challenge.\<close>

lemma first_leg:
  assumes "device_known s (ag_cfg ag)" "gosip_reads gs src" "gosip_answers rs" "\<not> snd (locked (sv_authFailures s) (hostOfAddr src) now)"
    "param_value nonce" "ag_regRespCh ag = []"
  shows "\<exists>s1 r1. channelResponseSource (platform_peer gs rs pa h nonce now) nanos ag s (register_message ag e ''1 REGISTER'' b [] x)
      = (ag\<lparr>ag_lastPlatformContact := nanos\<rparr>, s1, Some r1) \<and> sip_StatusCode r1 = 401
    \<and> device_known s1 (ag_cfg ag) \<and> \<not> snd (locked (sv_authFailures s1) (hostOfAddr src) now) \<and> sv_cfg s1 = sv_cfg s
    \<and> sip_WWWAuthenticate r1 = challenge_value (pc_Realm (sv_cfg s)) nonce"
proof -
  define m where "m = register_message ag e ''1 REGISTER'' b [] x"
  define peer where "peer = platform_peer gs rs pa h nonce now"
  define hs where "hs = appendXGBVer [(''WWW-Authenticate'', challenge_value (pc_Realm (sv_cfg s)) nonce)] (pc_ProtocolVersion (sv_cfg s))"
  obtain t where t: "locked (sv_authFailures s) (hostOfAddr src) now = (t, False)"
      and h1: "handleRegister pa h s (gs m) nonce now = Some (s\<lparr>sv_authFailures := t\<rparr>, 401, ''Unauthorized'', hs)"
    using challenged [OF assms(1,2,4), of m "dc_SIPDomain (ag_cfg ag)" pa h nonce] by (auto simp: m_def register_message_fields hs_def)
  define s1 where "s1 = s\<lparr>sv_authFailures := t\<rparr>"
  define r where "r = rs m (401, ''Unauthorized'', hs)"
  have r: "sip_StatusCode r = 401" "sip_CSeq r = ''1 REGISTER''" "sip_WWWAuthenticate r = challenge_value (pc_Realm (sv_cfg s)) nonce"
    using assms(3) by (simp_all add: r_def gosip_answers_def m_def register_message_fields hs_def header_of_def appendXGBVer_def)
  have "peer s m = (s1, Some r)" using h1 by (simp add: peer_def platform_peer_def s1_def r_def)
  then have "channelResponseSource peer nanos ag s m = (ag\<lparr>ag_lastPlatformContact := nanos\<rparr>, s1, Some r)"
    using channel_empty [of ag peer s m s1 r nanos] assms(6) by (simp add: r cseq_register)
  moreover have "device_known s1 (ag_cfg ag)" "\<not> snd (locked (sv_authFailures s1) (hostOfAddr src) now)" "sv_cfg s1 = sv_cfg s"
    using assms(1) locked_again [OF t] by (simp_all add: s1_def device_known_def sv_inv_def)
  ultimately show ?thesis using r unfolding m_def peer_def by blast
qed

lemma second_leg:
  assumes "device_known s (ag_cfg ag)" "gosip_reads gs src" "gosip_answers rs" "gosip_digest pa" "\<not> snd (locked (sv_authFailures s) (hostOfAddr src) now)"
    "param_value nonce" "ag_auth ag = None" "ag_regRespCh ag = []" "go_atoi x = Some v" "0 \<le> v"
  shows "\<exists>auth s2 r2 hs m. authorize ag e (challenge_value (pc_Realm (sv_cfg s)) nonce) = Inr auth \<and> m = register_message ag e ''2 REGISTER'' b auth x
    \<and> channelResponseSource (platform_peer gs rs pa h nonce now) nanos ag s m = (ag\<lparr>ag_lastPlatformContact := nanos\<rparr>, s2, Some r2)
    \<and> sip_StatusCode r2 = 200 \<and> sip_Expires r2 = go_itoa v \<and> handleRegister pa h s (gs m) nonce now = Some (s2, 200, ''OK'', hs)
    \<and> requested_expires (gs m) = v \<and> rq_from (gs m) = Some (dc_DeviceID (ag_cfg ag)) \<and> rq_source (gs m) = src"
proof -
  define realm where "realm = realm_of (pc_Realm (sv_cfg s))"
  define auth where "auth = ''Digest '' @ auth_params (dc_DeviceID (ag_cfg ag)) realm nonce (request_uri (ag_cfg ag))
     (md5_answer (dc_DeviceID (ag_cfg ag)) realm (dc_Password (ag_cfg ag)) nonce (request_uri (ag_cfg ag)) ''REGISTER'')"
  define m where "m = register_message ag e ''2 REGISTER'' b auth x"
  define peer where "peer = platform_peer gs rs pa h nonce now"
  have a: "authorize ag e (challenge_value (pc_Realm (sv_cfg s)) nonce) = Inr auth"
    using challenge_understood [of "pc_Realm (sv_cfg s)" nonce] assms(1,6,7) by (simp add: authorize_def device_known_def auth_header_text auth_def realm_def)
  obtain s2 hs where h2: "handleRegister pa h s (gs m) nonce now = Some (s2, 200, ''OK'', hs)" "header_of hs ''Expires'' = go_itoa v"
      "requested_expires (gs m) = v" "rq_from (gs m) = Some (dc_DeviceID (ag_cfg ag))" "rq_source (gs m) = src"
    using authorized [OF assms(1,2,4,5,6), of m "dc_SIPDomain (ag_cfg ag)" v h nonce] assms(9,10)
    by (auto simp: m_def register_message_fields auth_def realm_def)
  define r where "r = rs m (200, ''OK'', hs)"
  have r: "sip_StatusCode r = 200" "sip_Expires r = go_itoa v" "sip_CSeq r = ''2 REGISTER''"
    using assms(3) h2(2) by (simp_all add: r_def gosip_answers_def m_def register_message_fields)
  have "peer s m = (s2, Some r)" using h2(1) by (simp add: peer_def platform_peer_def r_def)
  then have "channelResponseSource peer nanos ag s m = (ag\<lparr>ag_lastPlatformContact := nanos\<rparr>, s2, Some r)"
    using channel_empty [of ag peer s m s2 r nanos] assms(8) by (simp add: r cseq_register)
  then show ?thesis using a r h2 unfolding m_def peer_def by blast
qed

text \<open>C24: a device registers. With the password of the platform, an identifier it allows and a source that is not locked out, one
  re-registration of a device whose channel of responses is empty succeeds in its two messages: the platform challenges, admits
  the digest and has the device online at the address it sent from, with the channels it had; and the device notes the hour of
  expiry it was granted and that the platform is alive.\<close>

theorem device_registers:
  assumes "device_known s (ag_cfg ag)" "gosip_reads gs src" "gosip_answers rs" "gosip_digest pa" "\<not> snd (locked (sv_authFailures s) (hostOfAddr src) now)"
    "param_value nonce" "ag_auth ag = None" "ag_regRespCh ag = []" "re_sends1 e" "re_sends2 e"
  shows "\<exists>ag' s' d. reregister e (platform_peer gs rs pa h nonce now) ag s = (ag', s', None)
    \<and> dm_Device (sv_dm s') (dc_DeviceID (ag_cfg ag)) = Some d \<and> dv_Status d = DeviceOnline \<and> dv_NetAddr d = src \<and> dv_lastKeepalive d = now
    \<and> ag_negotiatedExpiresSecs ag' = 3600 \<and> ag_lastPlatformContact ag' = re_nanos e \<and> ag_regRespCh ag' = []"
proof -
  obtain s1 r1 where 1: "channelResponseSource (platform_peer gs rs pa h nonce now) (re_nanos e) ag s (register_message ag e ''1 REGISTER'' (re_branch1 e) [] ''3600'')
      = (ag\<lparr>ag_lastPlatformContact := re_nanos e\<rparr>, s1, Some r1)" "sip_StatusCode r1 = 401" "device_known s1 (ag_cfg ag)"
      "\<not> snd (locked (sv_authFailures s1) (hostOfAddr src) now)" "sv_cfg s1 = sv_cfg s" "sip_WWWAuthenticate r1 = challenge_value (pc_Realm (sv_cfg s)) nonce"
    using first_leg [OF assms(1-3,5,6,8)] by blast
  define ag2 where "ag2 = note_response (ag\<lparr>ag_lastPlatformContact := re_nanos e\<rparr>) e r1"
  have ag2: "ag_cfg ag2 = ag_cfg ag" "ag_auth ag2 = None" "ag_regRespCh ag2 = []" using assms(7,8) by (simp_all add: ag2_def)
  obtain auth s2 r2 hs m where 2: "authorize ag2 e (challenge_value (pc_Realm (sv_cfg s1)) nonce) = Inr auth"
      "m = register_message ag2 e ''2 REGISTER'' (re_branch2 e) auth ''3600''"
      "channelResponseSource (platform_peer gs rs pa h nonce now) (re_nanos e) ag2 s1 m = (ag2\<lparr>ag_lastPlatformContact := re_nanos e\<rparr>, s2, Some r2)"
      "sip_StatusCode r2 = 200" "sip_Expires r2 = go_itoa 3600" "handleRegister pa h s1 (gs m) nonce now = Some (s2, 200, ''OK'', hs)"
      "requested_expires (gs m) = 3600" "rq_from (gs m) = Some (dc_DeviceID (ag_cfg ag))" "rq_source (gs m) = src"
    using second_leg [of s1 ag2 gs src rs pa now nonce "''3600''" 3600 e "re_branch2 e" h "re_nanos e"] 1 ag2 assms(2-4,6) expiry_texts(1) by auto
  have "sv_inv s1" using 1(3) by (simp add: device_known_def)
  from register_effect_parts(1) [OF this 2(6,8)] obtain d where d: "dm_Device (sv_dm s2) (dc_DeviceID (ag_cfg ag)) = Some d" "dv_Status d = DeviceOnline"
      "dv_NetAddr d = src" "dv_lastKeepalive d = now" using 2(7,9) by auto
  have "reregister e (platform_peer gs rs pa h nonce now) ag s
      = (noteNegotiatedExpires (note_response (ag2\<lparr>ag_lastPlatformContact := re_nanos e\<rparr>) e r2) (re_nanos e) r2, s2, None)"
    using 1 2 ag2 assms(7,9,10)
    by (simp add: reregister_def runRegisterLifecycle_def register_again_def decorated_plain initial_auth_def Let_def ag2_def [symmetric])
  then show ?thesis using d ag2(3) by (simp add: noteNegotiatedExpires_def expiry_texts(3) 2(5))
qed

text \<open>A stack for the witnesses.\<close>

definition demo_request :: "sip_message \<Rightarrow> sip_request" where
  "demo_request m = \<lparr>rq_method = sip_Method m, rq_from = Some (takeWhile is_digit (drop 5 (sip_From m))), rq_to = None, rq_source = ''10.0.0.5:5060'',
     rq_transport = ''UDP'', rq_callID = Some (sip_CallID m), rq_generic = (\<lambda>n. if n = ''Authorization'' \<and> sip_Authorization m \<noteq> [] then [sip_Authorization m] else []),
     rq_wire = (\<lambda>_. []), rq_expires = go_atoi (sip_Expires m), rq_body = sip_Body m\<rparr>"

definition demo_response :: "sip_message \<Rightarrow> reply \<Rightarrow> sip_message" where
  "demo_response m = (\<lambda>(code, msg, hs). empty_sip\<lparr>sip_StatusCode := int code, sip_CSeq := sip_CSeq m, sip_WWWAuthenticate := header_of hs ''WWW-Authenticate'',
     sip_Expires := header_of hs ''Expires''\<rparr>)"

definition demo_digest :: "string \<Rightarrow> auth_view" where
  "demo_digest v = (let g = header_of (find_pairs (drop 7 v)) in
     \<lparr>av_Username = g ''username'', av_Response = g ''response'', av_Calc = (\<lambda>pw method. md5_answer (g ''username'') (g ''realm'') pw (g ''nonce'') (g ''uri'') method)\<rparr>)"

lemma demo_stack: "gosip_reads demo_request ''10.0.0.5:5060''" "gosip_answers demo_response" "gosip_digest demo_digest"
proof -
  have "takeWhile is_digit (i @ CHR ''@'' # r) = i" if "list_all is_digit i" for i r
    using that by (induction i) (simp_all add: is_digit_def)
  then show "gosip_reads demo_request ''10.0.0.5:5060''" by (auto simp: gosip_reads_def demo_request_def)
  show "gosip_answers demo_response" by (simp add: gosip_answers_def demo_response_def empty_sip_def)
  show "gosip_digest demo_digest" by (simp add: gosip_digest_def demo_digest_def header_of_def Let_def)
qed

definition demo_agent :: agent where
  "demo_agent = \<lparr>ag_cfg = \<lparr>dc_Enabled = True, dc_ProtocolVersion = [], dc_PlatformSIPAddress = ''10.0.0.1'', dc_PlatformSIPPort = 5060,
       dc_DeviceID = ''34020000001320000001'', dc_ChannelID = ''34020000001320000001'', dc_SIPDomain = ''3402000000'', dc_Password = pc_Password sample_config,
       dc_LocalSIPPort = 5060, dc_RegisterIntervalSecs = 3600, dc_HeartbeatIntervalSecs = 60, dc_HeartbeatTimeoutCount = 3, dc_Transport = ''udp'',
       dc_TLSCAFile = [], dc_TLSCertFile = [], dc_TLSKeyFile = [], dc_TLSInsecureSkipVerify = False\<rparr>,
     ag_auth = None, ag_UserAgent = ''GB28181-Go/1.0'', ag_regRespCh = [], ag_inviteRespCh = [], ag_reRegister = False, ag_keepaliveFailures = 0,
     ag_lastPlatformContact = 0, ag_negotiatedExpiresSecs = 0, ag_platformProtoVer = [], ag_platformDate = 0\<rparr>"

definition demo_env :: reg_env where
  "demo_env = \<lparr>re_localIP = ''10.0.0.5'', re_unix = 7, re_nanos = 7000000000, re_branch1 = ''a'', re_branch2 = ''b'', re_cnonce = ''c'', re_sends1 = True,
     re_sends2 = True, re_parseDate = (\<lambda>_. None)\<rparr>"

lemma demo_known: "device_known start_server (ag_cfg demo_agent)" "\<not> snd (locked (sv_authFailures start_server) k now)" "param_value ''6bd2''"
  "ag_auth demo_agent = None" "ag_regRespCh demo_agent = []" "re_sends1 demo_env" "re_sends2 demo_env"
  using start_server_inv
  by (simp_all add: device_known_def demo_agent_def demo_env_def start_server_def NewServer_def sample_config_def isAllowedDevice_def is_digit_def realm_of_def
      param_value_def value_char_def request_uri_def newAuthFailureTracker_def locked_def)

theorem device_registers_witness:
  "\<exists>ag' s' d. reregister demo_env (platform_peer demo_request demo_response demo_digest bare_host ''6bd2'' 7) demo_agent start_server = (ag', s', None)
    \<and> dm_Device (sv_dm s') ''34020000001320000001'' = Some d \<and> dv_Status d = DeviceOnline \<and> ag_negotiatedExpiresSecs ag' = 3600"
  using device_registers [where now = 7 and h = bare_host, OF demo_known(1) demo_stack demo_known(2-7)] by (simp add: demo_agent_def) blast

text \<open>C25: responses are not matched to their request. If a 200 of an earlier attempt is still in the channel, the next attempt takes it for its own answer and
  reports success, whatever the platform answers to it; and that answer stays in the channel for the attempt after it.\<close>

theorem stale_response_confirms:
  assumes "ag_regRespCh ag = r # rest" "sip_StatusCode r = 200" "re_sends1 e" "length rest < 4"
    "peer p (decorated ag (register_message ag e ''1 REGISTER'' (re_branch1 e) (initial_auth ag) ''3600'')) = (p', Some answer)"
    "Contains (sip_CSeq answer) ''REGISTER''"
  shows "\<exists>ag'. reregister e peer ag p = (ag', p', None) \<and> ag_regRespCh ag' = rest @ [answer]"
proof -
  define ag1 where "ag1 = handleResponse (ag\<lparr>ag_regRespCh := rest\<rparr>) (re_nanos e) answer"
  have "ag_regRespCh ag1 = rest @ [answer]" using assms(4,6) by (simp add: ag1_def handleResponse_def Let_def)
  moreover have "channelResponseSource peer (re_nanos e) ag p (decorated ag (register_message ag e ''1 REGISTER'' (re_branch1 e) (initial_auth ag) ''3600'')) = (ag1, p', Some r)"
    using assms(1,5) by (simp add: channelResponseSource_def arrives_def ag1_def)
  ultimately show ?thesis using assms(2,3) by (simp add: reregister_def runRegisterLifecycle_def Let_def noteNegotiatedExpires_def)
qed

definition late_ok :: sip_message where
  "late_ok = empty_sip\<lparr>sip_StatusCode := 200, sip_CSeq := ''2 REGISTER''\<rparr>"

lemma demo_challenge:
  "\<exists>s1 r1. platform_peer demo_request demo_response demo_digest bare_host ''6bd2'' 7 start_server (register_message demo_agent demo_env ''1 REGISTER'' b [] ''3600'') = (s1, Some r1)
    \<and> sv_dm s1 = sv_dm start_server \<and> sip_CSeq r1 = ''1 REGISTER''"
  using challenged [OF demo_known(1) demo_stack(1) demo_known(2), of "register_message demo_agent demo_env ''1 REGISTER'' b [] ''3600''" "''3402000000''" 7 demo_digest bare_host "''6bd2''"]
  by (fastforce simp: platform_peer_def register_message_fields demo_agent_def demo_response_def empty_sip_def)

theorem stale_response_confirms_witness:
  "\<exists>ag' s' r. reregister demo_env (platform_peer demo_request demo_response demo_digest bare_host ''6bd2'' 7) (demo_agent\<lparr>ag_regRespCh := [late_ok]\<rparr>) start_server = (ag', s', None)
    \<and> dm_Device (sv_dm s') ''34020000001320000001'' = None \<and> ag_regRespCh ag' = [r]"
proof -
  define ag where "ag = demo_agent\<lparr>ag_regRespCh := [late_ok]\<rparr>"
  have ag: "ag_regRespCh ag = [late_ok]" "initial_auth ag = []" "decorated ag n = n" "sip_StatusCode late_ok = 200"
      "register_message ag demo_env c b a x = register_message demo_agent demo_env c b a x" for n c b a x
    by (simp_all add: ag_def register_message_def demo_agent_def late_ok_def empty_sip_def decorated_def initial_auth_def)
  obtain s1 r1 where 1: "platform_peer demo_request demo_response demo_digest bare_host ''6bd2'' 7 start_server (register_message demo_agent demo_env ''1 REGISTER'' (re_branch1 demo_env) [] ''3600'') = (s1, Some r1)"
      "sv_dm s1 = sv_dm start_server" "sip_CSeq r1 = ''1 REGISTER''" using demo_challenge by blast
  have "dm_Device (sv_dm s1) d = None" for d by (simp add: 1 start_server_def NewServer_def NewDeviceManager_def dm_Device_def)
  moreover have "\<exists>ag'. reregister demo_env (platform_peer demo_request demo_response demo_digest bare_host ''6bd2'' 7) ag start_server = (ag', s1, None) \<and> ag_regRespCh ag' = [] @ [r1]"
    by (rule stale_response_confirms [where r = late_ok])
       (simp_all add: ag 1 demo_known cseq_register)
  ultimately show ?thesis unfolding ag_def by auto
qed

subsection \<open>Silence and tickers\<close>

definition quiet_ticks :: "agent \<Rightarrow> int \<Rightarrow> nat \<Rightarrow> agent" where
  "quiet_ticks ag t0 n = foldl (\<lambda>ag k. keepalive_tick ag (t0 + heartbeat_interval (ag_cfg ag) * int k) True) ag [1..<Suc n]"

lemma tick_frame [simp]: "ag_cfg (keepalive_tick ag now True) = ag_cfg ag" "ag_reRegister ag \<Longrightarrow> ag_reRegister (keepalive_tick ag now True)"
  by (simp_all add: keepalive_tick_def silence_check_def signalReRegister_def Let_def)

lemma quiet_ticks_Suc: "quiet_ticks ag t0 (Suc n) = keepalive_tick (quiet_ticks ag t0 n) (t0 + heartbeat_interval (ag_cfg (quiet_ticks ag t0 n)) * int (Suc n)) True"
  by (simp add: quiet_ticks_def)

lemma quiet_ticks_cfg [simp]: "ag_cfg (quiet_ticks ag t0 n) = ag_cfg ag"
  by (induction n) (simp add: quiet_ticks_def, simp add: quiet_ticks_Suc)

lemma quiet_before:
  assumes "0 < heartbeat_interval (ag_cfg ag)" "heartbeat_interval (ag_cfg ag) * dc_HeartbeatTimeoutCount (ag_cfg ag) < 2 ^ 63"
    "1 \<le> dc_HeartbeatTimeoutCount (ag_cfg ag)" "ag_lastPlatformContact ag = t0"
  shows "int n < dc_HeartbeatTimeoutCount (ag_cfg ag) \<Longrightarrow> quiet_ticks ag t0 n = ag"
proof (induction n)
  case 0
  then show ?case by (simp add: quiet_ticks_def)
next
  case (Suc n)
  have "wrap64 (heartbeat_interval (ag_cfg ag) * dc_HeartbeatTimeoutCount (ag_cfg ag)) = heartbeat_interval (ag_cfg ag) * dc_HeartbeatTimeoutCount (ag_cfg ag)"
    using assms by (intro wrap64_id) (auto intro: order_trans [OF _ mult_nonneg_nonneg])
  moreover have "heartbeat_interval (ag_cfg ag) * int (Suc n) < heartbeat_interval (ag_cfg ag) * dc_HeartbeatTimeoutCount (ag_cfg ag)"
    using Suc.prems assms(1) by (intro mult_strict_left_mono) auto
  ultimately show ?case using Suc assms by (simp add: quiet_ticks_Suc keepalive_tick_def silence_check_def platformSilent_def)
qed

text \<open>C26: a silent platform is noticed. While keepalives go out every heartbeat and nothing comes back, the device asks for a new registration at the tick
  that completes the configured number of unheard heartbeats, not before, and not at any later tick forgets it.\<close>

theorem silence_noticed:
  assumes "0 < heartbeat_interval (ag_cfg ag)" "heartbeat_interval (ag_cfg ag) * dc_HeartbeatTimeoutCount (ag_cfg ag) < 2 ^ 63"
    "1 \<le> dc_HeartbeatTimeoutCount (ag_cfg ag)" "ag_lastPlatformContact ag = t0" "0 < t0" "\<not> ag_reRegister ag"
  shows "ag_reRegister (quiet_ticks ag t0 n) \<longleftrightarrow> dc_HeartbeatTimeoutCount (ag_cfg ag) \<le> int n"
proof -
  define c where "c = nat (dc_HeartbeatTimeoutCount (ag_cfg ag) - 1)"
  have c: "int (Suc c) = dc_HeartbeatTimeoutCount (ag_cfg ag)" using assms(3) by (simp add: c_def)
  have "wrap64 (heartbeat_interval (ag_cfg ag) * dc_HeartbeatTimeoutCount (ag_cfg ag)) = heartbeat_interval (ag_cfg ag) * dc_HeartbeatTimeoutCount (ag_cfg ag)"
    using assms by (intro wrap64_id) (auto intro: order_trans [OF _ mult_nonneg_nonneg])
  then have at: "ag_reRegister (quiet_ticks ag t0 (Suc c))"
    using quiet_before [OF assms(1-4), of c] c assms by (simp add: quiet_ticks_Suc keepalive_tick_def silence_check_def platformSilent_def signalReRegister_def Let_def)
  have "ag_reRegister (quiet_ticks ag t0 (Suc c + k))" for k
    by (induction k) (use at in \<open>simp_all add: quiet_ticks_Suc\<close>)
  then have "dc_HeartbeatTimeoutCount (ag_cfg ag) \<le> int n \<Longrightarrow> ag_reRegister (quiet_ticks ag t0 n)" using c by (metis le_add_diff_inverse of_nat_le_iff)
  moreover have "\<not> dc_HeartbeatTimeoutCount (ag_cfg ag) \<le> int n \<Longrightarrow> \<not> ag_reRegister (quiet_ticks ag t0 n)" using quiet_before [OF assms(1-4), of n] assms(6) by simp
  ultimately show ?thesis by blast
qed

theorem silence_noticed_witness:
  "\<not> ag_reRegister (quiet_ticks (demo_agent\<lparr>ag_lastPlatformContact := 5\<rparr>) 5 2) \<and> ag_reRegister (quiet_ticks (demo_agent\<lparr>ag_lastPlatformContact := 5\<rparr>) 5 3)"
  using silence_noticed [of "demo_agent\<lparr>ag_lastPlatformContact := 5\<rparr>" 5 2] silence_noticed [of "demo_agent\<lparr>ag_lastPlatformContact := 5\<rparr>" 5 3]
  by (simp add: demo_agent_def heartbeat_interval_def wrap64_def)

lemma seconds_positive: "1 \<le> n \<Longrightarrow> n \<le> 9223372036 \<Longrightarrow> 0 < wrap64 (n * 10 ^ 9)"
  by (subst wrap64_id) simp_all

lemma enabled_intervals:
  assumes "dc_Validate c = None" "dc_Enabled c"
  shows "0 < dc_RegisterIntervalSecs c" "0 < dc_HeartbeatIntervalSecs c" "0 < dc_HeartbeatTimeoutCount c"
  using assms by (auto simp: dc_Validate_def check_enabled_def Let_def split: if_splits option.splits)

text \<open>C27: a device whose enabled configuration passed the check starts its two lifecycle goroutines with positive periods, as long as its intervals and the negotiated expiry
  fit a duration. But the check stops at a configuration that is not enabled, and starting does not: the same configuration, disabled and
  without a heartbeat interval, passes and its goroutine panics.\<close>

theorem agent_starts:
  assumes "dc_Validate (ag_cfg ag) = None" "dc_Enabled (ag_cfg ag)" "dc_HeartbeatIntervalSecs (ag_cfg ag) \<le> 9223372036"
    "dc_RegisterIntervalSecs (ag_cfg ag) \<le> 18446744073" "ag_negotiatedExpiresSecs ag \<le> 18446744073" "c = (ag_cfg ag)\<lparr>dc_Enabled := False, dc_HeartbeatIntervalSecs := 0\<rparr>"
  shows "(\<exists>h r. startLifecycles False ag = Some (Some (h, r)) \<and> 0 < h \<and> 0 < r) \<and> dc_Validate c = None \<and> startLifecycles False (ag\<lparr>ag_cfg := c\<rparr>) = None"
proof -
  note i = enabled_intervals [OF assms(1,2)]
  have "0 < heartbeat_interval (ag_cfg ag)" unfolding heartbeat_interval_def using i(2) assms(3) by (intro seconds_positive) auto
  moreover have "0 < refreshInterval ag" unfolding refreshInterval_def Let_def using assms(4,5) by (intro seconds_positive) auto
  moreover have "dc_Validate c = None" using assms(1) by (auto simp: assms(6) dc_Validate_def Let_def split: if_splits)
  moreover have "heartbeat_interval c = 0" by (simp add: assms(6) heartbeat_interval_def wrap64_def)
  ultimately show ?thesis by (simp add: startLifecycles_def NewTicker_def)
qed

lemma demo_agent_valid: "dc_Validate (ag_cfg demo_agent) = None" "dc_Enabled (ag_cfg demo_agent)"
  by (simp_all add: demo_agent_def dc_Validate_def check_enabled_def validateGBID_def is_digit_def lower_char_def Let_def)

theorem agent_starts_witness: "\<exists>h r. startLifecycles False demo_agent = Some (Some (h, r)) \<and> 0 < h \<and> 0 < r"
proof -
  have b: "dc_HeartbeatIntervalSecs (ag_cfg demo_agent) \<le> 9223372036" "dc_RegisterIntervalSecs (ag_cfg demo_agent) \<le> 18446744073" "ag_negotiatedExpiresSecs demo_agent \<le> 18446744073"
    by (simp_all add: demo_agent_def)
  show ?thesis using agent_starts [OF demo_agent_valid b refl] by blast
qed

text \<open>C28: the expiry a platform grants is not bounded. A 200 OK with an expiry from 18446744074 to 36893488147 seconds makes half of it overflow a duration, and the reset of the
  refresh ticker panics.\<close>

theorem huge_expiry_panics:
  assumes "18446744074 \<le> v" "v \<le> 36893488147" "sip_Expires r = go_itoa v" "0 < current"
  shows "refresh_reset (noteNegotiatedExpires ag nanos r) current = None"
proof -
  have "trim_stable (go_itoa v)" using assms(1) token_stable [OF nat_text_token] by (simp add: go_itoa_def)
  then have n: "negotiatedExpiresSecs (sip_Expires r) (sip_Contact r) = v"
    using go_atoi_itoa [of v] TrimSpace_stable assms(1-3) by (simp add: negotiatedExpiresSecs_def)
  define k where "k = v div 2"
  have k: "9223372037 \<le> k" "k \<le> 18446744073" using assms(1,2) by (simp_all add: k_def)
  have "(k * 10 ^ 9 + 2 ^ 63) mod 2 ^ 64 = (k * 10 ^ 9 + 2 ^ 63 - 2 ^ 64) mod 2 ^ 64" by (rule minus_mod_self2 [symmetric])
  also have "\<dots> = k * 10 ^ 9 + 2 ^ 63 - 2 ^ 64" using k by (intro mod_pos_pos_trivial) simp_all
  finally have "(k * 10 ^ 9 + 2 ^ 63) mod 2 ^ 64 = k * 10 ^ 9 + 2 ^ 63 - 2 ^ 64" .
  then have "wrap64 (k * 10 ^ 9) \<le> 0" using k by (simp add: wrap64_def)
  moreover have "refreshInterval (noteNegotiatedExpires ag nanos r) = wrap64 (k * 10 ^ 9)"
    using assms(1) n by (simp add: refreshInterval_def noteNegotiatedExpires_def k_def Let_def)
  ultimately show ?thesis using assms(4) by (simp add: refresh_reset_def NewTicker_def Let_def)
qed

theorem huge_expiry_panics_witness:
  "refresh_reset (noteNegotiatedExpires demo_agent 7 (empty_sip\<lparr>sip_Expires := go_itoa 20000000000\<rparr>)) 1800000000000 = None"
  using huge_expiry_panics [of 20000000000 "empty_sip\<lparr>sip_Expires := go_itoa 20000000000\<rparr>" 1800000000000 demo_agent 7] by simp

end
