(* ===== verification/Sip_Stream.thy ===== *)
theory Sip_Stream
  imports Sip_Message
begin

text \<open>
  How the device receives signalling: the framing of SIP messages on a stream and the dispatch of a message
  to its handler, \<open>src/device/sip_tcp.go\<close>, and the admission of signed requests, \<open>src/device/server.go\<close>.

  A connection is the sequence of what its reader observes: bytes, and the read deadline that was set last
  passing; the end of the sequence is a closed connection. Once the deadline has passed every read of the
  connection fails until a new deadline is set, so the sequence is not looked at then. A loop that does not
  end has the value \<^term>\<open>None\<close>. What a context answers when it is polled, the verifier of signed
  requests and the clock are arguments.
\<close>

subsection \<open>Reading lines and bodies\<close>

datatype observed = Byte char | DeadlinePassed

datatype line_read = Line string "observed list" | LineTimeout "observed list" | LineFailed

text \<open>\<open>bufio.Reader.ReadString('\<open>\n\<close>')\<close>: what was read of a line is consumed when the read fails.\<close>

fun ReadString :: "observed list \<Rightarrow> string \<Rightarrow> line_read" where
  "ReadString [] acc = LineFailed"
| "ReadString (DeadlinePassed # r) acc = LineTimeout r"
| "ReadString (Byte c # r) acc = (if c = CHR 0x0A then Line (acc @ [c]) r else ReadString r (acc @ [c]))"

text \<open>\<open>io.ReadFull\<close>; every error ends the connection.\<close>

fun ReadFull :: "nat \<Rightarrow> observed list \<Rightarrow> (string \<times> observed list) option" where
  "ReadFull 0 r = Some ([], r)"
| "ReadFull (Suc n) (Byte c # r) = map_option (\<lambda>(b, r'). (c # b, r')) (ReadFull n r)"
| "ReadFull (Suc n) r = None"

subsection \<open>Framing\<close>

definition defaultMaxSIPMessageSize :: int where "defaultMaxSIPMessageSize = 2 ^ 20"

definition sipMessageLimit :: "int \<Rightarrow> int" where
  "sipMessageLimit configured = (if configured < 0 then 0 else if configured = 0 then defaultMaxSIPMessageSize else configured)"

text \<open>The length a header line declares, or the one declared before.\<close>

definition declared_length :: "string \<Rightarrow> int \<Rightarrow> int" where
  "declared_length line n =
     (if HasPrefix (ToLower line) ''content-length:''
      then (case SplitN 2 line '':'' of [_, v] \<Rightarrow> (case go_atoi (TrimSpace v) of Some k \<Rightarrow> k | None \<Rightarrow> n) | _ \<Rightarrow> n)
      else n)"

datatype header_read = HeaderSection "string list" int "observed list" | HeaderDrop

text \<open>The header loop; \<open>passed\<close> tells that the deadline of this message has passed.\<close>

partial_function (option) readHeaders ::
  "int \<Rightarrow> bool \<Rightarrow> observed list \<Rightarrow> string list \<Rightarrow> int \<Rightarrow> int \<Rightarrow> header_read option" where
  "readHeaders limit passed r headers headerBytes contentLength =
     (case (if passed then LineTimeout r else ReadString r []) of
        LineFailed \<Rightarrow> Some HeaderDrop
      | LineTimeout r' \<Rightarrow>
          if headers = [] then readHeaders limit True r' headers headerBytes contentLength else Some HeaderDrop
      | Line l r' \<Rightarrow>
          if 0 < limit \<and> limit < headerBytes + int (length (TrimRight l crlf)) + 2 then Some HeaderDrop
          else if TrimRight l crlf = [] then Some (HeaderSection (headers @ [TrimRight l crlf]) contentLength r')
          else readHeaders limit False r' (headers @ [TrimRight l crlf]) (headerBytes + int (length (TrimRight l crlf)) + 2)
                 (declared_length (TrimRight l crlf) contentLength))"

datatype frame_read = Frame string "observed list" | FrameDrop

definition read_frame :: "int \<Rightarrow> observed list \<Rightarrow> frame_read option" where
  "read_frame limit r =
     (case readHeaders limit False r [] 0 0 of
        None \<Rightarrow> None
      | Some HeaderDrop \<Rightarrow> Some FrameDrop
      | Some (HeaderSection headers contentLength r') \<Rightarrow>
          let fullMsg = Join headers crlf @ crlf in
          if contentLength > 0
          then (if limit > 0 \<and> contentLength > limit then Some FrameDrop
                else case ReadFull (nat contentLength) r' of
                  None \<Rightarrow> Some FrameDrop
                | Some (body, r'') \<Rightarrow> Some (Frame (fullMsg @ body) r''))
          else Some (Frame fullMsg r'))"

subsection \<open>Signed requests\<close>

datatype note_policy = NoteReject | NoteWarn | NoteOff

text \<open>The verdict of the verifier; an early one says that the handshake has not completed.\<close>

datatype note_verdict = NoteValid | NoteEarly | NoteInvalid

text \<open>
  The verifier is asked again and again, its answer to the \<open>k\<close>-th question about the \<open>i\<close>-th message
  depends on the handshake; \<open>late\<close> tells whether the second has passed by then.
\<close>

record note_env =
  ne_policy :: note_policy
  ne_verifier :: "(nat \<Rightarrow> nat \<Rightarrow> sip_message \<Rightarrow> note_verdict) option"
  ne_late :: "nat \<Rightarrow> nat \<Rightarrow> bool"

partial_function (option) note_loop :: "note_policy \<Rightarrow> (nat \<Rightarrow> note_verdict) \<Rightarrow> (nat \<Rightarrow> bool) \<Rightarrow> nat \<Rightarrow> bool option" where
  "note_loop policy verify late k =
     (if verify k = NoteValid then Some True
      else if verify k \<noteq> NoteEarly \<or> late k then Some (policy = NoteWarn)
      else note_loop policy verify late (Suc k))"

definition allowIncomingNote :: "note_env \<Rightarrow> nat \<Rightarrow> sip_message \<Rightarrow> bool option" where
  "allowIncomingNote e i msg =
     (if ne_policy e = NoteOff then Some True
      else case ne_verifier e of
        None \<Rightarrow> Some True
      | Some verify \<Rightarrow>
          if ExtensionHeader msg ''Note'' = [] then Some True
          else note_loop (ne_policy e) (\<lambda>k. verify i k msg) (ne_late e i) 0)"

subsection \<open>Dispatch\<close>

datatype sip_action =
    OnResponse sip_message | OnInvite sip_message | OnBye sip_message | OnMessage sip_message | OnInfo sip_message
  | OnSubscribe sip_message | SendReply sip_message | NoAction

definition dispatch :: "string \<Rightarrow> string \<Rightarrow> bool \<Rightarrow> sip_message \<Rightarrow> sip_action" where
  "dispatch ua tag allowed msg =
     (if sip_StatusCode msg > 0 then OnResponse msg
      else if \<not> allowed then SendReply (BuildStatusResponse ua tag msg 403)
      else if sip_Method msg = ''INVITE'' then OnInvite msg
      else if sip_Method msg = ''BYE'' then OnBye msg
      else if sip_Method msg = ''MESSAGE'' then OnMessage msg
      else if sip_Method msg = ''ACK'' then NoAction
      else if sip_Method msg = ''INFO'' then OnInfo msg
      else if sip_Method msg = ''CANCEL'' then SendReply (Build200OK ua tag msg [] [])
      else if sip_Method msg = ''SUBSCRIBE'' then OnSubscribe msg
      else if sip_Method msg = ''NOTIFY'' \<or> sip_Method msg = ''OPTIONS'' then SendReply (Build200OK ua tag msg [] [])
      else NoAction)"

text \<open>The verification of a signed request runs for requests only.\<close>

definition handle_message :: "note_env \<Rightarrow> string \<Rightarrow> string \<Rightarrow> nat \<Rightarrow> sip_message \<Rightarrow> sip_action option" where
  "handle_message e ua tag i msg =
     (if sip_StatusCode msg > 0 then Some (dispatch ua tag True msg)
      else map_option (\<lambda>allowed. dispatch ua tag allowed msg) (allowIncomingNote e i msg))"

record stream_env =
  se_note :: note_env
  se_UserAgent :: string
  se_dialogTag :: string
  se_done :: "nat \<Rightarrow> bool"  \<comment> \<open>whether the context is done when it is polled for the \<open>i\<close>-th message\<close>
  se_limit :: int

text \<open>The loop of a connection: what it hands to the handlers until it returns.\<close>

partial_function (option) readSIPStream :: "stream_env \<Rightarrow> nat \<Rightarrow> observed list \<Rightarrow> sip_action list option" where
  "readSIPStream e i r =
     (if se_done e i then Some []
      else case read_frame (se_limit e) r of
        None \<Rightarrow> None
      | Some FrameDrop \<Rightarrow> Some []
      | Some (Frame fullMsg r') \<Rightarrow>
          (case Parse fullMsg of
             Inl err \<Rightarrow> readSIPStream e (Suc i) r'
           | Inr msg \<Rightarrow>
               (case handle_message (se_note e) (se_UserAgent e) (se_dialogTag e) i msg of
                  None \<Rightarrow> None
                | Some a \<Rightarrow> Option.bind (readSIPStream e (Suc i) r') (\<lambda>as. Some (a # as)))))"

subsection \<open>Reading what was written\<close>

lemma ReadString_bytes:
  assumes "CHR 0x0A \<notin> set l"
  shows "ReadString (map Byte l @ r) acc = ReadString r (acc @ l)"
  using assms by (induction l arbitrary: acc) auto

lemma ReadFull_bytes: "ReadFull (length b) (map Byte b @ r) = Some (b, r)"
  by (induction b) simp_all

text \<open>A line that ends before its line break and fits the reader.\<close>

definition stream_line :: "string \<Rightarrow> bool" where
  "stream_line l \<longleftrightarrow> l \<noteq> [] \<and> CHR 0x0A \<notin> set l \<and> CHR 0x0D \<notin> set l"

definition lines_size :: "string list \<Rightarrow> int" where
  "lines_size ls = (\<Sum>l \<leftarrow> ls. int (length l) + 2)"

lemma lines_size_simps [simp]:
  "lines_size [] = 0" "lines_size (l # ls) = int (length l) + 2 + lines_size ls" "lines_size (ls @ ms) = lines_size ls + lines_size ms"
  by (simp_all add: lines_size_def)

lemma lines_size_nonneg: "0 \<le> lines_size ls"
  by (induction ls) simp_all

lemma TrimRight_crlf:
  assumes "CHR 0x0D \<notin> set l" and "CHR 0x0A \<notin> set l"
  shows "TrimRight (l @ [CHR 0x0D, CHR 0x0A]) crlf = l"
proof -
  have "TrimRight ((l @ [CHR 0x0D]) @ [CHR 0x0A]) crlf = TrimRight l crlf"
    by (simp only: TrimRight_snoc crlf_def list.set insert_iff simp_thms)
  moreover have "TrimRight l crlf = l" by (rule TrimRight_id) (use assms in \<open>cases l rule: rev_cases; auto simp: crlf_def\<close>)
  ultimately show ?thesis by simp
qed

lemma ReadString_line:
  assumes "CHR 0x0D \<notin> set l" and "CHR 0x0A \<notin> set l"
  shows "ReadString (map Byte (l @ crlf @ s) @ r) [] = Line (l @ [CHR 0x0D, CHR 0x0A]) (map Byte s @ r)"
  using ReadString_bytes [OF assms(2), of "map Byte (crlf @ s) @ r" "[]"] by (simp add: crlf_def)

lemma readHeaders_line:
  assumes "stream_line l" and "0 < limit \<longrightarrow> hb + int (length l) + 2 \<le> limit"
  shows "readHeaders limit False (map Byte (l @ crlf @ s) @ r) hs hb n
    = readHeaders limit False (map Byte s @ r) (hs @ [l]) (hb + int (length l) + 2) (declared_length l n)"
  using assms ReadString_line [of l s r] TrimRight_crlf [of l]
  by (cases "0 < limit"; subst readHeaders.simps) (simp_all add: stream_line_def)

lemma readHeaders_lines:
  assumes "\<forall>l \<in> set ls. stream_line l" and "0 < limit \<longrightarrow> hb + lines_size ls \<le> limit"
  shows "readHeaders limit False (map Byte (crlf_lines ls @ s) @ r) hs hb n
    = readHeaders limit False (map Byte s @ r) (hs @ ls) (hb + lines_size ls) (fold declared_length ls n)"
  using assms
proof (induction ls arbitrary: hs hb n)
  case (Cons l ls)
  have "readHeaders limit False (map Byte (l @ crlf @ crlf_lines ls @ s) @ r) hs hb n
      = readHeaders limit False (map Byte (crlf_lines ls @ s) @ r) (hs @ [l]) (hb + int (length l) + 2) (declared_length l n)"
    using Cons.prems lines_size_nonneg [of ls] by (intro readHeaders_line) auto
  then show ?case using Cons.prems Cons.IH [of "hb + int (length l) + 2" "hs @ [l]" "declared_length l n"] by (simp add: algebra_simps)
qed simp

lemma readHeaders_end:
  assumes "0 < limit \<longrightarrow> hb + 2 \<le> limit"
  shows "readHeaders limit False (map Byte (crlf @ s) @ r) hs hb n = Some (HeaderSection (hs @ [[]]) n (map Byte s @ r))"
  using assms ReadString_line [of "[]" s r] TrimRight_crlf [of "[]"] by (cases "0 < limit"; subst readHeaders.simps) simp_all

lemma declared_own:
  assumes "0 \<le> k" and "k < 2 ^ 63"
  shows "declared_length (''Content-Length: '' @ go_itoa k) n = k"
proof -
  have "trim_stable (go_itoa k)" using token_stable [OF nat_text_token] assms by (simp add: go_itoa_def)
  then have "go_atoi (TrimSpace (CHR '' '' # go_itoa k)) = Some k" using go_atoi_itoa [of k] assms by (simp add: TrimSpace_space)
  moreover have "SplitN 2 (''Content-Length: '' @ go_itoa k) '':'' = [''Content-Length'', CHR '' '' # go_itoa k]"
    using split_header [of "''Content-Length''" "CHR '' '' # go_itoa k"] by simp
  moreover have "HasPrefix (ToLower (''Content-Length: '' @ go_itoa k)) ''content-length:''"
    by (simp add: lower_char_def char_of_def bit_Suc_0_iff)
  ultimately show ?thesis unfolding declared_length_def by simp
qed

text \<open>A message that declares the length of its body, with fields on one line each, within the limit.\<close>

definition stream_wf :: "int \<Rightarrow> sip_message \<Rightarrow> bool" where
  "stream_wf limit m \<longleftrightarrow> sip_wf m \<and> list_all (\<lambda>l. CHR 0x0A \<notin> set l) (sip_lines m) \<and> body_length m = int (length (sip_Body m))
     \<and> (0 < limit \<longrightarrow> lines_size (sip_lines m) \<le> limit \<and> body_length m \<le> limit)"

lemma Join_crlf: "ls \<noteq> [] \<Longrightarrow> Join ls crlf @ crlf = crlf_lines ls"
proof (induction ls)
  case (Cons l ls)
  then show ?case by (cases "ls = []") (simp_all add: Join_Cons)
qed simp

lemma hdr_ne: "l \<in> set (hdr k v) \<Longrightarrow> l \<noteq> []"
  by (auto simp: hdr_def split: if_splits)

lemma sip_lines_ne: "l \<in> set (butlast (sip_lines m)) \<Longrightarrow> l \<noteq> []"
  by (auto simp: sip_lines_def std_lines_def start_line_def butlast_append dest!: hdr_ne split: if_splits)

lemma sip_lines_split: "sip_lines m = butlast (sip_lines m) @ [[]]"
  by (simp add: sip_lines_def butlast_append)

lemma declared_last:
  assumes "0 \<le> body_length m" and "body_length m < 2 ^ 63"
  shows "fold declared_length (butlast (sip_lines m)) n = body_length m"
  using declared_own [OF assms] by (simp add: sip_lines_def butlast_append)

lemma frame_serialized:
  assumes "stream_wf limit m"
  shows "read_frame limit (map Byte (Serialize m @ s) @ r) = Some (Frame (Serialize m) (map Byte s @ r))"
proof -
  define ls where "ls = butlast (sip_lines m)"
  have w: "sip_wf m" "list_all (\<lambda>l. CHR 0x0A \<notin> set l) (sip_lines m)" "body_length m = int (length (sip_Body m))"
    "0 < limit \<longrightarrow> lines_size (sip_lines m) \<le> limit \<and> body_length m \<le> limit" using assms unfolding stream_wf_def by iprover+
  have sl: "sip_lines m = ls @ [[]]" unfolding ls_def by (rule sip_lines_split)
  have "stream_line l" if "l \<in> set ls" for l
    using that sip_lines_ne [of l m] sip_line_breaks [OF w(1), of l] w(2) in_set_butlastD [of l "sip_lines m"]
    by (simp add: stream_line_def ls_def list_all_iff)
  moreover have "fold declared_length ls 0 = body_length m" unfolding ls_def using w(1) by (intro declared_last) (simp_all add: sip_wf_def)
  ultimately have hd: "readHeaders limit False (map Byte (crlf_lines ls @ crlf @ t) @ r) [] 0 0
      = Some (HeaderSection (ls @ [[]]) (body_length m) (map Byte t @ r))" for t
    using readHeaders_lines [of ls limit 0 "crlf @ t" r "[]" 0] readHeaders_end [of limit "lines_size ls" t r ls "body_length m"] w(4) sl
    by (auto simp del: map_append)
  have "Serialize m @ s = crlf_lines ls @ crlf @ sip_Body m @ s" by (simp add: Serialize_def sl)
  then have "readHeaders limit False (map Byte (Serialize m @ s) @ r) [] 0 0
      = Some (HeaderSection (ls @ [[]]) (body_length m) (map Byte (sip_Body m @ s) @ r))" using hd [of "sip_Body m @ s"] by simp
  moreover have "Join (ls @ [[]]) crlf @ crlf @ sip_Body m = Serialize m" using Join_crlf [of "ls @ [[]]"] by (simp add: Serialize_def sl)
  ultimately show ?thesis using w(3,4) ReadFull_bytes [of "sip_Body m" "map Byte s @ r"]
    by (cases "sip_Body m = []") (auto simp: read_frame_def Let_def)
qed

subsection \<open>Termination\<close>

lemma ReadString_shorter: "ReadString r acc = Line l r' \<Longrightarrow> length r' < length r \<and> set r' \<subseteq> set r"
  by (induction r acc rule: ReadString.induct) (auto split: if_splits)

lemma ReadString_in_time: "DeadlinePassed \<notin> set r \<Longrightarrow> ReadString r acc \<noteq> LineTimeout r'"
  by (induction r acc rule: ReadString.induct) auto

lemma ReadFull_subset: "ReadFull n r = Some (b, r') \<Longrightarrow> length r' \<le> length r \<and> set r' \<subseteq> set r \<and> length b = n"
  by (induction n r arbitrary: b r' rule: ReadFull.induct) fastforce+

lemma readHeaders_returns:
  assumes "DeadlinePassed \<notin> set r"
  shows "\<exists>h. readHeaders limit False r hs hb n = Some h
    \<and> (\<forall>hs' k r'. h = HeaderSection hs' k r' \<longrightarrow> length r' < length r \<and> set r' \<subseteq> set r)"
  using assms
proof (induction "length r" arbitrary: r hs hb n rule: less_induct)
  case less
  show ?case
  proof (cases "ReadString r []")
    case (Line l r')
    then have r': "length r' < length r" "set r' \<subseteq> set r" using ReadString_shorter by blast+
    then obtain h where "readHeaders limit False r' (hs @ [TrimRight l crlf]) (hb + int (length (TrimRight l crlf)) + 2)
        (declared_length (TrimRight l crlf) n) = Some h"
      "\<forall>hs' k r''. h = HeaderSection hs' k r'' \<longrightarrow> length r'' < length r' \<and> set r'' \<subseteq> set r'"
      using less.hyps [OF r'(1)] less.prems by blast
    then show ?thesis using Line r' by (subst readHeaders.simps) fastforce
  next
    case (LineTimeout r')
    then show ?thesis using ReadString_in_time [OF less.prems] by blast
  next
    case LineFailed
    then show ?thesis by (subst readHeaders.simps) simp
  qed
qed

lemma read_frame_returns:
  assumes "DeadlinePassed \<notin> set r"
  shows "\<exists>f. read_frame limit r = Some f \<and> (\<forall>d r'. f = Frame d r' \<longrightarrow> length r' < length r \<and> set r' \<subseteq> set r)"
proof -
  obtain h where h: "readHeaders limit False r [] 0 0 = Some h"
    "\<forall>hs' k r'. h = HeaderSection hs' k r' \<longrightarrow> length r' < length r \<and> set r' \<subseteq> set r"
    using readHeaders_returns [OF assms] by blast
  show ?thesis
  proof (cases h)
    case (HeaderSection hs n r')
    have "length r'' < length r \<and> set r'' \<subseteq> set r" if "ReadFull (nat n) r' = Some (b, r'')" for b r''
      using ReadFull_subset [OF that] h(2) HeaderSection by fastforce
    then show ?thesis using h HeaderSection by (auto simp: read_frame_def Let_def split: option.splits)
  qed (simp add: read_frame_def h(1))
qed

lemma note_loop_returns:
  assumes "late k"
  shows "\<exists>b. note_loop policy verify late (k - j) = Some b"
proof (induction j)
  case (Suc j)
  show ?case
  proof (cases "j < k")
    case True
    then have "Suc (k - Suc j) = k - j" by simp
    then show ?thesis using Suc by (subst note_loop.simps) auto
  qed (use Suc in simp)
qed (use assms in \<open>subst note_loop.simps; auto\<close>)

text \<open>The second a verification waits for a handshake passes.\<close>

definition clock_runs :: "note_env \<Rightarrow> bool" where
  "clock_runs e \<longleftrightarrow> (\<forall>i. \<exists>k. ne_late e i k)"

lemma handle_message_returns:
  assumes "clock_runs e"
  shows "\<exists>a. handle_message e ua tag i m = Some a"
proof -
  obtain k where k: "ne_late e i k" using assms by (auto simp: clock_runs_def)
  have "\<exists>b. note_loop (ne_policy e) v (ne_late e i) 0 = Some b" for v
    using note_loop_returns [of "ne_late e i" k "ne_policy e" v k, OF k] by simp
  then show ?thesis by (fastforce simp: handle_message_def allowIncomingNote_def split: option.splits)
qed

lemma stream_returns:
  assumes "DeadlinePassed \<notin> set r" and "clock_runs (se_note e)"
  shows "\<exists>as. readSIPStream e i r = Some as"
  using assms(1)
proof (induction "length r" arbitrary: r i rule: less_induct)
  case less
  obtain f where f: "read_frame (se_limit e) r = Some f" "\<forall>d r'. f = Frame d r' \<longrightarrow> length r' < length r \<and> set r' \<subseteq> set r"
    using read_frame_returns [OF less.prems] by blast
  show ?case
  proof (cases f)
    case (Frame d r')
    then obtain as where as: "readSIPStream e (Suc i) r' = Some as" using f(2) less.hyps less.prems by blast
    show ?thesis
    proof (cases "Parse d")
      case (Inr m)
      obtain a where "handle_message (se_note e) (se_UserAgent e) (se_dialogTag e) i m = Some a"
        using handle_message_returns [OF assms(2)] by blast
      then show ?thesis using f(1) Frame as Inr by (subst readSIPStream.simps) simp
    qed (use f(1) Frame as in \<open>subst readSIPStream.simps; simp\<close>)
  qed (use f(1) in \<open>subst readSIPStream.simps; simp\<close>)
qed

text \<open>After the deadline of a message without a header line the loop goes round for ever.\<close>

lemma readHeaders_spins: "readHeaders limit True r [] hb n = None"
proof -
  have "\<not> (passed \<and> hs = [])" if "readHeaders limit passed r hs hb n = Some h" for passed r hs hb n h
    using that
  proof (rule readHeaders.raw_induct [where P = "\<lambda>limit passed r hs hb n h. \<not> (passed \<and> hs = [])", rotated])
    fix f limit passed r hs hb n h
    assume ih: "\<And>limit passed r hs hb n h. f limit passed r hs hb n = Some h \<Longrightarrow> \<not> (passed \<and> hs = [])"
      and body: "(case (if passed then LineTimeout r else ReadString r []) of
        LineFailed \<Rightarrow> Some HeaderDrop
      | LineTimeout r' \<Rightarrow> if hs = [] then f limit True r' hs hb n else Some HeaderDrop
      | Line l r' \<Rightarrow>
          if 0 < limit \<and> limit < hb + int (length (TrimRight l crlf)) + 2 then Some HeaderDrop
          else if TrimRight l crlf = [] then Some (HeaderSection (hs @ [TrimRight l crlf]) n r')
          else f limit False r' (hs @ [TrimRight l crlf]) (hb + int (length (TrimRight l crlf)) + 2)
                 (declared_length (TrimRight l crlf) n)) = Some h"
    show "\<not> (passed \<and> hs = [])"
    proof
      assume "passed \<and> hs = []"
      then show False using body ih [of limit True r "[]" hb n h] by simp
    qed
  qed
  from this [of True r "[]" hb n] show ?thesis by fastforce
qed

lemma frame_spins:
  assumes "CHR 0x0A \<notin> set p"
  shows "read_frame limit (map Byte p @ DeadlinePassed # r) = None"
proof -
  have "readHeaders limit False (map Byte p @ DeadlinePassed # r) [] 0 0 = None"
    using ReadString_bytes [OF assms, of "DeadlinePassed # r" "[]"] readHeaders_spins by (subst readHeaders.simps) simp
  then show ?thesis by (simp add: read_frame_def)
qed

subsection \<open>The connection\<close>

lemma stream_step:
  assumes "stream_wf (se_limit e) m" and "\<not> se_done e i"
    and "handle_message (se_note e) (se_UserAgent e) (se_dialogTag e) i (sip_received m) = Some a"
  shows "readSIPStream e i (map Byte (Serialize m @ s) @ r) = Option.bind (readSIPStream e (Suc i) (map Byte s @ r)) (\<lambda>as. Some (a # as))"
proof -
  have "Parse (Serialize m) = Inr (sip_received m)" using assms(1) by (intro sip_wire) (simp add: stream_wf_def)
  then show ?thesis using assms(2,3) frame_serialized [OF assms(1), of s r] by (subst readSIPStream.simps) (simp del: map_append)
qed

lemma stream_messages:
  assumes "\<forall>m \<in> set ms. stream_wf (se_limit e) m" and "\<forall>j < length ms. \<not> se_done e (i + j)" and "clock_runs (se_note e)"
  shows "\<exists>as. length as = length ms
    \<and> (\<forall>j < length ms. handle_message (se_note e) (se_UserAgent e) (se_dialogTag e) (i + j) (sip_received (ms ! j)) = Some (as ! j))
    \<and> (\<forall>s r. readSIPStream e i (map Byte (concat (map Serialize ms) @ s) @ r)
          = Option.bind (readSIPStream e (i + length ms) (map Byte s @ r)) (\<lambda>bs. Some (as @ bs)))"
  using assms(1,2)
proof (induction ms arbitrary: i)
  case (Cons m ms)
  obtain a where a: "handle_message (se_note e) (se_UserAgent e) (se_dialogTag e) i (sip_received m) = Some a"
    using handle_message_returns [OF assms(3)] by blast
  have "\<forall>j < length ms. \<not> se_done e (Suc i + j)" using Cons.prems(2) by (metis Suc_less_eq add_Suc_shift length_Cons)
  then obtain as where as: "length as = length ms"
    "\<forall>j < length ms. handle_message (se_note e) (se_UserAgent e) (se_dialogTag e) (Suc i + j) (sip_received (ms ! j)) = Some (as ! j)"
    "\<forall>s r. readSIPStream e (Suc i) (map Byte (concat (map Serialize ms) @ s) @ r)
        = Option.bind (readSIPStream e (Suc i + length ms) (map Byte s @ r)) (\<lambda>bs. Some (as @ bs))"
    using Cons.IH [of "Suc i"] Cons.prems(1) by auto
  have "\<not> se_done e i" using Cons.prems(2) by fastforce
  then have "readSIPStream e i (map Byte (concat (map Serialize (m # ms)) @ s) @ r)
      = Option.bind (readSIPStream e (i + length (m # ms)) (map Byte s @ r)) (\<lambda>bs. Some ((a # as) @ bs))" for s r
    using stream_step [of e m i a "concat (map Serialize ms) @ s" r] Cons.prems(1) a as(3)
    by (simp del: map_append)
  moreover have "handle_message (se_note e) (se_UserAgent e) (se_dialogTag e) (i + j) (sip_received ((m # ms) ! j)) = Some ((a # as) ! j)"
    if "j < length (m # ms)" for j
    using that a as(2) by (cases j) auto
  ultimately show ?case using as(1) by (intro exI [of _ "a # as"]) (simp del: map_append)
qed (simp add: bind_eq_None_conv split: bind_split)

lemma stream_closed: "readSIPStream e i [] = Some []"
proof -
  have "readHeaders limit False [] [] 0 0 = Some HeaderDrop" for limit by (subst readHeaders.simps) simp
  then show ?thesis by (subst readSIPStream.simps) (simp add: read_frame_def)
qed

text \<open>
  C35: A stream is read back message by message. However the bytes of well-formed messages within the limit
  arrive, one after the other on a connection, the reader finds the boundaries (bodies with line breaks and
  empty lines included), parses each to the message that was written, hands each to the handler of its
  kind in the order of the stream and returns when the connection is closed; no message is lost, split,
  merged or handled twice.
\<close>

theorem stream_framed:
  assumes "\<forall>m \<in> set ms. stream_wf (se_limit e) m" and "\<forall>j < length ms. \<not> se_done e (i + j)" and "clock_runs (se_note e)"
  shows "\<exists>as. readSIPStream e i (map Byte (concat (map Serialize ms))) = Some as \<and> length as = length ms
    \<and> (\<forall>j < length ms. handle_message (se_note e) (se_UserAgent e) (se_dialogTag e) (i + j) (sip_received (ms ! j)) = Some (as ! j))"
proof -
  obtain as where "length as = length ms"
    "\<forall>j < length ms. handle_message (se_note e) (se_UserAgent e) (se_dialogTag e) (i + j) (sip_received (ms ! j)) = Some (as ! j)"
    "readSIPStream e i (map Byte (concat (map Serialize ms) @ []) @ []) = Option.bind (readSIPStream e (i + length ms) (map Byte [] @ [])) (\<lambda>bs. Some (as @ bs))"
    using stream_messages [OF assms] by blast
  then show ?thesis by (simp add: stream_closed)
qed

definition plain_stream :: stream_env where
  "plain_stream = \<lparr>se_note = \<lparr>ne_policy = NoteReject, ne_verifier = None, ne_late = \<lambda>_ k. k = 100\<rparr>, se_UserAgent = ''GB28181-Go/1.0'',
     se_dialogTag = ''deadbeef'', se_done = \<lambda>_. False, se_limit = sipMessageLimit 0\<rparr>"

definition sample_bye :: sip_message where
  "sample_bye = empty_sip\<lparr>sip_Method := ''BYE'', sip_RequestURI := ''sip:1@3402'', sip_CSeq := ''3 BYE''\<rparr>"

lemma sample_stream_wf: "stream_wf (2 ^ 20) sample_notify" "stream_wf (2 ^ 20) sample_bye"
  by code_simp+

lemma plain_clock: "clock_runs (se_note plain_stream)"
  by (simp add: plain_stream_def clock_runs_def)

theorem stream_framed_witness:
  "\<exists>as. readSIPStream plain_stream 0 (map Byte (concat (map Serialize [sample_notify, sample_bye]))) = Some as
     \<and> as = [SendReply (Build200OK ''GB28181-Go/1.0'' ''deadbeef'' (sip_received sample_notify) [] []), OnBye (sip_received sample_bye)]"
proof -
  have "\<forall>m \<in> set [sample_notify, sample_bye]. stream_wf (se_limit plain_stream) m"
    using sample_stream_wf by (simp add: plain_stream_def sipMessageLimit_def defaultMaxSIPMessageSize_def)
  then obtain as where as: "readSIPStream plain_stream 0 (map Byte (concat (map Serialize [sample_notify, sample_bye]))) = Some as" "length as = 2"
    "\<forall>j < 2. handle_message (se_note plain_stream) (se_UserAgent plain_stream) (se_dialogTag plain_stream) (0 + j)
        (sip_received ([sample_notify, sample_bye] ! j)) = Some (as ! j)"
    using stream_framed [of "[sample_notify, sample_bye]" plain_stream 0] plain_clock
    by (auto simp: plain_stream_def numeral_2_eq_2)
  have "as ! 0 = SendReply (Build200OK ''GB28181-Go/1.0'' ''deadbeef'' (sip_received sample_notify) [] [])"
    using as(3) [rule_format, of 0]
    by (simp add: handle_message_def allowIncomingNote_def plain_stream_def dispatch_def sip_received_def sample_notify_def empty_sip_def)
  moreover have "as ! 1 = OnBye (sip_received sample_bye)"
    using as(3) [rule_format, of 1]
    by (simp add: handle_message_def allowIncomingNote_def plain_stream_def dispatch_def sip_received_def sample_bye_def empty_sip_def)
  moreover have "as = [as ! 0, as ! 1]" using as(2) by (cases as; cases "tl as") auto
  ultimately show ?thesis using as(1) by metis
qed



subsection \<open>The bound of a message\<close>

lemma readHeaders_bound:
  assumes "readHeaders limit passed r hs hb n = Some h"
  shows "0 < limit \<longrightarrow> lines_size hs = hb \<longrightarrow> (\<forall>hs' k r'. h = HeaderSection hs' k r' \<longrightarrow> hs' \<noteq> [] \<and> lines_size hs' \<le> limit)"
  using assms
proof (rule readHeaders.raw_induct [where P = "\<lambda>limit passed r hs hb n h. 0 < limit \<longrightarrow> lines_size hs = hb
    \<longrightarrow> (\<forall>hs' k r'. h = HeaderSection hs' k r' \<longrightarrow> hs' \<noteq> [] \<and> lines_size hs' \<le> limit)", rotated])
  fix f limit passed r hs hb n h
  assume ih: "\<And>limit passed r hs hb n h. f limit passed r hs hb n = Some h \<Longrightarrow> 0 < limit \<longrightarrow> lines_size hs = hb
      \<longrightarrow> (\<forall>hs' k r'. h = HeaderSection hs' k r' \<longrightarrow> hs' \<noteq> [] \<and> lines_size hs' \<le> limit)"
    and body: "(case (if passed then LineTimeout r else ReadString r []) of
        LineFailed \<Rightarrow> Some HeaderDrop
      | LineTimeout r' \<Rightarrow> if hs = [] then f limit True r' hs hb n else Some HeaderDrop
      | Line l r' \<Rightarrow>
          if 0 < limit \<and> limit < hb + int (length (TrimRight l crlf)) + 2 then Some HeaderDrop
          else if TrimRight l crlf = [] then Some (HeaderSection (hs @ [TrimRight l crlf]) n r')
          else f limit False r' (hs @ [TrimRight l crlf]) (hb + int (length (TrimRight l crlf)) + 2)
                 (declared_length (TrimRight l crlf) n)) = Some h"
  show "0 < limit \<longrightarrow> lines_size hs = hb \<longrightarrow> (\<forall>hs' k r'. h = HeaderSection hs' k r' \<longrightarrow> hs' \<noteq> [] \<and> lines_size hs' \<le> limit)"
  proof (cases "if passed then LineTimeout r else ReadString r []")
    case (Line l r')
    then show ?thesis
      using body ih [of limit False r' "hs @ [TrimRight l crlf]" "hb + int (length (TrimRight l crlf)) + 2" "declared_length (TrimRight l crlf) n" h]
      by (auto split: if_splits)
  next
    case (LineTimeout r')
    then show ?thesis using body ih [of limit True r' hs hb n h] by (auto split: if_splits)
  qed (use body in auto)
qed

lemma crlf_lines_length: "int (length (crlf_lines ls)) = lines_size ls"
  by (induction ls) (simp_all add: crlf_def)

text \<open>
  C37: No frame outgrows its bound. Whatever a peer sends, headers without end or a forged length, what the
  reader puts together and parses is at most twice the configured limit long, the header section and the
  body at most the limit each.
\<close>

theorem frame_bounded:
  assumes "0 < limit" and "read_frame limit r = Some (Frame d r')"
  shows "\<exists>ls body. d = crlf_lines ls @ body \<and> int (length (crlf_lines ls)) \<le> limit \<and> int (length body) \<le> limit
    \<and> int (length d) \<le> 2 * limit"
proof -
  obtain hs n r1 where h: "readHeaders limit False r [] 0 0 = Some (HeaderSection hs n r1)"
    using assms(2) by (auto simp: read_frame_def split: option.splits header_read.splits)
  have b: "hs \<noteq> []" "lines_size hs \<le> limit" using readHeaders_bound [OF h] assms(1) by simp_all
  have "\<exists>body. d = crlf_lines hs @ body \<and> int (length body) \<le> limit"
  proof (cases "n > 0")
    case True
    then obtain b where "ReadFull (nat n) r1 = Some (b, r')" "d = crlf_lines hs @ b" "n \<le> limit"
      using assms h Join_crlf [OF b(1)] by (auto simp: read_frame_def Let_def split: if_splits option.splits)
    then show ?thesis using ReadFull_subset True by (intro exI [of _ b]) auto
  next
    case False
    then show ?thesis using assms h Join_crlf [OF b(1)] by (auto simp: read_frame_def Let_def)
  qed
  then obtain body where "d = crlf_lines hs @ body" "int (length body) \<le> limit" by blast
  then show ?thesis using b(2) crlf_lines_length [of hs] by (intro exI [of _ hs] exI [of _ body]) simp
qed

text \<open>The limit itself is not a bound of the message: this one is longer than 70 bytes and is read under that limit.\<close>

definition long_bye :: sip_message where
  "long_bye = sample_bye\<lparr>sip_Body := replicate 60 (CHR ''a'')\<rparr>"

theorem frame_bounded_witness:
  "read_frame 70 (map Byte (Serialize long_bye)) = Some (Frame (Serialize long_bye) []) \<and> 70 < length (Serialize long_bye)
     \<and> int (length (Serialize long_bye)) \<le> 140"
proof -
  have "stream_wf 70 long_bye" by code_simp
  then have f: "read_frame 70 (map Byte (Serialize long_bye)) = Some (Frame (Serialize long_bye) [])"
    using frame_serialized [of 70 long_bye "[]" "[]"] by simp
  moreover have "70 < length (Serialize long_bye)" by code_simp
  ultimately show ?thesis using frame_bounded [OF _ f] by auto
qed

end
