(* ===== verification/Spec2Isabelle.thy ===== *)
theory Spec2Isabelle
  imports Backoff Nal_Util Ps_Roundtrip Rtp_Session Rtp_Safety Port_Pool Frame_Hub Auth_Limiter Device_Ctl Device_Push Session_Mgr Digest Sip_Catalog Device_Media Device_Register Sip_Stream
begin

text \<open>
  A verification of \<open>gb28181-go\<close>, a Go implementation of GB/T 28181: cameras (\<open>src/device\<close>) register at a
  video platform (\<open>src/platform\<close>) over SIP, exchange MANSCDP control messages (\<open>src/manscdp\<close>) and stream MPEG-PS over
  RTP (\<open>src/psmux\<close>, \<open>src/nalutil\<close>). The theories follow the program from the byte formats up to the SIP server.

  \<^bold>\<open>How the parts interact.\<close> A device sends REGISTER with a digest; the SIP server of the platform admits it, keeps it in the
  registry, queries its catalog and merges the channels. An INVITE of the server takes a port from the pool, builds an SDP
  offer, starts an RTP receiver through the session manager and stores the dialog of the answer. The device
  multiplexes video and audio into PS packets and RTP bursts; the receiver orders them, the demuxer restores the access units
  and the frame hub hands them to consumers. Watchdogs, keepalives, alarms, BYE and INFO end or renew sessions.

  \<^bold>\<open>Conventions.\<close> Machine integers are words of their width, or integers with the wrap-around written out. A slice is a list; a read
  or slicing out of range, a nil call and a failed type assertion panic, which is \<open>None\<close> of the type \<open>'a go\<close>. Errors are
  values of a sum or option type. State is a record that is passed on, with one definition per method and the branches of the code in its
  order. Goroutines are entries of a task list or operations of a step relation; timers and clocks are
  arguments. Logging and metrics hooks are left out. Loops are structural or have a measure, so every function is total: no
  fuel is used. What is outside the sources (the SIP stack gosip, \<open>encoding/xml\<close>, charset decoders, sockets, the camera
  host, the device store, the authenticator) is an argument; the named hypotheses on it (\<open>xml_values\<close>, \<open>net_ready\<close>) state its documented behaviour.

  \<^bold>\<open>Theories.\<close>
  \<^item> \<open>Gb_Prelude\<close>, \<open>Go_Text\<close>, \<open>Go_Strings\<close>, \<open>Go_Hash\<close>: bytes, words, panicking reads, the parts of Go's \<open>strconv\<close>, \<open>strings\<close>, \<open>hex\<close>, \<open>fmt\<close>,
    \<open>net\<close>, MD5 and SHA-256 the program uses.
  \<^item> \<open>Backoff\<close> (\<open>src/backoff\<close>), \<open>Nal_Util\<close> (\<open>src/nalutil\<close>): retry waits, parameter sets and keyframes.
  \<^item> \<open>Ps_Mux\<close>, \<open>Rtp_Send\<close> (\<open>src/psmux\<close>): the PS multiplexer and the RTP packetizer.
  \<^item> \<open>Ps_Pes\<close>, \<open>Ps_Demux\<close>, \<open>Au_Split\<close>, \<open>Es_Demux\<close> (\<open>psdemux_pes.go\<close>, \<open>psdemux.go\<close>, \<open>au_split.go\<close>, \<open>esdemux.go\<close> of \<open>src/platform\<close>): the parsers and the stateful
    demuxer, which never panics and keeps its buffers bounded on any input, the splitter into frames and the depacketizers.
  \<^item> \<open>Ps_Roundtrip\<close>, \<open>Rtp_Session\<close>: multiplexer, packetizer, receiver and demuxer composed: what is written is delivered, in order and complete.
  \<^item> \<open>Rtp_Receiver\<close>, \<open>Rtp_Safety\<close> (\<open>rtp.go\<close>): the receiver with its jitter buffer, SSRC latch, decryption and verification hooks; no panic, bounded
    buffers, isolation of the latched source, draining at the marker, order of loss recovery.
  \<^item> \<open>Port_Pool\<close> (\<open>portmanager.go\<close>): the pool as a state machine of goroutines with compare-and-swap steps; the locale \<open>port_pool\<close> is its
    contract, interpreted on the code's pool as \<open>rtp_ports\<close>. \<open>Frame_Hub\<close> (\<open>framehub.go\<close>): bounded fan-out.
  \<^item> \<open>Registry\<close> (\<open>device.go\<close>, \<open>channel.go\<close>), \<open>Ptz\<close> (\<open>ptz.go\<close> of both sides), \<open>Device_Ctl\<close> (\<open>control.go\<close>), \<open>Auth_Limiter\<close> (\<open>sip/authlimiter.go\<close>).
  \<^item> \<open>Device_Ps\<close>, \<open>Device_Push\<close> (\<open>ps.go\<close>, \<open>rtp_pusher.go\<close> of \<open>src/device\<close>): the device's own multiplexer and pusher, read back by the platform.
  \<^item> \<open>Sdp\<close>, \<open>Session_Mgr\<close> (\<open>session.go\<close>): offers and answers, and the session manager with live, fetch and TCP sessions, its watchdog and
    teardown. In every reachable state the sessions own distinct ports and every port is owned or free.
  \<^item> \<open>Sip_Message\<close>, \<open>Digest\<close> (\<open>device/sip.go\<close>, \<open>device/device_id.go\<close>, \<open>device/digest.go\<close>): the device's SIP messages and digest, written and read back.
  \<^item> \<open>Sip_Config\<close> (\<open>config.go\<close>, \<open>validate.go\<close>, \<open>gbpath.go\<close> of \<open>src/platform/sip\<close>), \<open>Manscdp\<close> (\<open>codec.go\<close>, \<open>charset.go\<close>).
  \<^item> \<open>Sip_Server\<close>, \<open>Sip_Invite\<close>, \<open>Sip_Handlers\<close> (\<open>server.go\<close>, \<open>subscribe.go\<close>, \<open>alarm_linkage.go\<close> and parts of \<open>playback.go\<close>, \<open>talk.go\<close>): the state of
    the SIP server, REGISTER, INVITE and BYE, and the other requests and timers. \<open>Sip_Reach\<close>: the step
    relation of all of them with its invariant, and exactly which requests panic. \<open>Sip_Catalog\<close>: catalogs, keepalives and recording queries.
  \<^item> \<open>Device_Media\<close> (\<open>server.go\<close>, \<open>talkback.go\<close>, \<open>broadcast.go\<close> of \<open>src/device\<close>): the media slot of the device as a state machine of requests and goroutines: the
    offers of the platform are served, nothing is leaked in ordered histories, and the races that leak or panic.
  \<^item> \<open>Device_Register\<close> (\<open>server.go\<close>, \<open>validate.go\<close> of \<open>src/device\<close>): registration, de-registration, keepalive and refresh of the device, composed with the
    REGISTER handler of the platform.
  \<^item> \<open>Sip_Stream\<close> (\<open>sip_tcp.go\<close> of \<open>src/device\<close>): the framing of messages on a connection, the admission of signed requests and the dispatch: what was
    written is framed back, frames are bounded, when the reader returns and when it never does.
  \<^bold>\<open>What the lemmas show.\<close> Round trips of every wire format between the side that writes and the side that reads (PS, RTP, SDP, SIP, digest, PTZ,
  identifiers); safety of every parser on arbitrary bytes; invariants of the stateful parts by rule induction over their
  histories (pool, hub, registry, sessions, SIP server); refinement of the pool's contract; exact effects of REGISTER, INVITE, keepalive and
  catalog; and the defects found, each as a theorem about the model or a finding of the manifest.

  \<^bold>\<open>Not modelled.\<close> Socket and TLS plumbing (the listeners of \<open>device/sip_tcp.go\<close>, \<open>device/sip_tls.go\<close>, \<open>platform/udp_buffer*.go\<close>), the command line, metrics and
  mocks are I/O and glue. The GB35114 cryptography (\<open>src/security35114\<close>) rests on SM2, SM3 and SM4 libraries and enters as
  the authenticator, cryptor and verifier arguments. The cascade to an upper platform, voice talk and broadcast, the device's SIP server with its MANSCDP
  builders, and the snapshot, upgrade and segment helpers of the device are listed in the manifest with their reasons.
\<close>

end
